(* ===== verification/Prelude.thy ===== *)
theory Prelude
  imports Main "HOL-Library.Word" "HOL-Library.Monad_Syntax"
begin

unbundle bit_operations_syntax

text \<open>
  Shared vocabulary of the development: the fixed-width integer types of
  \<^verbatim>\<open>platform/common/inc/mxDef.h\<close>, bounds-checked access to C arrays, and the
  generic facts on lists and machine words that the components use.

  A C array is a list. A read or a write of a range is partial: \<^verbatim>\<open>None\<close> stands for an
  access outside the array, which C++ leaves undefined. Loops and operations that
  access memory therefore have an \<open>option\<close> type, and the functional theorems of a
  component state that the result is \<^verbatim>\<open>Some\<close>.
\<close>

section \<open>Integer types (mxDef.h)\<close>

type_synonym u8 = "8 word"
type_synonym u16 = "16 word"
type_synonym u32 = "32 word"
type_synonym s32 = "32 word"
type_synonym u64 = "64 word"

text \<open>
  \<^verbatim>\<open>chunk_t\<close>: a pointer and a length. Where a component only reads through the pointer,
  the pointer is the list of the bytes from the address it holds to the end of the object
  it points into; \<^verbatim>\<open>None\<close> is the null pointer.
\<close>

record chunk_t =
  ptr :: "u8 list option"
  len :: u32

definition chunk_mem :: "chunk_t \<Rightarrow> u8 list" where
  "chunk_mem c = (case ptr c of None \<Rightarrow> [] | Some bs \<Rightarrow> bs)"

definition chunk_of :: "u8 list \<Rightarrow> chunk_t" where
  "chunk_of bs = \<lparr>ptr = Some bs, len = of_nat (length bs)\<rparr>"

section \<open>Bounds-checked array access\<close>

definition buf_read :: "'a list \<Rightarrow> nat \<Rightarrow> nat \<Rightarrow> 'a list option" where
  "buf_read xs i n = (if i + n \<le> length xs then Some (take n (drop i xs)) else None)"

definition buf_write :: "'a list \<Rightarrow> nat \<Rightarrow> 'a list \<Rightarrow> 'a list option" where
  "buf_write xs i ys =
     (if i + length ys \<le> length xs then Some (take i xs @ ys @ drop (i + length ys) xs) else None)"

lemma buf_read_Some [simp]: "i + n \<le> length xs \<Longrightarrow> buf_read xs i n = Some (take n (drop i xs))"
  by (simp add: buf_read_def)

lemma buf_write_Some [simp]:
  "i + length ys \<le> length xs \<Longrightarrow> buf_write xs i ys = Some (take i xs @ ys @ drop (i + length ys) xs)"
  by (simp add: buf_write_def)

lemma buf_write_length: "buf_write xs i ys = Some zs \<Longrightarrow> length zs = length xs"
  by (auto simp: buf_write_def split: if_splits)

section \<open>Cutting a list into blocks\<close>

fun blocks :: "nat \<Rightarrow> 'a list \<Rightarrow> 'a list list" where
  "blocks n xs = (if n = 0 \<or> length xs < n then [] else take n xs # blocks n (drop n xs))"

declare blocks.simps [simp del]

lemma blocks_short [simp]: "length xs < n \<Longrightarrow> blocks n xs = []"
  by (simp add: blocks.simps)

lemma blocks_step: "0 < n \<Longrightarrow> n \<le> length xs \<Longrightarrow> blocks n xs = take n xs # blocks n (drop n xs)"
  by (subst blocks.simps) simp

lemma blocks_append_block:
  assumes "0 < n" "length ys = n"
  shows "blocks n (ys @ xs) = ys # blocks n xs"
  using assms by (simp add: blocks_step)

lemma blocks_single: "0 < n \<Longrightarrow> length ys = n \<Longrightarrow> blocks n ys = [ys]"
  using blocks_append_block [of n ys "[]"] by simp

lemma blocks_append:
  assumes "0 < n" "n dvd length xs"
  shows "blocks n (xs @ ys) = blocks n xs @ blocks n ys"
  using assms
proof (induction n xs rule: blocks.induct)
  case (1 n xs)
  show ?case
  proof (cases "length xs < n")
    case True
    with "1.prems" have "xs = []" by (metis dvd_imp_le length_0_conv length_greater_0_conv not_less)
    then show ?thesis using "1.prems" by simp
  next
    case False
    then have split: "blocks n xs = take n xs # blocks n (drop n xs)"
      using "1.prems" by (simp add: blocks_step)
    have "n dvd length (drop n xs)" using "1.prems" False by (simp add: dvd_diff_nat)
    then have IH: "blocks n (drop n xs @ ys) = blocks n (drop n xs) @ blocks n ys"
      using "1.IH" "1.prems" False by simp
    have "xs @ ys = take n xs @ (drop n xs @ ys)" by simp
    then have "blocks n (xs @ ys) = blocks n (take n xs @ (drop n xs @ ys))" by (rule arg_cong)
    also have "\<dots> = take n xs # blocks n (drop n xs @ ys)"
      using "1.prems" False by (intro blocks_append_block) simp_all
    finally show ?thesis using IH split by simp
  qed
qed

lemma blocks_length:
  "b \<in> set (blocks n xs) \<Longrightarrow> length b = n"
  by (induction n xs rule: blocks.induct) (subst (asm) blocks.simps, auto split: if_splits)

section \<open>Machine words\<close>

text \<open>The value a pair of counter words stands for, low word first.\<close>

definition wide_value :: "'w::len word \<Rightarrow> 'w word \<Rightarrow> nat" where
  "wide_value lo hi = unat lo + 2 ^ LENGTH('w) * unat hi"

lemma pow_split8: "3 \<le> w \<Longrightarrow> (2::nat) ^ w = 8 * 2 ^ (w - 3)"
  using power_add [of "2::nat" 3 "w - 3"] by simp

lemma word_less_overflow:
  fixes a p :: "'w::len word"
  shows "a + p < p \<longleftrightarrow> 2 ^ LENGTH('w) \<le> unat a + unat p"
proof -
  have "unat (a + p) = (unat a + unat p) mod 2 ^ LENGTH('w)"
    by (simp add: unat_word_ariths)
  moreover have "unat a < 2 ^ LENGTH('w)" "unat p < 2 ^ LENGTH('w)" by simp_all
  moreover from this have "\<not> unat a + unat p < 2 ^ LENGTH('w) \<Longrightarrow> unat a + unat p - 2 ^ LENGTH('w) < unat p"
    by linarith
  ultimately show ?thesis
    by (cases "unat a + unat p < 2 ^ LENGTH('w)")
       (simp_all add: word_less_nat_alt le_mod_geq)
qed

lemma unat_and_mask: "unat ((x :: 'w::len word) AND (2 ^ k - 1)) = unat x mod 2 ^ k"
proof -
  have "x AND (2 ^ k - 1) = take_bit k x"
    by (simp add: take_bit_eq_mask mask_eq_exp_minus_1)
  then have "unat (x AND (2 ^ k - 1)) = take_bit k (unat x)"
    by (simp add: unsigned_take_bit_eq)
  then show ?thesis by (simp only: take_bit_eq_mod)
qed

lemma unat_drop_bit: "unat (drop_bit n (x :: 'w::len word)) = unat x div 2 ^ n"
  by (simp add: unsigned_drop_bit_eq drop_bit_eq_div[symmetric] take_bit_nat_eq_self)

lemma unat_ucast_up: "unat (x :: 'a::len word) < 2 ^ LENGTH('b) \<Longrightarrow> unat (ucast x :: 'b::len word) = unat x"
  by (simp add: unsigned_ucast_eq take_bit_eq_mod)

lemma ucast_drop_bit_of_nat:
  assumes "n + 8 \<le> LENGTH('w::len)"
  shows "(ucast (drop_bit n (of_nat x :: 'w word)) :: u8) = of_nat (x div 2 ^ n)"
proof (rule bit_word_eqI)
  fix i assume "i < LENGTH(8)"
  then show "bit (ucast (drop_bit n (of_nat x :: 'w word)) :: u8) i \<longleftrightarrow> bit (of_nat (x div 2 ^ n) :: u8) i"
    using assms by (simp add: bit_simps drop_bit_eq_div [symmetric] possible_bit_def)
qed

lemma ucast_of_nat_u8:
  "8 \<le> LENGTH('w::len) \<Longrightarrow> (ucast (of_nat x :: 'w word) :: u8) = of_nat x"
  using ucast_drop_bit_of_nat [where 'w = 'w and n = 0] by simp

text \<open>Adding an offset permutes the residues.\<close>

lemma shift_mod_less:
  assumes "a < b" "b < (k :: nat)"
  shows "(a + n) mod k \<noteq> (b + n) mod k"
proof
  assume "(a + n) mod k = (b + n) mod k"
  then have "(b + n) mod k = (a + n) mod k" by simp
  then have "k dvd (b + n) - (a + n)" using assms by (subst (asm) mod_eq_dvd_iff_nat) simp_all
  then have "k dvd b - a" by simp
  then show False using assms by (auto dest: dvd_imp_le)
qed

lemma shift_mod_inj: "i < k \<Longrightarrow> j < k \<Longrightarrow> (i + n) mod k = (j + n) mod (k :: nat) \<longleftrightarrow> i = j"
  using shift_mod_less [of i j k n] shift_mod_less [of j i k n] by (cases i j rule: linorder_cases) auto

lemma window_mod_neq:
  assumes "s < t" "t < s + (k :: nat)"
  shows "t mod k \<noteq> s mod k"
proof
  assume "t mod k = s mod k"
  then have "k dvd t - s" using assms by (subst (asm) mod_eq_dvd_iff_nat) simp_all
  then show False using assms by (auto dest: dvd_imp_le)
qed

end
