(* ===== verification/MdHash.thy ===== *)
theory MdHash
  imports Prelude
begin

text \<open>
  The part the six hash classes of \<^verbatim>\<open>algorithms/hash/src\<close> share word for word
  (\<^verbatim>\<open>hashMd5.cpp\<close>, \<^verbatim>\<open>hashSha1.cpp\<close> and the four classes of \<^verbatim>\<open>hashSha2.cpp\<close>): the object
  state, the body of \<^verbatim>\<open>update...\<close>, the padding part of \<^verbatim>\<open>final...\<close> and \<^verbatim>\<open>calcHash\<close>. The bodies
  differ in the word type of \<^verbatim>\<open>mCount\<close> (32 bits with blocks of 64 bytes, 64 bits with
  blocks of 128 bytes) and in the transform; both are parameters here, and every class
  below instantiates them in its own definitions.

  The locale \<^verbatim>\<open>md_core\<close> is the contract between a transform and the buffering code; its
  lemmas say that the object, after any sequence of updates, represents the
  concatenation of the bytes it was given, and that \<^verbatim>\<open>final\<close> hashes the padded message.
\<close>

section \<open>Object state\<close>

record 'v md_ctx =
  mState :: "'v list"
  mCount0 :: 'v
  mCount1 :: 'v
  mBuffer :: "u8 list"

section \<open>Operations\<close>

text \<open>\<^verbatim>\<open>index = (u8_t)((mCount[0] >> 3) & 0x3F)\<close>, with \<^verbatim>\<open>0x7F\<close> for blocks of 128 bytes.\<close>

definition md_index :: "nat \<Rightarrow> 'w::len word md_ctx \<Rightarrow> u32" where
  "md_index blk c = ucast (ucast (drop_bit 3 (mCount0 c) AND of_nat (blk - 1)) :: u8)"

text \<open>
  \<^verbatim>\<open>for (i = partLen; i + 63 < len; i += 64) transform(&input[i])\<close>. All of \<^verbatim>\<open>i\<close>, \<^verbatim>\<open>len\<close> and
  the sum \<^verbatim>\<open>i + 63\<close> are \<^verbatim>\<open>u32_t\<close>, so the sum wraps around; a transform of a block that is not
  within the \<^verbatim>\<open>len\<close> bytes of the input is an access outside the buffer.
\<close>

function md_loop ::
  "nat \<Rightarrow> ('w::len word list \<Rightarrow> u8 list \<Rightarrow> 'w word list) \<Rightarrow> u8 list \<Rightarrow> u32 \<Rightarrow> 'w word list \<Rightarrow> u32
    \<Rightarrow> ('w word list \<times> u32) option" where
  "md_loop blk tr input n st i =
     (if i + of_nat (blk - 1) < n then
        if blk = 0 \<or> unat n < unat i + blk \<or> length input < unat i + blk then None
        else md_loop blk tr input n (tr st (take blk (drop (unat i) input))) (i + of_nat blk)
      else Some (st, i))"
  by pat_completeness auto
termination
proof (relation "measure (\<lambda>(blk, tr, input, n, st, i). unat n - unat i)", goal_cases)
  case (2 blk tr input n st i)
  have "unat n < 2 ^ 32" using unsigned_less [of n] by simp
  with 2 have "unat (i + of_nat blk) = unat i + blk"
    by (simp add: unat_word_ariths unat_of_nat)
  with 2 show ?case by (simp, linarith)
qed simp

declare md_loop.simps [simp del]

definition md_update ::
  "nat \<Rightarrow> ('w::len word list \<Rightarrow> u8 list \<Rightarrow> 'w word list) \<Rightarrow> 'w word md_ctx \<Rightarrow> u8 list \<Rightarrow> u32 \<Rightarrow> 'w word md_ctx option" where
  "md_update blk tr c input n =
     (let inputLen = (ucast n :: 'w word);
          index = md_index blk c;
          c0 = mCount0 c + push_bit 3 inputLen;
          carry = (if c0 < push_bit 3 inputLen then mCount1 c + 1 else mCount1 c);
          c1 = carry + drop_bit (LENGTH('w) - 3) inputLen;
          partLen = of_nat blk - index
      in if partLen \<le> n then
           do { part \<leftarrow> buf_read input 0 (unat partLen);
                buf \<leftarrow> buf_write (mBuffer c) (unat index) part;
                (st, i) \<leftarrow> md_loop blk tr input n (tr (mState c) buf) partLen;
                rest \<leftarrow> buf_read input (unat i) (unat (n - i));
                buf' \<leftarrow> buf_write buf 0 rest;
                Some \<lparr>mState = st, mCount0 = c0, mCount1 = c1, mBuffer = buf'\<rparr> }
         else
           do { rest \<leftarrow> buf_read input 0 (unat n);
                buf' \<leftarrow> buf_write (mBuffer c) (unat index) rest;
                Some \<lparr>mState = mState c, mCount0 = c0, mCount1 = c1, mBuffer = buf'\<rparr> })"

text \<open>
  The common part of \<^verbatim>\<open>final...\<close>: pad out to 56 (112) modulo the block length, then append
  the bit count. \<open>encbits\<close> is the class's byte order of the count.
\<close>

definition md_final ::
  "nat \<Rightarrow> nat \<Rightarrow> u8 list \<Rightarrow> ('w::len word \<Rightarrow> 'w word \<Rightarrow> u8 list)
    \<Rightarrow> ('w word list \<Rightarrow> u8 list \<Rightarrow> 'w word list) \<Rightarrow> 'w word md_ctx \<Rightarrow> 'w word md_ctx option" where
  "md_final blk padAt padding encbits tr c =
     (let bits = encbits (mCount0 c) (mCount1 c);
          index = md_index blk c;
          padLen = (if index < of_nat padAt then of_nat padAt - index else of_nat (padAt + blk) - index)
      in do { c1 \<leftarrow> md_update blk tr c padding padLen;
              md_update blk tr c1 bits (of_nat (length bits)) })"

text \<open>\<^verbatim>\<open>calcHash(chunk, pDigist)\<close>: the flag says whether \<^verbatim>\<open>pDigist\<close> is not null.\<close>

definition md_calc ::
  "('w::len word md_ctx \<Rightarrow> u8 list \<Rightarrow> u32 \<Rightarrow> 'w word md_ctx option) \<Rightarrow> ('w word md_ctx \<Rightarrow> ('w word md_ctx \<times> u8 list) option)
    \<Rightarrow> ('w word md_ctx \<Rightarrow> 'w word md_ctx) \<Rightarrow> 'w word md_ctx \<Rightarrow> chunk_t \<Rightarrow> bool \<Rightarrow> ('w word md_ctx \<times> u8 list option) option" where
  "md_calc upd fin ini c chunk digist =
     do { c1 \<leftarrow> upd c (chunk_mem chunk) (len chunk);
          if digist then do { (c2, d) \<leftarrow> fin c1; Some (ini c2, Some d) }
          else Some (c1, None) }"

section \<open>Specification: padded message, representation\<close>

definition be_bytes :: "nat \<Rightarrow> nat \<Rightarrow> u8 list" where
  "be_bytes n x = map (\<lambda>i. of_nat (x div 256 ^ (n - 1 - i))) [0..<n]"

definition le_bytes :: "nat \<Rightarrow> nat \<Rightarrow> u8 list" where
  "le_bytes n x = map (\<lambda>i. of_nat (x div 256 ^ i)) [0..<n]"

text \<open>
  The padded message of RFC 1321, 3174 and 4634: the bit 1, the fewest zero bits that make
  the length fit, and the bit length of the message in \<open>lb\<close> bytes (\<open>bytes\<close> gives the byte
  order).
\<close>

definition md_pad :: "nat \<Rightarrow> nat \<Rightarrow> (nat \<Rightarrow> nat \<Rightarrow> u8 list) \<Rightarrow> u8 list \<Rightarrow> u8 list" where
  "md_pad blk lb bytes m =
     m @ 0x80 # replicate ((2 * blk - 1 - lb - length m mod blk) mod blk) 0 @ bytes lb (8 * length m)"

definition md_digest_state ::
  "('w::len word list \<Rightarrow> u8 list \<Rightarrow> 'w word list) \<Rightarrow> 'w word list \<Rightarrow> nat \<Rightarrow> u8 list \<Rightarrow> 'w word list" where
  "md_digest_state tr iv blk m = foldl tr iv (blocks blk m)"

text \<open>The object represents the bytes \<open>m\<close> it has been given since \<^verbatim>\<open>initHash\<close>.\<close>

definition md_rep ::
  "('w::len word list \<Rightarrow> u8 list \<Rightarrow> 'w word list) \<Rightarrow> 'w word list \<Rightarrow> nat \<Rightarrow> 'w word md_ctx \<Rightarrow> u8 list \<Rightarrow> bool" where
  "md_rep tr iv blk c m \<longleftrightarrow>
     mState c = md_digest_state tr iv blk m \<and>
     length (mBuffer c) = blk \<and>
     take (length m mod blk) (mBuffer c) = drop (length m - length m mod blk) m \<and>
     mCount0 c = of_nat (8 * length m) \<and>
     mCount1 c = of_nat (8 * length m div 2 ^ LENGTH('w))"

section \<open>The buffering code keeps the representation\<close>

lemma md_digest_state_rem:
  assumes "0 < blk" "blk dvd length full" "length r < blk"
  shows "md_digest_state tr iv blk (full @ r) = md_digest_state tr iv blk full"
  using assms by (simp add: md_digest_state_def blocks_append)

lemma md_digest_state_block:
  assumes "0 < blk" "blk dvd length full" "length b = blk"
  shows "md_digest_state tr iv blk (full @ b @ xs)
    = foldl tr (tr (md_digest_state tr iv blk full) b) (blocks blk xs)"
  using assms by (simp add: md_digest_state_def blocks_append blocks_single)

lemma wide_count_add:
  fixes a n w :: nat
  assumes "3 \<le> w"
  shows "8 * (a + n) div 2 ^ w
    = 8 * a div 2 ^ w + n div 2 ^ (w - 3) + (if 2 ^ w \<le> 8 * a mod 2 ^ w + 8 * n mod 2 ^ w then 1 else 0)"
proof -
  have w: "(2::nat) ^ w = 8 * 2 ^ (w - 3)"
    using assms by (rule pow_split8)
  have n: "8 * n div 2 ^ w = n div 2 ^ (w - 3)" by (simp add: w)
  have "8 * (a + n) div 2 ^ w = 8 * a div 2 ^ w + 8 * n div 2 ^ w + (8 * a mod 2 ^ w + 8 * n mod 2 ^ w) div 2 ^ w"
    unfolding distrib_left by (rule div_add1_eq)
  moreover have "(8 * a mod 2 ^ w + 8 * n mod 2 ^ w) div 2 ^ w
      = (if 2 ^ w \<le> 8 * a mod 2 ^ w + 8 * n mod 2 ^ w then 1 else 0)"
  proof -
    have "8 * a mod 2 ^ w + 8 * n mod 2 ^ w < 2 ^ w + 2 ^ w"
      by (intro add_strict_mono) simp_all
    then show ?thesis by (auto intro!: div_nat_eqI)
  qed
  ultimately show ?thesis using n by simp
qed

lemma md_repI:
  assumes "length m mod blk = q" "st = md_digest_state tr iv blk m" "length buf = blk"
    "take q buf = drop (length m - q) m"
    "c0 = of_nat (8 * length m)" "c1 = of_nat (8 * length m div 2 ^ LENGTH('w))"
  shows "md_rep tr iv blk \<lparr>mState = st, mCount0 = c0, mCount1 = (c1 :: 'w::len word), mBuffer = buf\<rparr> m"
  unfolding md_rep_def assms(1) using assms(2-6) by (simp only: md_ctx.simps simp_thms)

locale md_core =
  fixes tr :: "'w::len word list \<Rightarrow> u8 list \<Rightarrow> 'w word list"
    and iv :: "'w word list"
    and blk k :: nat
  assumes blk_eq: "blk = 2 ^ k"
    and k7: "k \<le> 7"
    and kw: "k + 3 \<le> LENGTH('w)"
    and w32: "32 \<le> LENGTH('w)"
begin

lemma blk_pos [simp]: "0 < blk"
  by (simp add: blk_eq)

lemma blk_le: "blk \<le> 128"
proof -
  have "(2::nat) ^ k \<le> 2 ^ 7" using k7 by (intro power_increasing) simp_all
  then show ?thesis by (simp add: blk_eq)
qed

lemma unat_blk: "unat (of_nat blk :: u32) = blk"
  using blk_le by (simp add: unat_of_nat)

lemma rep_index:
  assumes "md_rep tr iv blk c m"
  shows "unat (md_index blk c) = length m mod blk"
proof -
  let ?l = "length m"
  have w: "(2::nat) ^ LENGTH('w) = 8 * 2 ^ (LENGTH('w) - 3)"
    using kw by (intro pow_split8) simp
  have "mCount0 c = of_nat (8 * ?l)"
    using assms by (simp only: md_rep_def)
  then have "unat (drop_bit 3 (mCount0 c)) = (8 * ?l mod 2 ^ LENGTH('w)) div 2 ^ 3"
    by (simp only: unat_drop_bit unat_of_nat)
  also have "\<dots> = ?l mod 2 ^ (LENGTH('w) - 3)" by (simp add: w)
  finally have d: "unat (drop_bit 3 (mCount0 c) AND (2 ^ k - 1)) = ?l mod blk"
    using kw by (simp add: blk_eq unat_and_mask mod_mod_cancel le_imp_power_dvd)
  have lt: "?l mod blk < 128" using blk_le mod_less_divisor [OF blk_pos, of ?l] by linarith
  have u8: "unat (ucast (drop_bit 3 (mCount0 c) AND (2 ^ k - 1)) :: u8) = ?l mod blk"
    using d lt by (subst unat_ucast_up) simp_all
  have m: "(of_nat (blk - 1) :: 'w word) = 2 ^ k - 1" by (simp add: blk_eq)
  show ?thesis
    unfolding md_index_def m using u8 lt by (subst unat_ucast_up) simp_all
qed

lemma loop_eq:
  assumes "unat i \<le> unat n" "unat n \<le> length input" "unat n + blk \<le> 2 ^ 32"
  shows "\<exists>j. md_loop blk tr input n st i
            = Some (foldl tr st (blocks blk (drop (unat i) (take (unat n) input))), j)
          \<and> unat j + (unat n - unat i) mod blk = unat n"
  using assms(1)
proof (induction "unat n - unat i" arbitrary: st i rule: less_induct)
  case less
  define d where "d = drop (unat i) (take (unat n) input)"
  have len_d: "length d = unat n - unat i" using assms(2) by (simp add: d_def)
  have "unat i + (blk - 1) < 2 ^ 32" using less.prems assms(3) blk_pos by (simp, linarith)
  then have "unat (i + of_nat (blk - 1)) = unat i + (blk - 1)"
    using blk_le by (subst unat_add_lem [THEN iffD1]) (simp_all add: unat_of_nat)
  then have cond: "i + of_nat (blk - 1) < n \<longleftrightarrow> unat i + blk \<le> unat n"
    unfolding word_less_nat_alt using blk_pos by linarith
  show ?case
  proof (cases "unat i + blk \<le> unat n")
    case False
    with less.prems len_d cond show ?thesis
      by (subst md_loop.simps) (simp add: d_def [symmetric])
  next
    case True
    moreover have "unat n < 2 ^ LENGTH(32)" by (rule unsigned_less)
    ultimately have i': "unat (i + of_nat blk) = unat i + blk"
      by (subst unat_add_lem [THEN iffD1]) (simp_all add: unat_blk)
    have b: "blocks blk d = take blk d # blocks blk (drop blk d)"
      using True len_d by (intro blocks_step) simp_all
    have t: "take blk d = take blk (drop (unat i) input)"
      using True by (simp add: d_def drop_take min_def)
    have m: "(unat n - unat i) mod blk = (unat n - (unat i + blk)) mod blk"
      using True by (simp add: le_mod_geq)
    have "unat n - unat (i + of_nat blk) < unat n - unat i" "unat (i + of_nat blk) \<le> unat n"
      using True i' blk_pos by linarith+
    from less.hyps [OF this, of "tr st (take blk (drop (unat i) input))"]
    obtain j where j: "md_loop blk tr input n (tr st (take blk (drop (unat i) input))) (i + of_nat blk)
        = Some (foldl tr (tr st (take blk (drop (unat i) input))) (blocks blk (drop blk d)), j)"
      "unat j + (unat n - (unat i + blk)) mod blk = unat n"
      unfolding i' d_def drop_drop by (auto simp: add.commute)
    then show ?thesis
      using True assms(2) cond b t m by (subst md_loop.simps) (simp add: d_def [symmetric])
  qed
qed

text \<open>The bit count: 64 (128) bits in two words, carry included.\<close>

lemma count_update:
  fixes n :: u32 and p :: "'w word"
  assumes "mCount0 c = of_nat (8 * l)" "mCount1 c = of_nat (8 * l div 2 ^ LENGTH('w))"
    and p_def: "p = push_bit 3 (ucast n)"
  shows "mCount0 c + p = of_nat (8 * (l + unat n))"
    and "(if mCount0 c + p < p then mCount1 c + 1 else mCount1 c) + drop_bit (LENGTH('w) - 3) (ucast n)
      = of_nat (8 * (l + unat n) div 2 ^ LENGTH('w))"
proof -
  have "unat n < 2 ^ LENGTH(32)" by (rule unsigned_less)
  then have "unat n < 2 ^ LENGTH('w)"
    using power_increasing [OF w32, of "2::nat"] by simp
  then have u: "unat (ucast n :: 'w word) = unat n" by (rule unat_ucast_up)
  then have ucast: "(ucast n :: 'w word) = of_nat (unat n)" unfolding u [symmetric] by simp
  have p: "p = of_nat (8 * unat n)"
    unfolding p_def ucast push_bit_eq_mult by simp
  show low: "mCount0 c + p = of_nat (8 * (l + unat n))"
    by (simp only: p assms(1) of_nat_add [symmetric] distrib_left)
  have carry: "mCount0 c + p < p \<longleftrightarrow> 2 ^ LENGTH('w) \<le> 8 * l mod 2 ^ LENGTH('w) + 8 * unat n mod 2 ^ LENGTH('w)"
    by (simp only: word_less_overflow) (simp only: p assms(1) unat_of_nat)
  have high: "drop_bit (LENGTH('w) - 3) (ucast n :: 'w word) = of_nat (unat n div 2 ^ (LENGTH('w) - 3))"
    by (metis u unat_drop_bit of_nat_unat ucast_id)
  have "3 \<le> LENGTH('w)" using kw by simp
  then show "(if mCount0 c + p < p then mCount1 c + 1 else mCount1 c) + drop_bit (LENGTH('w) - 3) (ucast n)
      = of_nat (8 * (l + unat n) div 2 ^ LENGTH('w))"
    unfolding carry high assms(2) by (simp only: wide_count_add) simp
qed

theorem update_rep:
  assumes rep: "md_rep tr iv blk c m" and mem: "unat n \<le> length input" and small: "unat n + blk \<le> 2 ^ 32"
  shows "\<exists>c'. md_update blk tr c input n = Some c' \<and> md_rep tr iv blk c' (m @ take (unat n) input)"
proof -
  let ?l = "length m" and ?x = "take (unat n) input"
  define r where "r = ?l mod blk"
  define full where "full = take (?l - r) m"
  define rm where "rm = drop (?l - r) m"
  have r: "r < blk" "r \<le> ?l" by (simp_all add: r_def)
  have m: "m = full @ rm" by (simp add: full_def rm_def)
  have rm: "length rm = r" using r by (simp add: rm_def)
  have full: "blk dvd length full" by (simp add: full_def r_def)
  have idx: "unat (md_index blk c) = r" using rep by (simp add: rep_index r_def)
  have st: "mState c = md_digest_state tr iv blk full"
    using rep full r rm by (simp add: md_rep_def m md_digest_state_rem)
  have buf: "length (mBuffer c) = blk" "take r (mBuffer c) = rm"
    using rep by (simp_all add: md_rep_def r_def rm_def)
  have part: "unat (of_nat blk - md_index blk c) = blk - r"
    using r idx by (subst unat_sub) (simp_all add: unat_blk word_le_nat_alt)
  have cnt_len: "length (m @ ?x) = ?l + unat n" using mem by simp
  define c1 where "c1 = (let p = push_bit 3 (ucast n) in
    (if mCount0 c + p < p then mCount1 c + 1 else mCount1 c) + drop_bit (LENGTH('w) - 3) (ucast n))"
  have cnt: "mCount0 c + push_bit 3 (ucast n) = of_nat (8 * length (m @ ?x))"
    "c1 = of_nat (8 * length (m @ ?x) div 2 ^ LENGTH('w))"
    using rep mem count_update [of c ?l _ n] by (simp_all only: md_rep_def c1_def Let_def length_append length_take min_absorb2)
  note upd = md_update_def [of blk tr c input n, unfolded Let_def, folded c1_def [unfolded Let_def]]
  show ?thesis
  proof (cases "blk - r \<le> unat n")
    case False
    then have n: "\<not> of_nat blk - md_index blk c \<le> n" by (simp add: word_le_nat_alt part)
    have len: "length (rm @ ?x) < blk" using False rm mem r by simp
    have md: "length (m @ ?x) mod blk = r + unat n"
    proof -
      have "length (m @ ?x) mod blk = (r + unat n) mod blk"
        unfolding cnt_len r_def by (rule mod_add_left_eq [symmetric])
      then show ?thesis using False r by simp
    qed
    define buf' where "buf' = rm @ ?x @ drop (r + unat n) (mBuffer c)"
    have "md_update blk tr c input n = Some \<lparr>mState = mState c, mCount0 = mCount0 c + push_bit 3 (ucast n),
        mCount1 = c1, mBuffer = buf'\<rparr>"
      using n False buf mem idx by (simp add: upd buf'_def)
    moreover have "md_digest_state tr iv blk (m @ ?x) = mState c"
      using len full by (simp only: m append_assoc md_digest_state_rem blk_pos st)
    moreover have "length buf' = blk" "take (r + unat n) buf' = drop (length (m @ ?x) - (r + unat n)) (m @ ?x)"
      using False buf rm mem r by (simp_all add: buf'_def) (simp add: rm_def)
    ultimately show ?thesis using cnt md md_repI [of "m @ ?x" blk] by metis
  next
    case True
    define p where "p = blk - r"
    define q where "q = (unat n - p) mod blk"
    define b where "b = rm @ take p input"
    have p: "p \<le> unat n" "length (take p input) = p" using True mem by (simp_all add: p_def)
    have b: "length b = blk" using rm p r by (simp add: b_def p_def)
    have n: "of_nat blk - md_index blk c \<le> n" using True by (simp add: word_le_nat_alt part)
    obtain j where j: "md_loop blk tr input n (tr (mState c) b) (of_nat blk - md_index blk c)
        = Some (foldl tr (tr (mState c) b) (blocks blk (drop p ?x)), j)" "unat j + q = unat n"
      using loop_eq [of "of_nat blk - md_index blk c" n input "tr (mState c) b"] True mem small part
      by (auto simp: p_def q_def)
    have nj: "unat (n - j) = q" using j(2) by (subst unat_sub) (simp_all add: word_le_nat_alt)
    have q: "q < blk" by (simp add: q_def)
    define rest where "rest = take q (drop (unat j) input)"
    have rest: "length rest = q" using j(2) mem by (simp add: rest_def)
    define st' where "st' = foldl tr (tr (mState c) b) (blocks blk (drop p ?x))"
    have "md_update blk tr c input n = Some \<lparr>mState = st', mCount0 = mCount0 c + push_bit 3 (ucast n),
        mCount1 = c1, mBuffer = rest @ drop q b\<rparr>"
    proof -
      have "buf_read input 0 (unat (of_nat blk - md_index blk c)) = Some (take p input)"
        using p mem by (simp add: part p_def)
      moreover have "buf_write (mBuffer c) (unat (md_index blk c)) (take p input) = Some b"
        using p r buf by (simp add: idx b_def p_def)
      moreover have "buf_read input (unat j) (unat (n - j)) = Some rest"
        using j(2) mem by (simp add: nj rest_def)
      moreover have "buf_write b 0 rest = Some (rest @ drop q b)"
        using rest q b by simp
      ultimately show ?thesis using n j(1) by (simp add: upd st'_def)
    qed
    moreover have "st' = md_digest_state tr iv blk (m @ ?x)"
    proof -
      have "m @ ?x = full @ b @ drop p ?x"
        using p by (simp add: m b_def drop_take) (metis append_take_drop_id le_add_diff_inverse take_add)
      then show ?thesis using full b by (simp only: md_digest_state_block blk_pos st'_def st)
    qed
    moreover have "length (m @ ?x) mod blk = q"
    proof -
      have "length (m @ ?x) = length full + (blk + (unat n - p))"
        using p r rm True cnt_len by (simp add: m p_def)
      then show ?thesis using full by (simp add: q_def mod_add_eq [symmetric])
    qed
    moreover have "rest = drop (length (m @ ?x) - q) (m @ ?x)"
    proof -
      have "unat n - q = unat j" "unat n - unat j = q" using j(2) by simp_all
      then show ?thesis using j(2) q mem by (simp add: rest_def drop_take)
    qed
    moreover have "length (rest @ drop q b) = blk" "take q (rest @ drop q b) = rest"
      using b q rest by simp_all
    ultimately show ?thesis using cnt md_repI [of "m @ ?x" blk] by metis
  qed
qed

text \<open>
  \<^verbatim>\<open>i + 63\<close> is computed in 32 bits. With \<open>r\<close> bytes buffered the loop visits \<open>i = blk - r\<close>
  modulo \<open>blk\<close>; for an input that reaches \<open>2 ^ 32 - r\<close> it does not stop at the last full
  block, and the next transform reads behind the input.
\<close>

lemma loop_overrun:
  assumes "unat i + j * blk + r = 2 ^ 32" "0 < r" "r < blk" "2 ^ 32 \<le> unat n + r"
  shows "md_loop blk tr input n st i = None"
  using assms(1)
proof (induction j arbitrary: i st)
  case 0
  have "unat (i + of_nat (blk - 1)) = blk - 1 - r"
  proof -
    have "unat i + (blk - 1) = (blk - 1 - r) + 2 ^ 32" using 0 assms(2,3) by simp
    moreover have "blk - 1 - r < 2 ^ 32" using blk_le by simp
    ultimately show ?thesis
      using blk_le by (simp add: unat_word_ariths unat_of_nat)
  qed
  moreover have "blk - 1 - r < unat n" using assms(3,4) blk_le by simp
  moreover have "unat n < 2 ^ LENGTH(32)" by (rule unsigned_less)
  then have "unat n < unat i + blk" using 0 assms(3) by simp
  ultimately show ?case by (subst md_loop.simps) (simp add: word_less_nat_alt)
next
  case (Suc j)
  have i: "unat i + blk + j * blk + r = 2 ^ 32" using Suc.prems by simp
  have lt: "unat i + (blk - 1) < 2 ^ 32" "unat i + blk < 2 ^ 32" using i assms(2) blk_pos by linarith+
  then have "unat (i + of_nat (blk - 1)) = unat i + (blk - 1)" "unat (i + of_nat blk) = unat i + blk"
    using blk_le by (simp_all add: unat_word_ariths unat_of_nat)
  moreover have "unat i + (blk - 1) < unat n" using i assms(2,4) blk_pos by linarith
  ultimately show ?case
    using Suc.IH [of "i + of_nat blk"] i by (subst md_loop.simps) (simp add: word_less_nat_alt)
qed

lemma update_overrun:
  assumes rep: "md_rep tr iv blk c m" and r: "r = length m mod blk" "0 < r" and n: "2 ^ 32 \<le> unat n + r"
  shows "md_update blk tr c input n = None"
proof -
  have r_blk: "r < blk" using r(1) blk_pos by simp
  have part: "unat (of_nat blk - md_index blk c) = blk - r"
    using r_blk rep_index [OF rep] r(1) by (subst unat_sub) (simp_all add: unat_blk word_le_nat_alt)
  obtain j where "2 ^ (32 - k) = Suc j" by (metis not0_implies_Suc power_not_zero zero_neq_numeral)
  moreover have "2 ^ 32 = blk * 2 ^ (32 - k)" using k7 by (simp add: blk_eq power_add [symmetric])
  ultimately have "blk - r + j * blk + r = 2 ^ 32" using r_blk by (simp add: mult.commute)
  from loop_overrun [OF _ r(2) r_blk n] this part
  have loop: "md_loop blk tr input n st (of_nat blk - md_index blk c) = None" for st by metis
  have "of_nat blk - md_index blk c \<le> n" using part r n blk_le by (simp add: word_le_nat_alt)
  then show ?thesis by (simp add: md_update_def loop Let_def bind_eq_None_conv)
qed

end

section \<open>The hash object as its clients see it\<close>

definition chunk_ok :: "chunk_t \<Rightarrow> bool" where
  "chunk_ok x \<longleftrightarrow> unat (len x) \<le> length (chunk_mem x) \<and> unat (len x) + 128 \<le> 2 ^ 32"

definition chunk_bytes :: "chunk_t \<Rightarrow> u8 list" where
  "chunk_bytes x = take (unat (len x)) (chunk_mem x)"

text \<open>A client hands over several chunks one after the other, with a null \<^verbatim>\<open>pDigist\<close>.\<close>

fun feed :: "('c \<Rightarrow> chunk_t \<Rightarrow> bool \<Rightarrow> ('c \<times> u8 list option) option) \<Rightarrow> 'c \<Rightarrow> chunk_t list \<Rightarrow> 'c option" where
  "feed calc c [] = Some c"
| "feed calc c (x # xs) = do { (c', d) \<leftarrow> calc c x False; feed calc c' xs }"

locale hash_interface =
  fixes rep :: "'c \<Rightarrow> u8 list \<Rightarrow> bool"
    and ini :: "'c \<Rightarrow> 'c"
    and calc :: "'c \<Rightarrow> chunk_t \<Rightarrow> bool \<Rightarrow> ('c \<times> u8 list option) option"
    and hash :: "u8 list \<Rightarrow> u8 list"
    and hsize :: nat
  assumes rep_ini: "rep c m \<Longrightarrow> rep (ini c) []"
    and calc_part: "rep c m \<Longrightarrow> chunk_ok x \<Longrightarrow>
      \<exists>c'. calc c x False = Some (c', None) \<and> rep c' (m @ chunk_bytes x)"
    and calc_digest: "rep c m \<Longrightarrow> chunk_ok x \<Longrightarrow>
      \<exists>c'. calc c x True = Some (c', Some (hash (m @ chunk_bytes x))) \<and> rep c' []"
    and length_hash: "length (hash m) = hsize"
begin

lemma feed_rep:
  assumes "rep c m" "\<forall>x \<in> set xs. chunk_ok x"
  shows "\<exists>c'. feed calc c xs = Some c' \<and> rep c' (m @ concat (map chunk_bytes xs))"
  using assms
proof (induction xs arbitrary: c m)
  case Nil
  then show ?case by simp
next
  case (Cons x xs)
  then obtain c' where c': "calc c x False = Some (c', None)" "rep c' (m @ chunk_bytes x)"
    using calc_part by fastforce
  with Cons.IH [OF c'(2)] Cons.prems(2) show ?case by simp
qed

lemma feed_digest:
  assumes "rep c m" "\<forall>x \<in> set xs. chunk_ok x" "chunk_ok y"
  shows "\<exists>c'. do { c1 \<leftarrow> feed calc c xs; calc c1 y True }
      = Some (c', Some (hash (m @ concat (map chunk_bytes xs) @ chunk_bytes y))) \<and> rep c' []"
proof -
  obtain c1 where c1: "feed calc c xs = Some c1" "rep c1 (m @ concat (map chunk_bytes xs))"
    using feed_rep [OF assms(1,2)] by blast
  from calc_digest [OF c1(2) assms(3)] c1(1) show ?thesis by simp
qed

end

section \<open>Padding and digest\<close>

locale md_hash = md_core tr iv blk k
  for tr :: "'w::len word list \<Rightarrow> u8 list \<Rightarrow> 'w word list" and iv :: "'w word list" and blk k :: nat +
  fixes lb padAt :: nat
    and padding :: "u8 list"
    and encbits :: "'w word \<Rightarrow> 'w word \<Rightarrow> u8 list"
    and bytes :: "nat \<Rightarrow> nat \<Rightarrow> u8 list"
    and encd :: "'w word list \<Rightarrow> u8 list"
    and hsize :: nat
    and ini :: "'w word md_ctx \<Rightarrow> 'w word md_ctx"
    and upd :: "'w word md_ctx \<Rightarrow> u8 list \<Rightarrow> u32 \<Rightarrow> 'w word md_ctx option"
    and fin :: "'w word md_ctx \<Rightarrow> ('w word md_ctx \<times> u8 list) option"
  assumes padAt: "padAt + lb = blk"
    and padding: "padding = 0x80 # replicate (blk - 1) 0"
    and encbits: "encbits (of_nat x) (of_nat (x div 2 ^ LENGTH('w))) = bytes lb x"
    and length_bytes: "length (bytes lb x) = lb"
    and length_tr: "length st = length iv \<Longrightarrow> length (tr st b) = length iv"
    and length_encd: "length st = length iv \<Longrightarrow> length (encd st) = hsize"
    and ini: "ini c = c\<lparr>mState := iv, mCount0 := 0, mCount1 := 0\<rparr>"
    and upd: "upd = md_update blk tr"
    and fin: "fin c = do { c' \<leftarrow> md_final blk padAt padding encbits tr c; Some (c', encd (mState c')) }"
begin

abbreviation digest :: "u8 list \<Rightarrow> u8 list" where
  "digest m \<equiv> encd (md_digest_state tr iv blk (md_pad blk lb bytes m))"

lemma pad_length:
  assumes "r < blk"
  shows "(2 * blk - 1 - lb - r) mod blk = (if r < padAt then padAt - r else padAt + blk - r) - 1"
proof (cases "r < padAt")
  case True
  then have "2 * blk - 1 - lb - r = (padAt - r - 1) + blk" using padAt assms by simp
  moreover have "padAt - r - 1 < blk" using padAt True by simp
  ultimately show ?thesis using True by (simp only: mod_add_self2 mod_less if_True)
next
  case False
  then have "2 * blk - 1 - lb - r = padAt + blk - r - 1" "padAt + blk - r - 1 < blk"
    using padAt assms blk_pos by linarith+
  then show ?thesis using False by simp
qed

lemma padLen_value:
  assumes "unat index = r" "r < blk"
  defines "P \<equiv> (if r < padAt then padAt - r else padAt + blk - r)"
  shows "unat (if index < of_nat padAt then of_nat padAt - index else of_nat (padAt + blk) - index :: u32) = P"
    and "1 \<le> P" "P \<le> blk"
proof -
  have u: "unat (of_nat padAt :: u32) = padAt" "unat (of_nat (padAt + blk) :: u32) = padAt + blk"
    using padAt blk_le by (simp_all add: unat_of_nat del: of_nat_add)
  have "index < of_nat padAt \<longleftrightarrow> r < padAt" by (simp add: word_less_nat_alt u assms(1))
  moreover have "index \<le> of_nat (padAt + blk)"
    using assms(1,2) by (simp only: word_le_nat_alt u)
  ultimately show "unat (if index < of_nat padAt then of_nat padAt - index else of_nat (padAt + blk) - index :: u32) = P"
    using assms(1) by (auto simp: P_def unat_sub u word_le_nat_alt simp del: of_nat_add)
  show "1 \<le> P" "P \<le> blk" using assms(2) padAt by (auto simp: P_def)
qed

lemma final_rep:
  assumes rep: "md_rep tr iv blk c m"
  shows "\<exists>c'. md_final blk padAt padding encbits tr c = Some c'
    \<and> md_rep tr iv blk c' (md_pad blk lb bytes m)"
proof -
  define r where "r = length m mod blk"
  define P where "P = (if r < padAt then padAt - r else padAt + blk - r)"
  define padLen where "padLen = (if md_index blk c < of_nat padAt then of_nat padAt - md_index blk c
    else of_nat (padAt + blk) - md_index blk c)"
  have r: "r < blk" by (simp add: r_def)
  have P: "unat padLen = P" "1 \<le> P" "P \<le> blk"
    using padLen_value [OF rep_index [OF rep, folded r_def] r] by (simp_all add: padLen_def P_def)
  have bits: "encbits (mCount0 c) (mCount1 c) = bytes lb (8 * length m)"
    using rep encbits [of "8 * length m"] by (simp only: md_rep_def)
  have lpad: "length padding = blk" using blk_pos by (simp add: padding)
  obtain c1 where c1: "md_update blk tr c padding padLen = Some c1"
    "md_rep tr iv blk c1 (m @ take P padding)"
    using update_rep [OF rep, of padLen padding] P lpad blk_le by auto
  have ll: "unat (of_nat lb :: u32) = lb" "lb \<le> 128"
    using padAt blk_le by (simp_all add: unat_of_nat)
  obtain c2 where c2: "md_update blk tr c1 (bytes lb (8 * length m)) (of_nat lb) = Some c2"
    "md_rep tr iv blk c2 ((m @ take P padding) @ bytes lb (8 * length m))"
    using update_rep [OF c1(2), of "of_nat lb" "bytes lb (8 * length m)"] ll blk_le
    by (auto simp: length_bytes)
  have "take P padding = 0x80 # replicate (P - 1) 0"
    using P(2,3) by (cases P) (simp_all add: padding)
  then have "(m @ take P padding) @ bytes lb (8 * length m) = md_pad blk lb bytes m"
    using pad_length [OF r] by (simp add: md_pad_def r_def P_def)
  moreover have "md_final blk padAt padding encbits tr c = Some c2"
    using c1(1) c2(1) by (simp add: md_final_def Let_def bits length_bytes padLen_def)
  ultimately show ?thesis using c2(2) by metis
qed

lemma ini_rep: "md_rep tr iv blk c m \<Longrightarrow> md_rep tr iv blk (ini c) []"
  by (simp add: md_rep_def ini md_digest_state_def)

lemma length_digest: "length (digest m) = hsize"
proof -
  have "length (foldl tr iv bs) = length iv" for bs
    by (induction bs rule: rev_induct) (simp_all add: length_tr)
  then show ?thesis by (intro length_encd) (simp add: md_digest_state_def)
qed

sublocale hash_interface "md_rep tr iv blk" ini "md_calc upd fin ini" digest hsize
proof (unfold_locales, goal_cases)
  case (1 c m)
  then show ?case by (rule ini_rep)
next
  case (2 c m x)
  then obtain c' where "md_update blk tr c (chunk_mem x) (len x) = Some c'"
    "md_rep tr iv blk c' (m @ chunk_bytes x)"
    using update_rep [of c m "len x" "chunk_mem x"] blk_le by (auto simp: chunk_ok_def chunk_bytes_def)
  then show ?case by (simp add: md_calc_def upd)
next
  case (3 c m x)
  then obtain c1 where c1: "md_update blk tr c (chunk_mem x) (len x) = Some c1"
    "md_rep tr iv blk c1 (m @ chunk_bytes x)"
    using update_rep [of c m "len x" "chunk_mem x"] blk_le by (auto simp: chunk_ok_def chunk_bytes_def)
  obtain c2 where c2: "md_final blk padAt padding encbits tr c1 = Some c2"
    "md_rep tr iv blk c2 (md_pad blk lb bytes (m @ chunk_bytes x))"
    using final_rep [OF c1(2)] by blast
  then have "mState c2 = md_digest_state tr iv blk (md_pad blk lb bytes (m @ chunk_bytes x))"
    by (simp add: md_rep_def)
  then show ?case using c1 c2 by (simp add: md_calc_def upd fin ini_rep)
next
  case (4 m)
  then show ?case by (rule length_digest)
qed

end

end
