(* ===== verification/Sha2.thy ===== *)
theory Sha2
  imports MdHash
begin

text \<open>
  \<^verbatim>\<open>algorithms/hash/src/hashSha2.cpp\<close>: the classes \<^verbatim>\<open>HashSha224\<close>, \<^verbatim>\<open>HashSha256\<close> (32-bit words,
  blocks of 64 bytes) and \<^verbatim>\<open>HashSha384\<close>, \<^verbatim>\<open>HashSha512\<close> (64-bit words, blocks of 128 bytes).
  The macros come first, then the message schedule and the rounds, then for every class
  its constructor, \<^verbatim>\<open>initHash\<close>, \<^verbatim>\<open>update...\<close>, \<^verbatim>\<open>transform...\<close>, \<^verbatim>\<open>final...\<close> and \<^verbatim>\<open>calcHash\<close>. The
  schedule is an array filled from index 0 upwards, here a list that grows.
  The interpretations instantiate the buffering theory of \<^verbatim>\<open>MdHash\<close> for each class.
\<close>

section \<open>Macros\<close>

definition CH :: "'w::len word \<Rightarrow> 'w word \<Rightarrow> 'w word \<Rightarrow> 'w word" where
  "CH x y z = (x AND y) XOR (NOT x AND z)"

definition MAJ :: "'w::len word \<Rightarrow> 'w word \<Rightarrow> 'w word \<Rightarrow> 'w word" where
  "MAJ x y z = (x AND y) XOR (x AND z) XOR (y AND z)"

definition SHR :: "nat \<Rightarrow> 'w::len word \<Rightarrow> 'w word" where
  "SHR n x = drop_bit n x"

definition ROTR32 :: "nat \<Rightarrow> u32 \<Rightarrow> u32" where
  "ROTR32 n x = drop_bit n x OR push_bit (32 - n) x"

definition BSIG0_256 :: "u32 \<Rightarrow> u32" where
  "BSIG0_256 x = ROTR32 2 x XOR ROTR32 13 x XOR ROTR32 22 x"

definition BSIG1_256 :: "u32 \<Rightarrow> u32" where
  "BSIG1_256 x = ROTR32 6 x XOR ROTR32 11 x XOR ROTR32 25 x"

definition SSIG0_256 :: "u32 \<Rightarrow> u32" where
  "SSIG0_256 x = ROTR32 7 x XOR ROTR32 18 x XOR SHR 3 x"

definition SSIG1_256 :: "u32 \<Rightarrow> u32" where
  "SSIG1_256 x = ROTR32 17 x XOR ROTR32 19 x XOR SHR 10 x"

definition ROTR64 :: "nat \<Rightarrow> u64 \<Rightarrow> u64" where
  "ROTR64 n x = drop_bit n x OR push_bit (64 - n) x"

definition BSIG0_512 :: "u64 \<Rightarrow> u64" where
  "BSIG0_512 x = ROTR64 28 x XOR ROTR64 34 x XOR ROTR64 39 x"

definition BSIG1_512 :: "u64 \<Rightarrow> u64" where
  "BSIG1_512 x = ROTR64 14 x XOR ROTR64 18 x XOR ROTR64 41 x"

definition SSIG0_512 :: "u64 \<Rightarrow> u64" where
  "SSIG0_512 x = ROTR64 1 x XOR ROTR64 8 x XOR SHR 7 x"

definition SSIG1_512 :: "u64 \<Rightarrow> u64" where
  "SSIG1_512 x = ROTR64 19 x XOR ROTR64 61 x XOR SHR 6 x"

section \<open>Tables\<close>

text \<open>The tables of constants, row by row as in the source.\<close>

definition sha256_K :: "u32 list" where
  "sha256_K = concat
    [[0x428a2f98, 0x71374491, 0xb5c0fbcf, 0xe9b5dba5, 0x3956c25b, 0x59f111f1],
     [0x923f82a4, 0xab1c5ed5, 0xd807aa98, 0x12835b01, 0x243185be, 0x550c7dc3],
     [0x72be5d74, 0x80deb1fe, 0x9bdc06a7, 0xc19bf174, 0xe49b69c1, 0xefbe4786],
     [0x0fc19dc6, 0x240ca1cc, 0x2de92c6f, 0x4a7484aa, 0x5cb0a9dc, 0x76f988da],
     [0x983e5152, 0xa831c66d, 0xb00327c8, 0xbf597fc7, 0xc6e00bf3, 0xd5a79147],
     [0x06ca6351, 0x14292967, 0x27b70a85, 0x2e1b2138, 0x4d2c6dfc, 0x53380d13],
     [0x650a7354, 0x766a0abb, 0x81c2c92e, 0x92722c85, 0xa2bfe8a1, 0xa81a664b],
     [0xc24b8b70, 0xc76c51a3, 0xd192e819, 0xd6990624, 0xf40e3585, 0x106aa070],
     [0x19a4c116, 0x1e376c08, 0x2748774c, 0x34b0bcb5, 0x391c0cb3, 0x4ed8aa4a],
     [0x5b9cca4f, 0x682e6ff3, 0x748f82ee, 0x78a5636f, 0x84c87814, 0x8cc70208],
     [0x90befffa, 0xa4506ceb, 0xbef9a3f7, 0xc67178f2]]"

definition sha512_K :: "u64 list" where
  "sha512_K = concat
    [[0x428a2f98d728ae22, 0x7137449123ef65cd, 0xb5c0fbcfec4d3b2f],
     [0xe9b5dba58189dbbc, 0x3956c25bf348b538, 0x59f111f1b605d019],
     [0x923f82a4af194f9b, 0xab1c5ed5da6d8118, 0xd807aa98a3030242],
     [0x12835b0145706fbe, 0x243185be4ee4b28c, 0x550c7dc3d5ffb4e2],
     [0x72be5d74f27b896f, 0x80deb1fe3b1696b1, 0x9bdc06a725c71235],
     [0xc19bf174cf692694, 0xe49b69c19ef14ad2, 0xefbe4786384f25e3],
     [0x0fc19dc68b8cd5b5, 0x240ca1cc77ac9c65, 0x2de92c6f592b0275],
     [0x4a7484aa6ea6e483, 0x5cb0a9dcbd41fbd4, 0x76f988da831153b5],
     [0x983e5152ee66dfab, 0xa831c66d2db43210, 0xb00327c898fb213f],
     [0xbf597fc7beef0ee4, 0xc6e00bf33da88fc2, 0xd5a79147930aa725],
     [0x06ca6351e003826f, 0x142929670a0e6e70, 0x27b70a8546d22ffc],
     [0x2e1b21385c26c926, 0x4d2c6dfc5ac42aed, 0x53380d139d95b3df],
     [0x650a73548baf63de, 0x766a0abb3c77b2a8, 0x81c2c92e47edaee6],
     [0x92722c851482353b, 0xa2bfe8a14cf10364, 0xa81a664bbc423001],
     [0xc24b8b70d0f89791, 0xc76c51a30654be30, 0xd192e819d6ef5218],
     [0xd69906245565a910, 0xf40e35855771202a, 0x106aa07032bbd1b8],
     [0x19a4c116b8d2d0c8, 0x1e376c085141ab53, 0x2748774cdf8eeb99],
     [0x34b0bcb5e19b48a8, 0x391c0cb3c5c95a63, 0x4ed8aa4ae3418acb],
     [0x5b9cca4f7763e373, 0x682e6ff3d6b2b8a3, 0x748f82ee5defb2fc],
     [0x78a5636f43172f60, 0x84c87814a1f0ab72, 0x8cc702081a6439ec],
     [0x90befffa23631e28, 0xa4506cebde82bde9, 0xbef9a3f7b2c67915],
     [0xc67178f2e372532b, 0xca273eceea26619c, 0xd186b8c721c0c207],
     [0xeada7dd6cde0eb1e, 0xf57d4f7fee6ed178, 0x06f067aa72176fba],
     [0x0a637dc5a2c898a6, 0x113f9804bef90dae, 0x1b710b35131c471b],
     [0x28db77f523047d84, 0x32caab7b40c72493, 0x3c9ebe0a15c9bebc],
     [0x431d67c49c100d4c, 0x4cc5d4becb3e42b6, 0x597f299cfc657e2a],
     [0x5fcb6fab3ad6faec, 0x6c44198c4a475817]]"

definition g_sha256padding :: "u8 list" where
  "g_sha256padding = 0x80 # replicate 63 0"

definition g_sha512padding :: "u8 list" where
  "g_sha512padding = 0x80 # replicate 127 0"

section \<open>Schedule and rounds, 32-bit words\<close>

definition get_be32 :: "u8 list \<Rightarrow> u32" where
  "get_be32 pos = push_bit 24 (ucast (pos ! 0)) OR push_bit 16 (ucast (pos ! 1))
     OR push_bit 8 (ucast (pos ! 2)) OR ucast (pos ! 3)"

definition sha256_W0 :: "u8 list \<Rightarrow> u32 list" where
  "sha256_W0 buffer = map (\<lambda>t. get_be32 (drop (4 * t) buffer)) [0..<16]"

definition sha256_Wnext :: "u32 list \<Rightarrow> nat \<Rightarrow> u32 list" where
  "sha256_Wnext W t = W @ [SSIG1_256 (W ! (t - 2)) + W ! (t - 7) + SSIG0_256 (W ! (t - 15)) + W ! (t - 16)]"

definition sha256_W :: "u8 list \<Rightarrow> u32 list" where
  "sha256_W buffer = foldl sha256_Wnext (sha256_W0 buffer) [16..<64]"

type_synonym 'w vars8 = "'w word \<times> 'w word \<times> 'w word \<times> 'w word \<times> 'w word \<times> 'w word \<times> 'w word \<times> 'w word"

fun sha256_round :: "u32 list \<Rightarrow> 32 vars8 \<Rightarrow> nat \<Rightarrow> 32 vars8" where
  "sha256_round W (a, b, c, d, e, f, g, h) t =
     (let T1 = h + BSIG1_256 e + CH e f g + sha256_K ! t + W ! t;
          T2 = BSIG0_256 a + MAJ a b c
      in (T1 + T2, a, b, c, d + T1, e, f, g))"

fun add_vars8 :: "'w::len word list \<Rightarrow> 'w vars8 \<Rightarrow> 'w word list" where
  "add_vars8 st (a, b, c, d, e, f, g, h) =
     [st ! 0 + a, st ! 1 + b, st ! 2 + c, st ! 3 + d, st ! 4 + e, st ! 5 + f, st ! 6 + g, st ! 7 + h]"

definition vars8_of :: "'w::len word list \<Rightarrow> 'w vars8" where
  "vars8_of st = (st ! 0, st ! 1, st ! 2, st ! 3, st ! 4, st ! 5, st ! 6, st ! 7)"

definition transformSha256 :: "u32 list \<Rightarrow> u8 list \<Rightarrow> u32 list" where
  "transformSha256 st buffer =
     (let W = sha256_W buffer in add_vars8 st (foldl (sha256_round W) (vars8_of st) [0..<64]))"

text \<open>The body of \<^verbatim>\<open>transformSha224\<close> is that of \<^verbatim>\<open>transformSha256\<close>.\<close>

definition transformSha224 :: "u32 list \<Rightarrow> u8 list \<Rightarrow> u32 list" where
  "transformSha224 st buffer =
     (let W = sha256_W buffer in add_vars8 st (foldl (sha256_round W) (vars8_of st) [0..<64]))"

section \<open>Schedule and rounds, 64-bit words\<close>

definition get_be64 :: "u8 list \<Rightarrow> u64" where
  "get_be64 pos = push_bit 56 (ucast (pos ! 0)) OR push_bit 48 (ucast (pos ! 1))
     OR push_bit 40 (ucast (pos ! 2)) OR push_bit 32 (ucast (pos ! 3))
     OR push_bit 24 (ucast (pos ! 4)) OR push_bit 16 (ucast (pos ! 5))
     OR push_bit 8 (ucast (pos ! 6)) OR ucast (pos ! 7)"

definition sha512_W0 :: "u8 list \<Rightarrow> u64 list" where
  "sha512_W0 buffer = map (\<lambda>t. get_be64 (drop (8 * t) buffer)) [0..<16]"

definition sha512_Wnext :: "u64 list \<Rightarrow> nat \<Rightarrow> u64 list" where
  "sha512_Wnext W t = W @ [SSIG1_512 (W ! (t - 2)) + W ! (t - 7) + SSIG0_512 (W ! (t - 15)) + W ! (t - 16)]"

definition sha512_W :: "u8 list \<Rightarrow> u64 list" where
  "sha512_W buffer = foldl sha512_Wnext (sha512_W0 buffer) [16..<80]"

fun sha512_round :: "u64 list \<Rightarrow> 64 vars8 \<Rightarrow> nat \<Rightarrow> 64 vars8" where
  "sha512_round W (a, b, c, d, e, f, g, h) t =
     (let T1 = h + BSIG1_512 e + CH e f g + sha512_K ! t + W ! t;
          T2 = BSIG0_512 a + MAJ a b c
      in (T1 + T2, a, b, c, d + T1, e, f, g))"

definition transformSha512 :: "u64 list \<Rightarrow> u8 list \<Rightarrow> u64 list" where
  "transformSha512 st buffer =
     (let W = sha512_W buffer in add_vars8 st (foldl (sha512_round W) (vars8_of st) [0..<80]))"

text \<open>The body of \<^verbatim>\<open>transformSha384\<close> is that of \<^verbatim>\<open>transformSha512\<close>.\<close>

definition transformSha384 :: "u64 list \<Rightarrow> u8 list \<Rightarrow> u64 list" where
  "transformSha384 st buffer =
     (let W = sha512_W buffer in add_vars8 st (foldl (sha512_round W) (vars8_of st) [0..<80]))"

section \<open>Byte order of the bit count and of the digest\<close>

definition bits_be32 :: "u32 \<Rightarrow> u32 \<Rightarrow> u8 list" where
  "bits_be32 c0 c1 =
     [ucast (drop_bit 24 c1), ucast (drop_bit 16 c1), ucast (drop_bit 8 c1), ucast c1,
      ucast (drop_bit 24 c0), ucast (drop_bit 16 c0), ucast (drop_bit 8 c0), ucast c0]"

definition bits_be64 :: "u64 \<Rightarrow> u64 \<Rightarrow> u8 list" where
  "bits_be64 c0 c1 =
     [ucast (drop_bit 56 c1), ucast (drop_bit 48 c1), ucast (drop_bit 40 c1), ucast (drop_bit 32 c1),
      ucast (drop_bit 24 c1), ucast (drop_bit 16 c1), ucast (drop_bit 8 c1), ucast c1,
      ucast (drop_bit 56 c0), ucast (drop_bit 48 c0), ucast (drop_bit 40 c0), ucast (drop_bit 32 c0),
      ucast (drop_bit 24 c0), ucast (drop_bit 16 c0), ucast (drop_bit 8 c0), ucast c0]"

definition put_be32 :: "u32 \<Rightarrow> u8 list" where
  "put_be32 x = [ucast (drop_bit 24 x AND 0xff), ucast (drop_bit 16 x AND 0xff),
     ucast (drop_bit 8 x AND 0xff), ucast (x AND 0xff)]"

definition put_be64 :: "u64 \<Rightarrow> u8 list" where
  "put_be64 x = [ucast (drop_bit 56 x AND 0xff), ucast (drop_bit 48 x AND 0xff),
     ucast (drop_bit 40 x AND 0xff), ucast (drop_bit 32 x AND 0xff),
     ucast (drop_bit 24 x AND 0xff), ucast (drop_bit 16 x AND 0xff),
     ucast (drop_bit 8 x AND 0xff), ucast (x AND 0xff)]"

text \<open>
  The digest loop \<^verbatim>\<open>for (i = 0, j = 0; j < SIZE; i++, j += 4)\<close> writes the first words of
  \<^verbatim>\<open>mState\<close>.
\<close>

definition digest_be32 :: "nat \<Rightarrow> u32 list \<Rightarrow> u8 list" where
  "digest_be32 n st = concat (map put_be32 (take (n div 4) st))"

definition digest_be64 :: "nat \<Rightarrow> u64 list \<Rightarrow> u8 list" where
  "digest_be64 n st = concat (map put_be64 (take (n div 8) st))"

section \<open>Class HashSha224\<close>

definition HashSha224 :: "u8 list \<Rightarrow> 32 word md_ctx" where
  "HashSha224 garbage = \<lparr>mState =
       [0xc1059ed8, 0x367cd507, 0x3070dd17, 0xf70e5939,
        0xffc00b31, 0x68581511, 0x64f98fa7, 0xbefa4fa4],
     mCount0 = 0, mCount1 = 0, mBuffer = garbage\<rparr>"

definition getHashSize_Sha224 :: "u32" where
  "getHashSize_Sha224 = 28"

definition initHash_Sha224 :: "32 word md_ctx \<Rightarrow> 32 word md_ctx" where
  "initHash_Sha224 c = c\<lparr>mState :=
       [0xc1059ed8, 0x367cd507, 0x3070dd17, 0xf70e5939,
        0xffc00b31, 0x68581511, 0x64f98fa7, 0xbefa4fa4],
     mCount0 := 0, mCount1 := 0\<rparr>"

definition updateSha224 :: "32 word md_ctx \<Rightarrow> u8 list \<Rightarrow> u32 \<Rightarrow> 32 word md_ctx option" where
  "updateSha224 = md_update 64 transformSha224"

definition finalSha224 :: "32 word md_ctx \<Rightarrow> (32 word md_ctx \<times> u8 list) option" where
  "finalSha224 c = do { c' \<leftarrow> md_final 64 56 g_sha256padding bits_be32 transformSha224 c;
     Some (c', digest_be32 28 (mState c')) }"

definition calcHash_Sha224 :: "32 word md_ctx \<Rightarrow> chunk_t \<Rightarrow> bool \<Rightarrow> (32 word md_ctx \<times> u8 list option) option" where
  "calcHash_Sha224 = md_calc updateSha224 finalSha224 initHash_Sha224"

section \<open>Class HashSha256\<close>

definition HashSha256 :: "u8 list \<Rightarrow> 32 word md_ctx" where
  "HashSha256 garbage = \<lparr>mState =
       [0x6a09e667, 0xbb67ae85, 0x3c6ef372, 0xa54ff53a,
        0x510e527f, 0x9b05688c, 0x1f83d9ab, 0x5be0cd19],
     mCount0 = 0, mCount1 = 0, mBuffer = garbage\<rparr>"

definition getHashSize_Sha256 :: "u32" where
  "getHashSize_Sha256 = 32"

definition initHash_Sha256 :: "32 word md_ctx \<Rightarrow> 32 word md_ctx" where
  "initHash_Sha256 c = c\<lparr>mState :=
       [0x6a09e667, 0xbb67ae85, 0x3c6ef372, 0xa54ff53a,
        0x510e527f, 0x9b05688c, 0x1f83d9ab, 0x5be0cd19],
     mCount0 := 0, mCount1 := 0\<rparr>"

definition updateSha256 :: "32 word md_ctx \<Rightarrow> u8 list \<Rightarrow> u32 \<Rightarrow> 32 word md_ctx option" where
  "updateSha256 = md_update 64 transformSha256"

definition finalSha256 :: "32 word md_ctx \<Rightarrow> (32 word md_ctx \<times> u8 list) option" where
  "finalSha256 c = do { c' \<leftarrow> md_final 64 56 g_sha256padding bits_be32 transformSha256 c;
     Some (c', digest_be32 32 (mState c')) }"

definition calcHash_Sha256 :: "32 word md_ctx \<Rightarrow> chunk_t \<Rightarrow> bool \<Rightarrow> (32 word md_ctx \<times> u8 list option) option" where
  "calcHash_Sha256 = md_calc updateSha256 finalSha256 initHash_Sha256"

section \<open>Class HashSha384\<close>

definition HashSha384 :: "u8 list \<Rightarrow> 64 word md_ctx" where
  "HashSha384 garbage = \<lparr>mState =
       [0xcbbb9d5dc1059ed8, 0x629a292a367cd507, 0x9159015a3070dd17, 0x152fecd8f70e5939,
        0x67332667ffc00b31, 0x8eb44a8768581511, 0xdb0c2e0d64f98fa7, 0x47b5481dbefa4fa4],
     mCount0 = 0, mCount1 = 0, mBuffer = garbage\<rparr>"

definition getHashSize_Sha384 :: "u32" where
  "getHashSize_Sha384 = 48"

definition initHash_Sha384 :: "64 word md_ctx \<Rightarrow> 64 word md_ctx" where
  "initHash_Sha384 c = c\<lparr>mState :=
       [0xcbbb9d5dc1059ed8, 0x629a292a367cd507, 0x9159015a3070dd17, 0x152fecd8f70e5939,
        0x67332667ffc00b31, 0x8eb44a8768581511, 0xdb0c2e0d64f98fa7, 0x47b5481dbefa4fa4],
     mCount0 := 0, mCount1 := 0\<rparr>"

definition updateSha384 :: "64 word md_ctx \<Rightarrow> u8 list \<Rightarrow> u32 \<Rightarrow> 64 word md_ctx option" where
  "updateSha384 = md_update 128 transformSha384"

definition finalSha384 :: "64 word md_ctx \<Rightarrow> (64 word md_ctx \<times> u8 list) option" where
  "finalSha384 c = do { c' \<leftarrow> md_final 128 112 g_sha512padding bits_be64 transformSha384 c;
     Some (c', digest_be64 48 (mState c')) }"

definition calcHash_Sha384 :: "64 word md_ctx \<Rightarrow> chunk_t \<Rightarrow> bool \<Rightarrow> (64 word md_ctx \<times> u8 list option) option" where
  "calcHash_Sha384 = md_calc updateSha384 finalSha384 initHash_Sha384"

section \<open>Class HashSha512\<close>

definition HashSha512 :: "u8 list \<Rightarrow> 64 word md_ctx" where
  "HashSha512 garbage = \<lparr>mState =
       [0x6a09e667f3bcc908, 0xbb67ae8584caa73b, 0x3c6ef372fe94f82b, 0xa54ff53a5f1d36f1,
        0x510e527fade682d1, 0x9b05688c2b3e6c1f, 0x1f83d9abfb41bd6b, 0x5be0cd19137e2179],
     mCount0 = 0, mCount1 = 0, mBuffer = garbage\<rparr>"

definition getHashSize_Sha512 :: "u32" where
  "getHashSize_Sha512 = 64"

definition initHash_Sha512 :: "64 word md_ctx \<Rightarrow> 64 word md_ctx" where
  "initHash_Sha512 c = c\<lparr>mState :=
       [0x6a09e667f3bcc908, 0xbb67ae8584caa73b, 0x3c6ef372fe94f82b, 0xa54ff53a5f1d36f1,
        0x510e527fade682d1, 0x9b05688c2b3e6c1f, 0x1f83d9abfb41bd6b, 0x5be0cd19137e2179],
     mCount0 := 0, mCount1 := 0\<rparr>"

definition updateSha512 :: "64 word md_ctx \<Rightarrow> u8 list \<Rightarrow> u32 \<Rightarrow> 64 word md_ctx option" where
  "updateSha512 = md_update 128 transformSha512"

definition finalSha512 :: "64 word md_ctx \<Rightarrow> (64 word md_ctx \<times> u8 list) option" where
  "finalSha512 c = do { c' \<leftarrow> md_final 128 112 g_sha512padding bits_be64 transformSha512 c;
     Some (c', digest_be64 64 (mState c')) }"

definition calcHash_Sha512 :: "64 word md_ctx \<Rightarrow> chunk_t \<Rightarrow> bool \<Rightarrow> (64 word md_ctx \<times> u8 list option) option" where
  "calcHash_Sha512 = md_calc updateSha512 finalSha512 initHash_Sha512"

section \<open>Correctness of the four classes\<close>

text \<open>Initial hash values of RFC 4634, sections 6.1 and 6.3.\<close>

definition sha224_H0 :: "u32 list" where
  "sha224_H0 = [0xc1059ed8, 0x367cd507, 0x3070dd17, 0xf70e5939,
     0xffc00b31, 0x68581511, 0x64f98fa7, 0xbefa4fa4]"

definition sha256_H0 :: "u32 list" where
  "sha256_H0 = [0x6a09e667, 0xbb67ae85, 0x3c6ef372, 0xa54ff53a,
     0x510e527f, 0x9b05688c, 0x1f83d9ab, 0x5be0cd19]"

definition sha384_H0 :: "u64 list" where
  "sha384_H0 = [0xcbbb9d5dc1059ed8, 0x629a292a367cd507, 0x9159015a3070dd17, 0x152fecd8f70e5939,
     0x67332667ffc00b31, 0x8eb44a8768581511, 0xdb0c2e0d64f98fa7, 0x47b5481dbefa4fa4]"

definition sha512_H0 :: "u64 list" where
  "sha512_H0 = [0x6a09e667f3bcc908, 0xbb67ae8584caa73b, 0x3c6ef372fe94f82b, 0xa54ff53a5f1d36f1,
     0x510e527fade682d1, 0x9b05688c2b3e6c1f, 0x1f83d9abfb41bd6b, 0x5be0cd19137e2179]"

lemma bits_be32_eq: "bits_be32 (of_nat x) (of_nat (x div 2 ^ LENGTH(32))) = be_bytes 8 x"
  by (simp add: bits_be32_def be_bytes_def upt_rec ucast_drop_bit_of_nat ucast_of_nat_u8
      div_mult2_eq [symmetric])

lemma bits_be64_eq: "bits_be64 (of_nat x) (of_nat (x div 2 ^ LENGTH(64))) = be_bytes 16 x"
  by (simp add: bits_be64_def be_bytes_def upt_rec ucast_drop_bit_of_nat ucast_of_nat_u8
      div_mult2_eq [symmetric])

lemma length_be_bytes [simp]: "length (be_bytes n x) = n"
  by (simp add: be_bytes_def)

lemma length_add_vars8 [simp]: "length (add_vars8 st v) = 8"
  by (cases "(st, v)" rule: add_vars8.cases) simp

lemma length_put_be [simp]: "length (put_be32 x) = 4" "length (put_be64 y) = 8"
  by (simp_all add: put_be32_def put_be64_def)

lemma length_concat_const: "(\<forall>x \<in> set xs. length (f x) = n) \<Longrightarrow> length (concat (map f xs)) = n * length xs"
  by (induction xs) simp_all

lemma length_digest_be:
  "n div 4 \<le> length st \<Longrightarrow> length (digest_be32 n st) = 4 * (n div 4)"
  "m div 8 \<le> length st' \<Longrightarrow> length (digest_be64 m st') = 8 * (m div 8)"
  unfolding digest_be32_def digest_be64_def
  by (subst length_concat_const [where n = 4], simp_all) (subst length_concat_const [where n = 8], simp_all)

interpretation sha224: md_hash transformSha224 sha224_H0 64 6 8 56 g_sha256padding bits_be32 be_bytes
  "digest_be32 28" 28 initHash_Sha224 updateSha224 finalSha224
  by unfold_locales
     (rule bits_be32_eq | simp add: g_sha256padding_def sha224_H0_def transformSha224_def initHash_Sha224_def updateSha224_def finalSha224_def length_digest_be Let_def)+

interpretation sha256: md_hash transformSha256 sha256_H0 64 6 8 56 g_sha256padding bits_be32 be_bytes
  "digest_be32 32" 32 initHash_Sha256 updateSha256 finalSha256
  by unfold_locales
     (rule bits_be32_eq | simp add: g_sha256padding_def sha256_H0_def transformSha256_def initHash_Sha256_def updateSha256_def finalSha256_def length_digest_be Let_def)+

interpretation sha384: md_hash transformSha384 sha384_H0 128 7 16 112 g_sha512padding bits_be64 be_bytes
  "digest_be64 48" 48 initHash_Sha384 updateSha384 finalSha384
  by unfold_locales
     (rule bits_be64_eq | simp add: g_sha512padding_def sha384_H0_def transformSha384_def initHash_Sha384_def updateSha384_def finalSha384_def length_digest_be Let_def)+

interpretation sha512: md_hash transformSha512 sha512_H0 128 7 16 112 g_sha512padding bits_be64 be_bytes
  "digest_be64 64" 64 initHash_Sha512 updateSha512 finalSha512
  by unfold_locales
     (rule bits_be64_eq | simp add: g_sha512padding_def sha512_H0_def transformSha512_def initHash_Sha512_def updateSha512_def finalSha512_def length_digest_be Let_def)+

end
