(* ===== verification/Sha1.thy ===== *)
theory Sha1
  imports Sha2
begin

text \<open>
  \<^verbatim>\<open>algorithms/hash/src/hashSha1.cpp\<close>: the class \<^verbatim>\<open>HashSha1\<close>. The transform is written with
  the macros \<^verbatim>\<open>R0\<close> to \<^verbatim>\<open>R4\<close> on five variables that change roles from call to call, and with
  a message schedule kept in a window of 16 words that is overwritten in place. Both are
  modelled as they stand: the 80 macro calls are the rows of a table whose entries name
  the variables in the order of the call. The equivalence theorem relates the transform to
  the loop of RFC 3174 (a schedule of 80 words, five variables that are shifted).
\<close>

section \<open>Macros\<close>

definition rol :: "u32 \<Rightarrow> nat \<Rightarrow> u32" where
  "rol v bits = push_bit bits v OR drop_bit (32 - bits) v"

text \<open>\<^verbatim>\<open>blk0(i)\<close> on a little-endian machine: the bytes of \<^verbatim>\<open>block->l[i]\<close> are swapped in place.\<close>

definition blk0 :: "u32 list \<Rightarrow> nat \<Rightarrow> u32" where
  "blk0 block i = (rol (block ! i) 24 AND 0xFF00FF00) OR (rol (block ! i) 8 AND 0x00FF00FF)"

definition blk_mac :: "u32 list \<Rightarrow> nat \<Rightarrow> u32" where
  "blk_mac block i = rol (block ! ((i + 13) mod 16) XOR block ! ((i + 8) mod 16)
     XOR block ! ((i + 2) mod 16) XOR block ! (i mod 16)) 1"

datatype rmacro = R0 | R1 | R2 | R3 | R4

abbreviation (input) "va \<equiv> 0 :: nat"
abbreviation (input) "vb \<equiv> 1 :: nat"
abbreviation (input) "vc \<equiv> 2 :: nat"
abbreviation (input) "vd \<equiv> 3 :: nat"
abbreviation (input) "ve \<equiv> 4 :: nat"

type_synonym rcall = "rmacro \<times> nat \<times> nat \<times> nat \<times> nat \<times> nat \<times> nat"

fun r_mix :: "rmacro \<Rightarrow> u32 \<Rightarrow> u32 \<Rightarrow> u32 \<Rightarrow> u32" where
  "r_mix R0 w x y = (w AND (x XOR y)) XOR y"
| "r_mix R1 w x y = (w AND (x XOR y)) XOR y"
| "r_mix R2 w x y = w XOR x XOR y"
| "r_mix R3 w x y = ((w OR x) AND y) OR (w AND x)"
| "r_mix R4 w x y = w XOR x XOR y"

fun r_const :: "rmacro \<Rightarrow> u32" where
  "r_const R0 = 0x5A827999"
| "r_const R1 = 0x5A827999"
| "r_const R2 = 0x6ED9EBA1"
| "r_const R3 = 0x8F1BBCDC"
| "r_const R4 = 0xCA62C1D6"

text \<open>One call \<^verbatim>\<open>Rk(v,w,x,y,z,i)\<close>: the five variables and the window of 16 words.\<close>

fun r_call :: "u32 list \<times> u32 list \<Rightarrow> rcall \<Rightarrow> u32 list \<times> u32 list" where
  "r_call (vars, block) (r, v, w, x, y, z, i) =
     (let b = (if r = R0 then blk0 block i else blk_mac block i);
          block' = block[i mod 16 := b];
          z' = vars ! z + r_mix r (vars ! w) (vars ! x) (vars ! y) + b + r_const r + rol (vars ! v) 5;
          w' = rol (vars ! w) 30
      in (vars[z := z', w := w'], block'))"

definition sha1_calls :: "rcall list" where
  "sha1_calls =
    [(R0, va, vb, vc, vd, ve, 0), (R0, ve, va, vb, vc, vd, 1), (R0, vd, ve, va, vb, vc, 2), (R0, vc, vd, ve, va, vb, 3),
     (R0, vb, vc, vd, ve, va, 4), (R0, va, vb, vc, vd, ve, 5), (R0, ve, va, vb, vc, vd, 6), (R0, vd, ve, va, vb, vc, 7),
     (R0, vc, vd, ve, va, vb, 8), (R0, vb, vc, vd, ve, va, 9), (R0, va, vb, vc, vd, ve, 10), (R0, ve, va, vb, vc, vd, 11),
     (R0, vd, ve, va, vb, vc, 12), (R0, vc, vd, ve, va, vb, 13), (R0, vb, vc, vd, ve, va, 14), (R0, va, vb, vc, vd, ve, 15),
     (R1, ve, va, vb, vc, vd, 16), (R1, vd, ve, va, vb, vc, 17), (R1, vc, vd, ve, va, vb, 18), (R1, vb, vc, vd, ve, va, 19),
     (R2, va, vb, vc, vd, ve, 20), (R2, ve, va, vb, vc, vd, 21), (R2, vd, ve, va, vb, vc, 22), (R2, vc, vd, ve, va, vb, 23),
     (R2, vb, vc, vd, ve, va, 24), (R2, va, vb, vc, vd, ve, 25), (R2, ve, va, vb, vc, vd, 26), (R2, vd, ve, va, vb, vc, 27),
     (R2, vc, vd, ve, va, vb, 28), (R2, vb, vc, vd, ve, va, 29), (R2, va, vb, vc, vd, ve, 30), (R2, ve, va, vb, vc, vd, 31),
     (R2, vd, ve, va, vb, vc, 32), (R2, vc, vd, ve, va, vb, 33), (R2, vb, vc, vd, ve, va, 34), (R2, va, vb, vc, vd, ve, 35),
     (R2, ve, va, vb, vc, vd, 36), (R2, vd, ve, va, vb, vc, 37), (R2, vc, vd, ve, va, vb, 38), (R2, vb, vc, vd, ve, va, 39),
     (R3, va, vb, vc, vd, ve, 40), (R3, ve, va, vb, vc, vd, 41), (R3, vd, ve, va, vb, vc, 42), (R3, vc, vd, ve, va, vb, 43),
     (R3, vb, vc, vd, ve, va, 44), (R3, va, vb, vc, vd, ve, 45), (R3, ve, va, vb, vc, vd, 46), (R3, vd, ve, va, vb, vc, 47),
     (R3, vc, vd, ve, va, vb, 48), (R3, vb, vc, vd, ve, va, 49), (R3, va, vb, vc, vd, ve, 50), (R3, ve, va, vb, vc, vd, 51),
     (R3, vd, ve, va, vb, vc, 52), (R3, vc, vd, ve, va, vb, 53), (R3, vb, vc, vd, ve, va, 54), (R3, va, vb, vc, vd, ve, 55),
     (R3, ve, va, vb, vc, vd, 56), (R3, vd, ve, va, vb, vc, 57), (R3, vc, vd, ve, va, vb, 58), (R3, vb, vc, vd, ve, va, 59),
     (R4, va, vb, vc, vd, ve, 60), (R4, ve, va, vb, vc, vd, 61), (R4, vd, ve, va, vb, vc, 62), (R4, vc, vd, ve, va, vb, 63),
     (R4, vb, vc, vd, ve, va, 64), (R4, va, vb, vc, vd, ve, 65), (R4, ve, va, vb, vc, vd, 66), (R4, vd, ve, va, vb, vc, 67),
     (R4, vc, vd, ve, va, vb, 68), (R4, vb, vc, vd, ve, va, 69), (R4, va, vb, vc, vd, ve, 70), (R4, ve, va, vb, vc, vd, 71),
     (R4, vd, ve, va, vb, vc, 72), (R4, vc, vd, ve, va, vb, 73), (R4, vb, vc, vd, ve, va, 74), (R4, va, vb, vc, vd, ve, 75),
     (R4, ve, va, vb, vc, vd, 76), (R4, vd, ve, va, vb, vc, 77), (R4, vc, vd, ve, va, vb, 78), (R4, vb, vc, vd, ve, va, 79)]"

definition get_le32 :: "u8 list \<Rightarrow> u32" where
  "get_le32 p = ucast (p ! 0) OR push_bit 8 (ucast (p ! 1))
     OR push_bit 16 (ucast (p ! 2)) OR push_bit 24 (ucast (p ! 3))"

text \<open>\<^verbatim>\<open>memcpy(block, buffer, 64)\<close> read through \<^verbatim>\<open>l[16]\<close>: little-endian words.\<close>

definition sha1_block :: "u8 list \<Rightarrow> u32 list" where
  "sha1_block buffer = map (\<lambda>i. get_le32 (drop (4 * i) buffer)) [0..<16]"

definition transformSha1 :: "u32 list \<Rightarrow> u8 list \<Rightarrow> u32 list" where
  "transformSha1 st buffer =
     (let (vars, block) = foldl r_call (take 5 st, sha1_block buffer) sha1_calls
      in [st ! 0 + vars ! va, st ! 1 + vars ! vb, st ! 2 + vars ! vc, st ! 3 + vars ! vd, st ! 4 + vars ! ve])"

section \<open>Class HashSha1\<close>

definition g_sha1padding :: "u8 list" where
  "g_sha1padding = 0x80 # replicate 63 0"

definition HashSha1 :: "u8 list \<Rightarrow> 32 word md_ctx" where
  "HashSha1 garbage = \<lparr>mState = [0x67452301, 0xEFCDAB89, 0x98BADCFE, 0x10325476, 0xC3D2E1F0],
     mCount0 = 0, mCount1 = 0, mBuffer = garbage\<rparr>"

definition getHashSize_Sha1 :: "u32" where
  "getHashSize_Sha1 = 20"

definition initHash_Sha1 :: "32 word md_ctx \<Rightarrow> 32 word md_ctx" where
  "initHash_Sha1 c = c\<lparr>mState := [0x67452301, 0xEFCDAB89, 0x98BADCFE, 0x10325476, 0xC3D2E1F0],
     mCount0 := 0, mCount1 := 0\<rparr>"

definition updateSha1 :: "32 word md_ctx \<Rightarrow> u8 list \<Rightarrow> u32 \<Rightarrow> 32 word md_ctx option" where
  "updateSha1 = md_update 64 transformSha1"

definition finalSha1 :: "32 word md_ctx \<Rightarrow> (32 word md_ctx \<times> u8 list) option" where
  "finalSha1 c = do { c' \<leftarrow> md_final 64 56 g_sha1padding bits_be32 transformSha1 c;
     Some (c', digest_be32 20 (mState c')) }"

definition calcHash_Sha1 :: "32 word md_ctx \<Rightarrow> chunk_t \<Rightarrow> bool \<Rightarrow> (32 word md_ctx \<times> u8 list option) option" where
  "calcHash_Sha1 = md_calc updateSha1 finalSha1 initHash_Sha1"

section \<open>RFC 3174\<close>

definition sha1_H0 :: "u32 list" where
  "sha1_H0 = [0x67452301, 0xEFCDAB89, 0x98BADCFE, 0x10325476, 0xC3D2E1F0]"

fun sha1_Wt :: "u8 list \<Rightarrow> nat \<Rightarrow> u32" where
  "sha1_Wt M t =
     (if t < 16 then get_be32 (drop (4 * t) M)
      else rol (sha1_Wt M (t - 3) XOR sha1_Wt M (t - 8) XOR sha1_Wt M (t - 14) XOR sha1_Wt M (t - 16)) 1)"

declare sha1_Wt.simps [simp del]

definition sha1_f :: "nat \<Rightarrow> u32 \<Rightarrow> u32 \<Rightarrow> u32 \<Rightarrow> u32" where
  "sha1_f t B C D =
     (if t < 20 then (B AND C) OR (NOT B AND D)
      else if t < 40 then B XOR C XOR D
      else if t < 60 then (B AND C) OR (B AND D) OR (C AND D)
      else B XOR C XOR D)"

definition sha1_Kt :: "nat \<Rightarrow> u32" where
  "sha1_Kt t = (if t < 20 then 0x5A827999 else if t < 40 then 0x6ED9EBA1
     else if t < 60 then 0x8F1BBCDC else 0xCA62C1D6)"

fun sha1_rfc_step :: "u8 list \<Rightarrow> u32 \<times> u32 \<times> u32 \<times> u32 \<times> u32 \<Rightarrow> nat \<Rightarrow> u32 \<times> u32 \<times> u32 \<times> u32 \<times> u32" where
  "sha1_rfc_step M (A, B, C, D, E) t =
     (rol A 5 + sha1_f t B C D + E + sha1_Wt M t + sha1_Kt t, A, rol B 30, C, D)"

fun sha1_rfc_compress :: "u32 list \<Rightarrow> u8 list \<Rightarrow> u32 list" where
  "sha1_rfc_compress [H0, H1, H2, H3, H4] M =
     (case foldl (sha1_rfc_step M) (H0, H1, H2, H3, H4) [0..<80] of
        (A, B, C, D, E) \<Rightarrow> [H0 + A, H1 + B, H2 + C, H3 + D, H4 + E])"
| "sha1_rfc_compress st M = st"

section \<open>The macro calls implement the RFC loop\<close>

text \<open>Where the \<open>j\<close>-th working variable of the RFC is kept before call \<open>t\<close>.\<close>

definition sha1_pos :: "nat \<Rightarrow> nat \<Rightarrow> nat" where
  "sha1_pos j t = (j + 4 * t) mod 5"

lemma sha1_pos_less [simp]: "sha1_pos j t < 5"
  by (simp add: sha1_pos_def)

lemma sha1_pos_Suc:
  "sha1_pos 0 (Suc t) = sha1_pos 4 t" "sha1_pos 1 (Suc t) = sha1_pos 0 t"
  "sha1_pos 2 (Suc t) = sha1_pos 1 t" "sha1_pos 3 (Suc t) = sha1_pos 2 t"
  "sha1_pos 4 (Suc t) = sha1_pos 3 t"
  unfolding sha1_pos_def by presburger+

lemma sha1_pos_inj: "i < 5 \<Longrightarrow> j < 5 \<Longrightarrow> sha1_pos i t = sha1_pos j t \<longleftrightarrow> i = j"
  using shift_mod_inj [of i 5 j "4 * t"] by (auto simp: sha1_pos_def)

definition sha1_kind :: "nat \<Rightarrow> rmacro" where
  "sha1_kind t = (if t < 16 then R0 else if t < 20 then R1 else if t < 40 then R2 else if t < 60 then R3 else R4)"

definition sha1_row :: "nat \<Rightarrow> rcall" where
  "sha1_row t = (sha1_kind t, sha1_pos 0 t, sha1_pos 1 t, sha1_pos 2 t, sha1_pos 3 t, sha1_pos 4 t, t)"

lemma sha1_calls_rows: "sha1_calls = map sha1_row [0..<80]"
  by (simp add: sha1_calls_def sha1_row_def sha1_kind_def sha1_pos_def upt_rec)

lemma bit_u8_out: "8 \<le> m \<Longrightarrow> \<not> bit (b :: u8) m"
  using bit_imp_le_length [of b m] by auto

lemma swap_masks:
  "(0xFF00FF00 :: u32) = push_bit 8 (mask 8) OR push_bit 24 (mask 8)"
  "(0x00FF00FF :: u32) = mask 8 OR push_bit 16 (mask 8)"
  by (simp_all add: mask_numeral)

lemma byte_swap:
  "(rol (get_le32 p) 24 AND 0xFF00FF00) OR (rol (get_le32 p) 8 AND 0x00FF00FF) = get_be32 p"
proof (rule bit_word_eqI)
  fix n assume n: "n < LENGTH(32)"
  consider "n < 8" | "8 \<le> n" "n < 16" | "16 \<le> n" "n < 24" | "24 \<le> n" "n < 32" using n by fastforce
  then show "bit ((rol (get_le32 p) 24 AND 0xFF00FF00) OR (rol (get_le32 p) 8 AND 0x00FF00FF)) n = bit (get_be32 p) n"
    by cases (auto simp: swap_masks rol_def get_le32_def get_be32_def bit_simps bit_u8_out)
qed

lemma r_mix_f: "t < 80 \<Longrightarrow> r_mix (sha1_kind t) w x y = sha1_f t w x y"
proof -
  have "(w AND (x XOR y)) XOR y = (w AND x) OR (NOT w AND y)"
    and "((w OR x) AND y) OR (w AND x) = (w AND x) OR (w AND y) OR (x AND y)"
    by (rule bit_word_eqI; auto simp: bit_simps)+
  then show ?thesis by (simp add: sha1_kind_def sha1_f_def)
qed

lemma r_const_Kt: "r_const (sha1_kind t) = sha1_Kt t"
  by (simp add: sha1_kind_def sha1_Kt_def)

text \<open>
  The five variables hold the RFC's, rotated; the window holds the last 16 schedule words,
  and, before call 16, the message words that are still in memory byte order.
\<close>

definition sha1_inv :: "u8 list \<Rightarrow> nat \<Rightarrow> u32 list \<times> u32 list \<Rightarrow> u32 \<times> u32 \<times> u32 \<times> u32 \<times> u32 \<Rightarrow> bool" where
  "sha1_inv M t = (\<lambda>(vars, block) (A, B, C, D, E).
     length vars = 5 \<and> length block = 16 \<and>
     vars ! sha1_pos 0 t = A \<and> vars ! sha1_pos 1 t = B \<and> vars ! sha1_pos 2 t = C \<and>
     vars ! sha1_pos 3 t = D \<and> vars ! sha1_pos 4 t = E \<and>
     (\<forall>s. s < t \<and> t \<le> s + 16 \<longrightarrow> block ! (s mod 16) = sha1_Wt M s) \<and>
     (\<forall>s < 16. t \<le> s \<longrightarrow> block ! s = get_le32 (drop (4 * s) M)))"

lemma window_word:
  assumes "sha1_inv M t (vars, block) rfc" "t < 80"
  shows "(if sha1_kind t = R0 then blk0 block t else blk_mac block t) = sha1_Wt M t"
proof (cases "t < 16")
  case True
  then have "block ! t = get_le32 (drop (4 * t) M)"
    using assms(1) by (auto simp: sha1_inv_def split: prod.splits)
  then show ?thesis
    using True by (subst sha1_Wt.simps) (simp add: sha1_kind_def blk0_def byte_swap)
next
  case False
  have w: "block ! (s mod 16) = sha1_Wt M s" if "s < t" "t \<le> s + 16" for s
    using assms(1) that by (auto simp: sha1_inv_def split: prod.splits)
  have "t + 13 = (t - 3) + 16" "t + 8 = (t - 8) + 16" "t + 2 = (t - 14) + 16" "t = (t - 16) + 16"
    using False by simp_all
  then have m: "(t + 13) mod 16 = (t - 3) mod 16" "(t + 8) mod 16 = (t - 8) mod 16"
    "(t + 2) mod 16 = (t - 14) mod 16" "t mod 16 = (t - 16) mod 16"
    by (metis mod_add_self2)+
  have "blk_mac block t = rol (sha1_Wt M (t - 3) XOR sha1_Wt M (t - 8) XOR sha1_Wt M (t - 14) XOR sha1_Wt M (t - 16)) 1"
    unfolding blk_mac_def m using False by (simp add: w)
  then show ?thesis
    using False by (subst sha1_Wt.simps) (simp add: sha1_kind_def)
qed

lemma window_update:
  assumes "sha1_inv M t (vars, block) rfc"
  shows "\<forall>s. s < Suc t \<and> Suc t \<le> s + 16 \<longrightarrow> block[t mod 16 := sha1_Wt M t] ! (s mod 16) = sha1_Wt M s"
    and "\<forall>s < 16. Suc t \<le> s \<longrightarrow> block[t mod 16 := x] ! s = get_le32 (drop (4 * s) M)"
proof -
  have len: "length block = 16" using assms by (auto simp: sha1_inv_def split: prod.splits)
  have w: "block ! (s mod 16) = sha1_Wt M s" if "s < t" "t \<le> s + 16" for s
    using assms that by (auto simp: sha1_inv_def split: prod.splits)
  show "\<forall>s. s < Suc t \<and> Suc t \<le> s + 16 \<longrightarrow> block[t mod 16 := sha1_Wt M t] ! (s mod 16) = sha1_Wt M s"
  proof (intro allI impI, elim conjE)
    fix s assume s: "s < Suc t" "Suc t \<le> s + 16"
    show "block[t mod 16 := sha1_Wt M t] ! (s mod 16) = sha1_Wt M s"
      using s len w [of s] window_mod_neq [of s t 16] by (cases "s = t") (simp_all add: nth_list_update)
  qed
  show "\<forall>s < 16. Suc t \<le> s \<longrightarrow> block[t mod 16 := x] ! s = get_le32 (drop (4 * s) M)"
    using assms by (auto simp: sha1_inv_def nth_list_update split: prod.splits)
qed

lemma sha1_step_inv:
  assumes inv: "sha1_inv M t (vars, block) (A, B, C, D, E)" and t: "t < 80"
  shows "sha1_inv M (Suc t) (r_call (vars, block) (sha1_row t)) (sha1_rfc_step M (A, B, C, D, E) t)"
proof -
  note v = inv [unfolded sha1_inv_def prod.case]
  note word = window_word [OF inv t]
  note upd = window_update [OF inv]
  have inj: "sha1_pos i t \<noteq> sha1_pos j t" if "i < 5" "j < 5" "i \<noteq> j" for i j
    using that by (simp add: sha1_pos_inj)
  have call: "r_call (vars, block) (sha1_row t) =
     (vars[sha1_pos 4 t := E + sha1_f t B C D + sha1_Wt M t + sha1_Kt t + rol A 5,
           sha1_pos 1 t := rol B 30], block[t mod 16 := sha1_Wt M t])"
    unfolding sha1_row_def r_call.simps Let_def word using v t by (simp add: r_mix_f r_const_Kt)
  show ?thesis
    unfolding call sha1_rfc_step.simps sha1_inv_def prod.case sha1_pos_Suc
    using v upd by (simp add: inj nth_list_update add_ac)
qed

lemma sha1_fold_inv:
  assumes "t \<le> 80" "sha1_inv M 0 st rfc"
  shows "sha1_inv M t (foldl r_call st (map sha1_row [0..<t])) (foldl (sha1_rfc_step M) rfc [0..<t])"
  using assms
proof (induction t)
  case (Suc t)
  obtain vars block A B C D E where
    eq: "foldl r_call st (map sha1_row [0..<t]) = (vars, block)" "foldl (sha1_rfc_step M) rfc [0..<t] = (A, B, C, D, E)"
    by (metis prod.collapse)
  then show ?case using Suc sha1_step_inv [of M t vars block A B C D E] by simp
qed simp

lemma length_5E:
  assumes "length xs = 5"
  obtains a b c d e where "xs = [a, b, c, d, e]"
  using assms by (auto simp: numeral_eq_Suc length_Suc_conv)

text \<open>
  C2: The SHA-1 transform computes the compression function of RFC 3174: the 80 macro calls
  on five variables with rotating roles and the schedule kept in 16 words that are
  overwritten in place (bytes swapped on the fly) have the effect of the RFC's loop over a
  schedule of 80 words, for every chaining value and every block.
\<close>

theorem transformSha1_rfc:
  assumes "length st = 5"
  shows "transformSha1 st buffer = sha1_rfc_compress st buffer"
proof -
  obtain H0 H1 H2 H3 H4 where st: "st = [H0, H1, H2, H3, H4]" using length_5E [OF assms] .
  have init: "sha1_inv buffer 0 (take 5 st, sha1_block buffer) (H0, H1, H2, H3, H4)"
    by (simp add: sha1_inv_def st sha1_pos_def sha1_block_def)
  obtain vars block A B C D E where
    eq: "foldl r_call (take 5 st, sha1_block buffer) sha1_calls = (vars, block)"
      "foldl (sha1_rfc_step buffer) (H0, H1, H2, H3, H4) [0..<80] = (A, B, C, D, E)"
    by (metis prod.collapse)
  have "sha1_inv buffer 80 (vars, block) (A, B, C, D, E)"
    using sha1_fold_inv [OF order_refl init] by (simp only: sha1_calls_rows [symmetric] eq)
  then have "vars ! 0 = A" "vars ! 1 = B" "vars ! 2 = C" "vars ! 3 = D" "vars ! 4 = E"
    by (simp_all add: sha1_inv_def sha1_pos_def)
  then show ?thesis
    unfolding transformSha1_def eq(1) Let_def prod.case
    by (simp add: st eq(2) del: upt_rec_numeral)
qed

theorem transformSha1_rfc_witness:
  "transformSha1 sha1_H0 (map of_nat [0..<64]) = sha1_rfc_compress sha1_H0 (map of_nat [0..<64])"
  using transformSha1_rfc [of sha1_H0 "map of_nat [0..<64]"] by (simp add: sha1_H0_def del: upt_rec_numeral)

section \<open>Correctness of the class\<close>

lemma length_transformSha1 [simp]: "length (transformSha1 st b) = 5"
  by (simp add: transformSha1_def Let_def split: prod.splits)

interpretation sha1: md_hash transformSha1 sha1_H0 64 6 8 56 g_sha1padding bits_be32 be_bytes
  "digest_be32 20" 20 initHash_Sha1 updateSha1 finalSha1
  by unfold_locales
     (rule bits_be32_eq | simp add: g_sha1padding_def sha1_H0_def initHash_Sha1_def updateSha1_def finalSha1_def length_digest_be)+

end
