(* ===== verification/Md5.thy ===== *)
theory Md5
  imports Sha1
begin

text \<open>
  \<^verbatim>\<open>algorithms/hash/src/hashMd5.cpp\<close>: the class \<^verbatim>\<open>HashMd5\<close>. The 64 macro calls of the
  transform are the rows of a table, the variables in the order of the call. The
  equivalence theorem relates it to MD5 as a loop over 64 steps whose message index and
  rotation are formulas of the step number.
\<close>

section \<open>Macros\<close>

abbreviation (input) "S11 \<equiv> 7 :: nat"
abbreviation (input) "S12 \<equiv> 12 :: nat"
abbreviation (input) "S13 \<equiv> 17 :: nat"
abbreviation (input) "S14 \<equiv> 22 :: nat"
abbreviation (input) "S21 \<equiv> 5 :: nat"
abbreviation (input) "S22 \<equiv> 9 :: nat"
abbreviation (input) "S23 \<equiv> 14 :: nat"
abbreviation (input) "S24 \<equiv> 20 :: nat"
abbreviation (input) "S31 \<equiv> 4 :: nat"
abbreviation (input) "S32 \<equiv> 11 :: nat"
abbreviation (input) "S33 \<equiv> 16 :: nat"
abbreviation (input) "S34 \<equiv> 23 :: nat"
abbreviation (input) "S41 \<equiv> 6 :: nat"
abbreviation (input) "S42 \<equiv> 10 :: nat"
abbreviation (input) "S43 \<equiv> 15 :: nat"
abbreviation (input) "S44 \<equiv> 21 :: nat"

definition F_md5 :: "u32 \<Rightarrow> u32 \<Rightarrow> u32 \<Rightarrow> u32" where
  "F_md5 x y z = (x AND y) OR (NOT x AND z)"

definition G_md5 :: "u32 \<Rightarrow> u32 \<Rightarrow> u32 \<Rightarrow> u32" where
  "G_md5 x y z = (x AND z) OR (y AND NOT z)"

definition H_md5 :: "u32 \<Rightarrow> u32 \<Rightarrow> u32 \<Rightarrow> u32" where
  "H_md5 x y z = x XOR y XOR z"

definition I_md5 :: "u32 \<Rightarrow> u32 \<Rightarrow> u32 \<Rightarrow> u32" where
  "I_md5 x y z = y XOR (x OR NOT z)"

definition ROTATE_LEFT :: "u32 \<Rightarrow> nat \<Rightarrow> u32" where
  "ROTATE_LEFT x n = push_bit n x OR drop_bit (32 - n) x"

datatype md5macro = FF | GG | HH | II

fun md5_fun :: "md5macro \<Rightarrow> u32 \<Rightarrow> u32 \<Rightarrow> u32 \<Rightarrow> u32" where
  "md5_fun FF = F_md5"
| "md5_fun GG = G_md5"
| "md5_fun HH = H_md5"
| "md5_fun II = I_md5"

type_synonym md5call = "md5macro \<times> nat \<times> nat \<times> nat \<times> nat \<times> nat \<times> nat \<times> u32"

text \<open>
  One call \<^verbatim>\<open>FF(a, b, c, d, x, s, ac)\<close>: \<^verbatim>\<open>a += F(b,c,d) + x + ac; a = ROTATE_LEFT(a, s); a += b\<close>.
\<close>

fun md5_call :: "u32 list \<Rightarrow> u32 list \<Rightarrow> md5call \<Rightarrow> u32 list" where
  "md5_call x vars (m, a, b, c, d, k, s, ac) =
     (let a1 = vars ! a + (md5_fun m (vars ! b) (vars ! c) (vars ! d) + x ! k + ac);
          a2 = ROTATE_LEFT a1 s
      in vars[a := a2 + vars ! b])"

definition md5_calls :: "md5call list" where
  "md5_calls =
    [(FF, va, vb, vc, vd, 0, S11, 0xd76aa478), (FF, vd, va, vb, vc, 1, S12, 0xe8c7b756),
     (FF, vc, vd, va, vb, 2, S13, 0x242070db), (FF, vb, vc, vd, va, 3, S14, 0xc1bdceee),
     (FF, va, vb, vc, vd, 4, S11, 0xf57c0faf), (FF, vd, va, vb, vc, 5, S12, 0x4787c62a),
     (FF, vc, vd, va, vb, 6, S13, 0xa8304613), (FF, vb, vc, vd, va, 7, S14, 0xfd469501),
     (FF, va, vb, vc, vd, 8, S11, 0x698098d8), (FF, vd, va, vb, vc, 9, S12, 0x8b44f7af),
     (FF, vc, vd, va, vb, 10, S13, 0xffff5bb1), (FF, vb, vc, vd, va, 11, S14, 0x895cd7be),
     (FF, va, vb, vc, vd, 12, S11, 0x6b901122), (FF, vd, va, vb, vc, 13, S12, 0xfd987193),
     (FF, vc, vd, va, vb, 14, S13, 0xa679438e), (FF, vb, vc, vd, va, 15, S14, 0x49b40821),
     (GG, va, vb, vc, vd, 1, S21, 0xf61e2562), (GG, vd, va, vb, vc, 6, S22, 0xc040b340),
     (GG, vc, vd, va, vb, 11, S23, 0x265e5a51), (GG, vb, vc, vd, va, 0, S24, 0xe9b6c7aa),
     (GG, va, vb, vc, vd, 5, S21, 0xd62f105d), (GG, vd, va, vb, vc, 10, S22, 0x2441453),
     (GG, vc, vd, va, vb, 15, S23, 0xd8a1e681), (GG, vb, vc, vd, va, 4, S24, 0xe7d3fbc8),
     (GG, va, vb, vc, vd, 9, S21, 0x21e1cde6), (GG, vd, va, vb, vc, 14, S22, 0xc33707d6),
     (GG, vc, vd, va, vb, 3, S23, 0xf4d50d87), (GG, vb, vc, vd, va, 8, S24, 0x455a14ed),
     (GG, va, vb, vc, vd, 13, S21, 0xa9e3e905), (GG, vd, va, vb, vc, 2, S22, 0xfcefa3f8),
     (GG, vc, vd, va, vb, 7, S23, 0x676f02d9), (GG, vb, vc, vd, va, 12, S24, 0x8d2a4c8a),
     (HH, va, vb, vc, vd, 5, S31, 0xfffa3942), (HH, vd, va, vb, vc, 8, S32, 0x8771f681),
     (HH, vc, vd, va, vb, 11, S33, 0x6d9d6122), (HH, vb, vc, vd, va, 14, S34, 0xfde5380c),
     (HH, va, vb, vc, vd, 1, S31, 0xa4beea44), (HH, vd, va, vb, vc, 4, S32, 0x4bdecfa9),
     (HH, vc, vd, va, vb, 7, S33, 0xf6bb4b60), (HH, vb, vc, vd, va, 10, S34, 0xbebfbc70),
     (HH, va, vb, vc, vd, 13, S31, 0x289b7ec6), (HH, vd, va, vb, vc, 0, S32, 0xeaa127fa),
     (HH, vc, vd, va, vb, 3, S33, 0xd4ef3085), (HH, vb, vc, vd, va, 6, S34, 0x4881d05),
     (HH, va, vb, vc, vd, 9, S31, 0xd9d4d039), (HH, vd, va, vb, vc, 12, S32, 0xe6db99e5),
     (HH, vc, vd, va, vb, 15, S33, 0x1fa27cf8), (HH, vb, vc, vd, va, 2, S34, 0xc4ac5665),
     (II, va, vb, vc, vd, 0, S41, 0xf4292244), (II, vd, va, vb, vc, 7, S42, 0x432aff97),
     (II, vc, vd, va, vb, 14, S43, 0xab9423a7), (II, vb, vc, vd, va, 5, S44, 0xfc93a039),
     (II, va, vb, vc, vd, 12, S41, 0x655b59c3), (II, vd, va, vb, vc, 3, S42, 0x8f0ccc92),
     (II, vc, vd, va, vb, 10, S43, 0xffeff47d), (II, vb, vc, vd, va, 1, S44, 0x85845dd1),
     (II, va, vb, vc, vd, 8, S41, 0x6fa87e4f), (II, vd, va, vb, vc, 15, S42, 0xfe2ce6e0),
     (II, vc, vd, va, vb, 6, S43, 0xa3014314), (II, vb, vc, vd, va, 13, S44, 0x4e0811a1),
     (II, va, vb, vc, vd, 4, S41, 0xf7537e82), (II, vd, va, vb, vc, 11, S42, 0xbd3af235),
     (II, vc, vd, va, vb, 2, S43, 0x2ad7d2bb), (II, vb, vc, vd, va, 9, S44, 0xeb86d391)]"

section \<open>Encode and Decode\<close>

definition put_le32 :: "u32 \<Rightarrow> u8 list" where
  "put_le32 x = [ucast (x AND 0xff), ucast (drop_bit 8 x AND 0xff),
     ucast (drop_bit 16 x AND 0xff), ucast (drop_bit 24 x AND 0xff)]"

text \<open>\<^verbatim>\<open>Encode(output, input, len)\<close>, for a multiple of 4.\<close>

definition Encode_md5 :: "u32 list \<Rightarrow> nat \<Rightarrow> u8 list" where
  "Encode_md5 inp n = concat (map put_le32 (take (n div 4) inp))"

definition Decode_md5 :: "u8 list \<Rightarrow> nat \<Rightarrow> u32 list" where
  "Decode_md5 inp n = map (\<lambda>i. get_le32 (drop (4 * i) inp)) [0..<n div 4]"

definition transformMd5 :: "u32 list \<Rightarrow> u8 list \<Rightarrow> u32 list" where
  "transformMd5 st block =
     (let x = Decode_md5 block 64;
          vars = foldl (md5_call x) (take 4 st) md5_calls
      in [st ! 0 + vars ! va, st ! 1 + vars ! vb, st ! 2 + vars ! vc, st ! 3 + vars ! vd])"

section \<open>Class HashMd5\<close>

definition g_md5padding :: "u8 list" where
  "g_md5padding = 0x80 # replicate 63 0"

definition HashMd5 :: "u8 list \<Rightarrow> 32 word md_ctx" where
  "HashMd5 garbage = \<lparr>mState = [0x67452301, 0xefcdab89, 0x98badcfe, 0x10325476],
     mCount0 = 0, mCount1 = 0, mBuffer = garbage\<rparr>"

definition getHashSize_Md5 :: "u32" where
  "getHashSize_Md5 = 16"

definition initHash_Md5 :: "32 word md_ctx \<Rightarrow> 32 word md_ctx" where
  "initHash_Md5 c = c\<lparr>mState := [0x67452301, 0xefcdab89, 0x98badcfe, 0x10325476],
     mCount0 := 0, mCount1 := 0\<rparr>"

definition updateMd5 :: "32 word md_ctx \<Rightarrow> u8 list \<Rightarrow> u32 \<Rightarrow> 32 word md_ctx option" where
  "updateMd5 = md_update 64 transformMd5"

definition bits_le32 :: "u32 \<Rightarrow> u32 \<Rightarrow> u8 list" where
  "bits_le32 c0 c1 =
     [ucast c0, ucast (drop_bit 8 c0), ucast (drop_bit 16 c0), ucast (drop_bit 24 c0),
      ucast c1, ucast (drop_bit 8 c1), ucast (drop_bit 16 c1), ucast (drop_bit 24 c1)]"

definition finalMd5 :: "32 word md_ctx \<Rightarrow> (32 word md_ctx \<times> u8 list) option" where
  "finalMd5 c = do { c' \<leftarrow> md_final 64 56 g_md5padding bits_le32 transformMd5 c;
     Some (c', Encode_md5 (mState c') 16) }"

definition calcHash_Md5 :: "32 word md_ctx \<Rightarrow> chunk_t \<Rightarrow> bool \<Rightarrow> (32 word md_ctx \<times> u8 list option) option" where
  "calcHash_Md5 = md_calc updateMd5 finalMd5 initHash_Md5"

section \<open>RFC 1321 as a loop\<close>

definition md5_H0 :: "u32 list" where
  "md5_H0 = [0x67452301, 0xefcdab89, 0x98badcfe, 0x10325476]"

definition md5_round :: "nat \<Rightarrow> md5macro" where
  "md5_round i = (if i < 16 then FF else if i < 32 then GG else if i < 48 then HH else II)"

definition md5_index :: "nat \<Rightarrow> nat" where
  "md5_index i = (if i < 16 then i else if i < 32 then (5 * i + 1) mod 16
     else if i < 48 then (3 * i + 5) mod 16 else 7 * i mod 16)"

definition md5_shift :: "nat \<Rightarrow> nat" where
  "md5_shift i = [7, 12, 17, 22, 5, 9, 14, 20, 4, 11, 16, 23, 6, 10, 15, 21] ! (4 * (i div 16) + i mod 4)"

text \<open>
  The table \<^verbatim>\<open>T[1 ... 64]\<close> of RFC 1321: \<^verbatim>\<open>T[i]\<close> is the integer part of \<open>2^32 * abs (sin i)\<close>.
\<close>

definition md5_T :: "u32 list" where
  "md5_T =
    [0xd76aa478, 0xe8c7b756, 0x242070db, 0xc1bdceee, 0xf57c0faf, 0x4787c62a,
     0xa8304613, 0xfd469501, 0x698098d8, 0x8b44f7af, 0xffff5bb1, 0x895cd7be,
     0x6b901122, 0xfd987193, 0xa679438e, 0x49b40821, 0xf61e2562, 0xc040b340,
     0x265e5a51, 0xe9b6c7aa, 0xd62f105d, 0x02441453, 0xd8a1e681, 0xe7d3fbc8,
     0x21e1cde6, 0xc33707d6, 0xf4d50d87, 0x455a14ed, 0xa9e3e905, 0xfcefa3f8,
     0x676f02d9, 0x8d2a4c8a, 0xfffa3942, 0x8771f681, 0x6d9d6122, 0xfde5380c,
     0xa4beea44, 0x4bdecfa9, 0xf6bb4b60, 0xbebfbc70, 0x289b7ec6, 0xeaa127fa,
     0xd4ef3085, 0x04881d05, 0xd9d4d039, 0xe6db99e5, 0x1fa27cf8, 0xc4ac5665,
     0xf4292244, 0x432aff97, 0xab9423a7, 0xfc93a039, 0x655b59c3, 0x8f0ccc92,
     0xffeff47d, 0x85845dd1, 0x6fa87e4f, 0xfe2ce6e0, 0xa3014314, 0x4e0811a1,
     0xf7537e82, 0xbd3af235, 0x2ad7d2bb, 0xeb86d391]"

fun md5_rfc_step :: "u32 list \<Rightarrow> u32 \<times> u32 \<times> u32 \<times> u32 \<Rightarrow> nat \<Rightarrow> u32 \<times> u32 \<times> u32 \<times> u32" where
  "md5_rfc_step X (A, B, C, D) i =
     (D, B + ROTATE_LEFT (A + md5_fun (md5_round i) B C D + X ! md5_index i + md5_T ! i) (md5_shift i), B, C)"

fun md5_rfc_compress :: "u32 list \<Rightarrow> u8 list \<Rightarrow> u32 list" where
  "md5_rfc_compress [A, B, C, D] M =
     (case foldl (md5_rfc_step (Decode_md5 M 64)) (A, B, C, D) [0..<64] of
        (A', B', C', D') \<Rightarrow> [A + A', B + B', C + C', D + D'])"
| "md5_rfc_compress st M = st"

section \<open>The macro calls implement the loop\<close>

definition md5_pos :: "nat \<Rightarrow> nat \<Rightarrow> nat" where
  "md5_pos j t = (j + 3 * t) mod 4"

lemma md5_pos_less [simp]: "md5_pos j t < 4"
  by (simp add: md5_pos_def)

lemma md5_pos_Suc:
  "md5_pos 0 (Suc t) = md5_pos 3 t" "md5_pos 1 (Suc t) = md5_pos 0 t"
  "md5_pos 2 (Suc t) = md5_pos 1 t" "md5_pos 3 (Suc t) = md5_pos 2 t"
  unfolding md5_pos_def by presburger+

lemma md5_pos_inj: "i < 4 \<Longrightarrow> j < 4 \<Longrightarrow> md5_pos i t = md5_pos j t \<longleftrightarrow> i = j"
  using shift_mod_inj [of i 4 j "3 * t"] by (auto simp: md5_pos_def)

definition md5_row :: "nat \<Rightarrow> md5call" where
  "md5_row t = (md5_round t, md5_pos 0 t, md5_pos 1 t, md5_pos 2 t, md5_pos 3 t,
     md5_index t, md5_shift t, md5_T ! t)"

lemma md5_calls_rows: "md5_calls = map md5_row [0..<64]"
  by (simp add: md5_calls_def md5_row_def md5_round_def md5_pos_def md5_index_def md5_shift_def md5_T_def upt_rec)

definition md5_inv :: "nat \<Rightarrow> u32 list \<Rightarrow> u32 \<times> u32 \<times> u32 \<times> u32 \<Rightarrow> bool" where
  "md5_inv t vars = (\<lambda>(A, B, C, D). length vars = 4 \<and> vars ! md5_pos 0 t = A \<and> vars ! md5_pos 1 t = B
     \<and> vars ! md5_pos 2 t = C \<and> vars ! md5_pos 3 t = D)"

lemma md5_step_inv:
  assumes inv: "md5_inv t vars (A, B, C, D)"
  shows "md5_inv (Suc t) (md5_call X vars (md5_row t)) (md5_rfc_step X (A, B, C, D) t)"
proof -
  note v = inv [unfolded md5_inv_def prod.case]
  have inj: "md5_pos i t \<noteq> md5_pos j t" if "i < 4" "j < 4" "i \<noteq> j" for i j
    using that by (simp add: md5_pos_inj)
  have call: "md5_call X vars (md5_row t) = vars[md5_pos 0 t :=
      B + ROTATE_LEFT (A + md5_fun (md5_round t) B C D + X ! md5_index t + md5_T ! t) (md5_shift t)]"
    unfolding md5_row_def md5_call.simps Let_def using v by (simp add: add_ac)
  show ?thesis
    unfolding call md5_rfc_step.simps md5_inv_def prod.case md5_pos_Suc
    using v by (simp add: inj nth_list_update)
qed

lemma md5_fold_inv:
  "md5_inv 0 vars rfc \<Longrightarrow> md5_inv t (foldl (md5_call X) vars (map md5_row [0..<t])) (foldl (md5_rfc_step X) rfc [0..<t])"
proof (induction t)
  case (Suc t)
  obtain A B C D where "foldl (md5_rfc_step X) rfc [0..<t] = (A, B, C, D)" by (metis prod.collapse)
  then show ?case using Suc md5_step_inv [of t _ A B C D] by simp
qed simp

lemma length_4E:
  assumes "length xs = 4"
  obtains a b c d where "xs = [a, b, c, d]"
  using assms by (auto simp: numeral_eq_Suc length_Suc_conv)

text \<open>
  C3: The MD5 transform computes the compression function of RFC 1321: the 64 unrolled macro
  calls have the effect of the loop of 64 steps with the RFC's message index, rotation and
  sine table, for every chaining value and every block.
\<close>

theorem transformMd5_rfc:
  assumes "length st = 4"
  shows "transformMd5 st block = md5_rfc_compress st block"
proof -
  obtain A0 B0 C0 D0 where st: "st = [A0, B0, C0, D0]" using length_4E [OF assms] .
  have init: "md5_inv 0 (take 4 st) (A0, B0, C0, D0)" by (simp add: md5_inv_def st md5_pos_def)
  define vars where "vars = foldl (md5_call (Decode_md5 block 64)) (take 4 st) md5_calls"
  obtain A B C D where rfc: "foldl (md5_rfc_step (Decode_md5 block 64)) (A0, B0, C0, D0) [0..<64] = (A, B, C, D)"
    by (metis prod.collapse)
  have "md5_inv 64 vars (A, B, C, D)"
    using md5_fold_inv [OF init, of 64 "Decode_md5 block 64"] by (simp only: md5_calls_rows [symmetric] rfc vars_def)
  then have "vars ! 0 = A" "vars ! 1 = B" "vars ! 2 = C" "vars ! 3 = D"
    by (simp_all add: md5_inv_def md5_pos_def)
  then show ?thesis
    unfolding transformMd5_def Let_def vars_def [symmetric]
    by (simp add: st rfc del: upt_rec_numeral)
qed

theorem transformMd5_rfc_witness:
  "transformMd5 md5_H0 (map of_nat [0..<64]) = md5_rfc_compress md5_H0 (map of_nat [0..<64])"
  using transformMd5_rfc [of md5_H0 "map of_nat [0..<64]"] by (simp add: md5_H0_def del: upt_rec_numeral)

section \<open>Correctness of the class\<close>

lemma bits_le32_eq: "bits_le32 (of_nat x) (of_nat (x div 2 ^ LENGTH(32))) = le_bytes 8 x"
  by (simp add: bits_le32_def le_bytes_def upt_rec ucast_drop_bit_of_nat ucast_of_nat_u8
      div_mult2_eq [symmetric])

lemma length_le_bytes [simp]: "length (le_bytes n x) = n"
  by (simp add: le_bytes_def)

lemma length_Encode_md5: "n div 4 \<le> length st \<Longrightarrow> length (Encode_md5 st n) = 4 * (n div 4)"
  unfolding Encode_md5_def by (subst length_concat_const [where n = 4]) (simp_all add: put_le32_def)

interpretation md5: md_hash transformMd5 md5_H0 64 6 8 56 g_md5padding bits_le32 le_bytes
  "\<lambda>st. Encode_md5 st 16" 16 initHash_Md5 updateMd5 finalMd5
  by unfold_locales
     (rule bits_le32_eq | simp add: g_md5padding_def md5_H0_def transformMd5_def initHash_Md5_def updateMd5_def finalMd5_def length_Encode_md5 Let_def)+

end
