(* ===== verification/HashInterface.thy ===== *)
theory HashInterface
  imports Md5
begin

text \<open>
  \<^verbatim>\<open>algorithms/hash/inc/hashInterface.h\<close>: the abstract class \<^verbatim>\<open>HashInterface\<close> and its six
  implementations. A pointer to a \<^verbatim>\<open>HashInterface\<close> holds an object of one of the six
  classes; a virtual call dispatches on it. The specification side gives the function each
  class computes and the contract (locale \<^verbatim>\<open>hash_interface\<close>) the virtual calls keep.
\<close>

section \<open>HashType_e\<close>

datatype HashType_e = HASH_SHA1 | HASH_SHA2_256 | HASH_SHA2_384 | HASH_SHA2_512 | HASH_UNKNOWN
  | HASH_MD2 | HASH_MD4 | HASH_MD5 | HASH_SHA2_224 | HASH_SHA3_224 | HASH_SHA3_256
  | HASH_SHA3_384 | HASH_SHA3_512 | HASH_SM3

fun HashType_value :: "HashType_e \<Rightarrow> u32" where
  "HashType_value HASH_SHA1 = 1"
| "HashType_value HASH_SHA2_256 = 2"
| "HashType_value HASH_SHA2_384 = 3"
| "HashType_value HASH_SHA2_512 = 4"
| "HashType_value HASH_UNKNOWN = 1024"
| "HashType_value HASH_MD2 = 1025"
| "HashType_value HASH_MD4 = 1026"
| "HashType_value HASH_MD5 = 1027"
| "HashType_value HASH_SHA2_224 = 1028"
| "HashType_value HASH_SHA3_224 = 1029"
| "HashType_value HASH_SHA3_256 = 1030"
| "HashType_value HASH_SHA3_384 = 1031"
| "HashType_value HASH_SHA3_512 = 1032"
| "HashType_value HASH_SM3 = 1100"

lemma HashType_value_inj: "HashType_value s = HashType_value t \<longleftrightarrow> s = t"
  by (cases s; cases t; simp)

section \<open>Objects and virtual calls\<close>

datatype hash_obj =
    ObjMd5 "32 word md_ctx"
  | ObjSha1 "32 word md_ctx"
  | ObjSha224 "32 word md_ctx"
  | ObjSha256 "32 word md_ctx"
  | ObjSha384 "64 word md_ctx"
  | ObjSha512 "64 word md_ctx"

fun getHashType :: "hash_obj \<Rightarrow> HashType_e" where
  "getHashType (ObjMd5 c) = HASH_MD5"
| "getHashType (ObjSha1 c) = HASH_SHA1"
| "getHashType (ObjSha224 c) = HASH_SHA2_224"
| "getHashType (ObjSha256 c) = HASH_SHA2_256"
| "getHashType (ObjSha384 c) = HASH_SHA2_384"
| "getHashType (ObjSha512 c) = HASH_SHA2_512"

fun getHashSize :: "hash_obj \<Rightarrow> u32" where
  "getHashSize (ObjMd5 c) = getHashSize_Md5"
| "getHashSize (ObjSha1 c) = getHashSize_Sha1"
| "getHashSize (ObjSha224 c) = getHashSize_Sha224"
| "getHashSize (ObjSha256 c) = getHashSize_Sha256"
| "getHashSize (ObjSha384 c) = getHashSize_Sha384"
| "getHashSize (ObjSha512 c) = getHashSize_Sha512"

fun initHash :: "hash_obj \<Rightarrow> hash_obj" where
  "initHash (ObjMd5 c) = ObjMd5 (initHash_Md5 c)"
| "initHash (ObjSha1 c) = ObjSha1 (initHash_Sha1 c)"
| "initHash (ObjSha224 c) = ObjSha224 (initHash_Sha224 c)"
| "initHash (ObjSha256 c) = ObjSha256 (initHash_Sha256 c)"
| "initHash (ObjSha384 c) = ObjSha384 (initHash_Sha384 c)"
| "initHash (ObjSha512 c) = ObjSha512 (initHash_Sha512 c)"

fun calcHash :: "hash_obj \<Rightarrow> chunk_t \<Rightarrow> bool \<Rightarrow> (hash_obj \<times> u8 list option) option" where
  "calcHash (ObjMd5 c) x d = map_option (apfst ObjMd5) (calcHash_Md5 c x d)"
| "calcHash (ObjSha1 c) x d = map_option (apfst ObjSha1) (calcHash_Sha1 c x d)"
| "calcHash (ObjSha224 c) x d = map_option (apfst ObjSha224) (calcHash_Sha224 c x d)"
| "calcHash (ObjSha256 c) x d = map_option (apfst ObjSha256) (calcHash_Sha256 c x d)"
| "calcHash (ObjSha384 c) x d = map_option (apfst ObjSha384) (calcHash_Sha384 c x d)"
| "calcHash (ObjSha512 c) x d = map_option (apfst ObjSha512) (calcHash_Sha512 c x d)"

section \<open>Specification\<close>

text \<open>The length of a digest and of a block, in bytes, of the supported algorithms.\<close>

fun digest_size :: "HashType_e \<Rightarrow> nat" where
  "digest_size HASH_MD5 = 16"
| "digest_size HASH_SHA1 = 20"
| "digest_size HASH_SHA2_224 = 28"
| "digest_size HASH_SHA2_256 = 32"
| "digest_size HASH_SHA2_384 = 48"
| "digest_size HASH_SHA2_512 = 64"
| "digest_size _ = 0"

fun block_size :: "HashType_e \<Rightarrow> nat" where
  "block_size HASH_MD5 = 64"
| "block_size HASH_SHA1 = 64"
| "block_size HASH_SHA2_224 = 64"
| "block_size HASH_SHA2_256 = 64"
| "block_size HASH_SHA2_384 = 128"
| "block_size HASH_SHA2_512 = 128"
| "block_size _ = 0"

definition supported :: "HashType_e \<Rightarrow> bool" where
  "supported t \<longleftrightarrow> t \<in> {HASH_MD5, HASH_SHA1, HASH_SHA2_224, HASH_SHA2_256, HASH_SHA2_384, HASH_SHA2_512}"

text \<open>
  The hash of a whole message: pad it, cut it into blocks, fold the compression function
  over the blocks from the initial value, and write the chaining words out.
\<close>

fun hash_spec :: "HashType_e \<Rightarrow> u8 list \<Rightarrow> u8 list" where
  "hash_spec HASH_MD5 m = Encode_md5 (md_digest_state transformMd5 md5_H0 64 (md_pad 64 8 le_bytes m)) 16"
| "hash_spec HASH_SHA1 m = digest_be32 20 (md_digest_state transformSha1 sha1_H0 64 (md_pad 64 8 be_bytes m))"
| "hash_spec HASH_SHA2_224 m = digest_be32 28 (md_digest_state transformSha224 sha224_H0 64 (md_pad 64 8 be_bytes m))"
| "hash_spec HASH_SHA2_256 m = digest_be32 32 (md_digest_state transformSha256 sha256_H0 64 (md_pad 64 8 be_bytes m))"
| "hash_spec HASH_SHA2_384 m = digest_be64 48 (md_digest_state transformSha384 sha384_H0 128 (md_pad 128 16 be_bytes m))"
| "hash_spec HASH_SHA2_512 m = digest_be64 64 (md_digest_state transformSha512 sha512_H0 128 (md_pad 128 16 be_bytes m))"
| "hash_spec _ m = []"

text \<open>An object of algorithm \<open>t\<close> that has taken in the message \<open>m\<close>.\<close>

fun obj_rep :: "HashType_e \<Rightarrow> hash_obj \<Rightarrow> u8 list \<Rightarrow> bool" where
  "obj_rep t (ObjMd5 c) m \<longleftrightarrow> t = HASH_MD5 \<and> md_rep transformMd5 md5_H0 64 c m"
| "obj_rep t (ObjSha1 c) m \<longleftrightarrow> t = HASH_SHA1 \<and> md_rep transformSha1 sha1_H0 64 c m"
| "obj_rep t (ObjSha224 c) m \<longleftrightarrow> t = HASH_SHA2_224 \<and> md_rep transformSha224 sha224_H0 64 c m"
| "obj_rep t (ObjSha256 c) m \<longleftrightarrow> t = HASH_SHA2_256 \<and> md_rep transformSha256 sha256_H0 64 c m"
| "obj_rep t (ObjSha384 c) m \<longleftrightarrow> t = HASH_SHA2_384 \<and> md_rep transformSha384 sha384_H0 128 c m"
| "obj_rep t (ObjSha512 c) m \<longleftrightarrow> t = HASH_SHA2_512 \<and> md_rep transformSha512 sha512_H0 128 c m"

lemma obj_rep_type: "obj_rep t ob m \<Longrightarrow> getHashType ob = t \<and> unat (getHashSize ob) = digest_size t \<and> supported t"
  by (cases ob) (simp_all add: supported_def getHashSize_Md5_def getHashSize_Sha1_def getHashSize_Sha224_def
    getHashSize_Sha256_def getHashSize_Sha384_def getHashSize_Sha512_def)

lemma length_hash_spec [simp]: "length (hash_spec t m) = digest_size t"
  by (cases t) (simp_all add: md5.length_hash sha1.length_hash sha224.length_hash sha256.length_hash
    sha384.length_hash sha512.length_hash)

interpretation obj: hash_interface "obj_rep t" initHash calcHash "hash_spec t" "digest_size t" for t
proof (unfold_locales, goal_cases)
  case (1 c m)
  then show ?case
    by (cases c) (auto intro: md5.rep_ini sha1.rep_ini sha224.rep_ini sha256.rep_ini sha384.rep_ini sha512.rep_ini)
next
  case (2 c m x)
  show ?case
  proof (cases c)
    case (ObjMd5 c1)
    with 2 md5.calc_part [of c1 m x] show ?thesis by (auto simp: calcHash_Md5_def)
  next
    case (ObjSha1 c1)
    with 2 sha1.calc_part [of c1 m x] show ?thesis by (auto simp: calcHash_Sha1_def)
  next
    case (ObjSha224 c1)
    with 2 sha224.calc_part [of c1 m x] show ?thesis by (auto simp: calcHash_Sha224_def)
  next
    case (ObjSha256 c1)
    with 2 sha256.calc_part [of c1 m x] show ?thesis by (auto simp: calcHash_Sha256_def)
  next
    case (ObjSha384 c1)
    with 2 sha384.calc_part [of c1 m x] show ?thesis by (auto simp: calcHash_Sha384_def)
  next
    case (ObjSha512 c1)
    with 2 sha512.calc_part [of c1 m x] show ?thesis by (auto simp: calcHash_Sha512_def)
  qed
next
  case (3 c m x)
  show ?case
  proof (cases c)
    case (ObjMd5 c1)
    with 3 md5.calc_digest [of c1 m x] show ?thesis by (auto simp: calcHash_Md5_def)
  next
    case (ObjSha1 c1)
    with 3 sha1.calc_digest [of c1 m x] show ?thesis by (auto simp: calcHash_Sha1_def)
  next
    case (ObjSha224 c1)
    with 3 sha224.calc_digest [of c1 m x] show ?thesis by (auto simp: calcHash_Sha224_def)
  next
    case (ObjSha256 c1)
    with 3 sha256.calc_digest [of c1 m x] show ?thesis by (auto simp: calcHash_Sha256_def)
  next
    case (ObjSha384 c1)
    with 3 sha384.calc_digest [of c1 m x] show ?thesis by (auto simp: calcHash_Sha384_def)
  next
    case (ObjSha512 c1)
    with 3 sha512.calc_digest [of c1 m x] show ?thesis by (auto simp: calcHash_Sha512_def)
  qed
next
  case (4 m)
  show ?case by simp
qed

text \<open>The constructors, on memory that holds arbitrary bytes.\<close>

fun new_hash :: "u8 list \<Rightarrow> HashType_e \<Rightarrow> hash_obj option" where
  "new_hash g HASH_MD5 = Some (ObjMd5 (HashMd5 (take 64 g)))"
| "new_hash g HASH_SHA1 = Some (ObjSha1 (HashSha1 (take 64 g)))"
| "new_hash g HASH_SHA2_224 = Some (ObjSha224 (HashSha224 (take 64 g)))"
| "new_hash g HASH_SHA2_256 = Some (ObjSha256 (HashSha256 (take 64 g)))"
| "new_hash g HASH_SHA2_384 = Some (ObjSha384 (HashSha384 (take 128 g)))"
| "new_hash g HASH_SHA2_512 = Some (ObjSha512 (HashSha512 (take 128 g)))"
| "new_hash g _ = None"

lemma new_hash_rep: "new_hash g t = Some c \<Longrightarrow> length g = 128 \<Longrightarrow> obj_rep t c []"
  by (cases t) (auto simp: md_rep_def md_digest_state_def HashMd5_def HashSha1_def HashSha224_def
    HashSha256_def HashSha384_def HashSha512_def md5_H0_def sha1_H0_def sha224_H0_def sha256_H0_def
    sha384_H0_def sha512_H0_def)

lemma new_hash_supported: "new_hash g t \<noteq> None \<longleftrightarrow> supported t"
  by (cases t) (simp_all add: supported_def)

lemma obj_overrun:
  assumes "obj_rep t ob m" "r = length m mod block_size t" "0 < r" "2 ^ 32 \<le> unat (len x) + r"
  shows "calcHash ob x d = None"
proof (cases ob)
  case (ObjMd5 c)
  then show ?thesis using assms md5.update_overrun [of c m r "len x"]
    by (simp add: calcHash_Md5_def md_calc_def updateMd5_def)
next
  case (ObjSha1 c)
  then show ?thesis using assms sha1.update_overrun [of c m r "len x"]
    by (simp add: calcHash_Sha1_def md_calc_def updateSha1_def)
next
  case (ObjSha224 c)
  then show ?thesis using assms sha224.update_overrun [of c m r "len x"]
    by (simp add: calcHash_Sha224_def md_calc_def updateSha224_def)
next
  case (ObjSha256 c)
  then show ?thesis using assms sha256.update_overrun [of c m r "len x"]
    by (simp add: calcHash_Sha256_def md_calc_def updateSha256_def)
next
  case (ObjSha384 c)
  then show ?thesis using assms sha384.update_overrun [of c m r "len x"]
    by (simp add: calcHash_Sha384_def md_calc_def updateSha384_def)
next
  case (ObjSha512 c)
  then show ?thesis using assms sha512.update_overrun [of c m r "len x"]
    by (simp add: calcHash_Sha512_def md_calc_def updateSha512_def)
qed

section \<open>Properties\<close>

text \<open>
  C1: For each of the six algorithms, an object fresh from its constructor, fed any
  sequence of chunks with a null \<^verbatim>\<open>pDigist\<close> and then one last chunk with a digest buffer,
  writes the hash of the concatenation of the chunks: buffering, padding, bit count and
  block loop do not depend on where the message was cut, no access leaves the buffers, and
  the object is afterwards as after \<^verbatim>\<open>initHash\<close>, ready for another message.
\<close>

theorem streaming_digest:
  assumes "new_hash g t = Some ob" "length g = 128" "\<forall>x \<in> set xs. chunk_ok x" "chunk_ok y"
  shows "\<exists>ob'. do { ob1 \<leftarrow> feed calcHash ob xs; calcHash ob1 y True }
      = Some (ob', Some (hash_spec t (concat (map chunk_bytes xs) @ chunk_bytes y))) \<and> obj_rep t ob' []"
  using obj.feed_digest [OF new_hash_rep [OF assms(1,2)] assms(3,4)] by simp

theorem streaming_digest_witness:
  "\<exists>ob'. do { ob1 \<leftarrow> feed calcHash (ObjSha1 (HashSha1 (replicate 64 0))) [chunk_of [0x61], chunk_of [0x62]];
         calcHash ob1 (chunk_of [0x63]) True }
      = Some (ob', Some (hash_spec HASH_SHA1 [0x61, 0x62, 0x63])) \<and> obj_rep HASH_SHA1 ob' []"
proof -
  have "new_hash (replicate 128 0) HASH_SHA1 = Some (ObjSha1 (HashSha1 (replicate 64 0)))" by simp
  moreover have "\<forall>x \<in> set [chunk_of [0x61], chunk_of [0x62]]. chunk_ok x" "chunk_ok (chunk_of [0x63])"
    by (simp_all add: chunk_ok_def chunk_of_def chunk_mem_def)
  moreover have "concat (map chunk_bytes [chunk_of [0x61], chunk_of [0x62]]) @ chunk_bytes (chunk_of [0x63])
      = [0x61, 0x62, 0x63]"
    by (simp add: chunk_bytes_def chunk_of_def chunk_mem_def)
  ultimately show ?thesis using streaming_digest [of "replicate 128 0" HASH_SHA1] by (metis length_replicate)
qed

text \<open>
  With \<open>r > 0\<close> bytes buffered, a chunk whose length is within \<open>r\<close> of \<open>2 ^ 32\<close> is not
  processed safely by any of the six classes: \<^verbatim>\<open>i + 63\<close> wraps around, the block loop runs
  past the last full block and reads behind the input (the model's \<^verbatim>\<open>None\<close>). The bound on
  the chunk length in C1 is there for this reason.
\<close>

theorem calcHash_overrun:
  assumes "obj_rep t ob m" "0 < length m mod block_size t"
    "2 ^ 32 \<le> unat (len x) + length m mod block_size t"
  shows "calcHash ob x d = None"
  using obj_overrun [OF assms(1) refl assms(2,3)] .

theorem calcHash_overrun_witness:
  "\<exists>ob. calcHash (ObjSha1 (HashSha1 (replicate 64 0))) (chunk_of [0]) False = Some (ob, None) \<and>
     calcHash ob \<lparr>ptr = Some (replicate 4294967295 0), len = 0xFFFFFFFF\<rparr> True = None"
proof -
  have "obj_rep HASH_SHA1 (ObjSha1 (HashSha1 (replicate 64 0))) []"
    using new_hash_rep [of "replicate 128 0" HASH_SHA1] by simp
  moreover have "chunk_ok (chunk_of [0])" "chunk_bytes (chunk_of [0]) = [0]"
    by (simp_all add: chunk_ok_def chunk_of_def chunk_mem_def chunk_bytes_def)
  ultimately obtain ob where ob: "calcHash (ObjSha1 (HashSha1 (replicate 64 0))) (chunk_of [0]) False = Some (ob, None)"
    "obj_rep HASH_SHA1 ob [0]"
    using obj.calc_part by fastforce
  have "calcHash ob \<lparr>ptr = Some (replicate 4294967295 0), len = 0xFFFFFFFF\<rparr> True = None"
    by (rule calcHash_overrun [OF ob(2)]) simp_all
  with ob(1) show ?thesis by blast
qed

end
