(* ===== verification/Hmac.thy ===== *)
theory Hmac
  imports HashInterface
begin

text \<open>
  \<^verbatim>\<open>algorithms/hash/src/hashHmac.cpp\<close>: the class \<^verbatim>\<open>HashHmac\<close>, a client of the interface
  \<^verbatim>\<open>HashInterface\<close>. \<^verbatim>\<open>None\<close> is the result of an operation that dereferences a null
  \<^verbatim>\<open>mpHash\<close> or leaves one of its buffers. The specification is HMAC of RFC 2104 over the
  hash of the selected type.
\<close>

section \<open>State and operations\<close>

record hash_hmac =
  mpHash :: "hash_obj option"
  mBlockLen :: u32
  mIpad :: "u8 list"
  mOpad :: "u8 list"

definition HashHmac :: hash_hmac where
  "HashHmac = \<lparr>mpHash = None, mBlockLen = 0, mIpad = replicate 128 0, mOpad = replicate 128 0\<rparr>"

text \<open>\<open>g\<close> is what the memory of the new hash object holds.\<close>

definition setHashType :: "u8 list \<Rightarrow> HashType_e \<Rightarrow> hash_hmac \<Rightarrow> hash_hmac \<times> bool" where
  "setHashType g type h =
     (let h' = (case type of
          HASH_MD5 \<Rightarrow> h\<lparr>mpHash := new_hash g HASH_MD5, mBlockLen := 64\<rparr>
        | HASH_SHA1 \<Rightarrow> h\<lparr>mpHash := new_hash g HASH_SHA1, mBlockLen := 64\<rparr>
        | HASH_SHA2_224 \<Rightarrow> h\<lparr>mpHash := new_hash g HASH_SHA2_224, mBlockLen := 64\<rparr>
        | HASH_SHA2_256 \<Rightarrow> h\<lparr>mpHash := new_hash g HASH_SHA2_256, mBlockLen := 64\<rparr>
        | HASH_SHA2_384 \<Rightarrow> h\<lparr>mpHash := new_hash g HASH_SHA2_384, mBlockLen := 128\<rparr>
        | HASH_SHA2_512 \<Rightarrow> h\<lparr>mpHash := new_hash g HASH_SHA2_512, mBlockLen := 128\<rparr>
        | _ \<Rightarrow> h\<lparr>mpHash := None\<rparr>)
      in (h', mpHash h' \<noteq> None))"

text \<open>The loop that exclusive-ors the first \<open>n\<close> bytes of a pad with a constant.\<close>

definition xor_pad :: "nat \<Rightarrow> u8 \<Rightarrow> u8 list \<Rightarrow> u8 list" where
  "xor_pad n v pad = map (\<lambda>b. b XOR v) (take n pad) @ drop n pad"

text \<open>\<^verbatim>\<open>mpHash->calcHash({pad, mBlockLen}, NULL)\<close>\<close>

definition calc_pad :: "hash_obj \<Rightarrow> u8 list \<Rightarrow> u32 \<Rightarrow> hash_obj option" where
  "calc_pad ob pad n = map_option fst (calcHash ob \<lparr>ptr = Some pad, len = n\<rparr> False)"

text \<open>The first part of \<^verbatim>\<open>setHashKey\<close>: copy the key, or its hash, to the start of both pads.\<close>

definition copy_key :: "chunk_t \<Rightarrow> hash_hmac \<Rightarrow> (hash_hmac \<times> u8 list \<times> u8 list) option" where
  "copy_key key h =
     (if mBlockLen h < len key then
        do { ob \<leftarrow> mpHash h;
             (ob1, d) \<leftarrow> calcHash (initHash ob) key True;
             digest \<leftarrow> d;
             ipad \<leftarrow> buf_write (mIpad h) 0 digest;
             opad \<leftarrow> buf_read ipad 0 128;
             Some (h\<lparr>mpHash := Some ob1\<rparr>, ipad, opad) }
      else
        do { k \<leftarrow> buf_read (chunk_mem key) 0 (unat (len key));
             ipad \<leftarrow> buf_write (mIpad h) 0 k;
             opad \<leftarrow> buf_write (mOpad h) 0 k;
             Some (h, ipad, opad) })"

definition setHashKey :: "chunk_t \<Rightarrow> hash_hmac \<Rightarrow> hash_hmac option" where
  "setHashKey key h =
     do { (h1, ipad, opad) \<leftarrow> copy_key key h;
          let ipad' = xor_pad (unat (mBlockLen h)) 0x36 ipad;
              opad' = xor_pad (unat (mBlockLen h)) 0x5C opad
          in do { ob \<leftarrow> mpHash h1;
                  ob' \<leftarrow> calc_pad (initHash ob) ipad' (mBlockLen h);
                  Some (h1\<lparr>mpHash := Some ob', mIpad := ipad', mOpad := opad'\<rparr>) } }"

definition getHmacSize :: "hash_hmac \<Rightarrow> u32" where
  "getHmacSize h = (case mpHash h of None \<Rightarrow> 0 | Some ob \<Rightarrow> getHashSize ob)"

definition getHashHmac :: "chunk_t \<Rightarrow> chunk_t \<Rightarrow> hash_hmac \<Rightarrow> (hash_hmac \<times> chunk_t) option" where
  "getHashHmac input output h =
     do { ob \<leftarrow> mpHash h;
          if getHashSize ob < len output then Some (h, output)
          else case ptr output of
            None \<Rightarrow>
              do { (ob1, d) \<leftarrow> calcHash ob input False;
                   Some (h\<lparr>mpHash := Some ob1\<rparr>, output) }
          | Some out \<Rightarrow>
              do { (ob1, d1) \<leftarrow> calcHash ob input True;
                   inner \<leftarrow> d1;
                   buf1 \<leftarrow> buf_write (replicate 128 0) 0 inner;
                   ob2 \<leftarrow> calc_pad ob1 (mOpad h) (mBlockLen h);
                   (ob3, d2) \<leftarrow> calcHash ob2 \<lparr>ptr = Some buf1, len = getHashSize ob2\<rparr> True;
                   outer \<leftarrow> d2;
                   buf2 \<leftarrow> buf_write buf1 0 outer;
                   let n = (if len output = 0 then getHashSize ob3 else len output)
                   in do { res \<leftarrow> buf_read buf2 0 (unat n);
                           out' \<leftarrow> buf_write out 0 res;
                           ob4 \<leftarrow> calc_pad (initHash ob3) (mIpad h) (mBlockLen h);
                           Some (h\<lparr>mpHash := Some ob4\<rparr>, \<lparr>ptr = Some out', len = n\<rparr>) } } }"

section \<open>Specification: RFC 2104\<close>

definition xor_bytes :: "u8 \<Rightarrow> u8 list \<Rightarrow> u8 list" where
  "xor_bytes v bs = map (\<lambda>b. b XOR v) bs"

text \<open>Steps (1) of the RFC: the key, hashed first if longer than a block, with zeros appended.\<close>

definition hmac_key :: "HashType_e \<Rightarrow> u8 list \<Rightarrow> u8 list" where
  "hmac_key t key =
     (let k = (if block_size t < length key then hash_spec t key else key)
      in k @ replicate (block_size t - length k) 0)"

definition hmac_spec :: "HashType_e \<Rightarrow> u8 list \<Rightarrow> u8 list \<Rightarrow> u8 list" where
  "hmac_spec t key text =
     hash_spec t (xor_bytes 0x5C (hmac_key t key) @ hash_spec t (xor_bytes 0x36 (hmac_key t key) @ text))"

text \<open>
  \<open>hmac_rep t ki ko m h\<close>: the object has algorithm \<open>t\<close>, the inner pad is the block \<open>ki\<close>, the
  outer pad the block \<open>ko\<close>, and the text taken in so far is \<open>m\<close>.
\<close>

definition hmac_rep :: "HashType_e \<Rightarrow> u8 list \<Rightarrow> u8 list \<Rightarrow> u8 list \<Rightarrow> hash_hmac \<Rightarrow> bool" where
  "hmac_rep t ki ko m h \<longleftrightarrow>
     (\<exists>ob. mpHash h = Some ob \<and> obj_rep t ob (ki @ m)) \<and>
     unat (mBlockLen h) = block_size t \<and> length (mIpad h) = 128 \<and> length (mOpad h) = 128 \<and>
     take (block_size t) (mIpad h) = ki \<and> take (block_size t) (mOpad h) = ko"

text \<open>An object whose type is chosen and whose pads hold the bytes \<open>pi\<close> and \<open>po\<close>.\<close>

definition hmac_typed :: "HashType_e \<Rightarrow> hash_hmac \<Rightarrow> bool" where
  "hmac_typed t h \<longleftrightarrow>
     (\<exists>ob m. mpHash h = Some ob \<and> obj_rep t ob m) \<and> unat (mBlockLen h) = block_size t \<and>
     length (mIpad h) = 128 \<and> length (mOpad h) = 128"

section \<open>Lemmas\<close>

lemma sizes: "digest_size t \<le> block_size t" "block_size t \<le> 128" "digest_size t \<le> 64"
  by (cases t; simp)+

lemma supported_pos: "supported t \<Longrightarrow> 0 < digest_size t"
  by (auto simp: supported_def)

lemma setHashType_typed:
  assumes "supported t" "length g = 128" "length (mIpad h) = 128" "length (mOpad h) = 128"
  shows "hmac_typed t (fst (setHashType g t h))" "snd (setHashType g t h)"
    "mIpad (fst (setHashType g t h)) = mIpad h" "mOpad (fst (setHashType g t h)) = mOpad h"
proof -
  obtain ob where ob: "new_hash g t = Some ob" using new_hash_supported [of g t] assms(1) by auto
  note rep = new_hash_rep [OF ob assms(2)]
  have eq: "setHashType g t h = (h\<lparr>mpHash := Some ob, mBlockLen := of_nat (block_size t)\<rparr>, True)"
    using assms(1) ob by (cases t) (simp_all add: setHashType_def supported_def)
  have "unat (of_nat (block_size t) :: u32) = block_size t"
    using sizes(2) [of t] by (simp add: unat_of_nat)
  then show "hmac_typed t (fst (setHashType g t h))" "snd (setHashType g t h)"
    "mIpad (fst (setHashType g t h)) = mIpad h" "mOpad (fst (setHashType g t h)) = mOpad h"
    using rep assms(3,4) by (auto simp: hmac_typed_def eq)
qed

lemma calc_pad_rep:
  assumes "obj_rep t ob m" "unat n \<le> length pad" "unat n \<le> 128"
  shows "\<exists>ob'. calc_pad ob pad n = Some ob' \<and> obj_rep t ob' (m @ take (unat n) pad)"
proof -
  have "chunk_ok \<lparr>ptr = Some pad, len = n\<rparr>" using assms by (simp add: chunk_ok_def chunk_mem_def)
  from obj.calc_part [OF assms(1) this] show ?thesis
    by (auto simp: calc_pad_def chunk_bytes_def chunk_mem_def)
qed

lemma xor_pad_take: "n \<le> length pad \<Longrightarrow> take n (xor_pad n v pad) = xor_bytes v (take n pad)"
  by (simp add: xor_pad_def xor_bytes_def)

lemma xor_pad_length [simp]: "length (xor_pad n v pad) = length pad"
  by (simp add: xor_pad_def)

text \<open>Setting a key leaves in each pad the exclusive-or of what the pad holds after the key is copied in.\<close>

lemma setHashKey_rep:
  assumes h: "hmac_typed t h" and key: "chunk_ok key"
  defines "k \<equiv> (if block_size t < length (chunk_bytes key) then hash_spec t (chunk_bytes key) else chunk_bytes key)"
  defines "pi \<equiv> k @ drop (length k) (mIpad h)"
  defines "po \<equiv> (if block_size t < length (chunk_bytes key) then pi else k @ drop (length k) (mOpad h))"
  shows "\<exists>h'. setHashKey key h = Some h' \<and>
    hmac_rep t (xor_bytes 0x36 (take (block_size t) pi)) (xor_bytes 0x5C (take (block_size t) po)) [] h'"
proof -
  let ?B = "block_size t"
  obtain ob m where ob: "mpHash h = Some ob" "obj_rep t ob m" and B: "unat (mBlockLen h) = ?B"
    and pads: "length (mIpad h) = 128" "length (mOpad h) = 128"
    using h by (auto simp: hmac_typed_def)
  have klen: "length (chunk_bytes key) = unat (len key)"
    using key by (simp add: chunk_ok_def chunk_bytes_def)
  have cond: "mBlockLen h < len key \<longleftrightarrow> ?B < length (chunk_bytes key)"
    by (simp add: word_less_nat_alt B klen)
  have lk: "length k \<le> ?B" using sizes(1) [of t] by (simp add: k_def)
  then have lens: "length pi = 128" "length po = 128"
    using pads sizes(2) [of t] by (simp_all add: pi_def po_def)
  obtain ob1 m1 where ob1: "obj_rep t ob1 m1" and first: "copy_key key h = Some (h\<lparr>mpHash := Some ob1\<rparr>, pi, po)"
  proof (cases "?B < length (chunk_bytes key)")
    case True
    obtain ob1 where ob1: "calcHash (initHash ob) key True = Some (ob1, Some (hash_spec t (chunk_bytes key)))"
      "obj_rep t ob1 []"
      using obj.calc_digest [OF obj.rep_ini [OF ob(2)] key] by auto
    have "digest_size t \<le> 128" using sizes(3) [of t] by simp
    then have "copy_key key h = Some (h\<lparr>mpHash := Some ob1\<rparr>, pi, po)"
      using True ob ob1(1) pads by (simp add: copy_key_def cond pi_def po_def k_def)
    with ob1(2) that show ?thesis by blast
  next
    case False
    moreover have "h = h\<lparr>mpHash := Some ob\<rparr>" using ob(1) by simp
    moreover have "length (chunk_bytes key) \<le> 128" using False sizes(2) [of t] by simp
    moreover have "buf_read (chunk_mem key) 0 (unat (len key)) = Some (chunk_bytes key)"
      using key by (simp add: chunk_ok_def chunk_bytes_def)
    ultimately have "copy_key key h = Some (h\<lparr>mpHash := Some ob\<rparr>, pi, po)"
      using pads by (simp add: copy_key_def cond pi_def po_def k_def)
    with ob(2) that show ?thesis by blast
  qed
  obtain ob2 where ob2: "calc_pad (initHash ob1) (xor_pad ?B 0x36 pi) (mBlockLen h) = Some ob2"
    "obj_rep t ob2 (xor_bytes 0x36 (take ?B pi))"
    using calc_pad_rep [OF obj.rep_ini [OF ob1], of "mBlockLen h" "xor_pad ?B 0x36 pi"] lens B sizes(2) [of t]
    by (auto simp: xor_pad_take)
  have "setHashKey key h = Some (h\<lparr>mpHash := Some ob2, mIpad := xor_pad ?B 0x36 pi, mOpad := xor_pad ?B 0x5C po\<rparr>)"
    unfolding setHashKey_def first by (simp add: B ob2(1))
  then show ?thesis
    using ob2(2) lens B sizes(2) [of t] by (simp add: hmac_rep_def xor_pad_take)
qed

lemma setHashKey_fresh:
  assumes "hmac_typed t h" "chunk_ok key" "mIpad h = replicate 128 0" "mOpad h = replicate 128 0"
  shows "\<exists>h'. setHashKey key h = Some h' \<and>
    hmac_rep t (xor_bytes 0x36 (hmac_key t (chunk_bytes key))) (xor_bytes 0x5C (hmac_key t (chunk_bytes key))) [] h'"
proof -
  have eq: "take (block_size t) (k @ drop (length k) (replicate 128 0)) = k @ replicate (block_size t - length k) 0"
    if "length k \<le> block_size t" for k :: "u8 list"
    using that sizes(2) [of t] by simp
  show ?thesis
    using setHashKey_rep [OF assms(1,2)] sizes(1) [of t] eq [of "hash_spec t (chunk_bytes key)"] eq [of "chunk_bytes key"]
    by (auto simp: hmac_key_def Let_def assms(3,4) simp del: drop_replicate)
qed

lemma getHashHmac_part:
  assumes h: "hmac_rep t ki ko m h" and x: "chunk_ok x" and out: "ptr output = None" "unat (len output) \<le> digest_size t"
  shows "\<exists>h'. getHashHmac x output h = Some (h', output) \<and> hmac_rep t ki ko (m @ chunk_bytes x) h'"
proof -
  obtain ob where ob: "mpHash h = Some ob" "obj_rep t ob (ki @ m)" using h by (auto simp: hmac_rep_def)
  obtain ob1 where "calcHash ob x False = Some (ob1, None)" "obj_rep t ob1 ((ki @ m) @ chunk_bytes x)"
    using obj.calc_part [OF ob(2) x] by blast
  moreover have "\<not> getHashSize ob < len output"
    using obj_rep_type [OF ob(2)] out(2) by (simp add: word_less_nat_alt)
  ultimately show ?thesis using h ob(1) out(1) by (simp add: getHashHmac_def hmac_rep_def)
qed

definition hmac_out :: "HashType_e \<Rightarrow> u8 list \<Rightarrow> u8 list \<Rightarrow> u8 list \<Rightarrow> u8 list" where
  "hmac_out t ki ko m = hash_spec t (ko @ hash_spec t (ki @ m))"

lemma length_hmac_out [simp]: "length (hmac_out t ki ko m) = digest_size t"
  by (simp add: hmac_out_def)

lemma getHashHmac_final:
  assumes h: "hmac_rep t ki ko m h" and x: "chunk_ok x"
    and out: "ptr output = Some mem" "unat (len output) \<le> digest_size t"
    and n: "n = (if len output = 0 then digest_size t else unat (len output))" "n \<le> length mem"
  shows "\<exists>h'. getHashHmac x output h = Some (h', \<lparr>ptr = Some (take n (hmac_out t ki ko (m @ chunk_bytes x)) @ drop n mem),
      len = of_nat n\<rparr>) \<and> hmac_rep t ki ko [] h'"
proof -
  let ?B = "block_size t" and ?D = "digest_size t"
  obtain ob where ob: "mpHash h = Some ob" "obj_rep t ob (ki @ m)" using h by (auto simp: hmac_rep_def)
  have pads: "unat (mBlockLen h) = ?B" "length (mIpad h) = 128" "length (mOpad h) = 128"
    "take ?B (mIpad h) = ki" "take ?B (mOpad h) = ko"
    using h by (simp_all add: hmac_rep_def)
  have size: "unat (getHashSize o') = ?D" if "obj_rep t o' m'" for o' m'
    using obj_rep_type [OF that] by simp
  have le: "\<not> getHashSize ob < len output" using size [OF ob(2)] out(2) by (simp add: word_less_nat_alt)
  define inner where "inner = hash_spec t (ki @ m @ chunk_bytes x)"
  obtain ob1 where ob1: "calcHash ob x True = Some (ob1, Some inner)" "obj_rep t ob1 []"
    using obj.calc_digest [OF ob(2) x] by (auto simp: inner_def)
  define buf1 where "buf1 = inner @ drop ?D (replicate 128 0)"
  have D: "?D \<le> 64" "length inner = ?D" using sizes(3) [of t] by (simp_all add: inner_def)
  then have buf1: "buf_write (replicate 128 0) 0 inner = Some buf1" "length buf1 = 128" "take ?D buf1 = inner"
    by (simp_all add: buf1_def)
  obtain ob2 where ob2: "calc_pad ob1 (mOpad h) (mBlockLen h) = Some ob2" "obj_rep t ob2 ko"
    using calc_pad_rep [OF ob1(2), of "mBlockLen h" "mOpad h"] pads sizes(2) [of t] by auto
  define ic where "ic = \<lparr>ptr = Some buf1, len = getHashSize ob2\<rparr>"
  have ic: "chunk_ok ic" "chunk_bytes ic = inner"
    using D buf1 size [OF ob2(2)] by (simp_all add: ic_def chunk_ok_def chunk_bytes_def chunk_mem_def)
  define outer where "outer = hmac_out t ki ko (m @ chunk_bytes x)"
  obtain ob3 where ob3: "calcHash ob2 ic True = Some (ob3, Some outer)" "obj_rep t ob3 []"
    using obj.calc_digest [OF ob2(2) ic(1)] by (auto simp: ic(2) outer_def hmac_out_def inner_def)
  have outer: "length outer = ?D" by (simp add: outer_def)
  define buf2 where "buf2 = outer @ drop ?D buf1"
  have buf2: "buf_write buf1 0 outer = Some buf2" "length buf2 = 128"
    using buf1 D outer by (simp_all add: buf2_def)
  define w where "w = (if len output = 0 then getHashSize ob3 else len output)"
  have w: "unat w = n" "w = of_nat n" "n \<le> ?D"
    using size [OF ob3(2)] n(1) out(2) by (auto simp: w_def) (metis of_nat_unat ucast_id)
  obtain ob4 where ob4: "calc_pad (initHash ob3) (mIpad h) (mBlockLen h) = Some ob4" "obj_rep t ob4 ki"
    using calc_pad_rep [OF obj.rep_ini [OF ob3(2)], of "mBlockLen h" "mIpad h"] pads sizes(2) [of t] by auto
  have res: "buf_read buf2 0 n = Some (take n outer)" using w(3) D buf2 outer by (simp add: buf2_def)
  have wr: "buf_write mem 0 (take n outer) = Some (take n outer @ drop n mem)" using w(3) outer n(2) by simp
  have "getHashHmac x output h = Some (h\<lparr>mpHash := Some ob4\<rparr>, \<lparr>ptr = Some (take n outer @ drop n mem), len = of_nat n\<rparr>)"
    unfolding getHashHmac_def
    using ob ob1 ob2 ob3 ob4 le out(1) buf1 buf2 res wr
    by (simp add: ic_def [symmetric] w_def [symmetric] w(1)) (simp add: w(2))
  then show ?thesis using h ob4(2) by (simp add: outer_def hmac_rep_def)
qed

text \<open>A text handed over in parts: all but the last with a null output.\<close>

fun hmac_feed :: "chunk_t list \<Rightarrow> hash_hmac \<Rightarrow> hash_hmac option" where
  "hmac_feed [] h = Some h"
| "hmac_feed (x # xs) h = do { (h', out) \<leftarrow> getHashHmac x \<lparr>ptr = None, len = 0\<rparr> h; hmac_feed xs h' }"

lemma hmac_feed_rep:
  assumes "hmac_rep t ki ko m h" "\<forall>x \<in> set xs. chunk_ok x"
  shows "\<exists>h'. hmac_feed xs h = Some h' \<and> hmac_rep t ki ko (m @ concat (map chunk_bytes xs)) h'"
  using assms
proof (induction xs arbitrary: m h)
  case Nil
  then show ?case by simp
next
  case (Cons x xs)
  obtain h1 where h1: "getHashHmac x \<lparr>ptr = None, len = 0\<rparr> h = Some (h1, \<lparr>ptr = None, len = 0\<rparr>)"
    "hmac_rep t ki ko (m @ chunk_bytes x) h1"
    using getHashHmac_part [OF Cons.prems(1), of x "\<lparr>ptr = None, len = 0\<rparr>"] Cons.prems(2) by auto
  with Cons.IH [OF h1(2)] Cons.prems(2) show ?case by simp
qed

section \<open>Properties\<close>

text \<open>
  C4: A \<^verbatim>\<open>HashHmac\<close> object with a supported type and a key of any length, given a text in
  any number of parts (null output) and a last part with an output buffer, writes the
  first \<open>n\<close> bytes of the RFC 2104 HMAC of the whole text, where \<open>n\<close> is the length asked for,
  or the digest length if that is 0; no access leaves a buffer. The object is then ready
  for the next text under the same key.
\<close>

theorem hmac_correct:
  assumes "supported t" "length g = 128" "chunk_ok key" "\<forall>x \<in> set xs. chunk_ok x" "chunk_ok y"
    and "unat l \<le> digest_size t" "n = (if l = 0 then digest_size t else unat l)" "n \<le> length mem"
  shows "\<exists>h. do { h1 \<leftarrow> setHashKey key (fst (setHashType g t HashHmac)); h2 \<leftarrow> hmac_feed xs h1;
             getHashHmac y \<lparr>ptr = Some mem, len = l\<rparr> h2 }
      = Some (h, \<lparr>ptr = Some (take n (hmac_spec t (chunk_bytes key) (concat (map chunk_bytes xs) @ chunk_bytes y)) @ drop n mem),
                 len = of_nat n\<rparr>) \<and>
      hmac_rep t (xor_bytes 0x36 (hmac_key t (chunk_bytes key))) (xor_bytes 0x5C (hmac_key t (chunk_bytes key))) [] h"
proof -
  let ?h0 = "fst (setHashType g t HashHmac)"
  let ?ki = "xor_bytes 0x36 (hmac_key t (chunk_bytes key))" and ?ko = "xor_bytes 0x5C (hmac_key t (chunk_bytes key))"
  have "hmac_typed t ?h0" "mIpad ?h0 = replicate 128 0" "mOpad ?h0 = replicate 128 0"
    using setHashType_typed [OF assms(1,2), of HashHmac] by (simp_all add: HashHmac_def)
  from setHashKey_fresh [OF this(1) assms(3) this(2,3)]
  obtain h1 where h1: "setHashKey key ?h0 = Some h1" "hmac_rep t ?ki ?ko [] h1" by blast
  obtain h2 where h2: "hmac_feed xs h1 = Some h2" "hmac_rep t ?ki ?ko (concat (map chunk_bytes xs)) h2"
    using hmac_feed_rep [OF h1(2) assms(4)] by auto
  obtain h3 where "getHashHmac y \<lparr>ptr = Some mem, len = l\<rparr> h2 =
      Some (h3, \<lparr>ptr = Some (take n (hmac_out t ?ki ?ko (concat (map chunk_bytes xs) @ chunk_bytes y)) @ drop n mem), len = of_nat n\<rparr>)"
    "hmac_rep t ?ki ?ko [] h3"
    using getHashHmac_final [OF h2(2) assms(5), of "\<lparr>ptr = Some mem, len = l\<rparr>" mem n] assms(6-8)
    unfolding chunk_t.simps by blast
  then show ?thesis
    unfolding h1(1) h2(1) hmac_spec_def hmac_out_def [symmetric] bind.bind_lunit by blast
qed

theorem hmac_correct_witness:
  "\<exists>h. do { h1 \<leftarrow> setHashKey (chunk_of [1, 2]) (fst (setHashType (replicate 128 7) HASH_MD5 HashHmac));
             h2 \<leftarrow> hmac_feed [chunk_of [3]] h1;
             getHashHmac (chunk_of [4]) \<lparr>ptr = Some [0, 0, 0], len = 2\<rparr> h2 }
      = Some (h, \<lparr>ptr = Some (take 2 (hmac_spec HASH_MD5 [1, 2] [3, 4]) @ [0]), len = 2\<rparr>)"
proof -
  have ok: "supported HASH_MD5" "chunk_ok (chunk_of [1, 2])" "\<forall>x \<in> set [chunk_of [3]]. chunk_ok x" "chunk_ok (chunk_of [4])"
    by (simp_all add: supported_def chunk_ok_def chunk_of_def chunk_mem_def)
  have bytes: "chunk_bytes (chunk_of [1, 2]) = [1, 2]" "chunk_bytes (chunk_of [3]) = [3]" "chunk_bytes (chunk_of [4]) = [4]"
    by (simp_all add: chunk_bytes_def chunk_of_def chunk_mem_def)
  have msg: "concat (map chunk_bytes [chunk_of [3]]) @ [4 :: u8] = [3, 4]" by (simp add: bytes)
  have num: "length (replicate 128 (7 :: u8)) = 128" "unat (2 :: u32) \<le> digest_size HASH_MD5"
    "2 = (if (2 :: u32) = 0 then digest_size HASH_MD5 else unat (2 :: u32))" "2 \<le> length [0, 0, 0 :: u8]"
    "drop 2 [0, 0, 0] = [0 :: u8]" "of_nat 2 = (2 :: u32)"
    by simp_all
  show ?thesis
    using hmac_correct [OF ok(1) num(1) ok(2-4) num(2-4), unfolded bytes msg num(5,6)] by blast
qed

text \<open>
  \<^verbatim>\<open>setHashKey\<close> on an object that already has a key: the pads are not cleared, so for a
  new key of at most one block the rest of the old padded key stays in both pads, without
  the masks. The object then computes \<open>H((K XOR opad) old, H((K XOR ipad) old, text))\<close>, where
  \<open>old\<close> is the tail of the old padded key, and not the HMAC under the new key.
\<close>

theorem rekey_keeps_old_key:
  assumes rep: "hmac_rep t (xor_bytes 0x36 old) (xor_bytes 0x5C old) m h" and key: "chunk_ok key"
    and short: "length (chunk_bytes key) \<le> block_size t"
    and n: "n = length (chunk_bytes key)"
  shows "\<exists>h'. setHashKey key h = Some h' \<and>
    hmac_rep t (xor_bytes 0x36 (chunk_bytes key) @ drop n old) (xor_bytes 0x5C (chunk_bytes key) @ drop n old) [] h'"
proof -
  have len: "length (mIpad h) = 128" "length (mOpad h) = 128" and typed: "hmac_typed t h"
    and pads: "take (block_size t) (mIpad h) = xor_bytes 0x36 old" "take (block_size t) (mOpad h) = xor_bytes 0x5C old"
    using rep by (auto simp: hmac_rep_def hmac_typed_def)
  have twice: "xor_bytes v (xor_bytes v bs) = bs" for v bs
    by (simp add: xor_bytes_def comp_def xor.assoc)
  have "xor_bytes v (take (block_size t) (chunk_bytes key @ drop n pad)) = xor_bytes v (chunk_bytes key) @ drop n old"
    if "take (block_size t) pad = xor_bytes v old" for v pad
  proof -
    have "take (block_size t) (chunk_bytes key @ drop n pad) = chunk_bytes key @ drop n (take (block_size t) pad)"
      using short n by (simp add: drop_take)
    also have "xor_bytes v \<dots> = xor_bytes v (chunk_bytes key) @ drop n (xor_bytes v (xor_bytes v old))"
      unfolding that by (simp add: xor_bytes_def drop_map)
    finally show ?thesis by (simp only: twice)
  qed
  with setHashKey_rep [OF typed key] short pads n show ?thesis by simp
qed

theorem rekey_keeps_old_key_witness:
  "\<exists>h1 h2. setHashKey (chunk_of [1, 2]) (fst (setHashType (replicate 128 7) HASH_MD5 HashHmac)) = Some h1 \<and>
     setHashKey (chunk_of []) h1 = Some h2 \<and>
     hmac_rep HASH_MD5 ([1, 2] @ replicate 62 0) ([1, 2] @ replicate 62 0) [] h2"
proof -
  let ?h0 = "fst (setHashType (replicate 128 7) HASH_MD5 HashHmac)"
  have ok: "supported HASH_MD5" "chunk_ok (chunk_of [1, 2])" "chunk_ok (chunk_of [])"
    by (simp_all add: supported_def chunk_ok_def chunk_of_def chunk_mem_def)
  have bytes: "chunk_bytes (chunk_of [1, 2]) = [1, 2]" "chunk_bytes (chunk_of []) = []"
    by (simp_all add: chunk_bytes_def chunk_of_def chunk_mem_def)
  have "hmac_typed HASH_MD5 ?h0" "mIpad ?h0 = replicate 128 0" "mOpad ?h0 = replicate 128 0"
    using setHashType_typed [OF ok(1), of "replicate 128 7" HashHmac] by (simp_all add: HashHmac_def)
  from setHashKey_fresh [OF this(1) ok(2) this(2,3)] obtain h1 where
    h1: "setHashKey (chunk_of [1, 2]) ?h0 = Some h1"
      "hmac_rep HASH_MD5 (xor_bytes 0x36 ([1, 2] @ replicate 62 0)) (xor_bytes 0x5C ([1, 2] @ replicate 62 0)) [] h1"
    by (auto simp: hmac_key_def bytes)
  with rekey_keeps_old_key [OF h1(2) ok(3)] show ?thesis by (fastforce simp: bytes xor_bytes_def)
qed

end
