(* ===== verification/AvlTree.thy ===== *)
theory AvlTree
  imports Prelude
begin

text \<open>
  The abstract trees behind \<^verbatim>\<open>algorithms/avlTree\<close>: what the pointer structure of
  \<^verbatim>\<open>AvlTreeNode\<close> looks like when it is a proper tree, with the balance state of every node
  as the code keeps it. The operations work on a zipper (a subtree and the path to it),
  which is what the stacks of the code record. The lemmas show that they keep the order,
  the balance states and the balance; the theory \<^verbatim>\<open>AvlNode\<close> relates them to the code.
\<close>

section \<open>Contract of CompareTo\<close>

text \<open>\<open>cmp a b\<close> is \<^verbatim>\<open>a->CompareTo(b)\<close>.\<close>

locale comparable =
  fixes cmp :: "'k \<Rightarrow> 'k \<Rightarrow> int"
  assumes cmp_swap: "cmp a b < 0 \<longleftrightarrow> 0 < cmp b a"
    and cmp_trans: "cmp a b \<le> 0 \<Longrightarrow> cmp b c \<le> 0 \<Longrightarrow> cmp a c \<le> 0"
begin

lemma cmp_zero_swap: "cmp a b = 0 \<longleftrightarrow> cmp b a = 0"
  using cmp_swap [of a b] cmp_swap [of b a] by linarith

lemma cmp_refl: "cmp a a = 0"
  using cmp_swap [of a a] by linarith

lemma cmp_less_le: "cmp a b < 0 \<Longrightarrow> cmp b c \<le> 0 \<Longrightarrow> cmp a c < 0"
  by (smt (verit) cmp_swap cmp_trans cmp_zero_swap)

lemma cmp_le_less: "cmp a b \<le> 0 \<Longrightarrow> cmp b c < 0 \<Longrightarrow> cmp a c < 0"
  by (smt (verit) cmp_swap cmp_trans cmp_zero_swap)

end

section \<open>Trees and balance\<close>

text \<open>\<^verbatim>\<open>LEFT\<close>, \<^verbatim>\<open>RIGHT\<close> are directions and balance states, \<^verbatim>\<open>BALANCED\<close> is a balance state.\<close>

abbreviation LEFT :: int where "LEFT \<equiv> 0"
abbreviation RIGHT :: int where "RIGHT \<equiv> 1"
abbreviation BALANCED :: int where "BALANCED \<equiv> - 1"

datatype 'a avl = Leaf | Node "'a avl" 'a int "'a avl"

fun height :: "'a avl \<Rightarrow> nat" where
  "height Leaf = 0"
| "height (Node l a s r) = Suc (max (height l) (height r))"

fun node_count :: "'a avl \<Rightarrow> nat" where
  "node_count Leaf = 0"
| "node_count (Node l a s r) = Suc (node_count l + node_count r)"

fun inorder :: "'a avl \<Rightarrow> 'a list" where
  "inorder Leaf = []"
| "inorder (Node l a s r) = inorder l @ a # inorder r"

fun state_of :: "'a avl \<Rightarrow> int" where
  "state_of Leaf = BALANCED"
| "state_of (Node l a s r) = s"

definition state_ok :: "int \<Rightarrow> nat \<Rightarrow> nat \<Rightarrow> bool" where
  "state_ok s hl hr \<longleftrightarrow> s = BALANCED \<and> hl = hr \<or> s = LEFT \<and> hl = Suc hr \<or> s = RIGHT \<and> hr = Suc hl"

fun avl_ok :: "'a avl \<Rightarrow> bool" where
  "avl_ok Leaf \<longleftrightarrow> True"
| "avl_ok (Node l a s r) \<longleftrightarrow> avl_ok l \<and> avl_ok r \<and> state_ok s (height l) (height r)"

text \<open>\<open>mk n c a s d\<close>: the node whose child in direction \<open>n\<close> is \<open>c\<close> and whose other child is \<open>d\<close>.\<close>

definition mk :: "int \<Rightarrow> 'a avl \<Rightarrow> 'a \<Rightarrow> int \<Rightarrow> 'a avl \<Rightarrow> 'a avl" where
  "mk n c a s d = (if n = LEFT then Node c a s d else Node d a s c)"

fun child_of :: "int \<Rightarrow> 'a avl \<Rightarrow> 'a avl" where
  "child_of n Leaf = Leaf"
| "child_of n (Node l a s r) = (if n = LEFT then l else r)"

text \<open>Rotation of the node \<open>a\<close> with the child \<open>c\<close> in direction \<open>n\<close> and the other child \<open>d\<close>.\<close>

definition rot :: "int \<Rightarrow> 'a avl \<Rightarrow> 'a \<Rightarrow> int \<Rightarrow> 'a avl \<Rightarrow> 'a avl \<times> bool" where
  "rot n c a s d =
     (let r = 1 - n in
      case c of
        Leaf \<Rightarrow> (mk n c a s d, False)
      | Node cl ca cs cr \<Rightarrow>
          if cs \<noteq> r then
            (mk n (child_of n c) ca (if cs = BALANCED then r else BALANCED)
                  (mk n (child_of r c) a (if cs = BALANCED then s else BALANCED) d),
             cs = BALANCED)
          else
            (case child_of r c of
               Leaf \<Rightarrow> (mk n c a s d, False)
             | Node gl ga gs gr \<Rightarrow>
                 (mk n (mk n (child_of n c) ca (if gs = r then n else BALANCED) (if n = LEFT then gl else gr)) ga BALANCED
                       (mk n (if n = LEFT then gr else gl) a (if gs = n then r else BALANCED) d), False)))"

section \<open>Zippers\<close>

text \<open>A frame: the direction taken at a node, the node, its state and its other subtree.\<close>

type_synonym 'a frame = "int \<times> 'a \<times> int \<times> 'a avl"

fun plug :: "'a frame list \<Rightarrow> 'a avl \<Rightarrow> 'a avl" where
  "plug [] t = t"
| "plug ((n, a, s, d) # fs) t = plug fs (mk n t a s d)"

fun before :: "'a frame list \<Rightarrow> 'a list" where
  "before [] = []"
| "before ((n, a, s, d) # fs) = before fs @ (if n = LEFT then [] else inorder d @ [a])"

fun after :: "'a frame list \<Rightarrow> 'a list" where
  "after [] = []"
| "after ((n, a, s, d) # fs) = (if n = LEFT then a # inorder d else []) @ after fs"

fun frames_ok :: "'a frame list \<Rightarrow> nat \<Rightarrow> bool" where
  "frames_ok [] h \<longleftrightarrow> True"
| "frames_ok ((n, a, s, d) # fs) h \<longleftrightarrow>
     (n = LEFT \<or> n = RIGHT) \<and> avl_ok d \<and>
     (if n = LEFT then state_ok s h (height d) else state_ok s (height d) h) \<and>
     frames_ok fs (Suc (max h (height d)))"

text \<open>The rebalancing loops of insertion and removal.\<close>

fun ins_up :: "'a frame list \<Rightarrow> 'a avl \<Rightarrow> 'a avl" where
  "ins_up [] t = t"
| "ins_up ((n, a, s, d) # fs) t =
     (if s = BALANCED then ins_up fs (mk n t a n d)
      else if s = 1 - n then plug fs (mk n t a BALANCED d)
      else plug fs (fst (rot n t a s d)))"

fun del_up :: "'a frame list \<Rightarrow> 'a avl \<Rightarrow> 'a avl" where
  "del_up [] t = t"
| "del_up ((n, a, s, d) # fs) t =
     (if s = BALANCED then plug fs (mk n t a (1 - n) d)
      else if s = n then del_up fs (mk n t a BALANCED d)
      else if snd (rot (1 - n) d a s t) then plug fs (fst (rot (1 - n) d a s t))
      else del_up fs (fst (rot (1 - n) d a s t)))"

section \<open>Lemmas\<close>

lemma inorder_mk: "inorder (mk n c a s d) = (if n = LEFT then inorder c @ a # inorder d else inorder d @ a # inorder c)"
  by (simp add: mk_def)

lemma height_mk [simp]: "height (mk n c a s d) = Suc (max (height c) (height d))"
  by (simp add: mk_def max.commute)

lemma mk_flip: "n = LEFT \<or> n = RIGHT \<Longrightarrow> mk (1 - n) c a s d = mk n d a s c"
  by (auto simp: mk_def)

lemma inorder_rot: "n = LEFT \<or> n = RIGHT \<Longrightarrow> inorder (fst (rot n c a s d)) = inorder (mk n c a s d)"
  by (auto simp: rot_def mk_def Let_def split: avl.splits)

lemma inorder_plug: "inorder (plug fs t) = before fs @ inorder t @ after fs"
  by (induction fs t rule: plug.induct) (simp_all add: inorder_mk)

lemma inorder_ins_up: "frames_ok fs h \<Longrightarrow> inorder (ins_up fs t) = before fs @ inorder t @ after fs"
  by (induction fs t arbitrary: h rule: ins_up.induct) (auto simp: inorder_plug inorder_rot inorder_mk)

lemma avl_mk:
  "n = LEFT \<or> n = RIGHT \<Longrightarrow> avl_ok (mk n c a s d) \<longleftrightarrow> avl_ok c \<and> avl_ok d \<and>
     (if n = LEFT then state_ok s (height c) (height d) else state_ok s (height d) (height c))"
  by (auto simp: mk_def)

lemma state_of_mk [simp]: "state_of (mk n c a s d) = s"
  by (simp add: mk_def)

lemma state_ok_cases:
  "state_ok BALANCED hl hr \<longleftrightarrow> hl = hr" "state_ok LEFT hl hr \<longleftrightarrow> hl = Suc hr" "state_ok RIGHT hl hr \<longleftrightarrow> hr = Suc hl"
  by (auto simp: state_ok_def)

lemma state_ok_values: "state_ok s hl hr \<Longrightarrow> s = BALANCED \<or> s = LEFT \<or> s = RIGHT"
  by (auto simp: state_ok_def)

text \<open>The three shapes of the child of a node to be rotated, with all heights relative to the other child.\<close>

lemma heavy_child_cases:
  assumes "avl_ok c" "height c = Suc (Suc h)" "n = LEFT \<or> n = RIGHT"
  obtains
    (balanced) e ca f where "c = mk n e ca BALANCED f" "height e = Suc h" "height f = Suc h" "avl_ok e" "avl_ok f"
  | (outer) e ca f where "c = mk n e ca n f" "height e = Suc h" "height f = h" "avl_ok e" "avl_ok f"
  | (inner) e ca gi ga gs go where "c = mk n e ca (1 - n) (mk n gi ga gs go)" "height e = h"
      "avl_ok e" "avl_ok gi" "avl_ok go" "max (height gi) (height go) = h"
      "if n = LEFT then state_ok gs (height gi) (height go) else state_ok gs (height go) (height gi)"
proof -
  obtain cl ca cs cr where c: "c = Node cl ca cs cr" using assms(2) by (cases c) auto
  define e where "e = (if n = LEFT then cl else cr)"
  define f where "f = (if n = LEFT then cr else cl)"
  have c_mk: "c = mk n e ca cs f" by (simp add: c mk_def e_def f_def)
  have ok: "avl_ok e" "avl_ok f" using assms(1) by (simp_all add: c e_def f_def)
  have st: "if n = LEFT then state_ok cs (height e) (height f) else state_ok cs (height f) (height e)"
    using assms(1) by (simp add: c e_def f_def)
  have h: "max (height e) (height f) = Suc h" using assms(2) by (simp add: c e_def f_def max.commute split: if_splits)
  have "cs = BALANCED \<or> cs = LEFT \<or> cs = RIGHT" using st by (auto split: if_splits dest: state_ok_values)
  then consider "cs = BALANCED" | "cs = n" "cs \<noteq> BALANCED" | "cs = 1 - n" "cs \<noteq> BALANCED" using assms(3) by auto
  then show ?thesis
  proof cases
    case 1
    then have "height e = Suc h" "height f = Suc h" using st h by (auto simp: state_ok_cases split: if_splits)
    then show ?thesis using balanced c_mk ok 1 by blast
  next
    case 2
    then have "height e = Suc h" "height f = h" using st h assms(3) by (auto simp: state_ok_cases split: if_splits)
    then show ?thesis using outer c_mk ok 2 by blast
  next
    case 3
    then have hf: "height e = h" "height f = Suc h" using st h assms(3) by (auto simp: state_ok_cases split: if_splits)
    then obtain gl ga gs gr where f: "f = Node gl ga gs gr" by (cases f) auto
    define gi where "gi = (if n = LEFT then gl else gr)"
    define go where "go = (if n = LEFT then gr else gl)"
    have "f = mk n gi ga gs go" by (simp add: f mk_def gi_def go_def)
    moreover have "avl_ok gi" "avl_ok go" "max (height gi) (height go) = h"
      "if n = LEFT then state_ok gs (height gi) (height go) else state_ok gs (height go) (height gi)"
      using ok(2) hf(2) by (simp_all add: f gi_def go_def max.commute)
    ultimately show ?thesis using inner c_mk ok hf 3(1) by blast
  qed
qed

lemma rot_mk:
  assumes "n = LEFT \<or> n = RIGHT"
  shows "rot n (mk n e ca BALANCED f) a s d = (mk n e ca (1 - n) (mk n f a s d), True)"
    and "rot n (mk n e ca n f) a s d = (mk n e ca BALANCED (mk n f a BALANCED d), False)"
    and "rot n (mk n e ca (1 - n) (mk n gi ga gs go)) a s d =
      (mk n (mk n e ca (if gs = 1 - n then n else BALANCED) gi) ga BALANCED
            (mk n go a (if gs = n then 1 - n else BALANCED) d), False)"
  using assms by (auto simp: rot_def mk_def)

lemma rot_avl:
  assumes "n = LEFT \<or> n = RIGHT" "avl_ok c" "avl_ok d" "height c = Suc (Suc (height d))"
  shows "avl_ok (fst (rot n c a n d)) \<and>
    height (fst (rot n c a n d)) = (if state_of c = BALANCED then 3 else 2) + height d \<and>
    (snd (rot n c a n d) \<longleftrightarrow> state_of c = BALANCED)"
  using assms(2,4,1)
proof (cases rule: heavy_child_cases)
  case (balanced e ca f)
  then show ?thesis using assms by (auto simp: rot_mk avl_mk state_ok_cases)
next
  case (outer e ca f)
  then show ?thesis using assms by (auto simp: rot_mk avl_mk state_ok_cases)
next
  case (inner e ca gi ga gs go)
  have "gs = BALANCED \<or> gs = LEFT \<or> gs = RIGHT" using inner by (auto split: if_splits dest: state_ok_values)
  then show ?thesis
    unfolding inner(1) rot_mk(3) [OF assms(1)]
    using assms(1,3) inner by (elim disjE) (simp_all add: avl_mk state_ok_cases)
qed

lemma plug_avl: "frames_ok fs (height t) \<Longrightarrow> avl_ok t \<Longrightarrow> avl_ok (plug fs t)"
  by (induction fs t rule: plug.induct) (auto simp: avl_mk)

text \<open>The subtree has grown by one: the states on the path are corrected up to the root or the first rotation.\<close>

lemma ins_up_avl:
  assumes "frames_ok fs h" "avl_ok t" "height t = Suc h" "h = 0 \<or> state_of t \<noteq> BALANCED"
  shows "avl_ok (ins_up fs t)"
  using assms
proof (induction fs t arbitrary: h rule: ins_up.induct)
  case (1 t)
  then show ?case by simp
next
  case (2 n a s d fs t)
  have n: "n = LEFT \<or> n = RIGHT" and d: "avl_ok d" and fs: "frames_ok fs (Suc (max h (height d)))"
    and s: "if n = LEFT then state_ok s h (height d) else state_ok s (height d) h"
    using "2.prems"(1) by simp_all
  have "s = BALANCED \<or> s = LEFT \<or> s = RIGHT" using s by (auto split: if_splits dest: state_ok_values)
  then consider "s = BALANCED" | "s = 1 - n" "s \<noteq> BALANCED" | "s = n" "s \<noteq> BALANCED" "s \<noteq> 1 - n" using n by auto
  then show ?case
  proof cases
    case 1
    have "avl_ok (mk n t a n d)" using n d s 1 "2.prems" by (auto simp: avl_mk state_ok_cases)
    moreover have "height (mk n t a n d) = Suc (Suc (max h (height d)))" using n s 1 "2.prems" by (auto simp: state_ok_cases)
    moreover have "n \<noteq> BALANCED" using n by auto
    ultimately show ?thesis using 1 "2.IH" fs by simp
  next
    case 2
    have "avl_ok (mk n t a BALANCED d)" "height (mk n t a BALANCED d) = Suc (max h (height d))"
      using n d s 2 "2.prems" by (auto simp: avl_mk state_ok_cases)
    then show ?thesis using 2 fs by (auto intro: plug_avl)
  next
    case 3
    have h: "h = Suc (height d)" using n s 3 by (auto simp: state_ok_cases)
    then have c: "height t = Suc (Suc (height d))" "state_of t \<noteq> BALANCED" using "2.prems" by simp_all
    have "Suc (max h (height d)) = 2 + height d" using h by simp
    then show ?thesis
      using 3 fs rot_avl [OF n "2.prems"(2) d c(1), of a] c(2) by (auto intro!: plug_avl)
  qed
qed

text \<open>The subtree has shrunk by one.\<close>

lemma del_up_avl:
  assumes "frames_ok fs (Suc h)" "avl_ok t" "height t = h"
  shows "avl_ok (del_up fs t)"
  using assms
proof (induction fs t arbitrary: h rule: del_up.induct)
  case (1 t)
  then show ?case by simp
next
  case (2 n a s d fs t)
  have n: "n = LEFT \<or> n = RIGHT" and d: "avl_ok d" and fs: "frames_ok fs (Suc (max (Suc h) (height d)))"
    and s: "if n = LEFT then state_ok s (Suc h) (height d) else state_ok s (height d) (Suc h)"
    using "2.prems"(1) by simp_all
  have "s = BALANCED \<or> s = LEFT \<or> s = RIGHT" using s by (auto split: if_splits dest: state_ok_values)
  then consider "s = BALANCED" | "s = n" "s \<noteq> BALANCED" | "s = 1 - n" "s \<noteq> BALANCED" "s \<noteq> n" using n by auto
  then show ?case
  proof cases
    case 1
    have "avl_ok (mk n t a (1 - n) d)" "height (mk n t a (1 - n) d) = Suc (max (Suc h) (height d))"
      using n d s 1 "2.prems" by (auto simp: avl_mk state_ok_cases)
    then show ?thesis using 1 fs by (auto intro: plug_avl)
  next
    case 2
    have "avl_ok (mk n t a BALANCED d)" "Suc (height (mk n t a BALANCED d)) = Suc (max (Suc h) (height d))"
      using n d s 2 "2.prems" by (auto simp: avl_mk state_ok_cases)
    then show ?thesis using 2 "2.IH"(1) fs by simp
  next
    case 3
    have h: "height d = Suc (Suc (height t))" using n s 3 "2.prems" by (auto simp: state_ok_cases)
    have n': "1 - n = LEFT \<or> 1 - n = RIGHT" using n by auto
    have top: "Suc (max (Suc h) (height d)) = 3 + height t" using h "2.prems" by simp
    note R = rot_avl [OF n' d "2.prems"(2) h, of a]
    show ?thesis
    proof (cases "state_of d = BALANCED")
      case True
      then show ?thesis using 3 R fs top by (auto intro!: plug_avl)
    next
      case False
      define t' where "t' = fst (rot (1 - n) d a s t)"
      have t': "avl_ok t'" "height t' = 2 + height t" "\<not> snd (rot (1 - n) d a s t)"
        using False R 3(1) by (simp_all add: t'_def)
      have "frames_ok fs (Suc (2 + height t))" using fs top by (simp add: eval_nat_numeral)
      then show ?thesis using 3 t' "2.IH"(2) [of "2 + height t"] by (simp add: t'_def)
    qed
  qed
qed

lemma inorder_del_up: "frames_ok fs h \<Longrightarrow> inorder (del_up fs t) = before fs @ inorder t @ after fs"
proof (induction fs t arbitrary: h rule: del_up.induct)
  case (2 n a s d fs t)
  have n: "n = LEFT \<or> n = RIGHT" and fs: "frames_ok fs (Suc (max h (height d)))" using "2.prems" by simp_all
  have r: "inorder (fst (rot (1 - n) d a s t)) = (if n = LEFT then inorder t @ a # inorder d else inorder d @ a # inorder t)"
    using n inorder_rot [of "1 - n" d a s t] by (auto simp: inorder_mk)
  show ?case
    using "2.IH"(1) [OF _ _ fs] "2.IH"(2) [OF _ _ _ fs] r n
    by (elim disjE) (simp_all add: inorder_plug inorder_mk)
qed simp

section \<open>Search, insertion and removal on trees\<close>

text \<open>\<open>c x\<close> is the comparison of the node \<open>x\<close> with the object that is looked for.\<close>

fun find_path :: "('a \<Rightarrow> int) \<Rightarrow> 'a avl \<Rightarrow> 'a frame list \<Rightarrow> 'a frame list \<times> 'a avl" where
  "find_path c Leaf fs = (fs, Leaf)"
| "find_path c (Node l x s r) fs =
     (if c x = 0 then (fs, Node l x s r)
      else if c x < 0 then find_path c r ((RIGHT, x, s, l) # fs)
      else find_path c l ((LEFT, x, s, r) # fs))"

fun max_path :: "'a avl \<Rightarrow> 'a frame list \<Rightarrow> 'a frame list \<times> 'a avl" where
  "max_path Leaf fs = (fs, Leaf)"
| "max_path (Node l x s r) fs = (if r = Leaf then (fs, Node l x s r) else max_path r ((RIGHT, x, s, l) # fs))"

definition tree_insert :: "('a \<Rightarrow> int) \<Rightarrow> 'a \<Rightarrow> 'a avl \<Rightarrow> 'a avl" where
  "tree_insert c x t =
     (case find_path c t [] of (fs, Leaf) \<Rightarrow> ins_up fs (Node Leaf x BALANCED Leaf) | _ \<Rightarrow> t)"

text \<open>Removal of the root of the subtree at the end of a path: the node is replaced by its predecessor.\<close>

fun remove_at :: "'a frame list \<Rightarrow> 'a avl \<Rightarrow> 'a avl" where
  "remove_at fs Leaf = plug fs Leaf"
| "remove_at fs (Node l x s r) =
     (case max_path l [] of
        (gs, Leaf) \<Rightarrow> del_up fs r
      | (gs, Node l' y s' r') \<Rightarrow> del_up (gs @ (LEFT, y, s, r) # fs) l')"

definition tree_remove :: "('a \<Rightarrow> int) \<Rightarrow> 'a avl \<Rightarrow> 'a avl" where
  "tree_remove c t = (case find_path c t [] of (fs, f) \<Rightarrow> remove_at fs f)"

definition tree_find :: "('a \<Rightarrow> int) \<Rightarrow> 'a avl \<Rightarrow> 'a option" where
  "tree_find c t = (case find_path c t [] of (fs, Leaf) \<Rightarrow> None | (fs, Node l x s r) \<Rightarrow> Some x)"

text \<open>The order the search relies on: nodes that compare below, at most one equal, nodes above.\<close>

definition separated :: "('a \<Rightarrow> int) \<Rightarrow> 'a list \<Rightarrow> bool" where
  "separated c xs \<longleftrightarrow> sorted_wrt (\<lambda>x y. c y \<le> 0 \<longrightarrow> c x < 0) xs"

lemma find_path_plug: "find_path c t fs = (fs', f) \<Longrightarrow> plug fs' f = plug fs t"
  by (induction c t fs rule: find_path.induct) (auto simp: mk_def split: if_splits)

lemma find_path_focus: "find_path c t fs = (fs', f) \<Longrightarrow> f = Leaf \<or> (\<exists>l x s r. f = Node l x s r \<and> c x = 0)"
  by (induction c t fs rule: find_path.induct) (auto split: if_splits)

lemma find_path_ok:
  "find_path c t fs = (fs', f) \<Longrightarrow> frames_ok fs (height t) \<Longrightarrow> avl_ok t \<Longrightarrow> frames_ok fs' (height f) \<and> avl_ok f"
  by (induction c t fs rule: find_path.induct) (auto simp: max.commute split: if_splits)

lemma find_path_sides:
  assumes "find_path c t fs = (fs', f)" "separated c (inorder t)"
    and "\<forall>y \<in> set (before fs). c y < 0" "\<forall>y \<in> set (after fs). 0 < c y"
  shows "(\<forall>y \<in> set (before fs'). c y < 0) \<and> (\<forall>y \<in> set (after fs'). 0 < c y) \<and> separated c (inorder f)"
  using assms
proof (induction c t fs rule: find_path.induct)
  case (1 c fs)
  then show ?case by simp
next
  case (2 c l x s r fs)
  have sep: "separated c (inorder l)" "separated c (inorder r)"
    "\<forall>y \<in> set (inorder l). c x \<le> 0 \<longrightarrow> c y < 0" "\<forall>y \<in> set (inorder r). c y \<le> 0 \<longrightarrow> c x < 0"
    using "2.prems"(2) by (auto simp: separated_def sorted_wrt_append)
  consider "c x = 0" | "c x < 0" | "0 < c x" by linarith
  then show ?case
  proof cases
    case 1
    then show ?thesis using "2.prems" by auto
  next
    case 2
    then show ?thesis using "2.prems" "2.IH"(1) sep by fastforce
  next
    case 3
    then show ?thesis using "2.prems" "2.IH"(2) sep by fastforce
  qed
qed

lemma max_path_Node: "t \<noteq> Leaf \<Longrightarrow> \<exists>fs' l y s. max_path t fs = (fs', Node l y s Leaf)"
  by (induction t fs rule: max_path.induct) auto

lemma max_path_append: "max_path t fs = (fst (max_path t []) @ fs, snd (max_path t []))"
proof (induction t arbitrary: fs)
  case (Node l x s r)
  show ?case
    using Node.IH(2) [of "(RIGHT, x, s, l) # fs"] Node.IH(2) [of "[(RIGHT, x, s, l)]"] by simp
qed simp

lemma max_path_plug: "max_path t fs = (fs', f) \<Longrightarrow> plug fs' f = plug fs t"
  by (induction t fs rule: max_path.induct) (auto simp: mk_def split: if_splits)

lemma max_path_ok:
  "max_path t fs = (fs', f) \<Longrightarrow> frames_ok fs (height t) \<Longrightarrow> avl_ok t \<Longrightarrow> frames_ok fs' (height f) \<and> avl_ok f"
  by (induction t fs rule: max_path.induct) (auto simp: max.commute split: if_splits)

lemma max_path_after: "max_path t fs = (fs', f) \<Longrightarrow> after fs' = after fs"
  by (induction t fs rule: max_path.induct) (auto split: if_splits)

lemma remove_at_Node:
  assumes "frames_ok fs (height (Node l x s r))" "avl_ok (Node l x s r)"
  shows "inorder (remove_at fs (Node l x s r)) = before fs @ inorder l @ inorder r @ after fs"
    and "avl_ok (remove_at fs (Node l x s r))"
proof -
  have lr: "avl_ok l" "avl_ok r" "state_ok s (height l) (height r)" using assms(2) by simp_all
  have "inorder (remove_at fs (Node l x s r)) = before fs @ inorder l @ inorder r @ after fs \<and>
      avl_ok (remove_at fs (Node l x s r))"
  proof (cases "l = Leaf")
    case True
    have "height r \<le> 1" using lr True by (auto simp: state_ok_def)
    have "frames_ok fs (Suc (height r))" using assms(1) True by simp
    then show ?thesis
      using True lr del_up_avl [of fs "height r" r] inorder_del_up [of fs "Suc (height r)" r] by simp
  next
    case False
    obtain gs l' y s' where m: "max_path l [] = (gs, Node l' y s' Leaf)" using max_path_Node [OF False] by blast
    let ?top = "\<lambda>z. (LEFT, z, s, r) # fs"
    have "max_path l (?top y) = (gs @ ?top y, Node l' y s' Leaf)" using max_path_append [of l "?top y"] m by simp
    moreover have "frames_ok (?top y) (height l)" using assms(1) lr by simp
    ultimately have ok: "frames_ok (gs @ ?top y) (height (Node l' y s' Leaf))" "avl_ok (Node l' y s' Leaf)"
      using max_path_ok lr(1) by blast+
    have shape: "avl_ok l'" "frames_ok (gs @ ?top y) (Suc (height l'))" using ok by (simp_all add: state_ok_def)
    have "inorder l = before gs @ inorder l' @ [y]"
      using max_path_plug [OF m] max_path_after [OF m] inorder_plug [of gs "Node l' y s' Leaf"] by simp
    moreover have "before (gs @ ?top y) = before fs @ before gs" "after (gs @ ?top y) = after gs @ y # inorder r @ after fs"
      by (induction gs) auto
    ultimately show ?thesis
      using m max_path_after [OF m] inorder_del_up [OF shape(2)] del_up_avl [OF shape(2,1) refl] by simp
  qed
  then show "inorder (remove_at fs (Node l x s r)) = before fs @ inorder l @ inorder r @ after fs"
    "avl_ok (remove_at fs (Node l x s r))" by simp_all
qed

lemma filter_sides:
  "(\<forall>y \<in> set xs. c y < (0::int)) \<Longrightarrow> filter (\<lambda>y. c y < 0) xs = xs \<and> filter (\<lambda>y. 0 < c y) xs = [] \<and> filter (\<lambda>y. c y \<noteq> 0) xs = xs"
  "(\<forall>y \<in> set xs. 0 < c y) \<Longrightarrow> filter (\<lambda>y. c y < 0) xs = [] \<and> filter (\<lambda>y. 0 < c y) xs = xs \<and> filter (\<lambda>y. c y \<noteq> 0) xs = xs"
  by (induction xs) auto

lemma find_path_root:
  assumes "find_path c t [] = (fs, f)" "separated c (inorder t)"
  shows "inorder t = before fs @ inorder f @ after fs" "\<forall>y \<in> set (before fs). c y < 0"
    "\<forall>y \<in> set (after fs). 0 < c y" "separated c (inorder f)"
  using find_path_plug [OF assms(1)] inorder_plug [of fs f] find_path_sides [OF assms(1,2)] by simp_all

lemma tree_insert_new:
  assumes "avl_ok t" "separated c (inorder t)" "\<forall>y \<in> set (inorder t). c y \<noteq> 0"
  shows "inorder (tree_insert c x t) = filter (\<lambda>y. c y < 0) (inorder t) @ x # filter (\<lambda>y. 0 < c y) (inorder t)"
    and "avl_ok (tree_insert c x t)"
proof -
  obtain fs f where p: "find_path c t [] = (fs, f)" by fastforce
  note root = find_path_root [OF p assms(2)]
  have f: "f = Leaf" using find_path_focus [OF p] root(1) assms(3) by auto
  then have ok: "frames_ok fs 0" using find_path_ok [OF p _ assms(1)] by simp
  show "inorder (tree_insert c x t) = filter (\<lambda>y. c y < 0) (inorder t) @ x # filter (\<lambda>y. 0 < c y) (inorder t)"
    using p f root filter_sides [of "before fs" c] filter_sides [of "after fs" c]
    by (simp add: tree_insert_def inorder_ins_up [OF ok])
  show "avl_ok (tree_insert c x t)"
    using p f ins_up_avl [OF ok] by (simp add: tree_insert_def state_ok_def)
qed

lemma tree_insert_old:
  assumes "separated c (inorder t)" "\<exists>y \<in> set (inorder t). c y = 0"
  shows "tree_insert c x t = t"
proof -
  obtain fs f where p: "find_path c t [] = (fs, f)" by fastforce
  have "f \<noteq> Leaf" using find_path_root [OF p assms(1)] assms(2) by fastforce
  then show ?thesis by (cases f) (simp_all add: tree_insert_def p)
qed

lemma tree_remove_inorder:
  assumes "avl_ok t" "separated c (inorder t)"
  shows "inorder (tree_remove c t) = filter (\<lambda>y. c y \<noteq> 0) (inorder t)" and "avl_ok (tree_remove c t)"
proof -
  obtain fs f where p: "find_path c t [] = (fs, f)" by fastforce
  note root = find_path_root [OF p assms(2)]
  have ok: "frames_ok fs (height f)" "avl_ok f" using find_path_ok [OF p _ assms(1)] by simp_all
  have sides: "filter (\<lambda>y. c y \<noteq> 0) (before fs) = before fs" "filter (\<lambda>y. c y \<noteq> 0) (after fs) = after fs"
    using filter_sides root(2,3) by blast+
  have "inorder (tree_remove c t) = filter (\<lambda>y. c y \<noteq> 0) (inorder t) \<and> avl_ok (tree_remove c t)"
  proof (cases f)
    case Leaf
    then show ?thesis
      using root(1) sides find_path_plug [OF p] assms(1) by (simp add: tree_remove_def p)
  next
    case (Node l x s r)
    have x: "c x = 0" using find_path_focus [OF p] Node by simp
    have "\<forall>y \<in> set (inorder l). c y < 0" "\<forall>y \<in> set (inorder r). 0 < c y"
      using root(4) x Node by (auto simp: separated_def sorted_wrt_append)
    then have "filter (\<lambda>y. c y \<noteq> 0) (inorder l) = inorder l" "filter (\<lambda>y. c y \<noteq> 0) (inorder r) = inorder r"
      using filter_sides by blast+
    then show ?thesis
      using Node ok remove_at_Node [of fs l x s r] root(1) sides x by (simp add: tree_remove_def p)
  qed
  then show "inorder (tree_remove c t) = filter (\<lambda>y. c y \<noteq> 0) (inorder t)" "avl_ok (tree_remove c t)" by simp_all
qed

lemma tree_find_iff:
  assumes "separated c (inorder t)"
  shows "tree_find c t = Some x \<longleftrightarrow> x \<in> set (inorder t) \<and> c x = 0"
proof -
  obtain fs f where p: "find_path c t [] = (fs, f)" by fastforce
  note root = find_path_root [OF p assms]
  show ?thesis
  proof (cases f)
    case Leaf
    then show ?thesis using root by (auto simp: tree_find_def p)
  next
    case (Node l y s r)
    have y: "c y = 0" using find_path_focus [OF p] Node by simp
    have "\<forall>z \<in> set (inorder l). c z < 0" "\<forall>z \<in> set (inorder r). 0 < c z"
      using root(4) y Node by (auto simp: separated_def sorted_wrt_append)
    then show ?thesis using root y Node by (auto simp: tree_find_def p)
  qed
qed

section \<open>Height\<close>

text \<open>The least number of nodes of a balanced tree of a given height.\<close>

fun min_nodes :: "nat \<Rightarrow> nat" where
  "min_nodes 0 = 0"
| "min_nodes (Suc 0) = 1"
| "min_nodes (Suc (Suc h)) = Suc (min_nodes (Suc h) + min_nodes h)"

lemma min_nodes_mono_Suc: "min_nodes h \<le> min_nodes (Suc h)"
  by (induction h rule: min_nodes.induct) simp_all

lemma min_nodes_mono: "g \<le> h \<Longrightarrow> min_nodes g \<le> min_nodes h"
  by (rule lift_Suc_mono_le [of min_nodes, OF min_nodes_mono_Suc])

lemma avl_min_nodes: "avl_ok t \<Longrightarrow> min_nodes (height t) \<le> node_count t"
proof (induction t)
  case (Node l a s r)
  then have IH: "min_nodes (height l) \<le> node_count l" "min_nodes (height r) \<le> node_count r"
    and "state_ok s (height l) (height r)" by simp_all
  then consider "height l = height r" | "height l = Suc (height r)" | "height r = Suc (height l)"
    by (auto simp: state_ok_def)
  then show ?case
  proof cases
    case 1
    show ?thesis
    proof (cases "height r")
      case 0
      then show ?thesis using 1 by simp
    next
      case (Suc h)
      then show ?thesis using 1 IH min_nodes_mono_Suc [of h] by simp
    qed
  qed (use IH in simp_all)
qed simp

lemma avl_height_less: "avl_ok t \<Longrightarrow> node_count t < min_nodes (Suc h) \<Longrightarrow> height t \<le> h"
  using avl_min_nodes [of t] min_nodes_mono [of "Suc h" "height t"] by (cases "height t \<le> h") simp_all

text \<open>The same, computed upwards.\<close>

fun min_nodes_from :: "nat \<Rightarrow> nat \<Rightarrow> nat \<Rightarrow> nat" where
  "min_nodes_from 0 a b = a"
| "min_nodes_from (Suc n) a b = min_nodes_from n b (Suc (a + b))"

lemma min_nodes_from_numeral: "min_nodes_from (numeral k) a b = min_nodes_from (pred_numeral k) b (Suc (a + b))"
  by (simp add: numeral_eq_Suc)

lemma min_nodes_from_1: "min_nodes_from 1 a b = b"
  by (simp only: One_nat_def min_nodes_from.simps)

lemma min_nodes_from: "min_nodes_from n (min_nodes h) (min_nodes (Suc h)) = min_nodes (h + n)"
proof (induction n arbitrary: h)
  case (Suc n)
  have "min_nodes_from (Suc n) (min_nodes h) (min_nodes (Suc h)) = min_nodes_from n (min_nodes (Suc h)) (min_nodes (Suc (Suc h)))"
    by (simp add: add.commute)
  then show ?case using Suc [of "Suc h"] by simp
qed simp

lemma min_nodes_33: "min_nodes 33 = 9227464"
proof -
  have "min_nodes 33 = min_nodes_from 33 0 1" using min_nodes_from [of 33 0] by simp
  also have "\<dots> = 9227464" by (simp add: min_nodes_from_numeral min_nodes_from_1 del: One_nat_def)
  finally show ?thesis .
qed

end
