(* ===== verification/AvlNode.thy ===== *)
theory AvlNode
  imports AvlTree
begin

text \<open>
  \<^verbatim>\<open>algorithms/avlTree/src/AvlTreeNode.cpp\<close>, operation by operation, on an explicit store:
  nodes have addresses, a variable of type \<^verbatim>\<open>AvlTreeNode**\<close> (\<^verbatim>\<open>ppThis\<close>) is a slot, which is
  the local variable \<^verbatim>\<open>pRoot\<close> or a child field of a node, and the stacks of the code are
  lists of slots and directions, the top first. \<^verbatim>\<open>None\<close> is the result of a run that
  dereferences a null or invalid pointer or writes outside an array of \<^verbatim>\<open>TREE_MAX_HEIGHT\<close>
  entries. \<^verbatim>\<open>CompareTo\<close> is virtual and is a parameter: \<open>cmp u v\<close> compares the values two
  objects hold.
\<close>

section \<open>Store\<close>

type_synonym addr = nat

record 'k avl_node =
  m_nState :: int
  m_pLeft :: "addr option"
  m_pRight :: "addr option"
  m_value :: 'k

definition m_pChild :: "int \<Rightarrow> 'k avl_node \<Rightarrow> addr option" where
  "m_pChild n nd = (if n = LEFT then m_pLeft nd else m_pRight nd)"

definition set_pChild :: "int \<Rightarrow> addr option \<Rightarrow> 'k avl_node \<Rightarrow> 'k avl_node" where
  "set_pChild n p nd = (if n = LEFT then nd\<lparr>m_pLeft := p\<rparr> else nd\<lparr>m_pRight := p\<rparr>)"

text \<open>The constructor: a node for the value \<open>v\<close>.\<close>

definition AvlTreeNode :: "'k \<Rightarrow> 'k avl_node" where
  "AvlTreeNode v = \<lparr>m_nState = BALANCED, m_pLeft = None, m_pRight = None, m_value = v\<rparr>"

record 'k avl_state =
  pRoot :: "addr option"
  heap :: "addr \<Rightarrow> 'k avl_node option"

datatype slot = SlotRoot | SlotChild addr int

text \<open>\<^verbatim>\<open>*ppThis\<close>, \<^verbatim>\<open>*ppThis = p\<close> and an assignment to fields of the node at \<open>a\<close>.\<close>

fun slot_get :: "slot \<Rightarrow> 'k avl_state \<Rightarrow> addr option option" where
  "slot_get SlotRoot st = Some (pRoot st)"
| "slot_get (SlotChild a n) st = map_option (m_pChild n) (heap st a)"

definition update_node :: "addr \<Rightarrow> ('k avl_node \<Rightarrow> 'k avl_node) \<Rightarrow> 'k avl_state \<Rightarrow> 'k avl_state option" where
  "update_node a f st = do { nd \<leftarrow> heap st a; Some (st\<lparr>heap := (heap st)(a \<mapsto> f nd)\<rparr>) }"

fun slot_set :: "slot \<Rightarrow> addr option \<Rightarrow> 'k avl_state \<Rightarrow> 'k avl_state option" where
  "slot_set SlotRoot p st = Some (st\<lparr>pRoot := p\<rparr>)"
| "slot_set (SlotChild a n) p st = update_node a (set_pChild n p) st"

abbreviation TREE_MAX_HEIGHT :: nat where "TREE_MAX_HEIGHT \<equiv> 33"

type_synonym stack = "(slot \<times> int) list"

section \<open>Rotate\<close>

text \<open>\<^verbatim>\<open>this->Rotate(ppThis, n)\<close>\<close>

definition Rotate :: "addr \<Rightarrow> slot \<Rightarrow> int \<Rightarrow> 'k avl_state \<Rightarrow> ('k avl_state \<times> bool) option" where
  "Rotate this ppThis n st =
     (let r = 1 - n in
      do { A \<leftarrow> heap st this;
           pChild \<leftarrow> m_pChild n A;
           C \<leftarrow> heap st pChild;
           let pGrandChild = m_pChild r C;
           if m_nState C \<noteq> r then
             do { st1 \<leftarrow> update_node this (set_pChild n pGrandChild) st;
                  st2 \<leftarrow> update_node pChild (set_pChild r (Some this)) st1;
                  st3 \<leftarrow> slot_set ppThis (Some pChild) st2;
                  if m_nState C = BALANCED then
                    do { st4 \<leftarrow> update_node pChild (m_nState_update (\<lambda>_. r)) st3;
                         Some (st4, True) }
                  else
                    do { st4 \<leftarrow> update_node this (m_nState_update (\<lambda>_. BALANCED)) st3;
                         st5 \<leftarrow> update_node pChild (m_nState_update (\<lambda>_. BALANCED)) st4;
                         Some (st5, False) } }
           else
             do { g \<leftarrow> pGrandChild;
                  G \<leftarrow> heap st g;
                  st1 \<leftarrow> update_node pChild (set_pChild r (m_pChild n G)) st;
                  st2 \<leftarrow> update_node this (set_pChild n (m_pChild r G)) st1;
                  st3 \<leftarrow> update_node g (set_pChild n (Some pChild)) st2;
                  st4 \<leftarrow> update_node g (set_pChild r (Some this)) st3;
                  st5 \<leftarrow> slot_set ppThis (Some g) st4;
                  st6 \<leftarrow> update_node this (m_nState_update (\<lambda>_. BALANCED)) st5;
                  st7 \<leftarrow> update_node pChild (m_nState_update (\<lambda>_. BALANCED)) st6;
                  st8 \<leftarrow> (if m_nState G = n then update_node this (m_nState_update (\<lambda>_. r)) st7
                          else if m_nState G = r then update_node pChild (m_nState_update (\<lambda>_. n)) st7
                          else Some st7);
                  st9 \<leftarrow> update_node g (m_nState_update (\<lambda>_. BALANCED)) st8;
                  Some (st9, False) } })"

section \<open>Insert\<close>

text \<open>
  The search loop of \<^verbatim>\<open>Insert(pInsert)\<close>. \<^verbatim>\<open>Inl ()\<close> is the early return (a node with the same
  value, or a full stack), \<^verbatim>\<open>Inr\<close> the empty slot and the stack.
\<close>

function insert_find :: "('k \<Rightarrow> 'k \<Rightarrow> int) \<Rightarrow> 'k \<Rightarrow> 'k avl_state \<Rightarrow> slot \<Rightarrow> stack \<Rightarrow> (unit + slot \<times> stack) option" where
  "insert_find cmp v st ppThis stk =
     do { p \<leftarrow> slot_get ppThis st;
          case p of
            None \<Rightarrow> Some (Inr (ppThis, stk))
          | Some a \<Rightarrow>
              do { nd \<leftarrow> heap st a;
                   let n = cmp (m_value nd) v;
                   if n = 0 then Some (Inl ())
                   else if TREE_MAX_HEIGHT \<le> length stk then Some (Inl ())
                   else let d = (if n < 0 then RIGHT else LEFT)
                        in insert_find cmp v st (SlotChild a d) ((ppThis, d) # stk) } }"
  by pat_completeness auto
termination
  by (relation "measure (\<lambda>(cmp, v, st, pp, stk). TREE_MAX_HEIGHT - length stk)") auto

declare insert_find.simps [simp del]

text \<open>The rebalancing loop of both versions of \<^verbatim>\<open>Insert\<close>.\<close>

fun insert_up :: "stack \<Rightarrow> 'k avl_state \<Rightarrow> 'k avl_state option" where
  "insert_up [] st = Some st"
| "insert_up ((ppThis, n) # stk) st =
     do { p \<leftarrow> slot_get ppThis st;
          pNode \<leftarrow> p;
          nd \<leftarrow> heap st pNode;
          if m_nState nd = BALANCED then
            do { st' \<leftarrow> update_node pNode (m_nState_update (\<lambda>_. n)) st; insert_up stk st' }
          else if m_nState nd = 1 - n then update_node pNode (m_nState_update (\<lambda>_. BALANCED)) st
          else map_option fst (Rotate pNode ppThis n st) }"

text \<open>\<^verbatim>\<open>this->Insert(pInsert)\<close>, the root of the result in \<^verbatim>\<open>pRoot\<close>.\<close>

definition Insert1 :: "('k \<Rightarrow> 'k \<Rightarrow> int) \<Rightarrow> addr \<Rightarrow> addr \<Rightarrow> 'k avl_state \<Rightarrow> 'k avl_state option" where
  "Insert1 cmp this pInsert st0 =
     do { ins \<leftarrow> heap st0 pInsert;
          let st = st0\<lparr>pRoot := Some this\<rparr>;
          found \<leftarrow> insert_find cmp (m_value ins) st SlotRoot [];
          case found of
            Inl u \<Rightarrow> Some st
          | Inr (ppThis, stk) \<Rightarrow> do { st1 \<leftarrow> slot_set ppThis (Some pInsert) st; insert_up stk st1 } }"

section \<open>Probe\<close>

datatype probe_result = FOUND | NOT_FOUND | FULL

text \<open>
  \<^verbatim>\<open>ProbePath\<close>; the two stacks are the parts of the arrays below \<^verbatim>\<open>m_nStackTop\<close>. The entry
  for an empty slot has no direction. \<^verbatim>\<open>m_pRoot\<close> is \<^verbatim>\<open>pRoot\<close> of the state.
\<close>

record probe_path =
  m_arppNodeStack :: "slot list"
  m_arnDirStack :: "int list"
  m_eResult :: probe_result

function probe_loop :: "('k \<Rightarrow> 'k \<Rightarrow> int) \<Rightarrow> 'k \<Rightarrow> 'k avl_state \<Rightarrow> slot \<Rightarrow> slot list \<Rightarrow> int list \<Rightarrow> probe_path option" where
  "probe_loop cmp v st ppThis nodes dirs =
     do { p \<leftarrow> slot_get ppThis st;
          if TREE_MAX_HEIGHT \<le> length nodes then None
          else case p of
            None \<Rightarrow> Some \<lparr>m_arppNodeStack = ppThis # nodes, m_arnDirStack = dirs, m_eResult = NOT_FOUND\<rparr>
          | Some a \<Rightarrow>
              do { nd \<leftarrow> heap st a;
                   let n = cmp (m_value nd) v;
                   let d = (if n < 0 then RIGHT else LEFT);
                   if n = 0 then Some \<lparr>m_arppNodeStack = ppThis # nodes, m_arnDirStack = d # dirs, m_eResult = FOUND\<rparr>
                   else if TREE_MAX_HEIGHT \<le> Suc (length nodes) then
                     Some \<lparr>m_arppNodeStack = ppThis # nodes, m_arnDirStack = d # dirs, m_eResult = FULL\<rparr>
                   else probe_loop cmp v st (SlotChild a d) (ppThis # nodes) (d # dirs) } }"
  by pat_completeness auto
termination
  by (relation "measure (\<lambda>(cmp, v, st, pp, nodes, dirs). TREE_MAX_HEIGHT - length nodes)") auto

declare probe_loop.simps [simp del]

definition Probe :: "('k \<Rightarrow> 'k \<Rightarrow> int) \<Rightarrow> addr \<Rightarrow> 'k \<Rightarrow> 'k avl_state \<Rightarrow> ('k avl_state \<times> probe_path) option" where
  "Probe cmp this v st0 =
     (let st = st0\<lparr>pRoot := Some this\<rparr>
      in do { path \<leftarrow> probe_loop cmp v st SlotRoot [] []; Some (st, path) })"

text \<open>\<^verbatim>\<open>ProbePath::Access()\<close>\<close>

definition Access :: "probe_path \<Rightarrow> 'k avl_state \<Rightarrow> addr option option" where
  "Access path st =
     (if m_eResult path = FOUND then slot_get (hd (m_arppNodeStack path)) st else Some None)"

text \<open>\<^verbatim>\<open>Insert(pPath, pInsert)\<close>\<close>

definition Insert2 :: "probe_path \<Rightarrow> addr \<Rightarrow> 'k avl_state \<Rightarrow> 'k avl_state option" where
  "Insert2 path pInsert st =
     (case m_arppNodeStack path of
        [] \<Rightarrow> None
      | ppThis # nodes \<Rightarrow>
          do { p \<leftarrow> slot_get ppThis st;
               if p \<noteq> None then Some st
               else do { st1 \<leftarrow> slot_set ppThis (Some pInsert) st;
                         insert_up (zip nodes (m_arnDirStack path)) st1 } })"

section \<open>Remove\<close>

text \<open>
  The search loop of \<^verbatim>\<open>Remove(pComparable, ppRemoved)\<close>: it goes on below the node found to
  the node that will take its place. \<^verbatim>\<open>tgt\<close> holds \<^verbatim>\<open>ppTarget\<close> and the stack index \<^verbatim>\<open>pppStack\<close>
  points to. The loop has no bound of its own.
\<close>

function remove_find :: "('k \<Rightarrow> 'k \<Rightarrow> int) \<Rightarrow> 'k \<Rightarrow> 'k avl_state \<Rightarrow> slot \<Rightarrow> stack \<Rightarrow> (slot \<times> nat) option
    \<Rightarrow> (stack \<times> (slot \<times> nat) option) option" where
  "remove_find cmp v st ppThis stk tgt =
     do { p \<leftarrow> slot_get ppThis st;
          case p of
            None \<Rightarrow> Some (stk, tgt)
          | Some a \<Rightarrow>
              do { nd \<leftarrow> heap st a;
                   let n = cmp (m_value nd) v;
                   let tgt' = (if n = 0 then Some (ppThis, length stk + 1) else tgt);
                   let d = (if n < 0 then RIGHT else LEFT);
                   if TREE_MAX_HEIGHT \<le> length stk then None
                   else remove_find cmp v st (SlotChild a d) ((ppThis, d) # stk) tgt' } }"
  by pat_completeness auto
termination
  by (relation "measure (\<lambda>(cmp, v, st, pp, stk, tgt). TREE_MAX_HEIGHT - length stk)") auto

declare remove_find.simps [simp del]

text \<open>
  \<^verbatim>\<open>arppNodeStack[i] = s\<close>, the stack being the first entries of the array. An entry above
  the top is dead; an index outside the array is an error.
\<close>

definition stack_write :: "nat \<Rightarrow> slot \<Rightarrow> stack \<Rightarrow> stack option" where
  "stack_write i s stk =
     (if TREE_MAX_HEIGHT \<le> i then None
      else if i < length stk then (let r = rev stk in Some (rev (r[i := (s, snd (r ! i))])))
      else Some stk)"

text \<open>Both versions of \<^verbatim>\<open>Remove\<close> from \<^verbatim>\<open>pTarget = *ppTarget\<close> to \<^verbatim>\<open>pTarget->m_pChild[...] = NULL\<close>.\<close>

definition remove_swap :: "slot \<Rightarrow> int \<Rightarrow> slot \<Rightarrow> nat \<Rightarrow> stack \<Rightarrow> 'k avl_state \<Rightarrow> ('k avl_state \<times> stack \<times> addr) option" where
  "remove_swap ppThis n ppTarget i stk st =
     do { p \<leftarrow> slot_get ppTarget st;
          pTarget \<leftarrow> p;
          q \<leftarrow> slot_get ppThis st;
          pNode \<leftarrow> q;
          st1 \<leftarrow> slot_set ppTarget (Some pNode) st;
          nd \<leftarrow> heap st1 pNode;
          st2 \<leftarrow> slot_set ppThis (m_pChild (1 - n) nd) st1;
          t2 \<leftarrow> heap st2 pTarget;
          st3 \<leftarrow> update_node pNode (set_pChild LEFT (m_pChild LEFT t2)) st2;
          t3 \<leftarrow> heap st3 pTarget;
          st4 \<leftarrow> update_node pNode (set_pChild RIGHT (m_pChild RIGHT t3)) st3;
          t4 \<leftarrow> heap st4 pTarget;
          st5 \<leftarrow> update_node pNode (m_nState_update (\<lambda>_. m_nState t4)) st4;
          stk' \<leftarrow> stack_write i (SlotChild pNode (1 - n)) stk;
          st6 \<leftarrow> update_node pTarget (set_pChild LEFT None \<circ> set_pChild RIGHT None) st5;
          Some (st6, stk', pTarget) }"

fun remove_up :: "stack \<Rightarrow> 'k avl_state \<Rightarrow> 'k avl_state option" where
  "remove_up [] st = Some st"
| "remove_up ((ppThis, n) # stk) st =
     do { p \<leftarrow> slot_get ppThis st;
          pNode \<leftarrow> p;
          nd \<leftarrow> heap st pNode;
          if m_nState nd = BALANCED then update_node pNode (m_nState_update (\<lambda>_. 1 - n)) st
          else if m_nState nd = n then
            do { st' \<leftarrow> update_node pNode (m_nState_update (\<lambda>_. BALANCED)) st; remove_up stk st' }
          else
            do { (st', b) \<leftarrow> Rotate pNode ppThis (1 - n) st;
                 if b then Some st' else remove_up stk st' } }"

text \<open>\<^verbatim>\<open>this->Remove(pComparable, ppRemoved)\<close>, the root of the result in \<^verbatim>\<open>pRoot\<close>, with \<^verbatim>\<open>*ppRemoved\<close>.\<close>

definition Remove1 :: "('k \<Rightarrow> 'k \<Rightarrow> int) \<Rightarrow> addr \<Rightarrow> 'k \<Rightarrow> 'k avl_state \<Rightarrow> ('k avl_state \<times> addr option) option" where
  "Remove1 cmp this v st0 =
     (let st = st0\<lparr>pRoot := Some this\<rparr> in
      do { (stk, tgt) \<leftarrow> remove_find cmp v st SlotRoot [] None;
           case (tgt, stk) of
             (None, _) \<Rightarrow> Some (st, None)
           | (Some (ppTarget, i), []) \<Rightarrow> None
           | (Some (ppTarget, i), (ppThis, n) # stk') \<Rightarrow>
               do { (st1, stk1, pTarget) \<leftarrow> remove_swap ppThis n ppTarget i stk' st;
                    st2 \<leftarrow> remove_up stk1 st1;
                    Some (st2, Some pTarget) } })"

text \<open>The loop of \<^verbatim>\<open>Remove(pPath, ppRemoved)\<close> below the node found; \<open>v\<close> is the value of \<^verbatim>\<open>*ppTarget\<close>.\<close>

function remove_descend :: "('k \<Rightarrow> 'k \<Rightarrow> int) \<Rightarrow> 'k \<Rightarrow> 'k avl_state \<Rightarrow> slot \<Rightarrow> stack \<Rightarrow> stack option" where
  "remove_descend cmp v st ppThis stk =
     do { p \<leftarrow> slot_get ppThis st;
          case p of
            None \<Rightarrow> Some stk
          | Some a \<Rightarrow>
              do { nd \<leftarrow> heap st a;
                   let d = (if cmp (m_value nd) v < 0 then RIGHT else LEFT);
                   if TREE_MAX_HEIGHT \<le> length stk then None
                   else remove_descend cmp v st (SlotChild a d) ((ppThis, d) # stk) } }"
  by pat_completeness auto
termination
  by (relation "measure (\<lambda>(cmp, v, st, pp, stk). TREE_MAX_HEIGHT - length stk)") auto

declare remove_descend.simps [simp del]

definition Remove2 :: "('k \<Rightarrow> 'k \<Rightarrow> int) \<Rightarrow> probe_path \<Rightarrow> 'k avl_state \<Rightarrow> ('k avl_state \<times> addr option) option" where
  "Remove2 cmp path st =
     (case m_arppNodeStack path of
        [] \<Rightarrow> None
      | ppTarget # nodes \<Rightarrow>
          do { p \<leftarrow> slot_get ppTarget st;
               case p of
                 None \<Rightarrow> Some (st, None)
               | Some a \<Rightarrow>
                   (case m_arnDirStack path of
                      [] \<Rightarrow> None
                    | n # dirs \<Rightarrow>
                        do { nd \<leftarrow> heap st a;
                             stk \<leftarrow> remove_descend cmp (m_value nd) st (SlotChild a n) ((ppTarget, n) # zip nodes dirs);
                             case stk of
                               [] \<Rightarrow> None
                             | (ppThis, n') # stk' \<Rightarrow>
                                 do { (st1, stk1, pTarget) \<leftarrow> remove_swap ppThis n' ppTarget (Suc (length nodes)) stk' st;
                                      st2 \<leftarrow> remove_up stk1 st1;
                                      Some (st2, Some pTarget) } }) })"

section \<open>Replace\<close>

text \<open>The exchange of \<^verbatim>\<open>*ppThis\<close> and \<^verbatim>\<open>*ppReplace\<close> in both versions of \<^verbatim>\<open>Replace\<close>.\<close>

definition replace_swap :: "slot \<Rightarrow> addr \<Rightarrow> addr \<Rightarrow> 'k avl_state \<Rightarrow> ('k avl_state \<times> addr) option" where
  "replace_swap ppThis pReturn new st =
     do { st1 \<leftarrow> slot_set ppThis (Some new) st;
          old \<leftarrow> heap st1 pReturn;
          st2 \<leftarrow> update_node new (set_pChild LEFT (m_pChild LEFT old)) st1;
          st3 \<leftarrow> update_node new (set_pChild RIGHT (m_pChild RIGHT old)) st2;
          st4 \<leftarrow> update_node new (m_nState_update (\<lambda>_. m_nState old)) st3;
          st5 \<leftarrow> update_node pReturn (m_nState_update (\<lambda>_. BALANCED) \<circ> set_pChild RIGHT None \<circ> set_pChild LEFT None) st4;
          Some (st5, pReturn) }"

text \<open>The loop of \<^verbatim>\<open>Replace(pComparable, ppReplace)\<close> has no bound; \<^verbatim>\<open>None\<close> is also a run that never returns.\<close>

partial_function (option) replace_loop ::
  "('k \<Rightarrow> 'k \<Rightarrow> int) \<Rightarrow> 'k \<Rightarrow> addr \<Rightarrow> slot \<Rightarrow> 'k avl_state \<Rightarrow> ('k avl_state \<times> addr) option" where
  "replace_loop cmp v new ppThis st =
     do { p \<leftarrow> slot_get ppThis st;
          case p of
            None \<Rightarrow> Some (st, new)
          | Some a \<Rightarrow>
              do { nd \<leftarrow> heap st a;
                   if cmp (m_value nd) v = 0 then
                     (if new = a then Some (st, new) else replace_swap ppThis a new st)
                   else replace_loop cmp v new (SlotChild a (if cmp (m_value nd) v < 0 then RIGHT else LEFT)) st } }"

definition Replace1 :: "('k \<Rightarrow> 'k \<Rightarrow> int) \<Rightarrow> addr \<Rightarrow> 'k \<Rightarrow> addr \<Rightarrow> 'k avl_state \<Rightarrow> ('k avl_state \<times> addr) option" where
  "Replace1 cmp this v new st0 = replace_loop cmp v new SlotRoot (st0\<lparr>pRoot := Some this\<rparr>)"

definition Replace2 :: "probe_path \<Rightarrow> addr \<Rightarrow> 'k avl_state \<Rightarrow> ('k avl_state \<times> addr) option" where
  "Replace2 path new st =
     (case m_arppNodeStack path of
        [] \<Rightarrow> None
      | ppThis # nodes \<Rightarrow>
          do { p \<leftarrow> slot_get ppThis st;
               case p of
                 None \<Rightarrow> Some (st, new)
               | Some a \<Rightarrow> if new = a then Some (st, new) else replace_swap ppThis a new st })"

section \<open>Extremes and traversal\<close>

partial_function (option) GetPolarNode :: "int \<Rightarrow> addr \<Rightarrow> 'k avl_state \<Rightarrow> addr option" where
  "GetPolarNode n this st =
     do { nd \<leftarrow> heap st this;
          case m_pChild n nd of None \<Rightarrow> Some this | Some a \<Rightarrow> GetPolarNode n a st }"

definition GetMaxNode :: "addr \<Rightarrow> 'k avl_state \<Rightarrow> addr option" where
  "GetMaxNode this st = GetPolarNode RIGHT this st"

definition GetMinNode :: "addr \<Rightarrow> 'k avl_state \<Rightarrow> addr option" where
  "GetMinNode this st = GetPolarNode LEFT this st"

text \<open>\<^verbatim>\<open>TraversePath\<close> is its stack of nodes. The loop that pushes a node and goes left:\<close>

function push_left :: "'k avl_state \<Rightarrow> addr \<Rightarrow> addr list \<Rightarrow> addr list option" where
  "push_left st pNode stk =
     (if TREE_MAX_HEIGHT \<le> length stk then None
      else do { nd \<leftarrow> heap st pNode;
                case m_pChild LEFT nd of
                  None \<Rightarrow> Some (pNode # stk)
                | Some a \<Rightarrow> push_left st a (pNode # stk) })"
  by pat_completeness auto
termination
  by (relation "measure (\<lambda>(st, p, stk). TREE_MAX_HEIGHT - length stk)") auto

declare push_left.simps [simp del]

definition InitTraverse :: "addr \<Rightarrow> 'k avl_state \<Rightarrow> addr list option" where
  "InitTraverse this st = push_left st this []"

definition Traverse :: "addr list \<Rightarrow> 'k avl_state \<Rightarrow> (addr option \<times> addr list) option" where
  "Traverse stk st =
     (case stk of
        [] \<Rightarrow> Some (None, [])
      | pNode # rest \<Rightarrow>
          do { nd \<leftarrow> heap st pNode;
               case m_pChild RIGHT nd of
                 None \<Rightarrow> Some (Some pNode, rest)
               | Some a \<Rightarrow> do { stk' \<leftarrow> push_left st a rest; Some (Some pNode, stk') } })"

section \<open>Verification tools\<close>

partial_function (option) GetHeight :: "addr \<Rightarrow> 'k avl_state \<Rightarrow> int option" where
  "GetHeight this st =
     do { nd \<leftarrow> heap st this;
          left \<leftarrow> (case m_pChild LEFT nd of None \<Rightarrow> Some 0 | Some a \<Rightarrow> do { h \<leftarrow> GetHeight a st; Some (h + 1) });
          right \<leftarrow> (case m_pChild RIGHT nd of None \<Rightarrow> Some 0 | Some a \<Rightarrow> do { h \<leftarrow> GetHeight a st; Some (h + 1) });
          Some (if right < left then left else right) }"

definition CalcBalance :: "addr \<Rightarrow> 'k avl_state \<Rightarrow> int option" where
  "CalcBalance this st =
     do { nd \<leftarrow> heap st this;
          left \<leftarrow> (case m_pChild LEFT nd of None \<Rightarrow> Some 0 | Some a \<Rightarrow> do { h \<leftarrow> GetHeight a st; Some (h + 1) });
          right \<leftarrow> (case m_pChild RIGHT nd of None \<Rightarrow> Some 0 | Some a \<Rightarrow> do { h \<leftarrow> GetHeight a st; Some (h + 1) });
          Some (right - left) }"

partial_function (option) CheckIntegrity :: "('k \<Rightarrow> 'k \<Rightarrow> int) \<Rightarrow> addr \<Rightarrow> 'k avl_state \<Rightarrow> bool option" where
  "CheckIntegrity cmp this st =
     do { nd \<leftarrow> heap st this;
          comp_left \<leftarrow> (case m_pChild LEFT nd of None \<Rightarrow> Some True
            | Some a \<Rightarrow> do { l \<leftarrow> heap st a; Some (0 < cmp (m_value nd) (m_value l)) });
          comp_right \<leftarrow> (case m_pChild RIGHT nd of None \<Rightarrow> Some True
            | Some a \<Rightarrow> do { r \<leftarrow> heap st a; Some (cmp (m_value nd) (m_value r) < 0) });
          b \<leftarrow> CalcBalance this st;
          let balance = (if b = - 1 then m_nState nd = LEFT else if b = 0 then m_nState nd = BALANCED
            else if b = 1 then m_nState nd = RIGHT else False);
          check_left \<leftarrow> (case m_pChild LEFT nd of None \<Rightarrow> Some True | Some a \<Rightarrow> CheckIntegrity cmp a st);
          check_right \<leftarrow> (case m_pChild RIGHT nd of None \<Rightarrow> Some True | Some a \<Rightarrow> CheckIntegrity cmp a st);
          Some (check_left \<and> check_right \<and> balance \<and> comp_left \<and> comp_right) }"

end
