(* ===== verification/AvlRefine.thy ===== *)
theory AvlRefine
  imports AvlNode
begin

text \<open>
  The operations of \<^verbatim>\<open>AvlNode\<close> on the store implement those of \<^verbatim>\<open>AvlTree\<close> on trees. A tree
  of (address, value) pairs is laid out in the store without sharing; a stack of the code,
  together with the slot it leads to, is a zipper. Every pointer assignment of rotation,
  insertion and removal is accounted for, including the patch of the stack after the
  exchange of the removed node with its predecessor.
\<close>

section \<open>Layout of trees and paths\<close>

type_synonym 'k item = "addr \<times> 'k"

definition addrs :: "'k item avl \<Rightarrow> addr list" where
  "addrs t = map fst (inorder t)"

fun tree_at :: "(addr \<Rightarrow> 'k avl_node option) \<Rightarrow> addr option \<Rightarrow> 'k item avl \<Rightarrow> bool" where
  "tree_at h p Leaf \<longleftrightarrow> p = None"
| "tree_at h p (Node l x s r) \<longleftrightarrow> p = Some (fst x) \<and>
     (\<exists>nd. h (fst x) = Some nd \<and> m_nState nd = s \<and> m_value nd = snd x \<and>
        tree_at h (m_pChild LEFT nd) l \<and> tree_at h (m_pChild RIGHT nd) r)"

fun faddrs :: "'k item frame list \<Rightarrow> addr list" where
  "faddrs [] = []"
| "faddrs ((n, x, s, d) # fs) = fst x # addrs d @ faddrs fs"

text \<open>\<open>zip_at st stk fs base pp\<close>: the stack leads from the slot \<open>base\<close> to the slot \<open>pp\<close> along the frames.\<close>

fun zip_at :: "'k avl_state \<Rightarrow> stack \<Rightarrow> 'k item frame list \<Rightarrow> slot \<Rightarrow> slot \<Rightarrow> bool" where
  "zip_at st [] [] base pp \<longleftrightarrow> pp = base"
| "zip_at st ((q, m) # stk) ((n, x, s, d) # fs) base pp \<longleftrightarrow>
     m = n \<and> (n = LEFT \<or> n = RIGHT) \<and> pp = SlotChild (fst x) n \<and> slot_get q st = Some (Some (fst x)) \<and>
     (\<exists>nd. heap st (fst x) = Some nd \<and> m_nState nd = s \<and> m_value nd = snd x \<and>
        tree_at (heap st) (m_pChild (1 - n) nd) d) \<and>
     zip_at st stk fs base q"
| "zip_at st _ _ base pp \<longleftrightarrow> False"

definition zipper :: "'k avl_state \<Rightarrow> stack \<Rightarrow> 'k item frame list \<Rightarrow> slot \<Rightarrow> 'k item avl \<Rightarrow> bool" where
  "zipper st stk fs pp t \<longleftrightarrow> zip_at st stk fs SlotRoot pp \<and>
     (\<exists>p. slot_get pp st = Some p \<and> tree_at (heap st) p t) \<and> distinct (addrs t @ faddrs fs)"

text \<open>The store holds the tree \<open>t\<close>, with its root in \<^verbatim>\<open>pRoot\<close>.\<close>

definition holds :: "'k avl_state \<Rightarrow> 'k item avl \<Rightarrow> bool" where
  "holds st t \<longleftrightarrow> tree_at (heap st) (pRoot st) t \<and> distinct (addrs t)"

section \<open>Framing\<close>

lemma update_node_Some [simp]:
  "heap st a = Some nd \<Longrightarrow> update_node a f st = Some (st\<lparr>heap := (heap st)(a \<mapsto> f nd)\<rparr>)"
  by (simp add: update_node_def)

lemma child_set [simp]:
  "m_pChild n (set_pChild n p nd) = p"
  "m_nState (set_pChild n p nd) = m_nState nd" "m_value (set_pChild n p nd) = m_value nd"
  "m_pChild n (m_nState_update g nd) = m_pChild n nd"
  by (simp_all add: m_pChild_def set_pChild_def)

lemma child_set_other:
  "n = LEFT \<or> n = RIGHT \<Longrightarrow> m_pChild (1 - n) (set_pChild n p nd) = m_pChild (1 - n) nd"
  "n = LEFT \<or> n = RIGHT \<Longrightarrow> m_pChild n (set_pChild (1 - n) p nd) = m_pChild n nd"
  "m_pChild LEFT (set_pChild RIGHT p nd) = m_pChild LEFT nd"
  "m_pChild RIGHT (set_pChild LEFT p nd) = m_pChild RIGHT nd"
  by (auto simp: m_pChild_def set_pChild_def)

lemma addrs_simps [simp]:
  "addrs Leaf = []" "addrs (Node l x s r) = addrs l @ fst x # addrs r"
  by (simp_all add: addrs_def)

lemma set_addrs_mk [simp]: "set (addrs (mk n c x s d)) = insert (fst x) (set (addrs c) \<union> set (addrs d))"
  by (auto simp: mk_def)

lemma distinct_addrs_mk [simp]:
  "distinct (addrs (mk n c x s d)) \<longleftrightarrow>
     fst x \<notin> set (addrs c) \<and> fst x \<notin> set (addrs d) \<and> set (addrs c) \<inter> set (addrs d) = {} \<and>
     distinct (addrs c) \<and> distinct (addrs d)"
  by (auto simp: mk_def)

lemma tree_at_cong:
  "tree_at h p t \<Longrightarrow> (\<And>a. a \<in> set (addrs t) \<Longrightarrow> h' a = h a) \<Longrightarrow> tree_at h' p t"
  by (induction t arbitrary: p) auto

lemma tree_at_upd [simp]: "a \<notin> set (addrs t) \<Longrightarrow> tree_at (h(a := x)) p t \<longleftrightarrow> tree_at h p t"
  by (auto elim!: tree_at_cong)

lemma tree_at_mk:
  "n = LEFT \<or> n = RIGHT \<Longrightarrow> tree_at h p (mk n c x s d) \<longleftrightarrow> p = Some (fst x) \<and>
     (\<exists>nd. h (fst x) = Some nd \<and> m_nState nd = s \<and> m_value nd = snd x \<and>
        tree_at h (m_pChild n nd) c \<and> tree_at h (m_pChild (1 - n) nd) d)"
  by (auto simp: mk_def)

lemma zip_at_cong:
  assumes "zip_at st stk fs base pp" "\<And>a. a \<in> set (faddrs fs) \<Longrightarrow> heap st' a = heap st a"
    and "slot_get base st' = slot_get base st"
  shows "zip_at st' stk fs base pp \<and> slot_get pp st' = slot_get pp st"
  using assms
proof (induction st stk fs base pp rule: zip_at.induct)
  case (2 st q m stk n x s d fs base pp)
  then have "zip_at st' stk fs base q \<and> slot_get q st' = slot_get q st" by simp
  then show ?case using "2.prems" by (auto elim!: tree_at_cong)
qed simp_all

lemma zip_at_set:
  assumes "zip_at st stk fs SlotRoot pp" "distinct (faddrs fs)"
  shows "\<exists>st'. slot_set pp p st = Some st' \<and> zip_at st' stk fs SlotRoot pp \<and> slot_get pp st' = Some p \<and>
    (\<forall>b. b \<notin> set (faddrs fs) \<longrightarrow> heap st' b = heap st b)"
proof (cases fs)
  case Nil
  then show ?thesis using assms(1) by (cases stk) auto
next
  case (Cons f fs')
  obtain n x s d where f: "f = (n, x, s, d)" by (cases f) auto
  obtain q stk' nd where stk: "stk = (q, n) # stk'" and n: "n = LEFT \<or> n = RIGHT" and pp: "pp = SlotChild (fst x) n"
    and q: "slot_get q st = Some (Some (fst x))" and nd: "heap st (fst x) = Some nd" "m_nState nd = s" "m_value nd = snd x"
      "tree_at (heap st) (m_pChild (1 - n) nd) d" and z: "zip_at st stk' fs' SlotRoot q"
    using assms(1) Cons f by (cases stk) auto
  define st' where "st' = st\<lparr>heap := (heap st)(fst x \<mapsto> set_pChild n p nd)\<rparr>"
  have "zip_at st' stk' fs' SlotRoot q \<and> slot_get q st' = slot_get q st"
    using z assms(2) by (intro zip_at_cong) (auto simp: st'_def Cons f)
  then show ?thesis
    using assms(2) n q nd stk pp by (auto simp: Cons f st'_def child_set_other)
qed

section \<open>Moving in a zipper\<close>

lemma zipper_up:
  "zipper st ((q, m) # stk) ((n, x, s, d) # fs) pp t \<Longrightarrow> zipper st stk fs q (mk n t x s d)"
  by (auto simp: zipper_def tree_at_mk)

lemma zipper_down:
  assumes "zipper st stk fs q (mk n t x s d)" "n = LEFT \<or> n = RIGHT"
  shows "zipper st ((q, n) # stk) ((n, x, s, d) # fs) (SlotChild (fst x) n) t"
  using assms by (auto simp: zipper_def tree_at_mk)

lemma zipper_plug: "zipper st stk fs pp t \<Longrightarrow> zipper st [] [] SlotRoot (plug fs t)"
proof (induction fs arbitrary: stk pp t)
  case Nil
  then show ?case by (cases stk) (auto simp: zipper_def)
next
  case (Cons f fs)
  obtain n x s d where f: "f = (n, x, s, d)" by (cases f) auto
  obtain q m stk' where "stk = (q, m) # stk'" using Cons.prems by (cases stk) (auto simp: zipper_def f)
  then show ?case using Cons zipper_up f by fastforce
qed

lemma zipper_holds: "zipper st [] [] SlotRoot t \<longleftrightarrow> holds st t"
  by (auto simp: zipper_def holds_def)

lemma zipper_plug_holds: "zipper st stk fs pp t \<Longrightarrow> holds st (plug fs t)"
  using zipper_plug zipper_holds by blast

lemma zip_at_length: "zip_at st stk fs base pp \<Longrightarrow> length stk = length fs"
  by (induction st stk fs base pp rule: zip_at.induct) auto

lemma zipper_length: "zipper st stk fs pp t \<Longrightarrow> length stk = length fs"
  unfolding zipper_def using zip_at_length by blast

text \<open>The subtree at the end of the path is replaced: by an assignment to the slot, or below it.\<close>

lemma zipper_assign:
  assumes "zipper st stk fs q t" "\<And>b. b \<in> set (faddrs fs) \<Longrightarrow> heap st1 b = heap st b" "pRoot st1 = pRoot st"
    and "tree_at (heap st1) p t'" "distinct (addrs t')" "set (addrs t') \<inter> set (faddrs fs) = {}"
  shows "\<exists>st2. slot_set q p st1 = Some st2 \<and> zipper st2 stk fs q t' \<and> slot_get q st2 = Some p \<and>
    (\<forall>b. b \<notin> set (faddrs fs) \<longrightarrow> heap st2 b = heap st1 b)"
proof -
  have z: "zip_at st1 stk fs SlotRoot q"
    using zip_at_cong [of st stk fs SlotRoot q st1] assms(1-3) by (simp add: zipper_def)
  have d: "distinct (faddrs fs)" using assms(1) by (simp add: zipper_def)
  obtain st2 where st2: "slot_set q p st1 = Some st2" "zip_at st2 stk fs SlotRoot q" "slot_get q st2 = Some p"
    "\<forall>b. b \<notin> set (faddrs fs) \<longrightarrow> heap st2 b = heap st1 b"
    using zip_at_set [OF z d] by blast
  have "tree_at (heap st2) p t'" using assms(4) by (rule tree_at_cong) (use st2(4) assms(6) in auto)
  then show ?thesis using st2 d assms(5,6) by (auto simp: zipper_def)
qed

lemma zipper_below:
  assumes "zipper st stk fs q t" "\<And>b. b \<in> set (faddrs fs) \<Longrightarrow> heap st1 b = heap st b" "pRoot st1 = pRoot st"
    and "slot_get q st = Some p" "tree_at (heap st1) p t'" "distinct (addrs t')" "set (addrs t') \<inter> set (faddrs fs) = {}"
  shows "zipper st1 stk fs q t'"
proof -
  have "zip_at st1 stk fs SlotRoot q \<and> slot_get q st1 = slot_get q st"
    using assms(1-3) by (intro zip_at_cong) (simp_all add: zipper_def)
  then show ?thesis using assms by (auto simp: zipper_def)
qed

lemma zipper_node:
  assumes "zipper st stk fs q (mk n c x s d)" "n = LEFT \<or> n = RIGHT"
  obtains nd where "slot_get q st = Some (Some (fst x))" "heap st (fst x) = Some nd" "m_nState nd = s"
    "m_value nd = snd x" "tree_at (heap st) (m_pChild n nd) c" "tree_at (heap st) (m_pChild (1 - n) nd) d"
  using assms by (auto simp: zipper_def tree_at_mk)

lemma zipper_state:
  assumes "zipper st stk fs q (mk n c x s d)" "n = LEFT \<or> n = RIGHT"
  shows "\<exists>st'. update_node (fst x) (m_nState_update (\<lambda>_. s')) st = Some st' \<and> zipper st' stk fs q (mk n c x s' d)"
proof -
  obtain nd where nd: "slot_get q st = Some (Some (fst x))" "heap st (fst x) = Some nd" "m_nState nd = s"
    "m_value nd = snd x" "tree_at (heap st) (m_pChild n nd) c" "tree_at (heap st) (m_pChild (1 - n) nd) d"
    using zipper_node [OF assms] .
  have dist: "distinct (addrs (mk n c x s d) @ faddrs fs)" using assms(1) by (simp add: zipper_def)
  show ?thesis
    using nd dist assms(2) by (auto intro!: zipper_below [OF assms(1)] simp: tree_at_mk)
qed

section \<open>Rotate\<close>

lemma Rotate_single:
  assumes z: "zipper st stk fs q (mk n (mk n e y cs f) x s d)" and n: "n = LEFT \<or> n = RIGHT" and cs: "cs \<noteq> 1 - n"
  shows "\<exists>st'. Rotate (fst x) q n st = Some (st', cs = BALANCED) \<and>
    zipper st' stk fs q (mk n e y (if cs = BALANCED then 1 - n else BALANCED)
      (mk n f x (if cs = BALANCED then s else BALANCED) d))"
proof -
  obtain A where A: "slot_get q st = Some (Some (fst x))" "heap st (fst x) = Some A" "m_nState A = s" "m_value A = snd x"
    "tree_at (heap st) (m_pChild n A) (mk n e y cs f)" "tree_at (heap st) (m_pChild (1 - n) A) d"
    using zipper_node [OF z n] .
  obtain C where C: "m_pChild n A = Some (fst y)" "heap st (fst y) = Some C" "m_nState C = cs" "m_value C = snd y"
    "tree_at (heap st) (m_pChild n C) e" "tree_at (heap st) (m_pChild (1 - n) C) f"
    using A(5) n by (auto simp: tree_at_mk)
  have dist: "distinct (addrs (mk n (mk n e y cs f) x s d) @ faddrs fs)" using z by (simp add: zipper_def)
  have ne: "fst x \<noteq> fst y" using dist by auto
  define A1 where "A1 = set_pChild n (m_pChild (1 - n) C) A"
  define C1 where "C1 = set_pChild (1 - n) (Some (fst x)) C"
  define st1 where "st1 = st\<lparr>heap := (heap st)(fst x \<mapsto> A1, fst y \<mapsto> C1)\<rparr>"
  have n': "1 - n = LEFT \<or> 1 - n = RIGHT" using n by auto
  have t1: "tree_at (heap st1) (Some (fst y)) (mk n e y cs (mk n f x s d))"
    using A C n ne dist by (simp add: tree_at_mk st1_def A1_def C1_def child_set_other)
  have keep: "\<And>b. b \<in> set (faddrs fs) \<Longrightarrow> heap st1 b = heap st b" "pRoot st1 = pRoot st"
    using dist by (auto simp: st1_def)
  have dist1: "distinct (addrs (mk n e y cs (mk n f x s d)))"
    "set (addrs (mk n e y cs (mk n f x s d))) \<inter> set (faddrs fs) = {}"
    using dist by auto
  obtain st2 where st2: "slot_set q (Some (fst y)) st1 = Some st2" "zipper st2 stk fs q (mk n e y cs (mk n f x s d))"
    "slot_get q st2 = Some (Some (fst y))" "\<forall>b. b \<notin> set (faddrs fs) \<longrightarrow> heap st2 b = heap st1 b"
    using zipper_assign [OF z keep t1 dist1] by blast
  have steps: "update_node (fst x) (set_pChild n (m_pChild (1 - n) C)) st = Some (st\<lparr>heap := (heap st)(fst x \<mapsto> A1)\<rparr>)"
    "update_node (fst y) (set_pChild (1 - n) (Some (fst x))) (st\<lparr>heap := (heap st)(fst x \<mapsto> A1)\<rparr>) = Some st1"
    using A(2) C(2) ne by (simp_all add: A1_def C1_def st1_def)
  note run = Rotate_def [of "fst x" q n st] A(2) C(1-3) steps st2(1)
  have h2: "heap st2 (fst x) = Some A1" "heap st2 (fst y) = Some C1"
    using st2(4) dist ne by (simp_all add: st1_def)
  show ?thesis
  proof (cases "cs = BALANCED")
    case True
    obtain st3 where "update_node (fst y) (m_nState_update (\<lambda>_. 1 - n)) st2 = Some st3"
      "zipper st3 stk fs q (mk n e y (1 - n) (mk n f x s d))"
      using zipper_state [OF st2(2) n, of "1 - n"] by blast
    then show ?thesis using True cs by (simp add: run Let_def)
  next
    case False
    define st3 where "st3 = st2\<lparr>heap := (heap st2)(fst x \<mapsto> m_nState_update (\<lambda>_. BALANCED) A1)\<rparr>"
    define st4 where "st4 = st3\<lparr>heap := (heap st3)(fst y \<mapsto> m_nState_update (\<lambda>_. BALANCED) C1)\<rparr>"
    have "update_node (fst x) (m_nState_update (\<lambda>_. BALANCED)) st2 = Some st3"
      "update_node (fst y) (m_nState_update (\<lambda>_. BALANCED)) st3 = Some st4"
      using h2 ne by (simp_all add: st3_def st4_def)
    moreover have "zipper st4 stk fs q (mk n e y BALANCED (mk n f x BALANCED d))"
    proof (rule zipper_below [OF st2(2) _ _ st2(3)])
      show "tree_at (heap st4) (Some (fst y)) (mk n e y BALANCED (mk n f x BALANCED d))"
        using t1 st2(2,3) h2 n ne dist
        by (simp add: tree_at_mk st4_def st3_def zipper_def)
    qed (use dist in \<open>auto simp: st4_def st3_def\<close>)
    ultimately show ?thesis using False cs by (simp add: run Let_def)
  qed
qed

lemma Rotate_double:
  assumes z: "zipper st stk fs q (mk n (mk n e y (1 - n) (mk n gi w gs go)) x s d)" and n: "n = LEFT \<or> n = RIGHT"
  shows "\<exists>st'. Rotate (fst x) q n st = Some (st', False) \<and>
    zipper st' stk fs q (mk n (mk n e y (if gs = 1 - n then n else BALANCED) gi) w BALANCED
      (mk n go x (if gs = n then 1 - n else BALANCED) d))"
proof -
  obtain A where A: "slot_get q st = Some (Some (fst x))" "heap st (fst x) = Some A" "m_nState A = s" "m_value A = snd x"
    "tree_at (heap st) (m_pChild n A) (mk n e y (1 - n) (mk n gi w gs go))" "tree_at (heap st) (m_pChild (1 - n) A) d"
    using zipper_node [OF z n] .
  obtain C where C: "m_pChild n A = Some (fst y)" "heap st (fst y) = Some C" "m_nState C = 1 - n" "m_value C = snd y"
    "tree_at (heap st) (m_pChild n C) e" "tree_at (heap st) (m_pChild (1 - n) C) (mk n gi w gs go)"
    using A(5) n by (auto simp: tree_at_mk)
  obtain G where G: "m_pChild (1 - n) C = Some (fst w)" "heap st (fst w) = Some G" "m_nState G = gs" "m_value G = snd w"
    "tree_at (heap st) (m_pChild n G) gi" "tree_at (heap st) (m_pChild (1 - n) G) go"
    using C(6) n by (auto simp: tree_at_mk)
  have dist: "distinct (addrs (mk n (mk n e y (1 - n) (mk n gi w gs go)) x s d) @ faddrs fs)" using z by (simp add: zipper_def)
  have ne: "fst x \<noteq> fst y" "fst x \<noteq> fst w" "fst y \<noteq> fst w" using dist by auto
  define C1 where "C1 = set_pChild (1 - n) (m_pChild n G) C"
  define A1 where "A1 = set_pChild n (m_pChild (1 - n) G) A"
  define G1 where "G1 = set_pChild (1 - n) (Some (fst x)) (set_pChild n (Some (fst y)) G)"
  define h1 where "h1 = (heap st)(fst y \<mapsto> C1, fst x \<mapsto> A1, fst w \<mapsto> G1)"
  define st1 where "st1 = st\<lparr>heap := h1\<rparr>"
  have t1: "tree_at (heap st1) (Some (fst w)) (mk n (mk n e y (1 - n) gi) w gs (mk n go x s d))"
    using A C G n ne dist by (simp add: tree_at_mk st1_def h1_def A1_def C1_def G1_def child_set_other)
  have keep: "\<And>b. b \<in> set (faddrs fs) \<Longrightarrow> heap st1 b = heap st b" "pRoot st1 = pRoot st"
    using dist by (auto simp: st1_def h1_def)
  have dist1: "distinct (addrs (mk n (mk n e y (1 - n) gi) w gs (mk n go x s d)))"
    "set (addrs (mk n (mk n e y (1 - n) gi) w gs (mk n go x s d))) \<inter> set (faddrs fs) = {}"
    using dist by auto
  obtain st2 where st2: "slot_set q (Some (fst w)) st1 = Some st2"
    "zipper st2 stk fs q (mk n (mk n e y (1 - n) gi) w gs (mk n go x s d))"
    "slot_get q st2 = Some (Some (fst w))" "\<forall>b. b \<notin> set (faddrs fs) \<longrightarrow> heap st2 b = heap st1 b"
    using zipper_assign [OF z keep t1 dist1] by blast
  have h2: "heap st2 (fst x) = Some A1" "heap st2 (fst y) = Some C1" "heap st2 (fst w) = Some G1"
    using st2(4) dist ne by (simp_all add: st1_def h1_def)
  define A2 where "A2 = m_nState_update (\<lambda>_. if gs = n then 1 - n else BALANCED) A1"
  define C2 where "C2 = m_nState_update (\<lambda>_. if gs = 1 - n then n else BALANCED) C1"
  define G2 where "G2 = m_nState_update (\<lambda>_. BALANCED) G1"
  define st3 where "st3 = st2\<lparr>heap := (heap st2)(fst x \<mapsto> A2, fst y \<mapsto> C2, fst w \<mapsto> G2)\<rparr>"
  have nr: "n \<noteq> 1 - n" using n by auto
  have "Rotate (fst x) q n st =
      do { st6 \<leftarrow> update_node (fst x) (m_nState_update (\<lambda>_. BALANCED)) st2;
           st7 \<leftarrow> update_node (fst y) (m_nState_update (\<lambda>_. BALANCED)) st6;
           st8 \<leftarrow> (if gs = n then update_node (fst x) (m_nState_update (\<lambda>_. 1 - n)) st7
                   else if gs = 1 - n then update_node (fst y) (m_nState_update (\<lambda>_. n)) st7
                   else Some st7);
           st9 \<leftarrow> update_node (fst w) (m_nState_update (\<lambda>_. BALANCED)) st8;
           Some (st9, False) }"
    unfolding G(3) [symmetric] using A(2) C(1-3) G(1,2) ne st2(1)
    by (simp add: Rotate_def Let_def A1_def [symmetric] C1_def [symmetric] G1_def [symmetric]
        h1_def [symmetric] st1_def [symmetric])
  also have "\<dots> = Some (st3, False)"
    using h2 ne nr by (auto simp: st3_def A2_def C2_def G2_def fun_upd_twist)
  finally have "Rotate (fst x) q n st = Some (st3, False)" .
  moreover have "zipper st3 stk fs q (mk n (mk n e y (if gs = 1 - n then n else BALANCED) gi) w BALANCED
      (mk n go x (if gs = n then 1 - n else BALANCED) d))"
  proof (rule zipper_below [OF st2(2) _ _ st2(3)])
    show "tree_at (heap st3) (Some (fst w)) (mk n (mk n e y (if gs = 1 - n then n else BALANCED) gi) w BALANCED
      (mk n go x (if gs = n then 1 - n else BALANCED) d))"
      using t1 st2(2,3) h2 n ne dist
      by (simp add: tree_at_mk st3_def A2_def C2_def G2_def zipper_def)
  qed (use dist in \<open>auto simp: st3_def\<close>)
  ultimately show ?thesis by blast
qed

text \<open>\<^verbatim>\<open>Rotate\<close> on the store is \<^const>\<open>rot\<close> on the tree, whenever the nodes it needs are there.\<close>

definition rot_ready :: "int \<Rightarrow> 'a avl \<Rightarrow> bool" where
  "rot_ready n c \<longleftrightarrow> c \<noteq> Leaf \<and> (state_of c = 1 - n \<longrightarrow> child_of (1 - n) c \<noteq> Leaf)"

lemma avl_cases_mk:
  assumes "n = LEFT \<or> n = RIGHT"
  obtains "t = Leaf" | c x s d where "t = mk n c x s d"
proof (cases t)
  case (Node l x s r)
  then have "t = mk n (if n = LEFT then l else r) x s (if n = LEFT then r else l)" by (simp add: mk_def)
  then show ?thesis using that by blast
qed (use that in simp)

lemma child_of_mk [simp]:
  "n = LEFT \<or> n = RIGHT \<Longrightarrow> child_of n (mk n c x s d) = c"
  "n = LEFT \<or> n = RIGHT \<Longrightarrow> child_of (1 - n) (mk n c x s d) = d"
  by (auto simp: mk_def)

lemma mk_not_Leaf [simp]: "mk n c x s d \<noteq> Leaf"
  by (simp add: mk_def)

lemma rot_single:
  "n = LEFT \<or> n = RIGHT \<Longrightarrow> cs \<noteq> 1 - n \<Longrightarrow> rot n (mk n e y cs f) x s d =
     (mk n e y (if cs = BALANCED then 1 - n else BALANCED) (mk n f x (if cs = BALANCED then s else BALANCED) d), cs = BALANCED)"
  by (auto simp: rot_def mk_def)

lemma Rotate_rot:
  assumes z: "zipper st stk fs q (mk n c x s d)" and n: "n = LEFT \<or> n = RIGHT" and c: "rot_ready n c"
  shows "\<exists>st'. Rotate (fst x) q n st = Some (st', snd (rot n c x s d)) \<and> zipper st' stk fs q (fst (rot n c x s d))"
  using n
proof (cases rule: avl_cases_mk [where t = c])
  case 1
  then show ?thesis using c by (simp add: rot_ready_def)
next
  case (2 e y cs f)
  show ?thesis
  proof (cases "cs = 1 - n")
    case False
    then show ?thesis using Rotate_single [OF z [unfolded 2] n] n by (simp add: 2 rot_single)
  next
    case True
    then have "f \<noteq> Leaf" using c n by (simp add: rot_ready_def 2)
    with n obtain gi w gs go where "f = mk n gi w gs go" by (cases rule: avl_cases_mk [where t = f]) auto
    then show ?thesis using Rotate_double [of st stk fs q n e y gi w gs go x s d] z n True by (simp add: 2 rot_mk(3) [OF n])
  qed
qed

lemma rot_ready_avl:
  assumes "avl_ok c" "height c = Suc (Suc h)" "n = LEFT \<or> n = RIGHT"
  shows "rot_ready n c"
  using assms
proof (cases rule: heavy_child_cases)
  case (outer e ca f)
  then show ?thesis using assms(3) by (auto simp: rot_ready_def)
qed (use assms(3) in \<open>auto simp: rot_ready_def\<close>)

section \<open>The rebalancing loops\<close>

lemma insert_up_ins_up:
  assumes "zipper st stk fs pp t" "frames_ok fs h" "avl_ok t" "height t = Suc h" "h = 0 \<or> state_of t \<noteq> BALANCED"
  shows "\<exists>st'. insert_up stk st = Some st' \<and> holds st' (ins_up fs t)"
  using assms
proof (induction fs t arbitrary: h st stk pp rule: ins_up.induct)
  case (1 t)
  then have "stk = []" "pp = SlotRoot" by (auto simp: zipper_def elim!: zip_at.elims)
  then show ?case using 1 zipper_holds by auto
next
  case (2 n x s d fs t)
  obtain q stk' where stk: "stk = (q, n) # stk'" using "2.prems"(1) by (cases stk) (auto simp: zipper_def)
  have n: "n = LEFT \<or> n = RIGHT" and d: "avl_ok d" and fs: "frames_ok fs (Suc (max h (height d)))"
    and s: "if n = LEFT then state_ok s h (height d) else state_ok s (height d) h"
    using "2.prems"(2) by simp_all
  have z: "zipper st stk' fs q (mk n t x s d)" using zipper_up "2.prems"(1) stk by blast
  obtain nd where nd: "slot_get q st = Some (Some (fst x))" "heap st (fst x) = Some nd" "m_nState nd = s"
    using zipper_node [OF z n] by blast
  have "s = BALANCED \<or> s = LEFT \<or> s = RIGHT" using s by (auto split: if_splits dest: state_ok_values)
  then consider "s = BALANCED" | "s = 1 - n" "s \<noteq> BALANCED" | "s = n" "s \<noteq> BALANCED" "s \<noteq> 1 - n" using n by auto
  then show ?case
  proof cases
    case 1
    obtain st1 where st1: "update_node (fst x) (m_nState_update (\<lambda>_. n)) st = Some st1" "zipper st1 stk' fs q (mk n t x n d)"
      using zipper_state [OF z n] by blast
    have "avl_ok (mk n t x n d)" "height (mk n t x n d) = Suc (Suc (max h (height d)))" "n \<noteq> BALANCED"
      using n d s 1 "2.prems" by (auto simp: avl_mk state_ok_cases)
    then show ?thesis using "2.IH" [OF 1 st1(2) fs] 1 nd st1(1) stk by (simp del: update_node_Some)
  next
    case 2
    then show ?thesis using zipper_state [OF z n, of BALANCED] zipper_plug_holds nd stk by (fastforce simp del: update_node_Some)
  next
    case 3
    have "height t = Suc (Suc (height d))" using n s 3 "2.prems"(4) by (auto simp: state_ok_cases)
    then have "rot_ready n t" using rot_ready_avl "2.prems"(3) n by blast
    from Rotate_rot [OF z n this] show ?thesis using 3 zipper_plug_holds nd stk by fastforce
  qed
qed

lemma remove_up_del_up:
  assumes "zipper st stk fs pp t" "frames_ok fs (Suc h)" "avl_ok t" "height t = h"
  shows "\<exists>st'. remove_up stk st = Some st' \<and> holds st' (del_up fs t)"
  using assms
proof (induction fs t arbitrary: h st stk pp rule: del_up.induct)
  case (1 t)
  then have "stk = []" "pp = SlotRoot" by (auto simp: zipper_def elim!: zip_at.elims)
  then show ?case using 1 zipper_holds by auto
next
  case (2 n x s d fs t)
  obtain q stk' where stk: "stk = (q, n) # stk'" using "2.prems"(1) by (cases stk) (auto simp: zipper_def)
  have n: "n = LEFT \<or> n = RIGHT" "1 - n = LEFT \<or> 1 - n = RIGHT" and d: "avl_ok d"
    and fs: "frames_ok fs (Suc (max (Suc h) (height d)))"
    and s: "if n = LEFT then state_ok s (Suc h) (height d) else state_ok s (height d) (Suc h)"
    using "2.prems"(2) by auto
  have z: "zipper st stk' fs q (mk n t x s d)" using zipper_up "2.prems"(1) stk by blast
  have z': "zipper st stk' fs q (mk (1 - n) d x s t)" using z n by (simp add: mk_flip)
  obtain nd where nd: "slot_get q st = Some (Some (fst x))" "heap st (fst x) = Some nd" "m_nState nd = s"
    using zipper_node [OF z n(1)] by blast
  have "s = BALANCED \<or> s = LEFT \<or> s = RIGHT" using s by (auto split: if_splits dest: state_ok_values)
  then consider "s = BALANCED" | "s = n" "s \<noteq> BALANCED" | "s = 1 - n" "s \<noteq> BALANCED" "s \<noteq> n" using n by auto
  then show ?case
  proof cases
    case 1
    then show ?thesis using zipper_state [OF z n(1), of "1 - n"] zipper_plug_holds nd stk by (fastforce simp del: update_node_Some)
  next
    case 2
    obtain st1 where st1: "update_node (fst x) (m_nState_update (\<lambda>_. BALANCED)) st = Some st1" "zipper st1 stk' fs q (mk n t x BALANCED d)"
      using zipper_state [OF z n(1)] by blast
    have "avl_ok (mk n t x BALANCED d)" "Suc (height (mk n t x BALANCED d)) = Suc (max (Suc h) (height d))"
      using n d s 2 "2.prems" by (auto simp: avl_mk state_ok_cases)
    then show ?thesis using "2.IH"(1) [OF _ _ st1(2)] fs 2 nd st1(1) stk by (simp del: update_node_Some)
  next
    case 3
    have h: "height d = Suc (Suc (height t))" using n s 3 "2.prems" by (auto simp: state_ok_cases)
    note R = rot_avl [OF n(2) d "2.prems"(3) h, of x]
    define t' where "t' = fst (rot (1 - n) d x s t)"
    define b where "b = snd (rot (1 - n) d x s t)"
    obtain st1 where st1: "Rotate (fst x) q (1 - n) st = Some (st1, b)" "zipper st1 stk' fs q t'"
      using Rotate_rot [OF z' n(2) rot_ready_avl [OF d h n(2)]] by (auto simp: t'_def b_def)
    show ?thesis
    proof (cases b)
      case True
      then show ?thesis using 3 st1 zipper_plug_holds nd stk by (simp add: t'_def b_def)
    next
      case False
      then have "avl_ok t'" "height t' = 2 + height t" using R 3(1) by (simp_all add: t'_def b_def)
      moreover have "frames_ok fs (Suc (2 + height t))" using fs h "2.prems"(4) by (simp add: eval_nat_numeral)
      ultimately show ?thesis using "2.IH"(2) [OF 3(2,3) _ st1(2) [unfolded t'_def]] False 3 st1(1) nd stk
        by (simp add: t'_def b_def)
    qed
  qed
qed

section \<open>Stacks are determined by the path\<close>

fun hole :: "'k item frame list \<Rightarrow> slot \<Rightarrow> slot" where
  "hole [] base = base"
| "hole ((n, x, s, d) # fs) base = SlotChild (fst x) n"

fun slots :: "'k item frame list \<Rightarrow> slot \<Rightarrow> stack" where
  "slots [] base = []"
| "slots ((n, x, s, d) # fs) base = (hole fs base, n) # slots fs base"

lemma length_slots [simp]: "length (slots fs base) = length fs"
  by (induction fs base rule: slots.induct) simp_all

lemma zip_at_slots: "zip_at st stk fs base pp \<Longrightarrow> stk = slots fs base \<and> pp = hole fs base"
  by (induction st stk fs base pp rule: zip_at.induct) auto

lemma slots_append: "slots (gs @ fs) base = slots gs (hole fs base) @ slots fs base"
  and hole_append: "hole (gs @ fs) base = hole gs (hole fs base)"
proof -
  have "slots (gs @ fs) base = slots gs (hole fs base) @ slots fs base \<and> hole (gs @ fs) base = hole gs (hole fs base)"
    by (induction gs base rule: slots.induct) auto
  then show "slots (gs @ fs) base = slots gs (hole fs base) @ slots fs base"
    "hole (gs @ fs) base = hole gs (hole fs base)" by simp_all
qed

definition dirs_ok :: "'a frame list \<Rightarrow> bool" where
  "dirs_ok fs \<longleftrightarrow> (\<forall>f \<in> set fs. fst f = LEFT \<or> fst f = RIGHT)"

abbreviation zipper0 :: "'k avl_state \<Rightarrow> 'k item frame list \<Rightarrow> 'k item avl \<Rightarrow> bool" where
  "zipper0 st fs t \<equiv> zipper st (slots fs SlotRoot) fs (hole fs SlotRoot) t"

lemma zipper_zipper0: "zipper st stk fs pp t \<Longrightarrow> zipper0 st fs t \<and> stk = slots fs SlotRoot \<and> pp = hole fs SlotRoot"
  using zip_at_slots by (fastforce simp: zipper_def)

lemma zipper0_descend: "zipper0 st fs (plug gs t) \<Longrightarrow> dirs_ok gs \<Longrightarrow> zipper0 st (gs @ fs) t"
proof (induction gs arbitrary: t)
  case (Cons g gs)
  obtain n x s d where g: "g = (n, x, s, d)" by (cases g) auto
  have "zipper0 st (gs @ fs) (mk n t x s d)" using Cons by (simp add: g dirs_ok_def)
  from zipper_down [OF this] show ?case using Cons.prems(2) by (simp add: g dirs_ok_def)
qed simp

lemma holds_zipper0: "holds st (plug fs t) \<Longrightarrow> dirs_ok fs \<Longrightarrow> zipper0 st fs t"
  using zipper0_descend [of st "[]" fs t] by (simp add: zipper_holds)

lemma dirs_ok_simps [simp]: "dirs_ok []" "dirs_ok (f # fs) \<longleftrightarrow> (fst f = LEFT \<or> fst f = RIGHT) \<and> dirs_ok fs"
  "dirs_ok (fs @ gs) \<longleftrightarrow> dirs_ok fs \<and> dirs_ok gs"
  by (auto simp: dirs_ok_def)

lemma find_path_dirs: "find_path c t fs = (fs', f) \<Longrightarrow> dirs_ok fs \<Longrightarrow> dirs_ok fs'"
  by (induction c t fs rule: find_path.induct) (auto split: if_splits)

lemma max_path_dirs: "max_path t fs = (fs', f) \<Longrightarrow> dirs_ok fs \<Longrightarrow> dirs_ok fs'"
  by (induction t fs rule: max_path.induct) (auto split: if_splits)

lemma zipper0_slot:
  assumes "zipper0 st fs t"
  obtains p where "slot_get (hole fs SlotRoot) st = Some p" "tree_at (heap st) p t"
  using assms by (auto simp: zipper_def)

section \<open>The search loops\<close>

lemma find_path_length: "find_path c t fs = (fs', f) \<Longrightarrow> length fs' + height f \<le> length fs + height t"
  by (induction c t fs rule: find_path.induct) (fastforce split: if_splits)+

lemma max_path_length: "max_path t fs = (fs', f) \<Longrightarrow> length fs' + height f \<le> length fs + height t"
  by (induction t fs rule: max_path.induct) (fastforce split: if_splits)+

lemma insert_find_path:
  assumes "slot_get (hole fs SlotRoot) st = Some p" "tree_at (heap st) p t"
    and "find_path (\<lambda>x. cmp (snd x) v) t fs = (fs', f)" "height t + length fs \<le> TREE_MAX_HEIGHT"
  shows "insert_find cmp v st (hole fs SlotRoot) (slots fs SlotRoot) =
    Some (if f = Leaf then Inr (hole fs' SlotRoot, slots fs' SlotRoot) else Inl ())"
  using assms
proof (induction t arbitrary: fs p)
  case Leaf
  then show ?case by (subst insert_find.simps) simp
next
  case (Node l x s r)
  obtain nd where nd: "p = Some (fst x)" "heap st (fst x) = Some nd" "m_value nd = snd x"
    "tree_at (heap st) (m_pChild LEFT nd) l" "tree_at (heap st) (m_pChild RIGHT nd) r"
    using Node.prems(2) by auto
  let ?L = "(LEFT, x, s, r) # fs" and ?R = "(RIGHT, x, s, l) # fs"
  have L: "insert_find cmp v st (hole ?L SlotRoot) (slots ?L SlotRoot) =
    Some (if f = Leaf then Inr (hole fs' SlotRoot, slots fs' SlotRoot) else Inl ())"
    if "0 < cmp (snd x) v" using Node.IH(1) [of ?L "m_pChild LEFT nd"] Node.prems nd that by simp
  have R: "insert_find cmp v st (hole ?R SlotRoot) (slots ?R SlotRoot) =
    Some (if f = Leaf then Inr (hole fs' SlotRoot, slots fs' SlotRoot) else Inl ())"
    if "cmp (snd x) v < 0" using Node.IH(2) [of ?R "m_pChild RIGHT nd"] Node.prems nd that by simp
  consider "cmp (snd x) v = 0" | "cmp (snd x) v < 0" | "0 < cmp (snd x) v" by linarith
  then show ?case
  proof cases
    case 1
    then have "fs' = fs" "f = Node l x s r" using Node.prems(3) by auto
    then show ?thesis using 1 nd Node.prems(1,4) by (subst insert_find.simps) simp
  next
    case 2
    then show ?thesis using R nd Node.prems(1,4) by (subst insert_find.simps) simp
  next
    case 3
    then show ?thesis using L nd Node.prems(1,4) by (subst insert_find.simps) simp
  qed
qed

lemma probe_loop_path:
  assumes "slot_get (hole fs SlotRoot) st = Some p" "tree_at (heap st) p t"
    and "find_path (\<lambda>x. cmp (snd x) v) t fs = (fs', f)" "height t + length fs < TREE_MAX_HEIGHT"
  shows "probe_loop cmp v st (hole fs SlotRoot) (map fst (slots fs SlotRoot)) (map snd (slots fs SlotRoot)) =
    Some \<lparr>m_arppNodeStack = hole fs' SlotRoot # map fst (slots fs' SlotRoot),
      m_arnDirStack = (if f = Leaf then [] else [LEFT]) @ map snd (slots fs' SlotRoot),
      m_eResult = (if f = Leaf then NOT_FOUND else FOUND)\<rparr>" (is "_ = ?res")
  using assms
proof (induction t arbitrary: fs p)
  case Leaf
  then show ?case by (subst probe_loop.simps) simp
next
  case (Node l x s r)
  obtain nd where nd: "p = Some (fst x)" "heap st (fst x) = Some nd" "m_value nd = snd x"
    "tree_at (heap st) (m_pChild LEFT nd) l" "tree_at (heap st) (m_pChild RIGHT nd) r"
    using Node.prems(2) by auto
  let ?L = "(LEFT, x, s, r) # fs" and ?R = "(RIGHT, x, s, l) # fs"
  have L: "probe_loop cmp v st (hole ?L SlotRoot) (map fst (slots ?L SlotRoot)) (map snd (slots ?L SlotRoot)) = ?res"
    if "0 < cmp (snd x) v" using Node.IH(1) [of ?L "m_pChild LEFT nd"] Node.prems nd that by simp
  have R: "probe_loop cmp v st (hole ?R SlotRoot) (map fst (slots ?R SlotRoot)) (map snd (slots ?R SlotRoot)) = ?res"
    if "cmp (snd x) v < 0" using Node.IH(2) [of ?R "m_pChild RIGHT nd"] Node.prems nd that by simp
  consider "cmp (snd x) v = 0" | "cmp (snd x) v < 0" | "0 < cmp (snd x) v" by linarith
  then show ?case
  proof cases
    case 1
    then have "fs' = fs" "f = Node l x s r" using Node.prems(3) by auto
    then show ?thesis using 1 nd Node.prems(1,4) by (subst probe_loop.simps) simp
  next
    case 2
    then show ?thesis using R nd Node.prems(1,4) by (subst probe_loop.simps) simp
  next
    case 3
    then show ?thesis using L nd Node.prems(1,4) by (subst probe_loop.simps) simp
  qed
qed

lemma remove_find_path:
  assumes "slot_get (hole fs SlotRoot) st = Some p" "tree_at (heap st) p t"
    and "find_path (\<lambda>x. cmp (snd x) v) t fs = (fs', f)" "height t + length fs \<le> TREE_MAX_HEIGHT"
  shows "remove_find cmp v st (hole fs SlotRoot) (slots fs SlotRoot) None =
    (case f of Leaf \<Rightarrow> Some (slots fs' SlotRoot, None)
     | Node l x s r \<Rightarrow> remove_find cmp v st (SlotChild (fst x) LEFT) ((hole fs' SlotRoot, LEFT) # slots fs' SlotRoot)
         (Some (hole fs' SlotRoot, length fs' + 1)))" (is "_ = ?res")
  using assms
proof (induction t arbitrary: fs p)
  case Leaf
  then show ?case by (subst remove_find.simps) simp
next
  case (Node l x s r)
  obtain nd where nd: "p = Some (fst x)" "heap st (fst x) = Some nd" "m_value nd = snd x"
    "tree_at (heap st) (m_pChild LEFT nd) l" "tree_at (heap st) (m_pChild RIGHT nd) r"
    using Node.prems(2) by auto
  let ?L = "(LEFT, x, s, r) # fs" and ?R = "(RIGHT, x, s, l) # fs"
  have L: "remove_find cmp v st (hole ?L SlotRoot) (slots ?L SlotRoot) None = ?res"
    if "0 < cmp (snd x) v" using Node.IH(1) [of ?L "m_pChild LEFT nd"] Node.prems nd that by simp
  have R: "remove_find cmp v st (hole ?R SlotRoot) (slots ?R SlotRoot) None = ?res"
    if "cmp (snd x) v < 0" using Node.IH(2) [of ?R "m_pChild RIGHT nd"] Node.prems nd that by simp
  consider "cmp (snd x) v = 0" | "cmp (snd x) v < 0" | "0 < cmp (snd x) v" by linarith
  then show ?case
  proof cases
    case 1
    then have "fs' = fs" "f = Node l x s r" using Node.prems(3) by auto
    then show ?thesis using 1 nd Node.prems(1,4) by (subst remove_find.simps) simp
  next
    case 2
    then show ?thesis using R nd Node.prems(1,4) by (subst remove_find.simps) simp
  next
    case 3
    then show ?thesis using L nd Node.prems(1,4) by (subst remove_find.simps) simp
  qed
qed

text \<open>Below the node to be removed both versions go to the rightmost node of the left subtree.\<close>

lemma remove_descend_max:
  assumes "slot_get (hole fs SlotRoot) st = Some p" "tree_at (heap st) p t"
    and "max_path t fs = (fs', f)" "height t + length fs \<le> TREE_MAX_HEIGHT"
    and "\<forall>x \<in> set (inorder t). cmp (snd x) v < 0" "t \<noteq> Leaf"
  shows "remove_descend cmp v st (hole fs SlotRoot) (slots fs SlotRoot) =
    Some ((hole fs' SlotRoot, RIGHT) # slots fs' SlotRoot)"
  using assms
proof (induction t arbitrary: fs p)
  case (Node l x s r)
  obtain nd where nd: "p = Some (fst x)" "heap st (fst x) = Some nd" "m_value nd = snd x"
    "tree_at (heap st) (m_pChild RIGHT nd) r"
    using Node.prems(2) by auto
  let ?R = "(RIGHT, x, s, l) # fs"
  have "remove_descend cmp v st (hole ?R SlotRoot) (slots ?R SlotRoot) =
    Some ((hole fs' SlotRoot, RIGHT) # slots fs' SlotRoot)"
  proof (cases "r = Leaf")
    case True
    then show ?thesis using Node.prems nd by (subst remove_descend.simps) simp
  next
    case False
    then show ?thesis using Node.IH(2) [of ?R "m_pChild RIGHT nd"] Node.prems nd by simp
  qed
  then show ?case using Node.prems nd by (subst remove_descend.simps) simp
qed simp

lemma remove_find_descend:
  fixes st :: "'k avl_state" and fs :: "'k item frame list"
  assumes "slot_get (hole fs SlotRoot) st = Some p" "tree_at (heap st) p t"
    and "height t + length fs \<le> TREE_MAX_HEIGHT" "\<forall>x \<in> set (inorder t). cmp (snd x) v < 0"
  shows "remove_find cmp v st (hole fs SlotRoot) (slots fs SlotRoot) tgt =
    map_option (\<lambda>stk. (stk, tgt)) (remove_descend cmp v st (hole fs SlotRoot) (slots fs SlotRoot))"
  using assms
proof (induction t arbitrary: fs p)
  case Leaf
  then show ?case by (subst remove_find.simps, subst remove_descend.simps) simp
next
  case (Node l x s r)
  obtain nd where nd: "p = Some (fst x)" "heap st (fst x) = Some nd" "m_value nd = snd x"
    "tree_at (heap st) (m_pChild RIGHT nd) r"
    using Node.prems(2) by auto
  let ?R = "(RIGHT, x, s, l) # fs"
  have "remove_find cmp v st (hole ?R SlotRoot) (slots ?R SlotRoot) tgt =
    map_option (\<lambda>stk. (stk, tgt)) (remove_descend cmp v st (hole ?R SlotRoot) (slots ?R SlotRoot))"
    using Node.IH(2) [of ?R "m_pChild RIGHT nd"] Node.prems nd by simp
  then show ?case using Node.prems nd by (subst remove_find.simps, subst remove_descend.simps) simp
qed

section \<open>Insertion\<close>

lemma set_addrs_plug: "set (addrs (plug fs u)) = set (addrs u) \<union> set (faddrs fs)"
  by (induction fs u rule: plug.induct) auto

theorem Insert1_tree_insert:
  assumes st: "holds st t" "pRoot st = Some this" and t: "avl_ok t" "height t \<le> TREE_MAX_HEIGHT"
    and new: "heap st a = Some (AvlTreeNode v)" "a \<notin> set (addrs t)"
  shows "\<exists>st'. Insert1 cmp this a st = Some st' \<and> holds st' (tree_insert (\<lambda>x. cmp (snd x) v) (a, v) t)"
proof -
  let ?c = "\<lambda>x. cmp (snd x) v"
  obtain fs f where p: "find_path ?c t [] = (fs, f)" by fastforce
  have root: "st\<lparr>pRoot := Some this\<rparr> = st" using st(2) by simp
  have find: "insert_find cmp v st SlotRoot [] = Some (if f = Leaf then Inr (hole fs SlotRoot, slots fs SlotRoot) else Inl ())"
    using insert_find_path [of "[]" st "pRoot st" t cmp v fs f] st(1) t(2) p by (simp add: holds_def)
  have val: "m_value (AvlTreeNode v) = v" by (simp add: AvlTreeNode_def)
  show ?thesis
  proof (cases "f = Leaf")
    case False
    then have "tree_insert ?c (a, v) t = t" by (cases f) (simp_all add: tree_insert_def p)
    then show ?thesis using False find new(1) root val st(1) by (simp add: Insert1_def)
  next
    case True
    have pl: "plug fs Leaf = t" using find_path_plug [OF p] True by simp
    have z: "zipper0 st fs Leaf" using holds_zipper0 [of st fs Leaf] find_path_dirs [OF p] st(1) by (simp add: pl)
    have fr: "frames_ok fs 0" using find_path_ok [OF p _ t(1)] True by simp
    have a: "a \<notin> set (faddrs fs)" using new(2) pl set_addrs_plug [of fs Leaf] by simp
    define leaf where "leaf = Node Leaf (a, v) BALANCED Leaf"
    have "tree_at (heap st) (Some a) leaf" "distinct (addrs leaf)" "set (addrs leaf) \<inter> set (faddrs fs) = {}"
      using new(1) a by (simp_all add: leaf_def AvlTreeNode_def m_pChild_def)
    from zipper_assign [OF z refl refl this] obtain st1 where
      st1: "slot_set (hole fs SlotRoot) (Some a) st = Some st1" "zipper0 st1 fs leaf" by blast
    obtain st2 where "insert_up (slots fs SlotRoot) st1 = Some st2" "holds st2 (ins_up fs leaf)"
      using insert_up_ins_up [OF st1(2) fr] by (auto simp: leaf_def state_ok_def)
    then show ?thesis
      using True find new(1) root val st1(1) by (simp add: Insert1_def tree_insert_def p leaf_def)
  qed
qed

section \<open>Removal\<close>

text \<open>The state of the removed node: its links are null, its balance state is still the old one.\<close>

definition unlinked :: "'k avl_node \<Rightarrow> 'k avl_node" where
  "unlinked nd = nd\<lparr>m_pLeft := None, m_pRight := None\<rparr>"

lemma unlink_fields: "(set_pChild LEFT None \<circ> set_pChild RIGHT None) nd = unlinked nd"
  by (simp add: set_pChild_def unlinked_def)

lemma m_pChild_fields [simp]:
  "m_pChild LEFT nd = m_pLeft nd" "m_pChild RIGHT nd = m_pRight nd"
  by (simp_all add: m_pChild_def)

lemma copy_self: "heap st a = Some nd \<Longrightarrow> st\<lparr>heap := (heap st)(a \<mapsto> nd)\<rparr> = st"
  by (simp add: map_upd_triv)

text \<open>No left subtree: the node is replaced by its right child.\<close>

lemma remove_swap_right:
  assumes z: "zipper0 st fs (Node Leaf x s r)" and fs: "Suc (length fs) < TREE_MAX_HEIGHT"
  shows "\<exists>st' nd. heap st (fst x) = Some nd \<and>
    remove_swap (hole fs SlotRoot) LEFT (hole fs SlotRoot) (length fs + 1) (slots fs SlotRoot) st =
      Some (st', slots fs SlotRoot, fst x) \<and> zipper0 st' fs r \<and> heap st' (fst x) = Some (unlinked nd)"
proof -
  let ?q = "hole fs SlotRoot"
  obtain nd where nd: "slot_get ?q st = Some (Some (fst x))" "heap st (fst x) = Some nd"
    "tree_at (heap st) (m_pRight nd) r" "tree_at (heap st) (Some (fst x)) (Node Leaf x s r)"
    using z by (auto simp: zipper_def)
  have dist: "distinct (addrs (Node Leaf x s r) @ faddrs fs)" using z by (simp add: zipper_def)
  have disj: "distinct (addrs (Node Leaf x s r))" "set (addrs (Node Leaf x s r)) \<inter> set (faddrs fs) = {}"
    "distinct (addrs r)" "set (addrs r) \<inter> set (faddrs fs) = {}" "fst x \<notin> set (faddrs fs)" "fst x \<notin> set (addrs r)"
    using dist by auto
  obtain st1 where st1: "slot_set ?q (Some (fst x)) st = Some st1" "zipper0 st1 fs (Node Leaf x s r)"
    "\<forall>b. b \<notin> set (faddrs fs) \<longrightarrow> heap st1 b = heap st b"
    using zipper_assign [OF z refl refl nd(4) disj(1,2)] by blast
  have "tree_at (heap st1) (m_pRight nd) r" using nd(3) by (rule tree_at_cong) (use st1(3) disj in blast)
  then obtain st2 where st2: "slot_set ?q (m_pRight nd) st1 = Some st2" "zipper0 st2 fs r"
    "slot_get ?q st2 = Some (m_pRight nd)" "\<forall>b. b \<notin> set (faddrs fs) \<longrightarrow> heap st2 b = heap st1 b"
    using zipper_assign [OF st1(2) refl refl _ disj(3,4)] by blast
  have h: "heap st1 (fst x) = Some nd" "heap st2 (fst x) = Some nd" using nd(2) st1(3) st2(4) disj(5) by auto
  define st3 where "st3 = st2\<lparr>heap := (heap st2)(fst x \<mapsto> unlinked nd)\<rparr>"
  have same: "set_pChild LEFT (m_pLeft nd) nd = nd" "set_pChild RIGHT (m_pRight nd) nd = nd"
    "m_nState_update (\<lambda>_. m_nState nd) nd = nd"
    by (simp_all add: set_pChild_def)
  have "remove_swap ?q LEFT ?q (length fs + 1) (slots fs SlotRoot) st = Some (st3, slots fs SlotRoot, fst x)"
    using nd(1) st1(1) h st2(1) fs
    by (simp add: remove_swap_def same copy_self stack_write_def unlink_fields [simplified] st3_def)
  moreover have "zipper0 st3 fs r"
  proof (rule zipper_below [OF st2(2) _ _ st2(3)])
    show "tree_at (heap st3) (m_pRight nd) r" using st2(2,3) disj(6) by (simp add: st3_def zipper_def)
  qed (use disj in \<open>auto simp: st3_def\<close>)
  ultimately show ?thesis using nd(2) by (auto simp: st3_def)
qed

text \<open>
  The link from its parent to the rightmost node \<open>y\<close> of the left subtree of \<open>x\<close> is set to the
  left child of \<open>y\<close>. The parent may be \<open>x\<close> itself.
\<close>

lemma subtree_assign:
  assumes tree: "tree_at (heap st) (Some (fst x)) (Node (plug gs f) x s r)" "distinct (addrs (Node (plug gs f) x s r))"
    and gs: "dirs_ok gs" and p: "tree_at (heap st) p f'" "distinct (addrs f')" "set (addrs f') \<subseteq> set (addrs f)"
  shows "\<exists>st2 nd. slot_set (hole gs (SlotChild (fst x) LEFT)) p st = Some st2 \<and> pRoot st2 = pRoot st \<and>
    heap st2 (fst x) = Some nd \<and> m_nState nd = s \<and> m_value nd = snd x \<and>
    tree_at (heap st2) (m_pLeft nd) (plug gs f') \<and> tree_at (heap st2) (m_pRight nd) r \<and>
    distinct (addrs (Node (plug gs f') x s r)) \<and>
    (\<forall>b. b \<notin> insert (fst x) (set (faddrs gs) \<union> set (addrs r)) \<longrightarrow> heap st2 b = heap st b)"
proof -
  let ?s = "st\<lparr>pRoot := Some (fst x)\<rparr>" and ?gs = "gs @ [(LEFT, x, s, r)]"
  have node: "plug ?gs u = Node (plug gs u) x s r" for u
    by (induction gs arbitrary: u) (auto simp: mk_def)
  have "holds ?s (plug ?gs f)" using tree by (simp add: holds_def node)
  then have z: "zipper0 ?s ?gs f" using gs by (intro holds_zipper0) simp_all
  have fa: "set (faddrs ?gs) = insert (fst x) (set (faddrs gs) \<union> set (addrs r))"
    by (induction gs) auto
  have "set (addrs f) \<inter> set (faddrs ?gs) = {}" using z by (auto simp: zipper_def)
  then have dj: "set (addrs f') \<inter> set (faddrs ?gs) = {}" using p(3) by blast
  obtain st2 where st2: "slot_set (hole ?gs SlotRoot) p ?s = Some st2" "zipper0 st2 ?gs f'"
    "\<forall>b. b \<notin> set (faddrs ?gs) \<longrightarrow> heap st2 b = heap ?s b"
    using zipper_assign [OF z refl refl _ p(2) dj] p(1) by auto
  have "holds st2 (Node (plug gs f') x s r)" using zipper_plug_holds [OF st2(2)] by (simp add: node)
  then have fin: "tree_at (heap st2) (pRoot st2) (Node (plug gs f') x s r)" "distinct (addrs (Node (plug gs f') x s r))"
    by (simp_all add: holds_def)
  obtain a n where hole: "hole gs (SlotChild (fst x) LEFT) = SlotChild a n" by (cases gs) auto
  have set_root: "slot_set (SlotChild a n) p ?s = map_option (pRoot_update (\<lambda>_. Some (fst x))) (slot_set (SlotChild a n) p st)"
    by (cases "heap st a") (simp_all add: update_node_def)
  obtain st2' where st2': "slot_set (SlotChild a n) p st = Some st2'" "heap st2' = heap st2" "pRoot st2' = pRoot st"
    using st2(1) set_root by (auto simp: hole_append hole update_node_def split: bind_splits)
  show ?thesis using st2' fin st2(3) hole fa by auto
qed

lemma slots_write:
  assumes gs: "gs \<noteq> []"
  shows "stack_write (length fs + 1) s' (slots gs (SlotChild a n) @ (q, m) # slots fs SlotRoot) =
    (if TREE_MAX_HEIGHT \<le> length fs + 1 then None else Some (slots gs s' @ (q, m) # slots fs SlotRoot))"
proof -
  have "\<exists>us d. slots gs b = us @ [(b, d)] \<and> slots gs b' = us @ [(b', d)]" for b b'
    using gs
  proof (induction gs)
    case (Cons g gs)
    obtain n x s d where g: "g = (n, x, s, d)" by (cases g) auto
    show ?case
    proof (cases gs)
      case Nil
      then show ?thesis by (simp add: g)
    next
      case (Cons g' gs')
      then show ?thesis using Cons.IH by (cases g') (auto simp: g)
    qed
  qed simp
  then obtain us d where us: "slots gs (SlotChild a n) = us @ [(SlotChild a n, d)]" "slots gs s' = us @ [(s', d)]"
    by blast
  show ?thesis by (simp add: stack_write_def us nth_append list_update_append Let_def)
qed

lemma faddrs_append: "faddrs (gs @ fs) = faddrs gs @ faddrs fs"
  by (induction gs rule: faddrs.induct) simp_all

lemma zipper0_ascend: "zipper0 st (gs @ fs) t \<Longrightarrow> zipper0 st fs (plug gs t)"
proof (induction gs arbitrary: t)
  case (Cons g gs)
  obtain n x s d where g: "g = (n, x, s, d)" by (cases g) auto
  from Cons.prems have "zipper0 st (gs @ fs) (mk n t x s d)" by (auto simp: g dest: zipper_up)
  then show ?case using Cons.IH by (simp add: g)
qed simp

text \<open>A left subtree: the node is replaced by the rightmost node \<open>y\<close> of it, and the stack is patched.\<close>

lemma remove_swap_left:
  assumes z: "zipper0 st (gs @ (LEFT, x, s, r) # fs) (Node l' y sy Leaf)" and gs: "dirs_ok gs"
    and fs: "Suc (length fs) < TREE_MAX_HEIGHT"
  shows "\<exists>st' nd. heap st (fst x) = Some nd \<and>
    remove_swap (hole (gs @ (LEFT, x, s, r) # fs) SlotRoot) RIGHT (hole fs SlotRoot) (length fs + 1)
        (slots (gs @ (LEFT, x, s, r) # fs) SlotRoot) st =
      Some (st', slots (gs @ (LEFT, y, s, r) # fs) SlotRoot, fst x) \<and>
    zipper0 st' (gs @ (LEFT, y, s, r) # fs) l' \<and> heap st' (fst x) = Some (unlinked nd)"
proof -
  let ?q = "hole fs SlotRoot" and ?f = "Node l' y sy Leaf"
  let ?pp = "hole gs (SlotChild (fst x) LEFT)"
  obtain B where B: "slot_get ?pp st = Some (Some (fst y))" "heap st (fst y) = Some B" "tree_at (heap st) (m_pLeft B) l'"
    "m_value B = snd y"
    using z by (auto simp: zipper_def hole_append)
  have zx: "zipper0 st fs (Node (plug gs ?f) x s r)"
    using zipper_up zipper0_ascend [OF z] by (fastforce simp: mk_def)
  obtain T where T: "slot_get ?q st = Some (Some (fst x))" "heap st (fst x) = Some T"
    "tree_at (heap st) (Some (fst x)) (Node (plug gs ?f) x s r)"
    using zx by (auto simp: zipper_def)
  have dist: "distinct (addrs (Node (plug gs ?f) x s r) @ faddrs fs)" using zx by (simp add: zipper_def)
  have sub: "set (addrs (plug gs ?f)) = insert (fst y) (set (addrs l') \<union> set (faddrs gs))"
    by (auto simp: set_addrs_plug)
  have dist_f: "distinct (addrs l')" "fst y \<notin> set (addrs l')" "fst y \<notin> set (faddrs gs)"
    "set (addrs l') \<inter> set (faddrs gs) = {}"
    using z by (auto simp: zipper_def faddrs_append)
  have y: "fst y \<noteq> fst x" "fst y \<notin> set (addrs r)" "fst y \<notin> set (faddrs fs)"
    and x: "fst x \<notin> set (faddrs fs)" "fst x \<notin> set (addrs r)"
    and disj: "set (addrs (plug gs ?f)) \<inter> set (faddrs fs) = {}" "set (addrs r) \<inter> set (faddrs fs) = {}"
    using dist sub by auto
  have zq: "zip_at st (slots fs SlotRoot) fs SlotRoot ?q" "distinct (faddrs fs)" using zx by (simp_all add: zipper_def)
  obtain st1 where st1: "slot_set ?q (Some (fst y)) st = Some st1" "zip_at st1 (slots fs SlotRoot) fs SlotRoot ?q"
    "slot_get ?q st1 = Some (Some (fst y))" "\<forall>b. b \<notin> set (faddrs fs) \<longrightarrow> heap st1 b = heap st b"
    using zip_at_set [OF zq] by blast
  have t1: "tree_at (heap st1) (Some (fst x)) (Node (plug gs ?f) x s r)"
    using T(3) by (rule tree_at_cong) (use st1(4) disj x in auto)
  have l1: "tree_at (heap st1) (m_pLeft B) l'"
    using B(3) by (rule tree_at_cong) (use st1(4) disj sub in auto)
  obtain st2 T2 where st2: "slot_set ?pp (m_pLeft B) st1 = Some st2" "pRoot st2 = pRoot st1"
    "heap st2 (fst x) = Some T2" "m_nState T2 = s \<and> m_value T2 = snd x"
    "tree_at (heap st2) (m_pLeft T2) (plug gs l')" "tree_at (heap st2) (m_pRight T2) r"
    "distinct (addrs (Node (plug gs l') x s r))"
    "\<forall>b. b \<notin> insert (fst x) (set (faddrs gs) \<union> set (addrs r)) \<longrightarrow> heap st2 b = heap st1 b"
    using subtree_assign [OF t1 _ gs l1 dist_f(1)] dist by auto
  have hB: "heap st1 (fst y) = Some B" "heap st2 (fst y) = Some B" "heap st1 (fst x) = Some T"
    using B(2) T(2) st1(4) st2(8) y dist_f(3) x by auto
  define B5 where "B5 = m_nState_update (\<lambda>_. s) (set_pChild RIGHT (m_pRight T2) (set_pChild LEFT (m_pLeft T2) B))"
  define st6 where "st6 = st2\<lparr>heap := (heap st2)(fst y \<mapsto> B5, fst x \<mapsto> unlinked T2)\<rparr>"
  have stk: "stack_write (length fs + 1) (SlotChild (fst y) LEFT) (slots (gs @ (LEFT, x, s, r) # fs) SlotRoot) =
      Some (slots (gs @ (LEFT, y, s, r) # fs) SlotRoot)"
  proof (cases "gs = []")
    case True
    then show ?thesis using fs by (simp add: stack_write_def)
  next
    case False
    then show ?thesis using fs slots_write [OF False, of fs] by (simp add: slots_append)
  qed
  have "remove_swap (hole (gs @ (LEFT, x, s, r) # fs) SlotRoot) RIGHT ?q (length fs + 1)
      (slots (gs @ (LEFT, x, s, r) # fs) SlotRoot) st = Some (st6, slots (gs @ (LEFT, y, s, r) # fs) SlotRoot, fst x)"
    using T(1) B(1) st1(1) hB st2(1,3) conjunct1 [OF st2(4)] y(1) stk
    by (simp add: remove_swap_def hole_append unlink_fields [simplified] st6_def B5_def)
  moreover have "zipper0 st6 (gs @ (LEFT, y, s, r) # fs) l'"
  proof -
    have keep: "heap st6 b = heap st1 b" if "b \<in> set (faddrs fs)" for b
      using that y x disj sub st2(8) by (auto simp: st6_def)
    have "zip_at st6 (slots fs SlotRoot) fs SlotRoot ?q \<and> slot_get ?q st6 = slot_get ?q st1"
      using st1(2) keep by (rule zip_at_cong) (simp_all add: st6_def st2(2))
    moreover have "set (addrs (plug gs l')) \<subseteq> set (addrs (plug gs ?f))" "fst y \<notin> set (addrs (plug gs l'))"
      using dist_f by (auto simp: set_addrs_plug)
    moreover have "tree_at (heap st6) (Some (fst y)) (Node (plug gs l') y s r)"
      using st2(5,6,7) y x B(4) calculation(3) by (simp add: st6_def B5_def) (simp add: set_pChild_def)
    ultimately have "zipper0 st6 fs (Node (plug gs l') y s r)"
      using st1(3) st2(7) disj dist y by (auto simp: zipper_def)
    then have "zipper0 st6 ((LEFT, y, s, r) # fs) (plug gs l')"
      using zipper0_descend [of st6 fs "[(LEFT, y, s, r)]" "plug gs l'"] by (simp add: mk_def)
    then show ?thesis using zipper0_descend gs by blast
  qed
  moreover have "m_value T2 = m_value T \<and> m_nState T2 = m_nState T"
    using T(2,3) st2(3,4) by auto
  ultimately show ?thesis using T(2) by (auto simp: st6_def unlinked_def)
qed

lemma remove_at_max:
  assumes "max_path l [] = (gs, Node l' y s' Leaf)"
  shows "remove_at fs (Node l x s r) = del_up (gs @ (LEFT, y, s, r) # fs) l'"
  by (simp add: assms)

text \<open>
  Search, exchange and rebalancing after the node \<open>x\<close> was found at the end of the path \<open>fs\<close>.
  \<open>v\<close> is the value the nodes below are compared with.
\<close>

lemma remove_found:
  fixes st :: "'k avl_state" and fs :: "'k item frame list"
  assumes z: "zipper0 st fs (Node l x s r)" and ok: "frames_ok fs (height (Node l x s r))" "avl_ok (Node l x s r)"
    and fs: "dirs_ok fs" "length fs + height (Node l x s r) < TREE_MAX_HEIGHT"
    and less: "\<forall>z \<in> set (inorder l). cmp (snd z) v < 0"
  shows "\<exists>ppThis n stk st1 stk1 st2 nd.
    remove_descend cmp v st (SlotChild (fst x) LEFT) ((hole fs SlotRoot, LEFT) # slots fs SlotRoot) = Some ((ppThis, n) # stk) \<and>
    remove_swap ppThis n (hole fs SlotRoot) (length fs + 1) stk st = Some (st1, stk1, fst x) \<and>
    remove_up stk1 st1 = Some st2 \<and> holds st2 (remove_at fs (Node l x s r)) \<and>
    heap st (fst x) = Some nd"
proof -
  let ?F = "(LEFT, x, s, r) # fs"
  have lr: "avl_ok l" "avl_ok r" "state_ok s (height l) (height r)" using ok(2) by simp_all
  have zl: "zipper0 st ?F l" using zipper_down [of st _ fs _ LEFT l x s r] z by (simp add: mk_def)
  obtain p where p: "slot_get (hole ?F SlotRoot) st = Some p" "tree_at (heap st) p l" using zipper0_slot [OF zl] .
  show ?thesis
  proof (cases "l = Leaf")
    case True
    have desc: "remove_descend cmp v st (hole ?F SlotRoot) (slots ?F SlotRoot) = Some (slots ?F SlotRoot)"
      using p True by (subst remove_descend.simps) auto
    obtain st1 nd where sw: "heap st (fst x) = Some nd"
      "remove_swap (hole fs SlotRoot) LEFT (hole fs SlotRoot) (length fs + 1) (slots fs SlotRoot) st = Some (st1, slots fs SlotRoot, fst x)"
      "zipper0 st1 fs r"
      using remove_swap_right [of st fs x s r] z fs(2) True by auto
    have "frames_ok fs (Suc (height r))" using ok(1) True by simp
    then obtain st2 where "remove_up (slots fs SlotRoot) st1 = Some st2" "holds st2 (del_up fs r)"
      using remove_up_del_up [OF sw(3) _ lr(2) refl] by blast
    then show ?thesis using desc sw True by auto
  next
    case False
    obtain gs l' y s' where m: "max_path l [] = (gs, Node l' y s' Leaf)" using max_path_Node [OF False] by blast
    have mF: "max_path l ((LEFT, z, s, r) # fs) = (gs @ (LEFT, z, s, r) # fs, Node l' y s' Leaf)" for z
      using max_path_append [of l "(LEFT, z, s, r) # fs"] m by simp
    have gs: "dirs_ok gs" using max_path_dirs [OF m] by simp
    have desc: "remove_descend cmp v st (hole ?F SlotRoot) (slots ?F SlotRoot) =
        Some ((hole (gs @ ?F) SlotRoot, RIGHT) # slots (gs @ ?F) SlotRoot)"
      using remove_descend_max [where cmp = cmp and v = v, OF p mF [of x] _ less False] fs(2) by simp
    have "zipper0 st ?F (plug gs (Node l' y s' Leaf))" using zl max_path_plug [OF m] by simp
    then have zb: "zipper0 st (gs @ ?F) (Node l' y s' Leaf)" using zipper0_descend gs by blast
    obtain st1 nd where sw: "heap st (fst x) = Some nd"
      "remove_swap (hole (gs @ ?F) SlotRoot) RIGHT (hole fs SlotRoot) (length fs + 1) (slots (gs @ ?F) SlotRoot) st =
        Some (st1, slots (gs @ (LEFT, y, s, r) # fs) SlotRoot, fst x)"
      "zipper0 st1 (gs @ (LEFT, y, s, r) # fs) l'"
      using remove_swap_left [OF zb gs] fs(2) by auto
    have "frames_ok ((LEFT, y, s, r) # fs) (height l)" using ok(1) lr by simp
    then have "frames_ok (gs @ (LEFT, y, s, r) # fs) (height (Node l' y s' Leaf))" "avl_ok (Node l' y s' Leaf)"
      using max_path_ok [OF mF [of y]] lr(1) by blast+
    then have "frames_ok (gs @ (LEFT, y, s, r) # fs) (Suc (height l'))" "avl_ok l'" by (simp_all add: state_ok_def)
    then obtain st2 where "remove_up (slots (gs @ (LEFT, y, s, r) # fs) SlotRoot) st1 = Some st2"
      "holds st2 (del_up (gs @ (LEFT, y, s, r) # fs) l')"
      using remove_up_del_up [OF sw(3) _ _ refl] by blast
    then show ?thesis using desc sw(1,2) remove_at_max [OF m, of fs x s r] by auto
  qed
qed

end
