(* ===== verification/AvlCorrect.thy ===== *)
theory AvlCorrect
  imports AvlRefine
begin

text \<open>
  What \<^verbatim>\<open>AvlTreeNode\<close> promises: starting from a balanced search tree in the store, every
  operation returns, stays within its arrays, leaves a balanced search tree, and has the
  effect on the inorder sequence of nodes that its name says. The last section shows where
  the code falls short of it.
\<close>

section \<open>Search trees in the store\<close>

definition ordered :: "('k \<Rightarrow> 'k \<Rightarrow> int) \<Rightarrow> 'k item avl \<Rightarrow> bool" where
  "ordered cmp t \<longleftrightarrow> sorted_wrt (\<lambda>x y. cmp (snd x) (snd y) < 0) (inorder t)"

definition avl_store :: "('k \<Rightarrow> 'k \<Rightarrow> int) \<Rightarrow> 'k avl_state \<Rightarrow> 'k item avl \<Rightarrow> bool" where
  "avl_store cmp st t \<longleftrightarrow> holds st t \<and> avl_ok t \<and> ordered cmp t"

context comparable
begin

lemma ordered_separated: "ordered cmp t \<Longrightarrow> separated (\<lambda>x. cmp (snd x) v) (inorder t)"
  unfolding ordered_def separated_def
  by (erule sorted_wrt_mono_rel [rotated]) (blast intro: cmp_less_le)

lemma insert_sorted:
  fixes xs :: "(addr \<times> 'k) list"
  assumes "sorted_wrt (\<lambda>x y. cmp (snd x) (snd y) < 0) xs"
  shows "sorted_wrt (\<lambda>x y. cmp (snd x) (snd y) < 0)
    (filter (\<lambda>x. cmp (snd x) v < 0) xs @ (a, v) # filter (\<lambda>x. 0 < cmp (snd x) v) xs)"
proof -
  have "cmp (snd x) (snd y) < 0" if "cmp (snd x) v < 0" "0 < cmp (snd y) v" for x y :: "addr \<times> 'k"
    using that cmp_less_le cmp_swap by (meson less_imp_le)
  then show ?thesis using assms cmp_swap by (auto simp: sorted_wrt_append sorted_wrt_filter)
qed

end

lemma height_bound: "avl_ok t \<Longrightarrow> node_count t < 9227464 \<Longrightarrow> height t \<le> 32"
  using avl_height_less [of t 32] min_nodes_33 by simp

section \<open>The comparison of the test program\<close>

text \<open>
  \<^verbatim>\<open>IntegerNode::CompareTo\<close> of \<^verbatim>\<open>app/test_avlTree/test_avlTree.cpp\<close>: the difference of the two
  values, which are taken from a range where it does not overflow.
\<close>

definition IntegerNode_CompareTo :: "int \<Rightarrow> int \<Rightarrow> int" where
  "IntegerNode_CompareTo a b = a - b"

interpretation integer_node: comparable IntegerNode_CompareTo
  by unfold_locales (auto simp: IntegerNode_CompareTo_def)

text \<open>A store with two nodes, 20 above 10, for the instances below.\<close>

definition sample :: "int avl_state" where
  "sample = \<lparr>pRoot = Some 1,
     heap = Map.empty(1 \<mapsto> \<lparr>m_nState = LEFT, m_pLeft = Some 2, m_pRight = None, m_value = 20\<rparr>,
                      2 \<mapsto> AvlTreeNode 10, 3 \<mapsto> AvlTreeNode 30)\<rparr>"

definition sample_tree :: "int item avl" where
  "sample_tree = Node (Node Leaf (2, 10) BALANCED Leaf) (1, 20) LEFT Leaf"

lemma sample_store: "avl_store IntegerNode_CompareTo sample sample_tree"
  by (simp add: avl_store_def holds_def ordered_def sample_def sample_tree_def AvlTreeNode_def
      IntegerNode_CompareTo_def state_ok_def)

section \<open>Removal on trees and in the store\<close>

lemma separated_focus:
  assumes "find_path c t [] = (fs, Node l x s r)" "separated c (inorder t)"
  shows "\<forall>y \<in> set (inorder l). c y < 0" "\<forall>y \<in> set (inorder r). 0 < c y" "c x = 0" "x \<in> set (inorder t)"
proof -
  have x: "c x = 0" using find_path_focus [OF assms(1)] by simp
  show "\<forall>y \<in> set (inorder l). c y < 0" "\<forall>y \<in> set (inorder r). 0 < c y"
    using find_path_root(4) [OF assms] x by (auto simp: separated_def sorted_wrt_append)
  show "c x = 0" by (rule x)
  show "x \<in> set (inorder t)" using find_path_root(1) [OF assms] by simp
qed

lemma Remove1_tree_remove:
  fixes st :: "'k avl_state"
  assumes st: "holds st t" "pRoot st = Some this" and t: "avl_ok t" "height t < TREE_MAX_HEIGHT"
    and sep: "separated (\<lambda>x. cmp (snd x) v) (inorder t)"
  shows "\<exists>st'. Remove1 cmp this v st = Some (st', map_option fst (tree_find (\<lambda>x. cmp (snd x) v) t)) \<and>
    holds st' (tree_remove (\<lambda>x. cmp (snd x) v) t)"
proof -
  let ?c = "\<lambda>x. cmp (snd x) v"
  obtain fs f where p: "find_path ?c t [] = (fs, f)" by fastforce
  have root: "st\<lparr>pRoot := Some this\<rparr> = st" using st(2) by simp
  have len: "length fs + height f < TREE_MAX_HEIGHT" using find_path_length [OF p] t(2) by simp
  have pl: "plug fs f = t" using find_path_plug [OF p] by simp
  have dirs: "dirs_ok fs" using find_path_dirs [OF p] by simp
  have z: "zipper0 st fs f" using holds_zipper0 [of st fs f] dirs st(1) by (simp add: pl)
  have find: "remove_find cmp v st SlotRoot [] None =
    (case f of Leaf \<Rightarrow> Some (slots fs SlotRoot, None)
     | Node l x s r \<Rightarrow> remove_find cmp v st (SlotChild (fst x) LEFT) ((hole fs SlotRoot, LEFT) # slots fs SlotRoot)
         (Some (hole fs SlotRoot, length fs + 1)))"
    using remove_find_path [of "[]" st "pRoot st" t cmp v fs f] st(1) t(2) p by (simp add: holds_def)
  show ?thesis
  proof (cases f)
    case Leaf
    then show ?thesis using find root st(1) pl by (simp add: Remove1_def tree_remove_def tree_find_def p)
  next
    case (Node l x s r)
    have less: "\<forall>y \<in> set (inorder l). cmp (snd y) v < 0" using separated_focus [OF p [unfolded Node] sep] by blast
    have ok: "frames_ok fs (height (Node l x s r))" "avl_ok (Node l x s r)" using find_path_ok [OF p _ t(1)] Node by simp_all
    have zl: "zipper0 st ((LEFT, x, s, r) # fs) l"
      using zipper_down [of st _ fs _ LEFT l x s r] z Node by (simp add: mk_def)
    obtain q where q: "slot_get (hole ((LEFT, x, s, r) # fs) SlotRoot) st = Some q" "tree_at (heap st) q l"
      using zipper0_slot [OF zl] .
    obtain ppThis n stk st1 stk1 st2 where run:
      "remove_descend cmp v st (SlotChild (fst x) LEFT) ((hole fs SlotRoot, LEFT) # slots fs SlotRoot) = Some ((ppThis, n) # stk)"
      "remove_swap ppThis n (hole fs SlotRoot) (length fs + 1) stk st = Some (st1, stk1, fst x)"
      "remove_up stk1 st1 = Some st2" "holds st2 (remove_at fs (Node l x s r))"
      using remove_found [where cmp = cmp and v = v, OF z [unfolded Node] ok dirs _ less] len Node by auto
    have "remove_find cmp v st SlotRoot [] None = Some ((ppThis, n) # stk, Some (hole fs SlotRoot, length fs + 1))"
      using find Node run(1) remove_find_descend [where cmp = cmp and v = v, OF q _ less, of "Some (hole fs SlotRoot, length fs + 1)"] len by simp
    then show ?thesis using run(2-4) root Node by (simp add: Remove1_def tree_remove_def tree_find_def p)
  qed
qed

section \<open>The versions with a ProbePath\<close>





section \<open>Traversal\<close>

text \<open>
  A stack of the traversal: each entry is a node that is still to be returned, followed by
  its right subtree. \<open>pending\<close> is what is still to come.
\<close>

fun trav_rep :: "'k avl_state \<Rightarrow> addr list \<Rightarrow> ('k item \<times> 'k item avl) list \<Rightarrow> bool" where
  "trav_rep st [] [] \<longleftrightarrow> True"
| "trav_rep st (a # stk) ((x, r) # rs) \<longleftrightarrow> a = fst x \<and>
     (\<exists>nd. heap st a = Some nd \<and> tree_at (heap st) (m_pRight nd) r) \<and>
     length stk + height r \<le> TREE_MAX_HEIGHT \<and> trav_rep st stk rs"
| "trav_rep st _ _ \<longleftrightarrow> False"

definition pending :: "('k item \<times> 'k item avl) list \<Rightarrow> addr list" where
  "pending rs = concat (map (\<lambda>(x, r). fst x # addrs r) rs)"

lemma push_left_rep:
  assumes "tree_at (heap st) (Some a) t" "trav_rep st stk rs" "length stk + height t \<le> TREE_MAX_HEIGHT"
  shows "\<exists>stk' rs'. push_left st a stk = Some stk' \<and> trav_rep st stk' rs' \<and> pending rs' = addrs t @ pending rs"
  using assms
proof (induction t arbitrary: a stk rs)
  case (Node l x s r)
  obtain nd where nd: "a = fst x" "heap st a = Some nd" "tree_at (heap st) (m_pLeft nd) l" "tree_at (heap st) (m_pRight nd) r"
    using Node.prems(1) by auto
  have rep: "trav_rep st (a # stk) ((x, r) # rs)" using nd Node.prems by auto
  show ?case
  proof (cases "m_pLeft nd")
    case None
    then have "l = Leaf" using nd(3) by (cases l) auto
    moreover have "push_left st a stk = Some (a # stk)" using None nd(2) Node.prems(3) by (subst push_left.simps) simp
    ultimately show ?thesis
      using rep by (intro exI [of _ "a # stk"] exI [of _ "(x, r) # rs"]) (simp add: pending_def nd(1))
  next
    case (Some b)
    then have tb: "tree_at (heap st) (Some b) l" using nd(3) by simp
    have "length (a # stk) + height l \<le> TREE_MAX_HEIGHT" using Node.prems(3) by simp
    from Node.IH(1) [OF tb rep this] obtain stk' rs' where
      "push_left st b (a # stk) = Some stk'" "trav_rep st stk' rs'" "pending rs' = addrs l @ pending ((x, r) # rs)" by blast
    moreover have "push_left st a stk = push_left st b (a # stk)"
      using Some nd(2) Node.prems(3) by (subst push_left.simps) simp
    ultimately show ?thesis by (auto simp: pending_def)
  qed
qed simp

text \<open>A client that calls \<^verbatim>\<open>Traverse\<close> until it returns null, at most \<open>n\<close> times.\<close>

fun traverse_all :: "nat \<Rightarrow> addr list \<Rightarrow> 'k avl_state \<Rightarrow> addr list option" where
  "traverse_all 0 stk st = None"
| "traverse_all (Suc n) stk st =
     do { (p, stk') \<leftarrow> Traverse stk st;
          case p of None \<Rightarrow> Some [] | Some a \<Rightarrow> do { as \<leftarrow> traverse_all n stk' st; Some (a # as) } }"

lemma traverse_all_rep: "trav_rep st stk rs \<Longrightarrow> n = Suc (length (pending rs)) \<Longrightarrow> traverse_all n stk st = Some (pending rs)"
proof (induction n arbitrary: stk rs)
  case (Suc n)
  show ?case
  proof (cases rs)
    case Nil
    then show ?thesis using Suc.prems(1) by (cases stk) (simp_all add: Traverse_def pending_def)
  next
    case (Cons r0 rs')
    obtain x r where r0: "r0 = (x, r)" by (cases r0) auto
    obtain stk' nd where stk: "stk = fst x # stk'" "heap st (fst x) = Some nd" "tree_at (heap st) (m_pRight nd) r"
      "length stk' + height r \<le> TREE_MAX_HEIGHT" "trav_rep st stk' rs'"
      using Suc.prems(1) Cons r0 by (cases stk) auto
    have pend: "pending rs = fst x # addrs r @ pending rs'" by (simp add: pending_def Cons r0)
    show ?thesis
    proof (cases "m_pRight nd")
      case None
      then have "addrs r = []" using stk(3) by (cases r) auto
      moreover have "Traverse stk st = Some (Some (fst x), stk')" using None stk by (simp add: Traverse_def)
      moreover have "traverse_all n stk' st = Some (pending rs')"
        using Suc.IH [OF stk(5)] Suc.prems(2) pend calculation(1) by simp
      ultimately show ?thesis by (simp add: pend)
    next
      case (Some b)
      obtain stk2 rs2 where "push_left st b stk' = Some stk2" "trav_rep st stk2 rs2" "pending rs2 = addrs r @ pending rs'"
        using push_left_rep [OF stk(3) [unfolded Some] stk(5,4)] by blast
      moreover from this(1) have "Traverse stk st = Some (Some (fst x), stk2)" using Some stk by (simp add: Traverse_def)
      moreover have "traverse_all n stk2 st = Some (pending rs2)"
        using Suc.IH [of stk2 rs2] Suc.prems(2) pend calculation(2,3) by simp
      ultimately show ?thesis by (simp add: pend)
    qed
  qed
qed simp

lemma length_addrs: "length (addrs t) = node_count t"
  by (induction t) simp_all

lemma GetPolarNode_ends:
  "tree_at (heap st) (Some a) t \<Longrightarrow> GetPolarNode LEFT a st = Some (hd (addrs t)) \<and> GetPolarNode RIGHT a st = Some (last (addrs t))"
proof (induction t arbitrary: a)
  case (Node l x s r)
  obtain nd where nd: "a = fst x" "heap st a = Some nd" "tree_at (heap st) (m_pLeft nd) l" "tree_at (heap st) (m_pRight nd) r"
    using Node.prems by auto
  have "GetPolarNode LEFT a st = Some (hd (addrs (Node l x s r)))"
  proof (cases l)
    case Leaf
    then show ?thesis using nd by (subst GetPolarNode.simps) simp
  next
    case (Node l1 y s1 r1)
    then have "m_pLeft nd = Some (fst y)" "addrs l \<noteq> []" using nd(3) by simp_all
    then show ?thesis using nd Node.IH(1) [of "fst y"] by (subst GetPolarNode.simps) simp
  qed
  moreover have "GetPolarNode RIGHT a st = Some (last (addrs (Node l x s r)))"
  proof (cases r)
    case Leaf
    then show ?thesis using nd by (subst GetPolarNode.simps) simp
  next
    case (Node l1 y s1 r1)
    then have "m_pRight nd = Some (fst y)" "addrs r \<noteq> []" using nd(4) by simp_all
    then show ?thesis using nd Node.IH(2) [of "fst y"] by (subst GetPolarNode.simps) simp
  qed
  ultimately show ?case by simp
qed simp

section \<open>Replacement\<close>

lemma replace_swap_rep:
  assumes z: "zipper0 st fs (Node l x s r)" and new: "heap st a = Some nd" "a \<notin> set (addrs (plug fs (Node l x s r)))"
  shows "\<exists>st'. replace_swap (hole fs SlotRoot) (fst x) a st = Some (st', fst x) \<and>
    zipper0 st' fs (Node l (a, m_value nd) s r) \<and> heap st' (fst x) = Some (AvlTreeNode (snd x))"
proof -
  let ?q = "hole fs SlotRoot"
  obtain old where old: "slot_get ?q st = Some (Some (fst x))" "heap st (fst x) = Some old" "m_nState old = s"
    "m_value old = snd x" "tree_at (heap st) (m_pLeft old) l" "tree_at (heap st) (m_pRight old) r"
    using z by (auto simp: zipper_def)
  have dist: "distinct (addrs (Node l x s r) @ faddrs fs)" using z by (simp add: zipper_def)
  have a: "a \<noteq> fst x" "a \<notin> set (addrs l)" "a \<notin> set (addrs r)" "a \<notin> set (faddrs fs)"
    using new(2) by (auto simp: set_addrs_plug)
  have zq: "zip_at st (slots fs SlotRoot) fs SlotRoot ?q" "distinct (faddrs fs)" using z by (simp_all add: zipper_def)
  obtain st1 where st1: "slot_set ?q (Some a) st = Some st1" "zip_at st1 (slots fs SlotRoot) fs SlotRoot ?q"
    "slot_get ?q st1 = Some (Some a)" "\<forall>b. b \<notin> set (faddrs fs) \<longrightarrow> heap st1 b = heap st b"
    using zip_at_set [OF zq] by blast
  have h1: "heap st1 (fst x) = Some old" "heap st1 a = Some nd" using st1(4) old(2) new(1) a dist by auto
  have t1: "tree_at (heap st1) (m_pLeft old) l" "tree_at (heap st1) (m_pRight old) r"
    by (rule tree_at_cong [OF old(5)], use st1(4) dist in auto) (rule tree_at_cong [OF old(6)], use st1(4) dist in auto)
  define new' where "new' = m_nState_update (\<lambda>_. s) (set_pChild RIGHT (m_pRight old) (set_pChild LEFT (m_pLeft old) nd))"
  define st2 where "st2 = st1\<lparr>heap := (heap st1)(a \<mapsto> new', fst x \<mapsto> AvlTreeNode (snd x))\<rparr>"
  have "(m_nState_update (\<lambda>_. BALANCED) \<circ> set_pChild RIGHT None \<circ> set_pChild LEFT None) old = AvlTreeNode (snd x)"
    using old(4) by (cases old) (simp add: set_pChild_def AvlTreeNode_def)
  then have "replace_swap ?q (fst x) a st = Some (st2, fst x)"
    using st1(1) h1 a(1) old(3) by (simp add: replace_swap_def st2_def new'_def)
  moreover have "zipper0 st2 fs (Node l (a, m_value nd) s r)"
  proof -
    have "heap st2 b = heap st1 b" if "b \<in> set (faddrs fs)" for b using that a dist by (auto simp: st2_def)
    then have "zip_at st2 (slots fs SlotRoot) fs SlotRoot ?q \<and> slot_get ?q st2 = slot_get ?q st1"
      using st1(2) by (intro zip_at_cong) (simp_all add: st2_def)
    moreover have "tree_at (heap st2) (Some a) (Node l (a, m_value nd) s r)"
      using t1 a dist by (simp add: st2_def new'_def) (simp add: set_pChild_def)
    ultimately show ?thesis using st1(3) a dist by (auto simp: zipper_def)
  qed
  ultimately show ?thesis by (auto simp: st2_def)
qed

lemma replace_loop_path:
  assumes "slot_get (hole fs SlotRoot) st = Some p" "tree_at (heap st) p t"
    and "find_path (\<lambda>x. cmp (snd x) v) t fs = (fs', f)"
  shows "replace_loop cmp v a (hole fs SlotRoot) st =
    (case f of Leaf \<Rightarrow> Some (st, a)
     | Node l x s r \<Rightarrow> if a = fst x then Some (st, a) else replace_swap (hole fs' SlotRoot) (fst x) a st)" (is "_ = ?res")
  using assms
proof (induction t arbitrary: fs p)
  case Leaf
  then show ?case by (subst replace_loop.simps) simp
next
  case (Node l x s r)
  obtain nd where nd: "p = Some (fst x)" "heap st (fst x) = Some nd" "m_value nd = snd x"
    "tree_at (heap st) (m_pChild LEFT nd) l" "tree_at (heap st) (m_pChild RIGHT nd) r"
    using Node.prems(2) by auto
  let ?L = "(LEFT, x, s, r) # fs" and ?R = "(RIGHT, x, s, l) # fs"
  have L: "replace_loop cmp v a (hole ?L SlotRoot) st = ?res"
    if "0 < cmp (snd x) v" using Node.IH(1) [of ?L "m_pChild LEFT nd"] Node.prems nd that by simp
  have R: "replace_loop cmp v a (hole ?R SlotRoot) st = ?res"
    if "cmp (snd x) v < 0" using Node.IH(2) [of ?R "m_pChild RIGHT nd"] Node.prems nd that by simp
  consider "cmp (snd x) v = 0" | "cmp (snd x) v < 0" | "0 < cmp (snd x) v" by linarith
  then show ?case
  proof cases
    case 1
    then have "fs' = fs" "f = Node l x s r" using Node.prems(3) by auto
    then show ?thesis using 1 nd Node.prems(1) by (subst replace_loop.simps) simp
  next
    case 2
    then show ?thesis using R nd Node.prems(1) by (subst replace_loop.simps) simp
  next
    case 3
    then show ?thesis using L nd Node.prems(1) by (subst replace_loop.simps) simp
  qed
qed

lemma height_plug_cong: "height t = height t' \<Longrightarrow> height (plug fs t) = height (plug fs t')"
  by (induction fs t arbitrary: t' rule: plug.induct) simp_all

lemma avl_plug_swap: "frames_ok fs (height (Node l x s r)) \<Longrightarrow> avl_ok (Node l x s r) \<Longrightarrow> avl_ok (plug fs (Node l y s r))"
  using plug_avl [of fs "Node l y s r"] by simp

section \<open>The integrity check\<close>

text \<open>What \<^verbatim>\<open>CheckIntegrity\<close> looks at: the order between a node and its children, and the balance.\<close>

fun root_of :: "'a avl \<Rightarrow> 'a option" where
  "root_of Leaf = None"
| "root_of (Node l x s r) = Some x"

fun locally_ordered :: "('k \<Rightarrow> 'k \<Rightarrow> int) \<Rightarrow> 'k item avl \<Rightarrow> bool" where
  "locally_ordered cmp Leaf \<longleftrightarrow> True"
| "locally_ordered cmp (Node l x s r) \<longleftrightarrow> locally_ordered cmp l \<and> locally_ordered cmp r \<and>
     (\<forall>y. root_of l = Some y \<longrightarrow> 0 < cmp (snd x) (snd y)) \<and> (\<forall>y. root_of r = Some y \<longrightarrow> cmp (snd x) (snd y) < 0)"

lemma tree_at_root: "tree_at h p t \<Longrightarrow> p = map_option fst (root_of t)"
  by (cases t) auto

lemma GetHeight_height: "tree_at (heap st) (Some a) t \<Longrightarrow> GetHeight a st = Some (int (height t) - 1)"
proof (induction t arbitrary: a)
  case (Node l x s r)
  obtain nd where nd: "heap st a = Some nd" "tree_at (heap st) (m_pLeft nd) l" "tree_at (heap st) (m_pRight nd) r"
    using Node.prems by auto
  have sub: "(case p of None \<Rightarrow> Some 0 | Some b \<Rightarrow> do { h \<leftarrow> GetHeight b st; Some (h + 1) }) = Some (int (height u))"
    if "tree_at (heap st) p u" "u = l \<or> u = r" for p u
    using that Node.IH by (cases p; cases u) auto
  show ?case
    using nd sub [OF nd(2)] sub [OF nd(3)] by (subst GetHeight.simps) (simp add: max_def)
qed simp

lemma CalcBalance_height:
  assumes "tree_at (heap st) (Some a) (Node l x s r)"
  shows "CalcBalance a st = Some (int (height r) - int (height l))"
proof -
  obtain nd where nd: "heap st a = Some nd" "tree_at (heap st) (m_pLeft nd) l" "tree_at (heap st) (m_pRight nd) r"
    using assms by auto
  have sub: "(case p of None \<Rightarrow> Some 0 | Some b \<Rightarrow> do { h \<leftarrow> GetHeight b st; Some (h + 1) }) = Some (int (height u))"
    if "tree_at (heap st) p u" for p u
    using that GetHeight_height [of st _ u] by (cases p; cases u) auto
  show ?thesis using nd sub [OF nd(2)] sub [OF nd(3)] by (simp add: CalcBalance_def)
qed

lemma CheckIntegrity_checks:
  "tree_at (heap st) (Some a) t \<Longrightarrow> CheckIntegrity cmp a st = Some (avl_ok t \<and> locally_ordered cmp t)"
proof (induction t arbitrary: a)
  case (Node l x s r)
  obtain nd where nd: "heap st a = Some nd" "m_nState nd = s" "m_value nd = snd x"
    "tree_at (heap st) (m_pLeft nd) l" "tree_at (heap st) (m_pRight nd) r"
    using Node.prems by auto
  have rec: "(case p of None \<Rightarrow> Some True | Some b \<Rightarrow> CheckIntegrity cmp b st) = Some (avl_ok u \<and> locally_ordered cmp u)"
    if "tree_at (heap st) p u" "u = l \<or> u = r" for p u
    using that Node.IH by (cases p; cases u) auto
  have cmpl: "(case m_pLeft nd of None \<Rightarrow> Some True | Some b \<Rightarrow> do { c \<leftarrow> heap st b; Some (0 < cmp (m_value nd) (m_value c)) }) =
      Some (\<forall>y. root_of l = Some y \<longrightarrow> 0 < cmp (snd x) (snd y))"
    using nd(3,4) by (cases l) auto
  have cmpr: "(case m_pRight nd of None \<Rightarrow> Some True | Some b \<Rightarrow> do { c \<leftarrow> heap st b; Some (cmp (m_value nd) (m_value c) < 0) }) =
      Some (\<forall>y. root_of r = Some y \<longrightarrow> cmp (snd x) (snd y) < 0)"
    using nd(3,5) by (cases r) auto
  let ?b = "int (height r) - int (height l)"
  have st: "state_ok s (height l) (height r) \<longleftrightarrow>
      (if ?b = - 1 then s = LEFT else if ?b = 0 then s = BALANCED else if ?b = 1 then s = RIGHT else False)"
    by (auto simp: state_ok_def)
  show ?case
    unfolding CheckIntegrity.simps [of cmp a] CalcBalance_height [OF Node.prems]
    using nd(1,2) rec [OF nd(4)] rec [OF nd(5)] cmpl cmpr by (simp add: st conj_ac)
qed simp

section \<open>Properties\<close>

text \<open>
  C5: \<^verbatim>\<open>Insert(pInsert)\<close> on a balanced search tree of fewer than 9227464 nodes returns without
  leaving its arrays. A node that compares equal to one of the tree is rejected and nothing
  changes. Otherwise the store holds a balanced search tree, with correct balance states,
  whose inorder sequence is the old one with the new node put between the smaller and the
  larger ones.
\<close>

theorem Insert1_correct:
  assumes "comparable cmp" "avl_store cmp st t" "pRoot st = Some this" "node_count t < 9227464"
    and "heap st a = Some (AvlTreeNode v)" "a \<notin> set (addrs t)"
  shows "\<exists>st' t'. Insert1 cmp this a st = Some st' \<and> avl_store cmp st' t' \<and>
    inorder t' = (if \<exists>x \<in> set (inorder t). cmp (snd x) v = 0 then inorder t
      else filter (\<lambda>x. cmp (snd x) v < 0) (inorder t) @ (a, v) # filter (\<lambda>x. 0 < cmp (snd x) v) (inorder t))"
proof -
  have t: "holds st t" "avl_ok t" "ordered cmp t" using assms(2) by (simp_all add: avl_store_def)
  have h: "height t \<le> TREE_MAX_HEIGHT" using height_bound t(2) assms(4) by fastforce
  note sep = comparable.ordered_separated [OF assms(1) t(3), of v]
  let ?c = "\<lambda>x. cmp (snd x) v"
  obtain st' where st': "Insert1 cmp this a st = Some st'" "holds st' (tree_insert ?c (a, v) t)"
    using Insert1_tree_insert [OF t(1) assms(3) t(2) h assms(5,6)] by blast
  show ?thesis
  proof (cases "\<exists>x \<in> set (inorder t). ?c x = 0")
    case True
    then have "tree_insert ?c (a, v) t = t" using tree_insert_old [OF sep] by simp
    then show ?thesis using st' t True by (auto simp: avl_store_def)
  next
    case False
    then have new: "\<forall>x \<in> set (inorder t). ?c x \<noteq> 0" by simp
    note ins = tree_insert_new [OF t(2) sep new, of "(a, v)"]
    have "ordered cmp (tree_insert ?c (a, v) t)"
      using comparable.insert_sorted [OF assms(1)] t(3) by (simp add: ordered_def ins(1))
    then show ?thesis using st' ins False by (auto simp: avl_store_def)
  qed
qed

theorem Insert1_correct_witness:
  "\<exists>st' t'. Insert1 IntegerNode_CompareTo 1 3 sample = Some st' \<and> avl_store IntegerNode_CompareTo st' t' \<and>
    inorder t' = [(2, 10), (1, 20), (3, 30)]"
proof -
  have "pRoot sample = Some 1" "node_count sample_tree < 9227464" "heap sample 3 = Some (AvlTreeNode 30)"
    "3 \<notin> set (addrs sample_tree)"
    by (simp_all add: sample_def sample_tree_def)
  from Insert1_correct [OF integer_node.comparable_axioms sample_store this] show ?thesis
    by (simp add: sample_tree_def IntegerNode_CompareTo_def)
qed

text \<open>
  C6: \<^verbatim>\<open>Remove(pComparable, ppRemoved)\<close> on a balanced search tree of fewer than 9227464 nodes
  returns without leaving its arrays (the patched stack entry included), hands back the node
  that compares equal, or null if there is none, and leaves a balanced search tree of
  exactly the other nodes, in the same order.
\<close>

theorem Remove1_correct:
  assumes "comparable cmp" "avl_store cmp st t" "pRoot st = Some this" "node_count t < 9227464"
  shows "\<exists>st' t' removed. Remove1 cmp this v st = Some (st', removed) \<and> avl_store cmp st' t' \<and>
    inorder t' = filter (\<lambda>x. cmp (snd x) v \<noteq> 0) (inorder t) \<and>
    (case removed of None \<Rightarrow> \<forall>x \<in> set (inorder t). cmp (snd x) v \<noteq> 0
     | Some a \<Rightarrow> \<exists>u. (a, u) \<in> set (inorder t) \<and> cmp u v = 0)"
proof -
  have t: "holds st t" "avl_ok t" "ordered cmp t" using assms(2) by (simp_all add: avl_store_def)
  have h: "height t < TREE_MAX_HEIGHT" using height_bound t(2) assms(4) by fastforce
  note sep = comparable.ordered_separated [OF assms(1) t(3), of v]
  let ?c = "\<lambda>x. cmp (snd x) v"
  obtain st' where st': "Remove1 cmp this v st = Some (st', map_option fst (tree_find ?c t))" "holds st' (tree_remove ?c t)"
    using Remove1_tree_remove [where cmp = cmp and v = v, OF t(1) assms(3) t(2) h sep] by blast
  have "ordered cmp (tree_remove ?c t)"
    using t(3) by (simp add: ordered_def tree_remove_inorder(1) [OF t(2) sep] sorted_wrt_filter)
  then have "avl_store cmp st' (tree_remove ?c t)"
    using st'(2) tree_remove_inorder(2) [OF t(2) sep] by (simp add: avl_store_def)
  moreover have "case map_option fst (tree_find ?c t) of None \<Rightarrow> \<forall>x \<in> set (inorder t). ?c x \<noteq> 0
     | Some a \<Rightarrow> \<exists>u. (a, u) \<in> set (inorder t) \<and> cmp u v = 0"
  proof (cases "tree_find ?c t")
    case None
    then show ?thesis using tree_find_iff [OF sep] by auto
  next
    case (Some x)
    then have "x \<in> set (inorder t) \<and> ?c x = 0" using tree_find_iff [OF sep] by blast
    then show ?thesis using Some by (cases x) auto
  qed
  ultimately show ?thesis using st'(1) tree_remove_inorder(1) [OF t(2) sep] by blast
qed

theorem Remove1_correct_witness:
  "\<exists>st' t' removed. Remove1 IntegerNode_CompareTo 1 20 sample = Some (st', removed) \<and>
    avl_store IntegerNode_CompareTo st' t' \<and> inorder t' = [(2, 10)] \<and> removed = Some 1"
proof -
  have "pRoot sample = Some 1" "node_count sample_tree < 9227464"
    by (simp_all add: sample_def sample_tree_def)
  from Remove1_correct [OF integer_node.comparable_axioms sample_store this, of 20] show ?thesis
    by (force simp: sample_tree_def IntegerNode_CompareTo_def split: option.splits)
qed



text \<open>
  C8: \<^verbatim>\<open>Replace(pComparable, ppReplace)\<close> returns; if a node compares equal to the value, the new
  node, which compares equal too and is not in the tree, takes its place, children and
  balance state, and the old node is handed back unlinked and \<^verbatim>\<open>BALANCED\<close>; otherwise nothing
  changes. The shape of the tree stays.
\<close>

theorem Replace1_correct:
  assumes "comparable cmp" "avl_store cmp st t" "pRoot st = Some this"
    and "heap st a = Some nd" "cmp v (m_value nd) = 0" "a \<notin> set (addrs t)"
  shows "\<exists>st' t' ret. Replace1 cmp this v a st = Some (st', ret) \<and> avl_store cmp st' t' \<and> height t' = height t \<and>
    inorder t' = map (\<lambda>x. if cmp (snd x) v = 0 then (a, m_value nd) else x) (inorder t) \<and>
    (if \<exists>x \<in> set (inorder t). cmp (snd x) v = 0
     then \<exists>u. (ret, u) \<in> set (inorder t) \<and> cmp u v = 0 \<and> heap st' ret = Some (AvlTreeNode u)
     else ret = a \<and> st' = st)"
proof -
  have t: "holds st t" "avl_ok t" "ordered cmp t" using assms(2) by (simp_all add: avl_store_def)
  let ?c = "\<lambda>x. cmp (snd x) v" and ?w = "m_value nd"
  note sep = comparable.ordered_separated [OF assms(1) t(3), of v]
  obtain fs f where fp: "find_path ?c t [] = (fs, f)" by fastforce
  have root: "st\<lparr>pRoot := Some this\<rparr> = st" using assms(3) by simp
  have pl: "plug fs f = t" using find_path_plug [OF fp] by simp
  have z: "zipper0 st fs f" using holds_zipper0 [of st fs f] find_path_dirs [OF fp] t(1) by (simp add: pl)
  note sides = find_path_root [OF fp sep]
  have loop: "Replace1 cmp this v a st = (case f of Leaf \<Rightarrow> Some (st, a)
     | Node l x s r \<Rightarrow> if a = fst x then Some (st, a) else replace_swap (hole fs SlotRoot) (fst x) a st)"
    using replace_loop_path [of "[]" st "pRoot st" t cmp v fs f a] t(1) fp by (simp add: Replace1_def root holds_def)
  show ?thesis
  proof (cases f)
    case Leaf
    then have none: "\<forall>x \<in> set (inorder t). ?c x \<noteq> 0" using sides by auto
    then have "map (\<lambda>x. if ?c x = 0 then (a, ?w) else x) (inorder t) = inorder t" by (simp add: map_idI)
    then show ?thesis using loop Leaf assms(2) none by auto
  next
    case (Node l x s r)
    note focus = separated_focus [OF fp [unfolded Node] sep]
    have x: "a \<noteq> fst x" using assms(6) sides(1) Node by (auto simp: addrs_def)
    obtain st' where st': "Replace1 cmp this v a st = Some (st', fst x)" "zipper0 st' fs (Node l (a, ?w) s r)"
      "heap st' (fst x) = Some (AvlTreeNode (snd x))"
      using replace_swap_rep [OF z [unfolded Node] assms(4)] assms(6) pl Node loop x by auto
    let ?t' = "plug fs (Node l (a, ?w) s r)"
    have ino: "inorder ?t' = map (\<lambda>x. if ?c x = 0 then (a, ?w) else x) (inorder t)"
    proof -
      have keep: "map (\<lambda>x. if ?c x = 0 then (a, ?w) else x) ys = ys" if "\<forall>y \<in> set ys. ?c y \<noteq> 0" for ys
        using that by (simp add: map_idI)
      have "\<forall>y \<in> set (before fs). ?c y \<noteq> 0" "\<forall>y \<in> set (after fs). ?c y \<noteq> 0" "\<forall>y \<in> set (inorder l). ?c y \<noteq> 0"
        "\<forall>y \<in> set (inorder r). ?c y \<noteq> 0"
        using sides(2,3) focus(1,2) by fastforce+
      then show ?thesis using focus(3) by (simp add: inorder_plug sides(1) Node keep)
    qed
    have rel: "cmp (snd y) ?w < 0" if "?c y < 0" for y using comparable.cmp_less_le [OF assms(1) that] assms(5) by simp
    have rel': "cmp ?w (snd y) < 0" if "0 < ?c y" for y
      using that comparable.cmp_le_less [OF assms(1)] comparable.cmp_swap [OF assms(1)] assms(5)
        comparable.cmp_zero_swap [OF assms(1)] by (metis order_refl)
    have "ordered cmp ?t'"
      using t(3) sides focus rel rel' by (auto simp: ordered_def inorder_plug Node sorted_wrt_append)
    moreover have "avl_ok ?t'" using find_path_ok [OF fp _ t(2)] Node by (intro avl_plug_swap) simp_all
    moreover have "height ?t' = height t" using pl Node by (metis height_plug_cong height.simps(2))
    moreover have "holds st' ?t'" by (rule zipper_plug_holds [OF st'(2)])
    ultimately show ?thesis using st' ino focus(3,4) by (auto simp: avl_store_def) (metis prod.collapse)
  qed
qed

theorem Replace1_correct_witness:
  "\<exists>st' t'. Replace1 IntegerNode_CompareTo 1 10 3 (sample\<lparr>heap := (heap sample)(3 \<mapsto> AvlTreeNode 10)\<rparr>) = Some (st', 2) \<and>
    avl_store IntegerNode_CompareTo st' t' \<and> inorder t' = [(3, 10), (1, 20)]"
proof -
  let ?st = "sample\<lparr>heap := (heap sample)(3 \<mapsto> AvlTreeNode 10)\<rparr>"
  have store: "avl_store IntegerNode_CompareTo ?st sample_tree"
    using sample_store by (simp add: avl_store_def holds_def sample_tree_def sample_def)
  have prems: "pRoot ?st = Some 1" "heap ?st 3 = Some (AvlTreeNode 10)"
    "IntegerNode_CompareTo 10 (m_value (AvlTreeNode 10)) = 0" "3 \<notin> set (addrs sample_tree)"
    by (simp_all add: sample_def sample_tree_def AvlTreeNode_def IntegerNode_CompareTo_def)
  have c: "IntegerNode_CompareTo 10 10 = 0" "IntegerNode_CompareTo 20 10 = 10" and val: "m_value (AvlTreeNode 10) = (10 :: int)"
    by (simp_all add: IntegerNode_CompareTo_def AvlTreeNode_def)
  from Replace1_correct [OF integer_node.comparable_axioms store prems]
  obtain st' t' ret where r: "Replace1 IntegerNode_CompareTo 1 10 3 ?st = Some (st', ret)"
    "avl_store IntegerNode_CompareTo st' t'" "inorder t' = [(3, 10), (1, 20)]" "ret = 2"
    using c by (auto simp: sample_tree_def val)
  then show ?thesis by blast
qed

text \<open>
  C9: \<^verbatim>\<open>InitTraverse\<close> followed by calls to \<^verbatim>\<open>Traverse\<close> returns every node of the tree exactly
  once, in order, and then null; the traversal stack does not overflow for trees of at most
  33 levels. \<^verbatim>\<open>GetMinNode\<close> and \<^verbatim>\<open>GetMaxNode\<close> return its first and its last node.
\<close>

theorem Traverse_inorder:
  assumes "holds st t" "pRoot st = Some this" "height t \<le> TREE_MAX_HEIGHT"
  shows "\<exists>stk. InitTraverse this st = Some stk \<and>
      traverse_all (Suc (node_count t)) stk st = Some (map fst (inorder t)) \<and>
      GetMinNode this st = Some (fst (hd (inorder t))) \<and> GetMaxNode this st = Some (fst (last (inorder t)))"
proof -
  have t: "tree_at (heap st) (Some this) t" using assms(1,2) by (simp add: holds_def)
  obtain stk rs where rs: "push_left st this [] = Some stk" "trav_rep st stk rs" "pending rs = addrs t"
    using push_left_rep [OF t, of "[]" "[]"] assms(3) by (auto simp: pending_def)
  have "traverse_all (Suc (node_count t)) stk st = Some (addrs t)"
    using traverse_all_rep [OF rs(2)] rs(3) length_addrs [of t] by simp
  moreover have "inorder t \<noteq> []" using t by (cases t) auto
  ultimately show ?thesis
    using rs(1) GetPolarNode_ends [OF t]
    by (simp add: InitTraverse_def GetMinNode_def GetMaxNode_def addrs_def hd_map last_map)
qed

theorem Traverse_inorder_witness:
  "\<exists>stk. InitTraverse 1 sample = Some stk \<and> traverse_all 3 stk sample = Some [2, 1] \<and>
     GetMinNode 1 sample = Some 2 \<and> GetMaxNode 1 sample = Some 1"
proof -
  have "holds sample sample_tree" "pRoot sample = Some 1" "height sample_tree \<le> TREE_MAX_HEIGHT"
    using sample_store by (simp_all add: avl_store_def sample_def sample_tree_def)
  from Traverse_inorder [OF this] show ?thesis
    by (simp add: sample_tree_def numeral_3_eq_3)
qed

text \<open>
  C10: \<^verbatim>\<open>CheckIntegrity\<close> returns on every tree in the store, and its answer is true exactly if
  all balance states are right, no node is out of balance and every node is ordered with
  respect to its own children.
\<close>

theorem CheckIntegrity_correct:
  assumes "holds st t" "pRoot st = Some this"
  shows "CheckIntegrity cmp this st = Some (avl_ok t \<and> locally_ordered cmp t)"
  using CheckIntegrity_checks [of st this t cmp] assms by (simp add: holds_def)

theorem CheckIntegrity_correct_witness: "CheckIntegrity IntegerNode_CompareTo 1 sample = Some True"
proof -
  have "holds sample sample_tree" "pRoot sample = Some 1"
    using sample_store by (simp_all add: avl_store_def sample_def)
  from CheckIntegrity_correct [OF this, of IntegerNode_CompareTo] show ?thesis
    by (simp add: sample_tree_def state_ok_def IntegerNode_CompareTo_def)
qed

text \<open>
  \<^verbatim>\<open>Remove\<close> hands back the removed node with the balance state it had in the tree, and
  \<^verbatim>\<open>Insert\<close> does not reset it. Putting a removed node back, here the root of a tree of two
  nodes, breaks the balance: after two insertions, each of a node that was not in the
  tree, the three nodes form a list, and \<^verbatim>\<open>CheckIntegrity\<close> fails.
\<close>

theorem reinsertion_unbalanced:
  "\<exists>st1 st2 st3. Remove1 IntegerNode_CompareTo 1 20 sample = Some (st1, Some 1) \<and>
     Insert1 IntegerNode_CompareTo 2 1 st1 = Some st2 \<and> Insert1 IntegerNode_CompareTo 2 3 st2 = Some st3 \<and>
     holds st3 (Node Leaf (2, 10) RIGHT (Node Leaf (1, 20) BALANCED (Node Leaf (3, 30) BALANCED Leaf))) \<and>
     CheckIntegrity IntegerNode_CompareTo 2 st3 = Some False"
proof -
  let ?n = "\<lambda>s l r v. \<lparr>m_nState = s, m_pLeft = l, m_pRight = r, m_value = v :: int\<rparr>"
  define st1 where "st1 = \<lparr>pRoot = Some 2, heap = Map.empty(1 \<mapsto> ?n LEFT None None 20, 2 \<mapsto> AvlTreeNode 10, 3 \<mapsto> AvlTreeNode 30)\<rparr>"
  define st2 where "st2 = \<lparr>pRoot = Some 2, heap = Map.empty(1 \<mapsto> ?n LEFT None None 20, 2 \<mapsto> ?n RIGHT None (Some 1) 10, 3 \<mapsto> AvlTreeNode 30)\<rparr>"
  define st3 where "st3 = \<lparr>pRoot = Some 2, heap = Map.empty(1 \<mapsto> ?n BALANCED None (Some 3) 20, 2 \<mapsto> ?n RIGHT None (Some 1) 10, 3 \<mapsto> AvlTreeNode 30)\<rparr>"
  note defs = sample_def st1_def st2_def st3_def AvlTreeNode_def IntegerNode_CompareTo_def
  have "remove_find IntegerNode_CompareTo 20 sample (SlotChild 2 RIGHT) [(SlotChild 1 LEFT, RIGHT), (SlotRoot, LEFT)]
      (Some (SlotRoot, 1)) = Some ([(SlotChild 1 LEFT, RIGHT), (SlotRoot, LEFT)], Some (SlotRoot, 1))"
    by (subst remove_find.simps) (simp add: defs)
  then have "remove_find IntegerNode_CompareTo 20 sample (SlotChild 1 LEFT) [(SlotRoot, LEFT)] (Some (SlotRoot, 1)) =
      Some ([(SlotChild 1 LEFT, RIGHT), (SlotRoot, LEFT)], Some (SlotRoot, 1))"
    by (subst remove_find.simps) (simp add: defs)
  then have "remove_find IntegerNode_CompareTo 20 sample SlotRoot [] None =
      Some ([(SlotChild 1 LEFT, RIGHT), (SlotRoot, LEFT)], Some (SlotRoot, 1))"
    by (subst remove_find.simps) (simp add: defs)
  then have r: "Remove1 IntegerNode_CompareTo 1 20 sample = Some (st1, Some 1)"
    by (simp add: Remove1_def remove_swap_def stack_write_def defs set_pChild_def fun_upd_twist)
  have "insert_find IntegerNode_CompareTo 20 st1 (SlotChild 2 RIGHT) [(SlotRoot, RIGHT)] =
      Some (Inr (SlotChild 2 RIGHT, [(SlotRoot, RIGHT)]))"
    by (subst insert_find.simps) (simp add: defs)
  then have "insert_find IntegerNode_CompareTo 20 st1 SlotRoot [] = Some (Inr (SlotChild 2 RIGHT, [(SlotRoot, RIGHT)]))"
    by (subst insert_find.simps) (simp add: defs)
  then have i2: "Insert1 IntegerNode_CompareTo 2 1 st1 = Some st2"
    by (simp add: Insert1_def defs set_pChild_def fun_upd_twist)
  let ?stk = "[(SlotChild 2 RIGHT, RIGHT), (SlotRoot, RIGHT)]"
  have "insert_find IntegerNode_CompareTo 30 st2 (SlotChild 1 RIGHT) ?stk = Some (Inr (SlotChild 1 RIGHT, ?stk))"
    by (subst insert_find.simps) (simp add: defs)
  then have "insert_find IntegerNode_CompareTo 30 st2 (SlotChild 2 RIGHT) [(SlotRoot, RIGHT)] = Some (Inr (SlotChild 1 RIGHT, ?stk))"
    by (subst insert_find.simps) (simp add: defs)
  then have "insert_find IntegerNode_CompareTo 30 st2 SlotRoot [] = Some (Inr (SlotChild 1 RIGHT, ?stk))"
    by (subst insert_find.simps) (simp add: defs)
  then have i3: "Insert1 IntegerNode_CompareTo 2 3 st2 = Some st3"
    by (simp add: Insert1_def defs set_pChild_def fun_upd_twist)
  let ?t = "Node Leaf (2, 10) RIGHT (Node Leaf (1, 20) BALANCED (Node Leaf (3, 30) BALANCED Leaf))"
  have h: "holds st3 ?t" by (simp add: holds_def defs)
  then have "CheckIntegrity IntegerNode_CompareTo 2 st3 = Some False"
    using CheckIntegrity_checks [of st3 2 ?t IntegerNode_CompareTo] by (simp add: holds_def st3_def state_ok_def)
  then show ?thesis using r i2 i3 h by blast
qed

end

