(* ===== verification/HashTable.thy ===== *)
theory HashTable
  imports Prelude "HOL-Library.Signed_Division"
begin

text \<open>
  \<^verbatim>\<open>platform/common/src/mxHashTable.cpp\<close>: the classes \<^verbatim>\<open>hashElement\<close> and \<^verbatim>\<open>mxHashTable\<close> on an
  explicit store. Elements have addresses; a bin is null or points to the first element of
  a circular doubly linked list. The class has four families of overloads, for \<^verbatim>\<open>s32_t\<close>
  keys, pairs of \<^verbatim>\<open>s32_t\<close>, byte strings and pointers, whose bodies differ in
  \<^verbatim>\<open>findBinIndex\<close>, \<^verbatim>\<open>isSameKey\<close> and the constructor of the element only: the common bodies
  are the definitions \<open>find_gen\<close>, \<open>insert_gen\<close> and \<open>remove_gen\<close>, and every overload is their
  instance. \<^verbatim>\<open>None\<close> is a run that dereferences freed or foreign memory, indexes \<^verbatim>\<open>mpBin\<close>
  outside its bounds, divides by zero, frees a buffer twice, or does not return.
\<close>

section \<open>State\<close>

type_synonym addr = nat

text \<open>
  \<^verbatim>\<open>pKey\<close> is null or a buffer that belongs to this element alone; after \<^verbatim>\<open>delete[] pKey\<close> the
  pointer still has its old value.
\<close>

datatype key_ptr = NullKey | KeyBuf "u8 list" | FreedKey

record hash_elem =
  pPrev :: addr
  pNext :: addr
  nKey :: s32
  nKey1 :: s32
  pData :: u64
  nLen :: s32
  pKey :: key_ptr
  ptrKey :: u64

abbreviation (input) INT32Type :: s32 where "INT32Type \<equiv> 0"
abbreviation (input) INT64Type :: s32 where "INT64Type \<equiv> 1"
abbreviation (input) StringType :: s32 where "StringType \<equiv> 2"
abbreviation (input) MainCCType :: s32 where "MainCCType \<equiv> 3"
abbreviation (input) PointerType :: s32 where "PointerType \<equiv> 4"

text \<open>\<open>dataRoot\<close> is the sequence of the data of the nodes in the list \<^verbatim>\<open>dataRoot\<close>, in order.\<close>

record hash_table =
  mpBin :: "addr option list"
  mBinNumber :: s32
  mDuplicateNumber :: s32
  mHashType :: s32
  mNumberOfElement :: u32
  mBitMask :: s32
  dataRoot :: "addr list"
  elems :: "addr \<Rightarrow> hash_elem option"

definition update_elem :: "addr \<Rightarrow> (hash_elem \<Rightarrow> hash_elem) \<Rightarrow> hash_table \<Rightarrow> hash_table option" where
  "update_elem a f st = do { e \<leftarrow> elems st a; Some (st\<lparr>elems := (elems st)(a \<mapsto> f e)\<rparr>) }"

text \<open>\<^verbatim>\<open>mpBin[index]\<close> for a signed index.\<close>

definition bin_index :: "s32 \<Rightarrow> hash_table \<Rightarrow> nat option" where
  "bin_index index st =
     (if 0 \<le> sint index \<and> nat (sint index) < length (mpBin st) then Some (nat (sint index)) else None)"

section \<open>Class hashElement\<close>

text \<open>
  The constructors; \<open>a\<close> is the address of the new element. \<^verbatim>\<open>malloc\<close> of a negative length
  gives the null pointer, which \<^verbatim>\<open>memcpy\<close> then writes to.
\<close>

definition hashElement_int :: "addr \<Rightarrow> s32 \<Rightarrow> u64 \<Rightarrow> hash_elem" where
  "hashElement_int a key data = \<lparr>pPrev = a, pNext = a, nKey = key, nKey1 = 0, pData = data,
     nLen = 0, pKey = NullKey, ptrKey = 0\<rparr>"

definition hashElement_str :: "addr \<Rightarrow> u8 list \<Rightarrow> s32 \<Rightarrow> u64 \<Rightarrow> hash_elem option" where
  "hashElement_str a key n data =
     (if sint n < 0 then None
      else if n \<noteq> 0 then
        do { bytes \<leftarrow> buf_read key 0 (unat n);
             Some \<lparr>pPrev = a, pNext = a, nKey = 0, nKey1 = 0, pData = data,
                   nLen = n, pKey = KeyBuf bytes, ptrKey = 0\<rparr> }
      else Some \<lparr>pPrev = a, pNext = a, nKey = 0, nKey1 = 0, pData = data,
                 nLen = 0, pKey = NullKey, ptrKey = 0\<rparr>)"

definition hashElement_int2 :: "addr \<Rightarrow> s32 \<Rightarrow> s32 \<Rightarrow> u64 \<Rightarrow> hash_elem" where
  "hashElement_int2 a key1 key2 data = \<lparr>pPrev = a, pNext = a, nKey = key1, nKey1 = key2, pData = data,
     nLen = 0, pKey = NullKey, ptrKey = 0\<rparr>"

definition hashElement_ptr :: "addr \<Rightarrow> u64 \<Rightarrow> u64 \<Rightarrow> hash_elem" where
  "hashElement_ptr a key data = \<lparr>pPrev = a, pNext = a, nKey = 0, nKey1 = 0, pData = data,
     nLen = 0, pKey = NullKey, ptrKey = key\<rparr>"

text \<open>The destructor of the element at \<open>a\<close>: unlink it, then \<^verbatim>\<open>delete[] pKey\<close>.\<close>

definition destruct_elem :: "addr \<Rightarrow> hash_table \<Rightarrow> hash_table option" where
  "destruct_elem a st =
     do { e \<leftarrow> elems st a;
          st1 \<leftarrow> (if pPrev e \<noteq> a then
                  do { st' \<leftarrow> update_elem (pPrev e) (pNext_update (\<lambda>_. pNext e)) st;
                       update_elem (pNext e) (pPrev_update (\<lambda>_. pPrev e)) st' }
                else Some st);
          case pKey e of
            NullKey \<Rightarrow> Some st1
          | KeyBuf bytes \<Rightarrow> update_elem a (pKey_update (\<lambda>_. FreedKey)) st1
          | FreedKey \<Rightarrow> None }"

text \<open>\<^verbatim>\<open>delete p\<close>: the destructor, then the memory is gone.\<close>

definition delete_elem :: "addr \<Rightarrow> hash_table \<Rightarrow> hash_table option" where
  "delete_elem a st =
     do { st1 \<leftarrow> destruct_elem a st; Some (st1\<lparr>elems := (elems st1)(a := None)\<rparr>) }"

text \<open>\<^verbatim>\<open>isSameKey\<close>; reading a freed key is an error.\<close>

definition isSameKey_int :: "s32 \<Rightarrow> hash_elem \<Rightarrow> bool option" where
  "isSameKey_int key e = Some (pKey e = NullKey \<and> key = nKey e)"

definition isSameKey_int_value :: "s32 \<Rightarrow> u64 \<Rightarrow> hash_elem \<Rightarrow> bool option" where
  "isSameKey_int_value key pValue e = Some (pKey e = NullKey \<and> key = nKey e \<and> pValue = pData e)"

definition isSameKey_str :: "u8 list \<Rightarrow> s32 \<Rightarrow> hash_elem \<Rightarrow> bool option" where
  "isSameKey_str key n e =
     (case pKey e of
        NullKey \<Rightarrow> Some False
      | FreedKey \<Rightarrow> None
      | KeyBuf bytes \<Rightarrow>
          if n \<noteq> nLen e then Some False
          else do { k \<leftarrow> buf_read key 0 (unat n); b \<leftarrow> buf_read bytes 0 (unat n); Some (k = b) })"

definition isSameKey_int2 :: "s32 \<Rightarrow> s32 \<Rightarrow> hash_elem \<Rightarrow> bool option" where
  "isSameKey_int2 key1 key2 e = Some (pKey e = NullKey \<and> key1 = nKey e \<and> key2 = nKey1 e)"

definition isSameKey_ptr :: "u64 \<Rightarrow> hash_elem \<Rightarrow> bool option" where
  "isSameKey_ptr key e = Some (ptrKey e \<noteq> 0 \<and> ptrKey e = key)"

section \<open>Constructor\<close>

definition mxHashTable :: "u32 \<Rightarrow> s32 \<Rightarrow> s32 \<Rightarrow> hash_table" where
  "mxHashTable numberOfBin hashType duplicateNum =
     \<lparr>mpBin = replicate (unat numberOfBin) None, mBinNumber = numberOfBin, mDuplicateNumber = duplicateNum,
      mHashType = hashType, mNumberOfElement = 0,
      mBitMask = (if numberOfBin AND (numberOfBin - 1) = 0 then numberOfBin - 1 else 0),
      dataRoot = [], elems = Map.empty\<rparr>"

section \<open>findBinIndex\<close>

text \<open>
  \<^verbatim>\<open>%\<close> of C++ on \<^verbatim>\<open>s32_t\<close> traps on a zero divisor and on the least value by \<open>-1\<close>;
  \<open>bin_of\<close> also corrects a negative result. The sums and shifts of keys wrap.
\<close>

definition c_rem :: "s32 \<Rightarrow> s32 \<Rightarrow> s32 option" where
  "c_rem x n = (if n = 0 \<or> x = 0x80000000 \<and> n = - 1 then None else Some (word_of_int (sint x smod sint n)))"

definition bin_of :: "s32 \<Rightarrow> hash_table \<Rightarrow> s32 option" where
  "bin_of x st =
     do { val \<leftarrow> (if mBitMask st \<noteq> 0 then Some (x AND mBitMask st) else c_rem x (mBinNumber st));
          Some (if sint val < 0 then val + mBinNumber st else val) }"

definition findBinIndex_int :: "s32 \<Rightarrow> hash_table \<Rightarrow> s32 option" where
  "findBinIndex_int key st =
     (if mHashType st = INT32Type then bin_of key st
      else if mHashType st = MainCCType then
        (let newKey = push_bit 2 key + (signed_drop_bit 24 key AND 0x3) in bin_of newKey st)
      else Some (- 1))"

text \<open>\<^verbatim>\<open>char\<close> is signed: a byte is sign extended before it is added.\<close>

fun str_sum :: "u32 \<Rightarrow> u8 list \<Rightarrow> u32" where
  "str_sum acc [] = acc"
| "str_sum acc (c # cs) = str_sum (31 * acc + scast c) cs"

definition findBinIndex_str :: "u8 list \<Rightarrow> s32 \<Rightarrow> hash_table \<Rightarrow> s32 option" where
  "findBinIndex_str key n st =
     (if mHashType st = StringType then
        do { bytes \<leftarrow> buf_read key 0 (unat n);
             let h = str_sum 0 bytes in
             if mBitMask st \<noteq> 0 then Some (h AND mBitMask st)
             else if mBinNumber st = 0 then None
             else Some (h mod mBinNumber st) }
      else Some (- 1))"

definition findBinIndex_int2 :: "s32 \<Rightarrow> s32 \<Rightarrow> hash_table \<Rightarrow> s32 option" where
  "findBinIndex_int2 key1 key2 st =
     (if mHashType st = INT64Type then bin_of (key1 + key2) st else Some (- 1))"

text \<open>A pointer is a 64-bit word, as \<^verbatim>\<open>long\<close> is; the sum is cut to \<^verbatim>\<open>int\<close>.\<close>

definition findBinIndex_ptr :: "u64 \<Rightarrow> hash_table \<Rightarrow> s32 option" where
  "findBinIndex_ptr key st =
     (if mHashType st \<noteq> PointerType then Some (- 1)
      else (let newKey = ucast (push_bit 2 key + (signed_drop_bit 24 key AND 0x3)) in bin_of newKey st))"

section \<open>The bodies of find, insert and remove\<close>

text \<open>The loop over a bin: the address of the first element with the key.\<close>

partial_function (option) find_loop ::
  "(hash_elem \<Rightarrow> bool option) \<Rightarrow> hash_table \<Rightarrow> addr \<Rightarrow> addr \<Rightarrow> addr option option" where
  "find_loop same st pOrg cur =
     do { e \<leftarrow> elems st cur;
          b \<leftarrow> same e;
          if b then Some (Some cur)
          else if pNext e = pOrg then Some None
          else find_loop same st pOrg (pNext e) }"

text \<open>\<open>bin_find\<close> also gives the number of the bin.\<close>

definition bin_find :: "s32 option \<Rightarrow> (hash_elem \<Rightarrow> bool option) \<Rightarrow> hash_table \<Rightarrow> (nat \<times> addr \<times> addr) option option" where
  "bin_find idx same st =
     do { index \<leftarrow> idx;
          if index = - 1 then Some None
          else do { i \<leftarrow> bin_index index st;
                    case mpBin st ! i of
                      None \<Rightarrow> Some None
                    | Some pOrg \<Rightarrow>
                        do { r \<leftarrow> find_loop same st pOrg pOrg;
                             Some (map_option (\<lambda>cur. (i, pOrg, cur)) r) } } }"

text \<open>\<^verbatim>\<open>find(key, isFound)\<close>: the datum if found. The version without the flag gives \<^verbatim>\<open>NULL\<close> if not.\<close>

definition find_gen :: "s32 option \<Rightarrow> (hash_elem \<Rightarrow> bool option) \<Rightarrow> hash_table \<Rightarrow> u64 option option" where
  "find_gen idx same st =
     do { r \<leftarrow> bin_find idx same st;
          case r of
            None \<Rightarrow> Some None
          | Some (i, pOrg, cur) \<Rightarrow> do { e \<leftarrow> elems st cur; Some (Some (pData e)) } }"

definition find_null :: "s32 option \<Rightarrow> (hash_elem \<Rightarrow> bool option) \<Rightarrow> hash_table \<Rightarrow> u64 option" where
  "find_null idx same st =
     do { r \<leftarrow> find_gen idx same st; Some (case r of None \<Rightarrow> 0 | Some d \<Rightarrow> d) }"

text \<open>\<^verbatim>\<open>insertToBin(index, pEle)\<close> for the element at \<open>a\<close>.\<close>

definition insertToBin :: "s32 \<Rightarrow> addr \<Rightarrow> hash_table \<Rightarrow> hash_table option" where
  "insertToBin index a st =
     do { i \<leftarrow> bin_index index st;
          st1 \<leftarrow> (case mpBin st ! i of
             Some pOld \<Rightarrow>
               do { st' \<leftarrow> update_elem a (pNext_update (\<lambda>_. pOld)) st;
                    old \<leftarrow> elems st' pOld;
                    st'' \<leftarrow> update_elem a (pPrev_update (\<lambda>_. pPrev old)) st';
                    old' \<leftarrow> elems st'' pOld;
                    st''' \<leftarrow> update_elem (pPrev old') (pNext_update (\<lambda>_. a)) st'';
                    update_elem pOld (pPrev_update (\<lambda>_. a)) st''' }
           | None \<Rightarrow> Some (st\<lparr>mpBin := (mpBin st)[i := Some a]\<rparr>));
          Some (st1\<lparr>dataRoot := dataRoot st1 @ [a], mNumberOfElement := mNumberOfElement st1 + 1\<rparr>) }"

definition insert_gen ::
  "s32 option \<Rightarrow> (hash_elem \<Rightarrow> bool option) \<Rightarrow> hash_elem option \<Rightarrow> addr \<Rightarrow> hash_table \<Rightarrow> (hash_table \<times> bool) option" where
  "insert_gen idx same new a st =
     do { found \<leftarrow> (if mDuplicateNumber st = 0 then find_gen idx same st else Some None);
          if found \<noteq> None then Some (st, False)
          else do { index \<leftarrow> idx;
                    if index \<noteq> - 1 then
                      do { e \<leftarrow> new;
                           st' \<leftarrow> insertToBin index a (st\<lparr>elems := (elems st)(a \<mapsto> e)\<rparr>);
                           Some (st', True) }
                    else Some (st, False) } }"

definition remove_gen :: "s32 option \<Rightarrow> (hash_elem \<Rightarrow> bool option) \<Rightarrow> hash_table \<Rightarrow> (hash_table \<times> u64) option" where
  "remove_gen idx same st =
     do { r \<leftarrow> bin_find idx same st;
          case r of
            None \<Rightarrow> Some (st, 0)
          | Some (i, pOrg, cur) \<Rightarrow>
              do { e \<leftarrow> elems st cur;
                   let bin = (if pPrev e = cur then None else if cur = pOrg then Some (pNext e) else mpBin st ! i);
                   st1 \<leftarrow> delete_elem cur (st\<lparr>mpBin := (mpBin st)[i := bin]\<rparr>);
                   Some (st1\<lparr>mNumberOfElement := mNumberOfElement st1 - 1\<rparr>, pData e) } }"

section \<open>The overloads\<close>

definition find_int :: "s32 \<Rightarrow> hash_table \<Rightarrow> u64 option option" where
  "find_int key st = find_gen (findBinIndex_int key st) (isSameKey_int key) st"

definition find_int2 :: "s32 \<Rightarrow> s32 \<Rightarrow> hash_table \<Rightarrow> u64 option option" where
  "find_int2 key1 key2 st = find_gen (findBinIndex_int2 key1 key2 st) (isSameKey_int2 key1 key2) st"

definition find_str :: "u8 list \<Rightarrow> s32 \<Rightarrow> hash_table \<Rightarrow> u64 option option" where
  "find_str key n st = find_gen (findBinIndex_str key n st) (isSameKey_str key n) st"

definition find_ptr :: "u64 \<Rightarrow> hash_table \<Rightarrow> u64 option option" where
  "find_ptr key st = find_gen (findBinIndex_ptr key st) (isSameKey_ptr key) st"

definition find_null_int :: "s32 \<Rightarrow> hash_table \<Rightarrow> u64 option" where
  "find_null_int key st = find_null (findBinIndex_int key st) (isSameKey_int key) st"

definition find_null_int2 :: "s32 \<Rightarrow> s32 \<Rightarrow> hash_table \<Rightarrow> u64 option" where
  "find_null_int2 key1 key2 st = find_null (findBinIndex_int2 key1 key2 st) (isSameKey_int2 key1 key2) st"

definition find_null_str :: "u8 list \<Rightarrow> s32 \<Rightarrow> hash_table \<Rightarrow> u64 option" where
  "find_null_str key n st = find_null (findBinIndex_str key n st) (isSameKey_str key n) st"

definition find_null_ptr :: "u64 \<Rightarrow> hash_table \<Rightarrow> u64 option" where
  "find_null_ptr key st = find_null (findBinIndex_ptr key st) (isSameKey_ptr key) st"

text \<open>\<open>a\<close> is the address \<^verbatim>\<open>new\<close> gives to the element.\<close>

definition insert_int :: "addr \<Rightarrow> s32 \<Rightarrow> u64 \<Rightarrow> hash_table \<Rightarrow> (hash_table \<times> bool) option" where
  "insert_int a key data st =
     insert_gen (findBinIndex_int key st) (isSameKey_int key) (Some (hashElement_int a key data)) a st"

definition insert_int2 :: "addr \<Rightarrow> s32 \<Rightarrow> s32 \<Rightarrow> u64 \<Rightarrow> hash_table \<Rightarrow> (hash_table \<times> bool) option" where
  "insert_int2 a key1 key2 data st =
     insert_gen (findBinIndex_int2 key1 key2 st) (isSameKey_int2 key1 key2) (Some (hashElement_int2 a key1 key2 data)) a st"

definition insert_str :: "addr \<Rightarrow> u8 list \<Rightarrow> s32 \<Rightarrow> u64 \<Rightarrow> hash_table \<Rightarrow> (hash_table \<times> bool) option" where
  "insert_str a key n data st =
     insert_gen (findBinIndex_str key n st) (isSameKey_str key n) (hashElement_str a key n data) a st"

definition insert_ptr :: "addr \<Rightarrow> u64 \<Rightarrow> u64 \<Rightarrow> hash_table \<Rightarrow> (hash_table \<times> bool) option" where
  "insert_ptr a key data st =
     insert_gen (findBinIndex_ptr key st) (isSameKey_ptr key) (Some (hashElement_ptr a key data)) a st"

definition remove_int :: "s32 \<Rightarrow> hash_table \<Rightarrow> (hash_table \<times> u64) option" where
  "remove_int key st = remove_gen (findBinIndex_int key st) (isSameKey_int key) st"

definition remove_int2 :: "s32 \<Rightarrow> s32 \<Rightarrow> hash_table \<Rightarrow> (hash_table \<times> u64) option" where
  "remove_int2 key1 key2 st = remove_gen (findBinIndex_int2 key1 key2 st) (isSameKey_int2 key1 key2) st"

definition remove_str :: "u8 list \<Rightarrow> s32 \<Rightarrow> hash_table \<Rightarrow> (hash_table \<times> u64) option" where
  "remove_str key n st = remove_gen (findBinIndex_str key n st) (isSameKey_str key n) st"

definition remove_ptr :: "u64 \<Rightarrow> hash_table \<Rightarrow> (hash_table \<times> u64) option" where
  "remove_ptr key st = remove_gen (findBinIndex_ptr key st) (isSameKey_ptr key) st"

section \<open>clear\<close>

definition dec_count :: "hash_table \<Rightarrow> hash_table" where
  "dec_count st = st\<lparr>mNumberOfElement := mNumberOfElement st - 1\<rparr>"

text \<open>\<^verbatim>\<open>p->~hashElement(); delete p; mNumberOfElement--\<close>\<close>

definition clear_elem :: "addr \<Rightarrow> hash_table \<Rightarrow> hash_table option" where
  "clear_elem a st =
     do { st1 \<leftarrow> destruct_elem a st; st2 \<leftarrow> delete_elem a st1; Some (dec_count st2) }"

partial_function (option) clear_loop :: "addr \<Rightarrow> addr \<Rightarrow> hash_table \<Rightarrow> hash_table option" where
  "clear_loop pTop pCur st =
     (if pCur = pTop then Some st
      else do { e \<leftarrow> elems st pCur;
                st' \<leftarrow> clear_elem pCur st;
                clear_loop pTop (pPrev e) st' })"

definition clear_bin :: "nat \<Rightarrow> hash_table \<Rightarrow> hash_table option" where
  "clear_bin i st =
     (case mpBin st ! i of
        None \<Rightarrow> Some st
      | Some pTop \<Rightarrow>
          do { e \<leftarrow> elems st pTop;
               st1 \<leftarrow> clear_loop pTop (pPrev e) st;
               st2 \<leftarrow> clear_elem pTop st1;
               Some (st2\<lparr>mpBin := (mpBin st2)[i := None]\<rparr>) })"

fun clear_bins :: "nat list \<Rightarrow> hash_table \<Rightarrow> hash_table option" where
  "clear_bins [] st = Some st"
| "clear_bins (i # is) st = do { st' \<leftarrow> clear_bin i st; clear_bins is st' }"

definition clear :: "hash_table \<Rightarrow> hash_table option" where
  "clear st = clear_bins [0..<nat (sint (mBinNumber st))] st"

definition size_ht :: "hash_table \<Rightarrow> u32" where
  "size_ht st = mNumberOfElement st"

end
