(* ===== verification/Ring.thy ===== *)
theory Ring
  imports Main
begin

text \<open>
  Circular doubly linked lists over any store: \<open>nx\<close> and \<open>pv\<close> give the successor and the
  predecessor stored at an address. \<open>ring nx pv as\<close> says that the addresses \<open>as\<close> are
  linked in this order, the last one to the first. The lemmas give the effect of the
  pointer updates by which the containers of the platform link and unlink an element.
\<close>

definition linked :: "('a \<Rightarrow> 'a option) \<Rightarrow> ('a \<Rightarrow> 'a option) \<Rightarrow> 'a \<Rightarrow> 'a \<Rightarrow> bool" where
  "linked nx pv x y \<longleftrightarrow> nx x = Some y \<and> pv y = Some x"

fun links :: "('a \<Rightarrow> 'a \<Rightarrow> bool) \<Rightarrow> 'a list \<Rightarrow> bool" where
  "links R (x # y # zs) \<longleftrightarrow> R x y \<and> links R (y # zs)"
| "links R _ \<longleftrightarrow> True"

definition ring :: "('a \<Rightarrow> 'a option) \<Rightarrow> ('a \<Rightarrow> 'a option) \<Rightarrow> 'a list \<Rightarrow> bool" where
  "ring nx pv xs \<longleftrightarrow> xs \<noteq> [] \<and> distinct xs \<and> links (linked nx pv) (xs @ [hd xs])"

lemma links_append: "links R (xs @ a # ys) \<longleftrightarrow> links R (xs @ [a]) \<and> links R (a # ys)"
  by (induction R xs rule: links.induct) auto

lemma links_last: "xs \<noteq> [] \<Longrightarrow> links R (xs @ a # ys) \<longleftrightarrow> links R xs \<and> R (last xs) a \<and> links R (a # ys)"
  by (induction xs rule: rev_induct) (auto simp: links_append [of R _ _ "_ # _"] links_append [of R "_ @ [_]" a ys])

lemma last_notin: "distinct xs \<Longrightarrow> x \<in> set (butlast xs) \<Longrightarrow> x \<noteq> last xs"
  by (cases xs rule: rev_cases) auto

lemma hd_notin: "distinct xs \<Longrightarrow> x \<in> set (tl xs) \<Longrightarrow> x \<noteq> hd xs"
  by (cases xs) auto

lemma links_mono:
  "links R xs \<Longrightarrow> (\<And>x y. x \<in> set (butlast xs) \<Longrightarrow> y \<in> set (tl xs) \<Longrightarrow> R x y \<Longrightarrow> S x y) \<Longrightarrow> links S xs"
proof (induction R xs rule: links.induct)
  case (1 R x y zs)
  have "links S (y # zs)"
    by (rule 1(1)) (use 1(2,3) in \<open>auto split: if_splits dest: list.set_sel(2)\<close>)
  then show ?case using 1(2,3) by simp
qed simp_all

lemma ring_rotate: "ring nx pv (xs @ ys) \<longleftrightarrow> ring nx pv (ys @ xs)"
proof (cases "xs = [] \<or> ys = []")
  case False
  then obtain x xs' y ys' where e: "xs = x # xs'" "ys = y # ys'" by (metis list.exhaust)
  have "links R (xs @ ys @ [x]) \<longleftrightarrow> links R (ys @ xs @ [y])" for R
    using links_append [of R xs y "ys' @ [x]"] links_append [of R ys x "xs' @ [y]"] e by auto
  then show ?thesis using e by (auto simp: ring_def)
qed auto

lemma ring_alt: "ring nx pv xs \<longleftrightarrow> xs \<noteq> [] \<and> distinct xs \<and> links (linked nx pv) xs \<and> linked nx pv (last xs) (hd xs)"
  by (auto simp: ring_def links_last)

lemma ring_ends: "ring nx pv xs \<Longrightarrow> nx (last xs) = Some (hd xs) \<and> pv (hd xs) = Some (last xs)"
  by (simp add: ring_alt linked_def)

lemma ring_next: "ring nx pv (xs @ a # b # ys) \<Longrightarrow> nx a = Some b \<and> pv b = Some a"
  using links_append [of "linked nx pv" xs a "b # ys @ [hd (xs @ a # b # ys)]"]
  by (auto simp: ring_def linked_def)

lemma ring_after: "ring nx pv (xs @ a # ys) \<Longrightarrow> nx a = Some (hd (ys @ xs @ [a]))"
  using ring_ends [of nx pv "ys @ xs @ [a]"] ring_rotate [of nx pv "xs @ [a]" ys] by simp

lemma ring_before: "ring nx pv (xs @ a # ys) \<Longrightarrow> pv a = Some (last (a # ys @ xs))"
  using ring_ends [of nx pv "a # ys @ xs"] ring_rotate [of nx pv xs "a # ys"] by simp

lemma ring_single [simp]: "ring nx pv [a] \<longleftrightarrow> nx a = Some a \<and> pv a = Some a"
  by (simp add: ring_def linked_def)

lemma ring_insert_last:
  assumes "ring nx pv xs" "a \<notin> set xs"
  shows "ring (nx(a \<mapsto> hd xs, last xs \<mapsto> a)) (pv(a \<mapsto> last xs, hd xs \<mapsto> a)) (xs @ [a])"
proof -
  let ?S = "linked (nx(a \<mapsto> hd xs, last xs \<mapsto> a)) (pv(a \<mapsto> last xs, hd xs \<mapsto> a))"
  from assms have xs: "xs \<noteq> []" "distinct xs" and l: "links (linked nx pv) xs"
    by (simp_all add: ring_alt)
  have "links ?S xs"
  proof (rule links_mono [OF l])
    fix x y assume "x \<in> set (butlast xs)" "y \<in> set (tl xs)" "linked nx pv x y"
    moreover from this have "x \<noteq> last xs" "y \<noteq> hd xs" "x \<noteq> a" "y \<noteq> a"
      using xs assms(2) by (auto dest: last_notin hd_notin in_set_butlastD list.set_sel(2))
    ultimately show "?S x y" by (simp add: linked_def)
  qed
  moreover have "?S (last xs) a" "?S a (hd xs)"
    using xs assms(2) by (auto simp: linked_def)
  ultimately show ?thesis using xs assms(2) by (simp add: ring_alt links_last)
qed

lemma ring_remove:
  assumes "ring nx pv (c # ys)" "ys \<noteq> []"
  shows "ring (nx(last ys \<mapsto> hd ys)) (pv(hd ys \<mapsto> last ys)) ys"
proof -
  let ?S = "linked (nx(last ys \<mapsto> hd ys)) (pv(hd ys \<mapsto> last ys))"
  from assms have ys: "distinct ys" and l: "links (linked nx pv) ys"
    by (simp_all add: ring_alt) (cases ys; simp)
  have "links ?S ys"
  proof (rule links_mono [OF l])
    fix x y assume "x \<in> set (butlast ys)" "y \<in> set (tl ys)" "linked nx pv x y"
    moreover from this have "x \<noteq> last ys" "y \<noteq> hd ys"
      using ys by (auto dest: last_notin hd_notin)
    ultimately show "?S x y" by (simp add: linked_def)
  qed
  with ys assms(2) show ?thesis by (simp add: ring_alt linked_def)
qed

lemma ring_cong:
  assumes "\<And>a. a \<in> set xs \<Longrightarrow> nx a = nx' a \<and> pv a = pv' a"
  shows "ring nx pv xs \<longleftrightarrow> ring nx' pv' xs"
proof -
  have "links (linked f p) xs"
    if "links (linked g q) xs" "\<And>a. a \<in> set xs \<Longrightarrow> f a = g a \<and> p a = q a" for f g p q
  proof (rule links_mono [OF that(1)])
    fix x y assume "x \<in> set (butlast xs)" "y \<in> set (tl xs)" "linked g q x y"
    moreover from this have "x \<in> set xs" "y \<in> set xs"
      by (auto dest: in_set_butlastD) (cases xs; simp)
    ultimately show "linked f p x y" using that(2) by (auto simp: linked_def)
  qed
  from this [of nx pv nx' pv'] this [of nx' pv' nx pv] assms show ?thesis
    by (auto simp: ring_alt linked_def)
qed

end
