(* ===== verification/HashTableRefine.thy ===== *)
theory HashTableRefine
  imports HashTable Ring
begin

text \<open>
  The bins of a hash table as lists of addresses (\<open>bins_rep\<close>), and what the loops and pointer
  updates of \<^verbatim>\<open>mxHashTable\<close> do to them: the search returns the first element of the bin with
  the key, an insertion appends, a removal deletes one address.
\<close>

section \<open>Bins\<close>

text \<open>The fields of an element other than the links.\<close>

definition core :: "hash_elem \<Rightarrow> hash_elem" where
  "core e = e\<lparr>pPrev := 0, pNext := 0\<rparr>"

definition nexts :: "hash_table \<Rightarrow> addr \<Rightarrow> addr option" where
  "nexts st a = map_option pNext (elems st a)"

definition prevs :: "hash_table \<Rightarrow> addr \<Rightarrow> addr option" where
  "prevs st a = map_option pPrev (elems st a)"

lemma core_update [simp]: "core (e\<lparr>pPrev := p\<rparr>) = core e" "core (e\<lparr>pNext := p\<rparr>) = core e"
  by (simp_all add: core_def)

lemma core_eqD:
  assumes "core e = core e'"
  shows "pData e = pData e'" "pKey e = pKey e'" "nKey e = nKey e'" "nKey1 e = nKey1 e'" "ptrKey e = ptrKey e'" "nLen e = nLen e'"
  using assms by (cases e; cases e'; simp add: core_def)+

fun bin_rep :: "hash_table \<Rightarrow> addr option \<Rightarrow> addr list \<Rightarrow> bool" where
  "bin_rep st None xs \<longleftrightarrow> xs = []"
| "bin_rep st (Some a) xs \<longleftrightarrow> ring (nexts st) (prevs st) xs \<and> hd xs = a"

definition bins_rep :: "hash_table \<Rightarrow> addr list list \<Rightarrow> bool" where
  "bins_rep st bs \<longleftrightarrow>
     length (mpBin st) = length bs \<and>
     (\<forall>i < length bs. bin_rep st (mpBin st ! i) (bs ! i)) \<and>
     (\<forall>i < length bs. \<forall>j < length bs. i \<noteq> j \<longrightarrow> set (bs ! i) \<inter> set (bs ! j) = {}) \<and>
     dom (elems st) = (\<Union>i \<in> {..<length bs}. set (bs ! i))"

lemma bin_rep_distinct: "bin_rep st b xs \<Longrightarrow> distinct xs"
  by (cases b) (auto simp: ring_def)

lemma bin_rep_empty: "bin_rep st b xs \<Longrightarrow> b = None \<longleftrightarrow> xs = []"
  by (cases b) (auto simp: ring_def)

lemma bin_rep_cong:
  assumes "\<And>a. a \<in> set xs \<Longrightarrow> elems st a = elems st' a"
  shows "bin_rep st b xs \<longleftrightarrow> bin_rep st' b xs"
  using ring_cong [of xs "nexts st" "nexts st'" "prevs st" "prevs st'"] assms
  by (cases b) (auto simp: nexts_def prevs_def)

lemma bins_repD:
  assumes "bins_rep st bs" "i < length bs"
  shows "i < length (mpBin st)" "bin_rep st (mpBin st ! i) (bs ! i)" "set (bs ! i) \<subseteq> dom (elems st)"
    "distinct (bs ! i)"
  using assms bin_rep_distinct [of st "mpBin st ! i" "bs ! i"] by (auto simp: bins_rep_def)

lemma bins_rep_length: "bins_rep st bs \<Longrightarrow> length (mpBin st) = length bs"
  by (simp add: bins_rep_def)

lemma bins_repI:
  assumes "bins_rep st bs" "i < length bs" "mpBin st' = (mpBin st)[i := b]" "bin_rep st' b xs"
    "\<And>a. a \<in> dom (elems st) - set (bs ! i) \<Longrightarrow> elems st' a = elems st a \<and> a \<notin> set xs"
    "dom (elems st') = set xs \<union> (dom (elems st) - set (bs ! i))"
  shows "bins_rep st' (bs[i := xs])"
  unfolding bins_rep_def
proof (intro conjI allI impI)
  have other: "a \<in> dom (elems st) - set (bs ! i)" if "j < length bs" "j \<noteq> i" "a \<in> set (bs ! j)" for a j
    using assms(1,2) that by (auto simp: bins_rep_def)
  show "length (mpBin st') = length (bs[i := xs])" using assms(1,3) by (simp add: bins_rep_def)
  fix j assume j: "j < length (bs[i := xs])"
  show "bin_rep st' (mpBin st' ! j) (bs[i := xs] ! j)"
  proof (cases "j = i")
    case True
    with assms(1-4) show ?thesis by (simp add: bins_rep_def)
  next
    case False
    with j have "bin_rep st (mpBin st ! j) (bs ! j)" using assms(1) by (simp add: bins_rep_def)
    then have "bin_rep st' (mpBin st ! j) (bs ! j)"
      using bin_rep_cong [of "bs ! j" st' st] assms(5) other j False by simp
    then show ?thesis using assms(3) False by simp
  qed
  fix k assume k: "k < length (bs[i := xs])" "j \<noteq> k"
  have "set (bs ! j) \<inter> set (bs ! k) = {}" using assms(1) j k by (simp add: bins_rep_def)
  moreover have "set xs \<inter> set (bs ! m) = {}" if "m < length bs" "m \<noteq> i" for m
    using assms(5) other [OF that] by blast
  ultimately show "set (bs[i := xs] ! j) \<inter> set (bs[i := xs] ! k) = {}"
    using j k assms(2) by (cases "j = i"; cases "k = i") (simp_all, metis Int_commute)
next
  have "dom (elems st) - set (bs ! i) = (\<Union>j \<in> {..<length bs} - {i}. set (bs ! j))"
    using assms(1,2) by (auto simp: bins_rep_def)
  then show "dom (elems st') = (\<Union>j \<in> {..<length (bs[i := xs])}. set (bs[i := xs] ! j))"
    unfolding assms(6) using assms(2) by (auto simp: nth_list_update split: if_splits)
qed

section \<open>Search\<close>

lemma find_loop_ring:
  assumes "ring (nexts st) (prevs st) xs" "xs = us @ y # ys"
    "\<forall>a \<in> set xs. \<exists>e. elems st a = Some e \<and> same e = Some (P a)"
  shows "find_loop same st (hd xs) y = Some (List.find P (y # ys))"
  using assms(2)
proof (induction ys arbitrary: us y)
  case (Cons z ys)
  then have "y \<in> set xs" by simp
  then obtain e where e: "elems st y = Some e" "same e = Some (P y)" using assms(3) by blast
  have "nexts st y = Some z" using ring_next [of _ _ us y z ys] assms(1) Cons.prems by simp
  then have z: "pNext e = z" using e by (simp add: nexts_def)
  have "z \<noteq> hd xs" using assms(1) Cons.prems by (cases us) (auto simp: ring_def)
  with e z Cons.IH [of "us @ [y]" z] Cons.prems show ?case
    by (subst find_loop.simps) simp
next
  case Nil
  then have "y \<in> set xs" by simp
  then obtain e where e: "elems st y = Some e" "same e = Some (P y)" using assms(3) by blast
  have "nexts st y = Some (hd xs)" using ring_ends [OF assms(1)] Nil by simp
  then have "pNext e = hd xs" using e by (simp add: nexts_def)
  with e show ?case by (subst find_loop.simps) simp
qed

lemma bin_index_of_nat:
  "i < length (mpBin st) \<Longrightarrow> length (mpBin st) < 2 ^ 31 \<Longrightarrow>
    bin_index (of_nat i) st = Some i \<and> (of_nat i :: s32) \<noteq> - 1"
proof -
  assume i: "i < length (mpBin st)" "length (mpBin st) < 2 ^ 31"
  then have s: "sint (of_nat i :: s32) = int i"
    by (simp add: signed_of_nat signed_take_bit_int_eq_self)
  moreover have "sint (- 1 :: s32) = - 1" by simp
  ultimately show ?thesis using i by (auto simp: bin_index_def)
qed

lemma bin_find_rep:
  assumes "bins_rep st bs" "i < length bs" "length bs < 2 ^ 31"
    "\<forall>a \<in> set (bs ! i). \<exists>e. elems st a = Some e \<and> same e = Some (P a)"
  shows "bin_find (Some (of_nat i)) same st = Some (map_option (\<lambda>cur. (i, hd (bs ! i), cur)) (List.find P (bs ! i)))"
proof -
  note b = bins_repD [OF assms(1,2)]
  have ix: "bin_index (of_nat i) st = Some i" "(of_nat i :: s32) \<noteq> - 1"
    using bin_index_of_nat [of i st] b(1) assms(3) bins_rep_length [OF assms(1)] by auto
  show ?thesis
  proof (cases "mpBin st ! i")
    case None
    with b(2) ix show ?thesis by (simp add: bin_find_def)
  next
    case (Some o')
    with b(2) have r: "ring (nexts st) (prevs st) (bs ! i)" "hd (bs ! i) = o'" by auto
    then obtain y ys where "bs ! i = y # ys" by (cases "bs ! i") (auto simp: ring_def)
    with find_loop_ring [OF r(1) _ assms(4), of "[]"] r(2) Some ix show ?thesis by (simp add: bin_find_def)
  qed
qed

section \<open>Insertion\<close>

lemma insertToBin_rep:
  assumes "bins_rep st bs" "i < length bs" "length bs < 2 ^ 31" "a \<notin> dom (elems st)" "pPrev e = a" "pNext e = a"
  obtains st' where "insertToBin (of_nat i) a (st\<lparr>elems := (elems st)(a \<mapsto> e)\<rparr>) = Some st'"
    "bins_rep st' (bs[i := bs ! i @ [a]])"
    "\<And>x. map_option core (elems st' x) = map_option core (((elems st)(a \<mapsto> e)) x)"
    "mNumberOfElement st' = mNumberOfElement st + 1"
    "mHashType st' = mHashType st" "mBinNumber st' = mBinNumber st" "mBitMask st' = mBitMask st"
    "mDuplicateNumber st' = mDuplicateNumber st" "length (mpBin st') = length (mpBin st)"
proof -
  note b = bins_repD [OF assms(1,2)]
  let ?st = "st\<lparr>elems := (elems st)(a \<mapsto> e)\<rparr>"
  have ix: "bin_index (of_nat i) ?st = Some i"
    using bin_index_of_nat [of i ?st] b(1) assms(3) bins_rep_length [OF assms(1)] by auto
  show ?thesis
  proof (cases "mpBin st ! i")
    case None
    with b(2) have nil: "bs ! i = []" by simp
    let ?st' = "?st\<lparr>mpBin := (mpBin st)[i := Some a], dataRoot := dataRoot st @ [a], mNumberOfElement := mNumberOfElement st + 1\<rparr>"
    have "insertToBin (of_nat i) a ?st = Some ?st'" using ix None by (simp add: insertToBin_def)
    moreover have "bins_rep ?st' (bs[i := bs ! i @ [a]])"
      by (rule bins_repI [OF assms(1,2)]) (use assms(4-6) nil in \<open>auto simp: nexts_def prevs_def\<close>)
    ultimately show ?thesis by (rule that) simp_all
  next
    case (Some o')
    with b(2) have r: "ring (nexts st) (prevs st) (bs ! i)" and o': "hd (bs ! i) = o'" by auto
    let ?p = "last (bs ! i)"
    have ne: "bs ! i \<noteq> []" and mem: "o' \<in> set (bs ! i)" "?p \<in> set (bs ! i)"
      using r o' by (auto simp: ring_def)
    then obtain eo ep where eo: "elems st o' = Some eo" and ep: "elems st ?p = Some ep" using b(3) by blast
    have pe: "pPrev eo = ?p" using ring_ends [OF r] o' eo by (simp add: prevs_def)
    have na: "o' \<noteq> a" "?p \<noteq> a" using assms(4) mem b(3) by auto
    define m where "m = (elems st)(a \<mapsto> e\<lparr>pNext := o', pPrev := ?p\<rparr>, ?p \<mapsto> ep\<lparr>pNext := a\<rparr>)"
    define m' where "m' = m(o' \<mapsto> the (m o')\<lparr>pPrev := a\<rparr>)"
    let ?st' = "?st\<lparr>elems := m', dataRoot := dataRoot st @ [a], mNumberOfElement := mNumberOfElement st + 1\<rparr>"
    have mo: "m o' \<noteq> None" using eo by (simp add: m_def)
    have "insertToBin (of_nat i) a ?st = Some ?st'"
      using ix Some eo ep pe na mo
      by (auto simp: insertToBin_def update_elem_def m_def m'_def)
    moreover have "bins_rep ?st' (bs[i := bs ! i @ [a]])"
    proof (rule bins_repI [OF assms(1,2)])
      have n: "nexts ?st' = (nexts st)(a \<mapsto> hd (bs ! i), ?p \<mapsto> a)"
        by (rule ext) (use na eo ep o' in \<open>auto simp: nexts_def m_def m'_def\<close>)
      have p: "prevs ?st' = (prevs st)(a \<mapsto> ?p, hd (bs ! i) \<mapsto> a)"
        by (rule ext) (use na eo ep o' in \<open>auto simp: prevs_def m_def m'_def\<close>)
      have "a \<notin> set (bs ! i)" using assms(4) b(3) by auto
      from ring_insert_last [OF r this] show "bin_rep ?st' (Some o') (bs ! i @ [a])"
        using n p o' ne by simp
    qed (use Some mem assms(4) b(3) eo ep list_update_id [of "mpBin st" i] in \<open>auto simp: m'_def m_def split: if_splits\<close>)
    moreover have "map_option core (elems ?st' x) = map_option core (((elems st)(a \<mapsto> e)) x)" for x
      using na eo ep by (auto simp: m'_def m_def)
    ultimately show ?thesis by (rule that [of ?st']) simp_all
  qed
qed

section \<open>Removal\<close>

lemma list_split_unique: "distinct xs \<Longrightarrow> c \<in> set xs \<Longrightarrow> \<exists>us ys. xs = us @ c # ys \<and> c \<notin> set us \<and> c \<notin> set ys"
  by (metis Cons_eq_appendI distinct.simps(2) distinct_append in_set_conv_decomp not_distinct_conv_prefix split_list_first)

lemma remove1_split: "c \<notin> set us \<Longrightarrow> remove1 c (us @ c # ys) = us @ ys"
  by (simp add: remove1_append)

text \<open>The pointer that \<^verbatim>\<open>remove\<close> writes to the bin before it deletes the element.\<close>

lemma delete_elem_rep:
  assumes "bins_rep st bs" "i < length bs" "c \<in> set (bs ! i)" "elems st c = Some e" "pKey e \<noteq> FreedKey"
    "b = (if pPrev e = c then None else if c = hd (bs ! i) then Some (pNext e) else mpBin st ! i)"
  obtains st' where "delete_elem c (st\<lparr>mpBin := (mpBin st)[i := b]\<rparr>) = Some st'"
    "bins_rep st' (bs[i := remove1 c (bs ! i)])"
    "\<And>x. map_option core (elems st' x) = map_option core (((elems st)(c := None)) x)"
    "mNumberOfElement st' = mNumberOfElement st"
    "mHashType st' = mHashType st" "mBinNumber st' = mBinNumber st" "mBitMask st' = mBitMask st"
    "mDuplicateNumber st' = mDuplicateNumber st" "length (mpBin st') = length (mpBin st)"
proof -
  note bd = bins_repD [OF assms(1,2)]
  obtain us ys where xs: "bs ! i = us @ c # ys" "c \<notin> set us" "c \<notin> set ys"
    using list_split_unique [OF bd(4) assms(3)] by blast
  have r: "ring (nexts st) (prevs st) (bs ! i)" and h: "mpBin st ! i = Some (hd (bs ! i))"
    using bd(2) xs(1) by (cases "mpBin st ! i"; simp)+
  have r1: "ring (nexts st) (prevs st) (c # ys @ us)" using r xs(1) ring_rotate [of _ _ us "c # ys"] by simp
  have rm: "remove1 c (bs ! i) = us @ ys" using xs remove1_split by simp
  show ?thesis
  proof (cases "ys @ us = []")
    case True
    then have "pPrev e = c" using ring_ends [OF r1] assms(4) by (simp add: prevs_def)
    define k where "k = (case pKey e of KeyBuf bytes \<Rightarrow> FreedKey | p \<Rightarrow> p)"
    let ?st' = "st\<lparr>mpBin := (mpBin st)[i := None], elems := (elems st)(c := None)\<rparr>"
    have "delete_elem c (st\<lparr>mpBin := (mpBin st)[i := b]\<rparr>) = Some ?st'"
      using assms(4-6) \<open>pPrev e = c\<close>
      by (cases "pKey e") (auto simp: delete_elem_def destruct_elem_def update_elem_def)
    moreover have "bins_rep ?st' (bs[i := remove1 c (bs ! i)])"
      by (rule bins_repI [OF assms(1,2)]) (use True rm xs in auto)
    ultimately show ?thesis by (rule that [of ?st']) simp_all
  next
    case False
    let ?zs = "ys @ us" let ?p = "last ?zs" let ?q = "hd ?zs"
    have pe: "pPrev e = ?p" "pNext e = ?q"
      using ring_before [of "nexts st" "prevs st" "[]" c ?zs] ring_after [of "nexts st" "prevs st" "[]" c ?zs]
        r1 assms(4) hd_append2 [OF False] False
      by (auto simp: nexts_def prevs_def split: if_splits)
    have mem: "?p \<in> set (bs ! i) - {c}" "?q \<in> set (bs ! i) - {c}"
      using last_in_set [OF False] hd_in_set [OF False] xs by auto
    then obtain ep eq where ep: "elems st ?p = Some ep" and eq: "elems st ?q = Some eq"
      using bd(3) by blast
    define m where "m = (elems st)(?p \<mapsto> ep\<lparr>pNext := ?q\<rparr>)"
    define m' where "m' = (m(?q \<mapsto> the (m ?q)\<lparr>pPrev := ?p\<rparr>))(c := None)"
    let ?st' = "st\<lparr>mpBin := (mpBin st)[i := b], elems := m'\<rparr>"
    have mq: "m ?q \<noteq> None" "m c = Some e" using eq assms(4) mem by (auto simp: m_def)
    have "delete_elem c (st\<lparr>mpBin := (mpBin st)[i := b]\<rparr>) = Some ?st'"
      using assms(4,5) pe mem ep mq
      by (cases "pKey e") (auto simp: delete_elem_def destruct_elem_def update_elem_def m_def m'_def fun_upd_twist)
    moreover have "bins_rep ?st' (bs[i := remove1 c (bs ! i)])"
    proof (rule bins_repI [OF assms(1,2)])
      have zs: "c \<notin> set ?zs" using xs by simp
      have n: "nexts ?st' x = ((nexts st)(?p \<mapsto> ?q)) x" if "x \<in> set ?zs" for x
        using that zs mem ep eq by (auto simp: nexts_def m_def m'_def)
      have p: "prevs ?st' x = ((prevs st)(?q \<mapsto> ?p)) x" if "x \<in> set ?zs" for x
        using that zs mem ep eq by (auto simp: prevs_def m_def m'_def)
      have "ring (nexts ?st') (prevs ?st') ?zs"
        using ring_cong [of ?zs "nexts ?st'" "(nexts st)(?p \<mapsto> ?q)" "prevs ?st'" "(prevs st)(?q \<mapsto> ?p)"]
          ring_remove [OF r1 False] n p by blast
      then have "ring (nexts ?st') (prevs ?st') (us @ ys)" using ring_rotate [of _ _ us ys] by simp
      moreover have "b = Some (hd (us @ ys))"
        using assms(6) pe h xs mem by (cases us; cases ys) auto
      ultimately show "bin_rep ?st' b (remove1 c (bs ! i))" by (simp add: rm)
    qed (use mem bd(3) ep eq xs rm in \<open>auto simp: m'_def m_def split: if_splits\<close>)
    moreover have "map_option core (elems ?st' x) = map_option core (((elems st)(c := None)) x)" for x
      using mem ep eq by (auto simp: m'_def m_def)
    ultimately show ?thesis by (rule that [of ?st']) simp_all
  qed
qed

end
