(* ===== verification/HashTableCorrect.thy ===== *)
theory HashTableCorrect
  imports HashTableRefine
begin

text \<open>
  Correctness of the hash table. The abstract table is the list of its keys and data in the
  order of their insertion: a search gives the datum of the first entry with the key, an
  insertion appends, a removal deletes the first entry with the key. The locale \<open>key_kind\<close>
  states what the four families of overloads share, and is interpreted on each of them.
\<close>

section \<open>The table as an association list\<close>

text \<open>A table built by the constructor with a positive number of bins.\<close>

definition table_ok :: "hash_table \<Rightarrow> bool" where
  "table_ok st \<longleftrightarrow>
     length (mpBin st) = unat (mBinNumber st) \<and> 0 < length (mpBin st) \<and> length (mpBin st) < 2 ^ 31 \<and>
     mBitMask st = (if mBinNumber st AND (mBinNumber st - 1) = 0 then mBinNumber st - 1 else 0)"

definition same_config :: "hash_table \<Rightarrow> hash_table \<Rightarrow> bool" where
  "same_config st st' \<longleftrightarrow> mBinNumber st' = mBinNumber st \<and> mBitMask st' = mBitMask st \<and>
     mHashType st' = mHashType st \<and> mDuplicateNumber st' = mDuplicateNumber st \<and>
     length (mpBin st') = length (mpBin st)"

definition entry_at :: "(hash_elem \<Rightarrow> 'k \<Rightarrow> bool) \<Rightarrow> hash_table \<Rightarrow> addr \<Rightarrow> 'k \<times> u64 \<Rightarrow> bool" where
  "entry_at keyed st a p \<longleftrightarrow>
     (\<exists>e. elems st a = Some e \<and> keyed e (fst p) \<and> pData e = snd p \<and> pKey e \<noteq> FreedKey)"

definition in_bin :: "('k \<Rightarrow> hash_table \<Rightarrow> s32 option) \<Rightarrow> hash_table \<Rightarrow> nat \<Rightarrow> 'k \<times> u64 \<Rightarrow> bool" where
  "in_bin idx st i p \<longleftrightarrow> idx (fst p) st = Some (of_nat i)"

definition table_rep ::
  "(s32 \<Rightarrow> bool) \<Rightarrow> ('k \<Rightarrow> hash_table \<Rightarrow> s32 option) \<Rightarrow> (hash_elem \<Rightarrow> 'k \<Rightarrow> bool) \<Rightarrow> ('k \<Rightarrow> bool) \<Rightarrow>
    hash_table \<Rightarrow> ('k \<times> u64) list \<Rightarrow> bool" where
  "table_rep hashes idx keyed valid st xs \<longleftrightarrow>
     table_ok st \<and> hashes (mHashType st) \<and> (\<forall>p \<in> set xs. valid (fst p)) \<and>
     mNumberOfElement st = of_nat (length xs) \<and>
     (\<exists>bs. bins_rep st bs \<and>
       (\<forall>i < length bs. list_all2 (entry_at keyed st) (bs ! i) (filter (in_bin idx st i) xs)))"

fun remove_first :: "'k \<Rightarrow> ('k \<times> 'd) list \<Rightarrow> ('k \<times> 'd) list" where
  "remove_first k [] = []"
| "remove_first k (p # ps) = (if fst p = k then ps else p # remove_first k ps)"

lemma remove_first_id: "map_of xs k = None \<Longrightarrow> remove_first k xs = xs"
  by (induction xs) (auto split: if_splits)

lemma length_remove_first: "map_of xs k = Some d \<Longrightarrow> length xs = Suc (length (remove_first k xs))"
  by (induction xs) (auto split: if_splits)

lemma set_remove_first: "set (remove_first k xs) \<subseteq> set xs"
  by (induction xs) auto

lemma map_of_filter_key: "(\<And>d. Q (k, d)) \<Longrightarrow> map_of (filter Q xs) k = map_of xs k"
  by (induction xs) auto

lemma filter_remove_first: "(\<And>d. Q (k, d)) \<Longrightarrow> filter Q (remove_first k xs) = remove_first k (filter Q xs)"
  by (induction xs) auto

lemma filter_remove_other: "(\<And>d. \<not> Q (k, d)) \<Longrightarrow> filter Q (remove_first k xs) = filter Q xs"
  by (induction xs) auto

lemma find_entry:
  assumes "list_all2 (entry_at keyed st) as es" "\<forall>a \<in> set as. \<forall>p \<in> set es. entry_at keyed st a p \<longrightarrow> P a = (fst p = k)"
  shows "map_of es k = map_option (\<lambda>a. pData (the (elems st a))) (List.find P as)"
  using assms
proof (induction rule: list_all2_induct)
  case (Cons a as p es)
  from Cons.prems Cons.hyps have "P a = (fst p = k)" by simp
  moreover have "pData (the (elems st a)) = snd p" using Cons.hyps by (auto simp: entry_at_def)
  ultimately show ?case using Cons by (cases p) auto
qed simp

lemma remove_entry:
  assumes "list_all2 (entry_at keyed st) as es" "\<forall>a \<in> set as. \<forall>p \<in> set es. entry_at keyed st a p \<longrightarrow> P a = (fst p = k)"
    "List.find P as = Some c"
  shows "list_all2 (entry_at keyed st) (remove1 c as) (remove_first k es)"
  using assms
proof (induction rule: list_all2_induct)
  case (Cons a as p es)
  from Cons.prems Cons.hyps have eq: "P a = (fst p = k)" by simp
  show ?case
  proof (cases "P a")
    case True
    with Cons.prems(2) Cons.hyps eq show ?thesis by simp
  next
    case False
    with Cons.prems have f: "List.find P as = Some c" by simp
    then have "P c" by (auto simp: find_Some_iff)
    with False have "a \<noteq> c" by auto
    with False eq Cons f show ?thesis by simp
  qed
qed simp

lemma list_all2_entry_cong:
  assumes "list_all2 (entry_at keyed st) as es" "\<And>a p. a \<in> set as \<Longrightarrow> entry_at keyed st a p \<Longrightarrow> entry_at keyed st' a p"
  shows "list_all2 (entry_at keyed st') as es"
  using assms by (auto elim!: list.rel_mono_strong)

lemma list_all2_mem: "list_all2 R xs ys \<Longrightarrow> x \<in> set xs \<Longrightarrow> \<exists>y \<in> set ys. R x y"
  by (induction rule: list_all2_induct) auto

lemma of_nat_s32_inj: "i < n \<Longrightarrow> j < n \<Longrightarrow> n < 2 ^ 31 \<Longrightarrow> (of_nat i :: s32) = of_nat j \<longleftrightarrow> i = j"
  by (simp add: word_unat_eq_iff unat_of_nat)

section \<open>What the overloads share\<close>

locale key_kind =
  fixes hashes :: "s32 \<Rightarrow> bool"
    and idx :: "'k \<Rightarrow> hash_table \<Rightarrow> s32 option"
    and same :: "'k \<Rightarrow> hash_elem \<Rightarrow> bool option"
    and new :: "addr \<Rightarrow> 'k \<Rightarrow> u64 \<Rightarrow> hash_elem option"
    and keyed :: "hash_elem \<Rightarrow> 'k \<Rightarrow> bool"
    and valid :: "'k \<Rightarrow> bool"
  assumes idx_range: "table_ok st \<Longrightarrow> hashes (mHashType st) \<Longrightarrow> valid k \<Longrightarrow> \<exists>i < length (mpBin st). idx k st = Some (of_nat i)"
    and idx_cong: "same_config st st' \<Longrightarrow> idx k st' = idx k st"
    and same_iff: "keyed e k' \<Longrightarrow> valid k \<Longrightarrow> valid k' \<Longrightarrow> pKey e \<noteq> FreedKey \<Longrightarrow> same k e = Some (k' = k)"
    and keyed_core: "core e = core e' \<Longrightarrow> keyed e k \<Longrightarrow> keyed e' k"
    and new_elem: "valid k \<Longrightarrow> \<exists>e. new a k d = Some e \<and> pPrev e = a \<and> pNext e = a \<and> keyed e k \<and> pData e = d \<and> pKey e \<noteq> FreedKey"
begin

lemma rep_bin:
  assumes "table_rep hashes idx keyed valid st xs" "valid k"
  obtains bs i P where "bins_rep st bs" "i < length bs" "length bs < 2 ^ 31" "idx k st = Some (of_nat i)"
    "\<forall>j < length bs. list_all2 (entry_at keyed st) (bs ! j) (filter (in_bin idx st j) xs)"
    "\<forall>a \<in> set (bs ! i). \<exists>e. elems st a = Some e \<and> same k e = Some (P a) \<and> pKey e \<noteq> FreedKey"
    "\<forall>a \<in> set (bs ! i). \<forall>p \<in> set xs. entry_at keyed st a p \<longrightarrow> P a = (fst p = k)"
proof -
  from assms(1) obtain bs where bs: "bins_rep st bs"
    "\<forall>j < length bs. list_all2 (entry_at keyed st) (bs ! j) (filter (in_bin idx st j) xs)"
    and ok: "table_ok st" "hashes (mHashType st)" and v: "\<forall>p \<in> set xs. valid (fst p)"
    by (auto simp: table_rep_def)
  obtain i where i: "i < length (mpBin st)" "idx k st = Some (of_nat i)"
    using idx_range [OF ok assms(2)] by blast
  have len: "length (mpBin st) = length bs" by (rule bins_rep_length [OF bs(1)])
  let ?P = "\<lambda>a. keyed (the (elems st a)) k"
  have iff: "same k e = Some (?P a) \<and> (fst p = k) = ?P a"
    if "p \<in> set xs" "elems st a = Some e" "keyed e (fst p)" "pKey e \<noteq> FreedKey" for a p e
  proof -
    have s: "same k e = Some (fst p = k)" using same_iff [OF that(3) assms(2) _ that(4)] v that(1) by blast
    moreover have "keyed e k \<longleftrightarrow> fst p = k"
      using s same_iff [OF _ assms(2) assms(2) that(4)] that(3) by auto
    ultimately show ?thesis using that(2) by simp
  qed
  have "\<exists>e. elems st a = Some e \<and> same k e = Some (?P a) \<and> pKey e \<noteq> FreedKey" if "a \<in> set (bs ! i)" for a
  proof -
    have "list_all2 (entry_at keyed st) (bs ! i) (filter (in_bin idx st i) xs)" using bs(2) i len by simp
    from list_all2_mem [OF this that] obtain p where "p \<in> set xs" "entry_at keyed st a p" by auto
    then obtain e where "elems st a = Some e" "keyed e (fst p)" "pKey e \<noteq> FreedKey"
      unfolding entry_at_def by blast
    with iff [OF \<open>p \<in> set xs\<close>] show ?thesis by blast
  qed
  moreover have "?P a = (fst p = k)" if "p \<in> set xs" "entry_at keyed st a p" for a p
    using that iff [OF that(1)] unfolding entry_at_def by blast
  moreover have "length bs < 2 ^ 31" using ok(1) len by (simp add: table_ok_def)
  moreover have "i < length bs" using i(1) len by simp
  ultimately show ?thesis using bs i(2) by (intro that [of bs i ?P]) blast+
qed

lemma find_gen_rep:
  assumes "table_rep hashes idx keyed valid st xs" "valid k"
  shows "find_gen (idx k st) (same k) st = Some (map_of xs k)"
proof -
  obtain bs i P where *: "bins_rep st bs" "i < length bs" "length bs < 2 ^ 31" "idx k st = Some (of_nat i)"
    "\<forall>j < length bs. list_all2 (entry_at keyed st) (bs ! j) (filter (in_bin idx st j) xs)"
    "\<forall>a \<in> set (bs ! i). \<exists>e. elems st a = Some e \<and> same k e = Some (P a) \<and> pKey e \<noteq> FreedKey"
    "\<forall>a \<in> set (bs ! i). \<forall>p \<in> set xs. entry_at keyed st a p \<longrightarrow> P a = (fst p = k)"
    by (rule rep_bin [OF assms])
  have bf: "bin_find (idx k st) (same k) st = Some (map_option (\<lambda>cur. (i, hd (bs ! i), cur)) (List.find P (bs ! i)))"
    unfolding *(4) by (rule bin_find_rep [OF *(1-3)]) (use *(6) in blast)
  have "map_of (filter (in_bin idx st i) xs) k = map_option (\<lambda>a. pData (the (elems st a))) (List.find P (bs ! i))"
    by (rule find_entry) (use *(2,5,7) in auto)
  then have "map_of xs k = map_option (\<lambda>a. pData (the (elems st a))) (List.find P (bs ! i))"
    using map_of_filter_key [of "in_bin idx st i" k xs] *(4) by (simp add: in_bin_def)
  moreover have "find_gen (idx k st) (same k) st = Some (map_option (\<lambda>a. pData (the (elems st a))) (List.find P (bs ! i)))"
  proof (cases "List.find P (bs ! i)")
    case (Some c)
    then have "c \<in> set (bs ! i)" by (auto simp: find_Some_iff)
    with *(6) Some bf show ?thesis by (auto simp: find_gen_def)
  qed (simp add: bf find_gen_def)
  ultimately show ?thesis by simp
qed

lemma rep_step:
  assumes "table_rep hashes idx keyed valid st xs" "bins_rep st' bs'" "same_config st st'" "\<forall>p \<in> set ys. valid (fst p)"
    "\<forall>i < length bs'. list_all2 (entry_at keyed st') (bs' ! i) (filter (in_bin idx st i) ys)"
    "mNumberOfElement st' = of_nat (length ys)"
  shows "table_rep hashes idx keyed valid st' ys"
proof -
  have "in_bin idx st' i = in_bin idx st i" for i
    using idx_cong [OF assms(3)] by (auto simp: in_bin_def)
  moreover have "table_ok st' \<and> hashes (mHashType st')"
    using assms(1,3) unfolding table_rep_def table_ok_def same_config_def by metis
  ultimately show ?thesis using assms(2,4,5,6) by (auto simp: table_rep_def)
qed

lemma entry_core:
  assumes "map_option core (elems st' a) = map_option core (elems st a)" "entry_at keyed st a p"
  shows "entry_at keyed st' a p"
proof -
  from assms obtain e e' where e: "elems st a = Some e" "elems st' a = Some e'" "core e' = core e"
    by (auto simp: entry_at_def)
  with assms(2) keyed_core [of e e' "fst p"] core_eqD [OF e(3)] show ?thesis
    by (auto simp: entry_at_def)
qed

lemma insert_gen_rep:
  assumes "table_rep hashes idx keyed valid st xs" "valid k" "a \<notin> dom (elems st)"
    "mDuplicateNumber st = 0 \<Longrightarrow> map_of xs k = None"
  obtains st' where "insert_gen (idx k st) (same k) (new a k d) a st = Some (st', True)"
    "table_rep hashes idx keyed valid st' (xs @ [(k, d)])" "same_config st st'"
    "dom (elems st') = insert a (dom (elems st))"
proof -
  obtain bs i P where *: "bins_rep st bs" "i < length bs" "length bs < 2 ^ 31" "idx k st = Some (of_nat i)"
    "\<forall>j < length bs. list_all2 (entry_at keyed st) (bs ! j) (filter (in_bin idx st j) xs)"
    "\<forall>a \<in> set (bs ! i). \<exists>e. elems st a = Some e \<and> same k e = Some (P a) \<and> pKey e \<noteq> FreedKey"
    "\<forall>a \<in> set (bs ! i). \<forall>p \<in> set xs. entry_at keyed st a p \<longrightarrow> P a = (fst p = k)"
    by (rule rep_bin [OF assms(1,2)])
  obtain e where e: "new a k d = Some e" "pPrev e = a" "pNext e = a" "keyed e k" "pData e = d" "pKey e \<noteq> FreedKey"
    using new_elem [OF assms(2)] by blast
  obtain st' where st': "insertToBin (of_nat i) a (st\<lparr>elems := (elems st)(a \<mapsto> e)\<rparr>) = Some st'"
    "bins_rep st' (bs[i := bs ! i @ [a]])"
    "\<And>x. map_option core (elems st' x) = map_option core (((elems st)(a \<mapsto> e)) x)"
    "mNumberOfElement st' = mNumberOfElement st + 1"
    "mHashType st' = mHashType st" "mBinNumber st' = mBinNumber st" "mBitMask st' = mBitMask st"
    "mDuplicateNumber st' = mDuplicateNumber st" "length (mpBin st') = length (mpBin st)"
    using insertToBin_rep [OF *(1-3) assms(3) e(2,3)] by metis
  have cfg: "same_config st st'" by (simp add: same_config_def st')
  have ni: "(of_nat i :: s32) \<noteq> - 1"
    using bin_index_of_nat [of i st] *(2,3) bins_rep_length [OF *(1)] by simp
  have ins: "insert_gen (idx k st) (same k) (new a k d) a st = Some (st', True)"
    using find_gen_rep [OF assms(1,2)] assms(4) *(4) st'(1) e(1) ni by (simp add: insert_gen_def)
  have old: "entry_at keyed st' x p" if "entry_at keyed st x p" "x \<in> set (bs ! j)" "j < length bs" for x p j
    by (rule entry_core [OF _ that(1)]) (use st'(3) [of x] that assms(3) bins_repD(3) [OF *(1) that(3)] in auto)
  have new: "entry_at keyed st' a (k, d)"
  proof -
    have "entry_at keyed (st\<lparr>elems := (elems st)(a \<mapsto> e)\<rparr>) a (k, d)" using e by (simp add: entry_at_def)
    then show ?thesis by (rule entry_core [rotated]) (use st'(3) [of a] in simp)
  qed
  have "list_all2 (entry_at keyed st') (bs[i := bs ! i @ [a]] ! j) (filter (in_bin idx st j) (xs @ [(k, d)]))"
    if j: "j < length bs" for j
  proof -
    have l: "list_all2 (entry_at keyed st') (bs ! j) (filter (in_bin idx st j) xs)"
      using *(5) j old by (auto intro: list_all2_entry_cong)
    have "in_bin idx st j (k, d) = (i = j)"
      using *(2,3,4) j by (auto simp: in_bin_def of_nat_s32_inj)
    with l new *(2) show ?thesis by (auto simp: list_all2_appendI)
  qed
  then have "table_rep hashes idx keyed valid st' (xs @ [(k, d)])"
    using rep_step [OF assms(1) st'(2) cfg, of "xs @ [(k, d)]"] assms(1,2) st'(4)
    by (auto simp: table_rep_def)
  moreover have "dom (elems st') = insert a (dom (elems st))"
  proof -
    have "x \<in> dom (elems st') \<longleftrightarrow> x = a \<or> x \<in> dom (elems st)" for x
      using st'(3) [of x] by (cases "elems st' x"; cases "elems st x") (auto split: if_splits)
    then show ?thesis by blast
  qed
  ultimately show ?thesis using that ins cfg by blast
qed

lemma remove_gen_rep:
  assumes "table_rep hashes idx keyed valid st xs" "valid k"
  obtains st' where
    "remove_gen (idx k st) (same k) st = Some (st', case map_of xs k of None \<Rightarrow> 0 | Some d \<Rightarrow> d)"
    "table_rep hashes idx keyed valid st' (remove_first k xs)" "same_config st st'"
    "dom (elems st') \<subseteq> dom (elems st)"
proof -
  obtain bs i P where *: "bins_rep st bs" "i < length bs" "length bs < 2 ^ 31" "idx k st = Some (of_nat i)"
    "\<forall>j < length bs. list_all2 (entry_at keyed st) (bs ! j) (filter (in_bin idx st j) xs)"
    "\<forall>a \<in> set (bs ! i). \<exists>e. elems st a = Some e \<and> same k e = Some (P a) \<and> pKey e \<noteq> FreedKey"
    "\<forall>a \<in> set (bs ! i). \<forall>p \<in> set xs. entry_at keyed st a p \<longrightarrow> P a = (fst p = k)"
    by (rule rep_bin [OF assms])
  have bf: "bin_find (idx k st) (same k) st = Some (map_option (\<lambda>cur. (i, hd (bs ! i), cur)) (List.find P (bs ! i)))"
    unfolding *(4) by (rule bin_find_rep [OF *(1-3)]) (use *(6) in blast)
  have ik: "in_bin idx st i (k, d)" for d using *(4) by (simp add: in_bin_def)
  have mo: "map_of xs k = map_option (\<lambda>a. pData (the (elems st a))) (List.find P (bs ! i))"
    using find_entry [of keyed st "bs ! i" "filter (in_bin idx st i) xs" P k] *(2,5,7)
      map_of_filter_key [of "in_bin idx st i" k xs, OF ik] by auto
  show ?thesis
  proof (cases "List.find P (bs ! i)")
    case None
    then have "remove_gen (idx k st) (same k) st = Some (st, case map_of xs k of None \<Rightarrow> 0 | Some d \<Rightarrow> d)"
      using bf mo by (simp add: remove_gen_def)
    moreover have "remove_first k xs = xs" using mo None by (simp add: remove_first_id)
    ultimately show ?thesis using that [of st] assms(1) by (simp add: same_config_def)
  next
    case (Some c)
    then have c: "c \<in> set (bs ! i)" by (auto simp: find_Some_iff)
    then obtain e where e: "elems st c = Some e" "pKey e \<noteq> FreedKey" using *(6) by blast
    have md: "map_of xs k = Some (pData e)" using mo Some e by simp
    let ?b = "if pPrev e = c then None else if c = hd (bs ! i) then Some (pNext e) else mpBin st ! i"
    obtain s1 where s1: "delete_elem c (st\<lparr>mpBin := (mpBin st)[i := ?b]\<rparr>) = Some s1"
      "bins_rep s1 (bs[i := remove1 c (bs ! i)])"
      "\<And>x. map_option core (elems s1 x) = map_option core (((elems st)(c := None)) x)"
      "mNumberOfElement s1 = mNumberOfElement st"
      "mHashType s1 = mHashType st" "mBinNumber s1 = mBinNumber st" "mBitMask s1 = mBitMask st"
      "mDuplicateNumber s1 = mDuplicateNumber st" "length (mpBin s1) = length (mpBin st)"
      using delete_elem_rep [OF *(1,2) c e refl] by metis
    let ?st' = "s1\<lparr>mNumberOfElement := mNumberOfElement s1 - 1\<rparr>"
    have cfg: "same_config st ?st'" by (simp add: same_config_def s1)
    have rm: "remove_gen (idx k st) (same k) st = Some (?st', case map_of xs k of None \<Rightarrow> 0 | Some d \<Rightarrow> d)"
      using bf Some e(1) s1(1) md by (simp add: remove_gen_def)
    have old: "entry_at keyed s1 x p" if "entry_at keyed st x p" "x \<noteq> c" for x p
      by (rule entry_core [OF _ that(1)]) (use s1(3) [of x] that(2) in simp)
    have "list_all2 (entry_at keyed s1) (bs[i := remove1 c (bs ! i)] ! j) (filter (in_bin idx st j) (remove_first k xs))"
      if j: "j < length bs" for j
    proof (cases "j = i")
      case True
      have "list_all2 (entry_at keyed st) (remove1 c (bs ! i)) (remove_first k (filter (in_bin idx st i) xs))"
        by (rule remove_entry [OF _ _ Some]) (use *(2,5,7) in auto)
      then have "list_all2 (entry_at keyed s1) (remove1 c (bs ! i)) (remove_first k (filter (in_bin idx st i) xs))"
        by (rule list_all2_entry_cong) (use old bins_repD(4) [OF *(1,2)] in auto)
      with True *(2) show ?thesis by (simp add: filter_remove_first ik)
    next
      case False
      have "\<not> in_bin idx st j (k, d)" for d
        using *(2,3,4) j False by (auto simp: in_bin_def of_nat_s32_inj)
      moreover have "c \<notin> set (bs ! j)" using *(1,2) c False j by (auto simp: bins_rep_def)
      moreover have "list_all2 (entry_at keyed s1) (bs ! j) (filter (in_bin idx st j) xs)"
        by (rule list_all2_entry_cong [of keyed st]) (use *(5) j old \<open>c \<notin> set (bs ! j)\<close> in auto)
      ultimately show ?thesis using False by (simp add: filter_remove_other)
    qed
    moreover have "entry_at keyed ?st' = entry_at keyed s1" by (simp add: entry_at_def fun_eq_iff)
    moreover have "bins_rep ?st' (bs[i := remove1 c (bs ! i)])"
      using s1(2) bin_rep_cong [of _ ?st' s1] by (auto simp: bins_rep_def)
    moreover have "\<forall>p \<in> set (remove_first k xs). valid (fst p)"
      using assms(1) set_remove_first [of k xs] by (auto simp: table_rep_def)
    ultimately have "table_rep hashes idx keyed valid ?st' (remove_first k xs)"
      using rep_step [OF assms(1) _ cfg, of "bs[i := remove1 c (bs ! i)]" "remove_first k xs"] assms(1) s1(4)
        length_remove_first [OF md] by (auto simp: table_rep_def)
    moreover have "dom (elems ?st') \<subseteq> dom (elems st)"
    proof
      fix x assume "x \<in> dom (elems ?st')"
      then show "x \<in> dom (elems st)"
        using s1(3) [of x] by (cases "elems st x") (auto split: if_splits)
    qed
    ultimately show ?thesis using that rm cfg by blast
  qed
qed

lemma find_null_rep:
  assumes "table_rep hashes idx keyed valid st xs" "valid k"
  shows "find_null (idx k st) (same k) st = Some (case map_of xs k of None \<Rightarrow> 0 | Some d \<Rightarrow> d)"
  using find_gen_rep [OF assms] by (simp add: find_null_def)

lemma new_table_rep:
  assumes "0 < unat n" "unat n < 2 ^ 31" "hashes t"
  shows "table_rep hashes idx keyed valid (mxHashTable n t dup) []"
  using assms by (auto simp: table_rep_def table_ok_def mxHashTable_def bins_rep_def
    intro!: exI [of _ "replicate (unat n) []"])

end

section \<open>The four kinds of keys\<close>

lemma word_of_int_bin:
  assumes "0 \<le> v" "v < int n" "n < 2 ^ 31"
  shows "\<exists>i < n. (word_of_int v :: s32) = of_nat i"
  using assms by (intro exI [of _ "nat v"]) auto

lemma sint_of_nat_s32: "m < 2 ^ 31 \<Longrightarrow> sint (of_nat m :: s32) = int m"
  by (simp add: signed_of_nat signed_take_bit_int_eq_self)

lemma sint_word_of_int_s32: "- (2 ^ 31) \<le> v \<Longrightarrow> v < 2 ^ 31 \<Longrightarrow> sint (word_of_int v :: s32) = v"
  by (simp add: signed_of_int signed_take_bit_int_eq_self)

lemma sint_small: "unat (n :: s32) < 2 ^ 31 \<Longrightarrow> sint n = int (unat n)"
  using sint_of_nat_s32 [of "unat n"] by simp

lemma bin_of_range:
  assumes "table_ok st"
  shows "\<exists>i < length (mpBin st). bin_of x st = Some (of_nat i)"
proof -
  let ?n = "mBinNumber st" and ?N = "length (mpBin st)"
  from assms have N: "?N = unat ?n" "0 < ?N" "?N < 2 ^ 31" unfolding table_ok_def by blast+
  have sn: "sint ?n = int ?N" using N sint_small [of ?n] by simp
  show ?thesis
  proof (cases "mBitMask st = 0")
    case False
    with assms have m: "mBitMask st = ?n - 1" by (auto simp: table_ok_def split: if_splits)
    let ?v = "x AND mBitMask st"
    have "unat ?v \<le> unat (?n - 1)" using m word_and_le1 [of x "?n - 1"] by (simp add: word_le_nat_alt)
    also have "\<dots> < ?N" using N by (simp add: unat_sub_if' word_le_nat_alt)
    finally have v: "unat ?v < ?N" .
    then have "0 \<le> sint ?v" using N sint_small [of ?v] by simp
    with False v show ?thesis by (intro exI [of _ "unat ?v"]) (simp add: bin_of_def)
  next
    case True
    define r where "r = sint x smod sint ?n"
    define m where "m = int ?N"
    have m: "0 < m" "m < 2 ^ 31" "sint ?n = m" using N(2,3) sn by (simp_all only: m_def, simp_all)
    have r: "- m < r" "r < m"
      using smod_int_range [of m "sint x"] m(1) unfolding r_def m(3) by auto
    have sr: "sint (word_of_int r :: s32) = r"
      by (rule sint_word_of_int_s32) (use r m(2) in linarith)+
    have "?n \<noteq> 0" "?n \<noteq> - 1" using m(1,3) by auto
    then have b: "bin_of x st = Some (if r < 0 then word_of_int r + ?n else word_of_int r)"
      using True sr by (simp add: bin_of_def c_rem_def r_def)
    have n: "?n = word_of_int m" unfolding m(3) [symmetric] by simp
    have "\<exists>i < ?N. (word_of_int v :: s32) = of_nat i" if "0 \<le> v" "v < m" for v
      by (rule word_of_int_bin) (use that N(3) in \<open>auto simp: m_def\<close>)
    from this [of r] this [of "r + m"] r m b show ?thesis unfolding n
      by (cases "r < 0") simp_all
  qed
qed

lemma str_sum_range:
  assumes "table_ok st"
  shows "\<exists>i < length (mpBin st).
    (if mBitMask st \<noteq> 0 then Some (h AND mBitMask st) else if mBinNumber st = 0 then None else Some (h mod mBinNumber st))
      = Some (of_nat i :: s32)"
proof -
  let ?n = "mBinNumber st" and ?N = "length (mpBin st)"
  from assms have N: "?N = unat ?n" "0 < ?N" "?N < 2 ^ 31" unfolding table_ok_def by blast+
  show ?thesis
  proof (cases "mBitMask st = 0")
    case False
    with assms have m: "mBitMask st = ?n - 1" by (auto simp: table_ok_def split: if_splits)
    have "unat (h AND mBitMask st) \<le> unat (?n - 1)" using m word_and_le1 [of h "?n - 1"] by (simp add: word_le_nat_alt)
    also have "\<dots> < ?N" using N by (simp add: unat_sub_if' word_le_nat_alt)
    finally show ?thesis using False by (intro exI [of _ "unat (h AND mBitMask st)"]) simp
  next
    case True
    have "unat (h mod ?n) < ?N" using N by (simp add: unat_mod_distrib)
    moreover have "?n \<noteq> 0" using N by auto
    ultimately show ?thesis using True by (intro exI [of _ "unat (h mod ?n)"]) simp
  qed
qed

lemma same_config_idx:
  assumes "same_config st st'"
  shows "bin_of x st' = bin_of x st" "findBinIndex_int k st' = findBinIndex_int k st"
    "findBinIndex_int2 k1 k2 st' = findBinIndex_int2 k1 k2 st" "findBinIndex_str bs n st' = findBinIndex_str bs n st"
    "findBinIndex_ptr q st' = findBinIndex_ptr q st"
proof -
  have e: "mBinNumber st' = mBinNumber st" "mBitMask st' = mBitMask st" "mHashType st' = mHashType st"
    using assms by (auto simp: same_config_def)
  show "bin_of x st' = bin_of x st" "findBinIndex_int k st' = findBinIndex_int k st"
    "findBinIndex_int2 k1 k2 st' = findBinIndex_int2 k1 k2 st" "findBinIndex_str bs n st' = findBinIndex_str bs n st"
    "findBinIndex_ptr q st' = findBinIndex_ptr q st"
    unfolding bin_of_def findBinIndex_int_def findBinIndex_int2_def findBinIndex_str_def findBinIndex_ptr_def e
    by (rule refl)+
qed

text \<open>The key an element was built for.\<close>

definition keyed_int :: "hash_elem \<Rightarrow> s32 \<Rightarrow> bool" where
  "keyed_int e k \<longleftrightarrow> pKey e = NullKey \<and> nKey e = k"

definition keyed_int2 :: "hash_elem \<Rightarrow> s32 \<times> s32 \<Rightarrow> bool" where
  "keyed_int2 e k \<longleftrightarrow> pKey e = NullKey \<and> (nKey e, nKey1 e) = k"

definition keyed_str :: "hash_elem \<Rightarrow> u8 list \<Rightarrow> bool" where
  "keyed_str e bs \<longleftrightarrow> pKey e = KeyBuf bs \<and> nLen e = of_nat (length bs)"

definition keyed_ptr :: "hash_elem \<Rightarrow> u64 \<Rightarrow> bool" where
  "keyed_ptr e k \<longleftrightarrow> ptrKey e = k \<and> pKey e = NullKey"

definition valid_str :: "u8 list \<Rightarrow> bool" where
  "valid_str bs \<longleftrightarrow> bs \<noteq> [] \<and> length bs < 2 ^ 31"

lemmas keyed_defs = keyed_int_def keyed_int2_def keyed_str_def keyed_ptr_def

interpretation int_key: key_kind "\<lambda>t. t = INT32Type \<or> t = MainCCType" findBinIndex_int isSameKey_int
  "\<lambda>a k d. Some (hashElement_int a k d)" keyed_int "\<lambda>k. True"
proof (unfold_locales, goal_cases)
  case (1 st k)
  then show ?case using bin_of_range [OF 1(1)] by (auto simp: findBinIndex_int_def Let_def)
qed (auto simp: same_config_idx isSameKey_int_def hashElement_int_def keyed_defs dest: core_eqD)

interpretation int2_key: key_kind "\<lambda>t. t = INT64Type" "\<lambda>(k1, k2). findBinIndex_int2 k1 k2"
  "\<lambda>(k1, k2). isSameKey_int2 k1 k2" "\<lambda>a (k1, k2) d. Some (hashElement_int2 a k1 k2 d)" keyed_int2 "\<lambda>k. True"
proof (unfold_locales, goal_cases)
  case (1 st k)
  then show ?case using bin_of_range [OF 1(1)] by (cases k) (simp add: findBinIndex_int2_def)
qed (auto simp: same_config_idx isSameKey_int2_def hashElement_int2_def keyed_defs dest: core_eqD)

interpretation ptr_key: key_kind "\<lambda>t. t = PointerType" findBinIndex_ptr isSameKey_ptr
  "\<lambda>a k d. Some (hashElement_ptr a k d)" keyed_ptr "\<lambda>k. k \<noteq> 0"
proof (unfold_locales, goal_cases)
  case (1 st k)
  then show ?case using bin_of_range [OF 1(1)] by (auto simp: findBinIndex_ptr_def Let_def)
qed (auto simp: same_config_idx isSameKey_ptr_def hashElement_ptr_def keyed_defs dest: core_eqD)

interpretation str_key: key_kind "\<lambda>t. t = StringType" "\<lambda>bs. findBinIndex_str bs (of_nat (length bs))"
  "\<lambda>bs. isSameKey_str bs (of_nat (length bs))" "\<lambda>a bs d. hashElement_str a bs (of_nat (length bs)) d" keyed_str valid_str
proof (unfold_locales, goal_cases)
  case (1 st bs)
  then have "unat (of_nat (length bs) :: s32) = length bs" by (simp add: valid_str_def unat_of_nat)
  with 1 show ?case using str_sum_range [OF 1(1), of "str_sum 0 bs"] by (simp add: findBinIndex_str_def Let_def)
next
  case (3 e bs' bs)
  have len: "unat (of_nat (length bs) :: s32) = length bs" "unat (of_nat (length bs') :: s32) = length bs'"
    using 3 by (simp_all add: valid_str_def unat_of_nat)
  have "(of_nat (length bs) :: s32) = of_nat (length bs') \<longleftrightarrow> length bs = length bs'"
    using len by metis
  with 3 len show ?case by (auto simp: isSameKey_str_def keyed_str_def)
next
  case (5 bs a d)
  then have len: "unat (of_nat (length bs) :: s32) = length bs" "sint (of_nat (length bs) :: s32) = int (length bs)"
    by (simp_all add: valid_str_def unat_of_nat sint_of_nat_s32)
  moreover have "(of_nat (length bs) :: s32) \<noteq> 0" using 5 len(1) by (auto simp: valid_str_def)
  ultimately show ?case by (simp add: hashElement_str_def keyed_str_def)
qed (auto simp: same_config_idx keyed_defs dest: core_eqD)

section \<open>Runs of operations\<close>

text \<open>
  The address in \<open>OpInsert\<close> is the one that \<^verbatim>\<open>new\<close> gives to the element, if it is called.
  \<open>OpFindNull\<close> is the overload of \<^verbatim>\<open>find\<close> without the flag.
\<close>

datatype 'k table_op = OpInsert addr 'k u64 | OpFind 'k | OpFindNull 'k | OpRemove 'k

datatype table_out = OutBool bool | OutFound "u64 option" | OutData u64

fun op_key :: "'k table_op \<Rightarrow> 'k" where
  "op_key (OpInsert a k d) = k"
| "op_key (OpFind k) = k"
| "op_key (OpFindNull k) = k"
| "op_key (OpRemove k) = k"

fun op_addrs :: "'k table_op list \<Rightarrow> addr list" where
  "op_addrs [] = []"
| "op_addrs (OpInsert a k d # ops) = a # op_addrs ops"
| "op_addrs (_ # ops) = op_addrs ops"

fun run_ops ::
  "(addr \<Rightarrow> 'k \<Rightarrow> u64 \<Rightarrow> hash_table \<Rightarrow> (hash_table \<times> bool) option) \<Rightarrow> ('k \<Rightarrow> hash_table \<Rightarrow> u64 option option) \<Rightarrow>
    ('k \<Rightarrow> hash_table \<Rightarrow> u64 option) \<Rightarrow> ('k \<Rightarrow> hash_table \<Rightarrow> (hash_table \<times> u64) option) \<Rightarrow>
    'k table_op list \<Rightarrow> hash_table \<Rightarrow> (hash_table \<times> table_out list) option" where
  "run_ops ins fnd fnd0 rem [] st = Some (st, [])"
| "run_ops ins fnd fnd0 rem (OpInsert a k d # ops) st =
     do { (st1, b) \<leftarrow> ins a k d st; (st2, outs) \<leftarrow> run_ops ins fnd fnd0 rem ops st1; Some (st2, OutBool b # outs) }"
| "run_ops ins fnd fnd0 rem (OpFind k # ops) st =
     do { r \<leftarrow> fnd k st; (st2, outs) \<leftarrow> run_ops ins fnd fnd0 rem ops st; Some (st2, OutFound r # outs) }"
| "run_ops ins fnd fnd0 rem (OpFindNull k # ops) st =
     do { r \<leftarrow> fnd0 k st; (st2, outs) \<leftarrow> run_ops ins fnd fnd0 rem ops st; Some (st2, OutData r # outs) }"
| "run_ops ins fnd fnd0 rem (OpRemove k # ops) st =
     do { (st1, d) \<leftarrow> rem k st; (st2, outs) \<leftarrow> run_ops ins fnd fnd0 rem ops st1; Some (st2, OutData d # outs) }"

text \<open>The same operations on the association list; \<open>dup\<close> says whether keys may be inserted twice.\<close>

definition data_or_null :: "u64 option \<Rightarrow> u64" where
  "data_or_null r = (case r of None \<Rightarrow> 0 | Some d \<Rightarrow> d)"

fun spec_step :: "bool \<Rightarrow> 'k table_op \<Rightarrow> ('k \<times> u64) list \<Rightarrow> ('k \<times> u64) list \<times> table_out" where
  "spec_step dup (OpInsert a k d) xs =
     (if \<not> dup \<and> map_of xs k \<noteq> None then (xs, OutBool False) else (xs @ [(k, d)], OutBool True))"
| "spec_step dup (OpFind k) xs = (xs, OutFound (map_of xs k))"
| "spec_step dup (OpFindNull k) xs = (xs, OutData (data_or_null (map_of xs k)))"
| "spec_step dup (OpRemove k) xs = (remove_first k xs, OutData (data_or_null (map_of xs k)))"

fun spec_ops :: "bool \<Rightarrow> 'k table_op list \<Rightarrow> ('k \<times> u64) list \<Rightarrow> ('k \<times> u64) list \<times> table_out list" where
  "spec_ops dup [] xs = (xs, [])"
| "spec_ops dup (x # ops) xs =
     (case spec_step dup x xs of (xs1, out) \<Rightarrow> apsnd ((#) out) (spec_ops dup ops xs1))"

context key_kind
begin

lemma insert_gen_dup:
  assumes "table_rep hashes idx keyed valid st xs" "valid k" "mDuplicateNumber st = 0" "map_of xs k \<noteq> None"
  shows "insert_gen (idx k st) (same k) e a st = Some (st, False)"
  using find_gen_rep [OF assms(1,2)] assms(3,4) by (auto simp: insert_gen_def)

lemma run_ops_rep:
  assumes "table_rep hashes idx keyed valid st xs" "\<forall>x \<in> set ops. valid (op_key x)"
    "distinct (op_addrs ops)" "set (op_addrs ops) \<inter> dom (elems st) = {}" "dup = (mDuplicateNumber st \<noteq> 0)"
  shows "\<exists>st'. run_ops (\<lambda>a k d s. insert_gen (idx k s) (same k) (new a k d) a s) (\<lambda>k s. find_gen (idx k s) (same k) s)
      (\<lambda>k s. find_null (idx k s) (same k) s) (\<lambda>k s. remove_gen (idx k s) (same k) s) ops st
        = Some (st', snd (spec_ops dup ops xs)) \<and>
    table_rep hashes idx keyed valid st' (fst (spec_ops dup ops xs))"
  using assms
proof (induction ops arbitrary: st xs)
  case (Cons x ops)
  note rep = Cons.prems(1)
  show ?case
  proof (cases x)
    case (OpInsert a k d)
    then have v: "valid k" and a: "a \<notin> dom (elems st)" using Cons.prems by auto
    show ?thesis
    proof (cases "\<not> dup \<and> map_of xs k \<noteq> None")
      case True
      then have "insert_gen (idx k st) (same k) (new a k d) a st = Some (st, False)"
        using insert_gen_dup [OF rep v] Cons.prems(5) by blast
      with Cons.IH [OF rep] Cons.prems OpInsert True show ?thesis by auto
    next
      case False
      then obtain st1 where st1: "insert_gen (idx k st) (same k) (new a k d) a st = Some (st1, True)"
        "table_rep hashes idx keyed valid st1 (xs @ [(k, d)])" "same_config st st1"
        "dom (elems st1) = insert a (dom (elems st))"
        using insert_gen_rep [OF rep v a] Cons.prems(5) by metis
      have "\<exists>st'. run_ops (\<lambda>a k d s. insert_gen (idx k s) (same k) (new a k d) a s) (\<lambda>k s. find_gen (idx k s) (same k) s)
        (\<lambda>k s. find_null (idx k s) (same k) s) (\<lambda>k s. remove_gen (idx k s) (same k) s) ops st1
          = Some (st', snd (spec_ops dup ops (xs @ [(k, d)]))) \<and>
        table_rep hashes idx keyed valid st' (fst (spec_ops dup ops (xs @ [(k, d)])))"
        by (rule Cons.IH [OF st1(2)]) (use Cons.prems OpInsert st1(3,4) in \<open>auto simp: same_config_def\<close>)
      with OpInsert False st1(1) show ?thesis by auto
    qed
  next
    case (OpFind k)
    with find_gen_rep [OF rep, of k] Cons.IH [OF rep] Cons.prems show ?thesis by auto
  next
    case (OpFindNull k)
    with find_null_rep [OF rep, of k] Cons.IH [OF rep] Cons.prems show ?thesis by (auto simp: data_or_null_def)
  next
    case (OpRemove k)
    then have v: "valid k" using Cons.prems by auto
    obtain st1 where st1: "remove_gen (idx k st) (same k) st = Some (st1, case map_of xs k of None \<Rightarrow> 0 | Some d \<Rightarrow> d)"
      "table_rep hashes idx keyed valid st1 (remove_first k xs)" "same_config st st1" "dom (elems st1) \<subseteq> dom (elems st)"
      using remove_gen_rep [OF rep v] by metis
    have "\<exists>st'. run_ops (\<lambda>a k d s. insert_gen (idx k s) (same k) (new a k d) a s) (\<lambda>k s. find_gen (idx k s) (same k) s)
      (\<lambda>k s. find_null (idx k s) (same k) s) (\<lambda>k s. remove_gen (idx k s) (same k) s) ops st1
        = Some (st', snd (spec_ops dup ops (remove_first k xs))) \<and>
      table_rep hashes idx keyed valid st' (fst (spec_ops dup ops (remove_first k xs)))"
    proof (rule Cons.IH [OF st1(2)])
      have "set (op_addrs ops) \<inter> dom (elems st) = {}" using Cons.prems(4) OpRemove by simp
      with st1(4) show "set (op_addrs ops) \<inter> dom (elems st1) = {}" by blast
    qed (use Cons.prems OpRemove st1(3) in \<open>auto simp: same_config_def\<close>)
    with OpRemove st1(1) show ?thesis by (auto simp: data_or_null_def)
  qed
qed simp

text \<open>From the constructor on.\<close>

lemma run_new_table:
  assumes "0 < unat n" "unat n < 2 ^ 31" "hashes t" "\<forall>x \<in> set ops. valid (op_key x)" "distinct (op_addrs ops)"
  shows "\<exists>st'. run_ops (\<lambda>a k d s. insert_gen (idx k s) (same k) (new a k d) a s) (\<lambda>k s. find_gen (idx k s) (same k) s)
      (\<lambda>k s. find_null (idx k s) (same k) s) (\<lambda>k s. remove_gen (idx k s) (same k) s) ops (mxHashTable n t dup)
        = Some (st', snd (spec_ops (dup \<noteq> 0) ops [])) \<and>
    table_rep hashes idx keyed valid st' (fst (spec_ops (dup \<noteq> 0) ops [])) \<and>
    size_ht st' = of_nat (length (fst (spec_ops (dup \<noteq> 0) ops [])))"
  using run_ops_rep [OF new_table_rep [OF assms(1-3)] assms(4,5), of dup "dup \<noteq> 0"]
  by (auto simp: mxHashTable_def size_ht_def table_rep_def)

end

end
