(* ===== verification/HashTableProps.thy ===== *)
theory HashTableProps
  imports HashTableCorrect
begin

text \<open>
  \<^verbatim>\<open>clear\<close>, and the properties of the four kinds of tables.
\<close>

section \<open>clear\<close>

definition no_keys :: "hash_table \<Rightarrow> bool" where
  "no_keys st \<longleftrightarrow> (\<forall>a e. elems st a = Some e \<longrightarrow> pKey e = NullKey)"

definition count_ok :: "hash_table \<Rightarrow> addr list list \<Rightarrow> bool" where
  "count_ok st bs \<longleftrightarrow> mNumberOfElement st = of_nat (sum_list (map length bs))"

lemma bin_links:
  assumes "bins_rep st bs" "i < length bs" "bs ! i = us @ c # ys" "elems st c = Some e"
  shows "pPrev e = last (c # ys @ us)" "pNext e = hd (ys @ us @ [c])"
proof -
  have "bin_rep st (mpBin st ! i) (us @ c # ys)" using bins_repD(2) [OF assms(1,2)] assms(3) by simp
  then have "ring (nexts st) (prevs st) (us @ c # ys)" by (cases "mpBin st ! i") auto
  from ring_before [OF this] ring_after [OF this] assms(4)
  show "pPrev e = last (c # ys @ us)" "pNext e = hd (ys @ us @ [c])"
    by (simp_all add: nexts_def prevs_def)
qed

text \<open>The second call of the destructor finds nothing to do if there is no key buffer.\<close>

lemma destruct_twice:
  assumes "elems st c = Some e" "pKey e = NullKey" "pNext e = c \<longleftrightarrow> pPrev e = c" "destruct_elem c st = Some s1"
  shows "destruct_elem c s1 = Some s1"
proof (cases "pPrev e = c")
  case True
  with assms show ?thesis by (simp add: destruct_elem_def)
next
  case False
  with assms(3) have "pNext e \<noteq> c" by simp
  from assms(1,2,4) False obtain p where p: "elems st (pPrev e) = Some p"
    by (cases "elems st (pPrev e)") (auto simp: destruct_elem_def update_elem_def)
  define m where "m = (elems st)(pPrev e \<mapsto> p\<lparr>pNext := pNext e\<rparr>)"
  from assms(1,2,4) False p obtain q where q: "m (pNext e) = Some q"
    by (cases "m (pNext e)") (auto simp: destruct_elem_def update_elem_def m_def split: if_splits)
  have s1: "s1 = st\<lparr>elems := m(pNext e \<mapsto> q\<lparr>pPrev := pPrev e\<rparr>)\<rparr>"
    using assms(1,2,4) False p q by (auto simp: destruct_elem_def update_elem_def m_def)
  have "elems s1 c = Some e" using s1 False \<open>pNext e \<noteq> c\<close> assms(1) by (simp add: m_def)
  moreover obtain p' where p': "elems s1 (pPrev e) = Some p'" "pNext p' = pNext e"
    using s1 p q by (auto simp: m_def split: if_splits)
  moreover obtain q' where q': "elems s1 (pNext e) = Some q'" "pPrev q' = pPrev e"
    using s1 q by (auto simp: m_def)
  moreover have "s1\<lparr>elems := (elems s1)(x \<mapsto> y)\<rparr> = s1" if "elems s1 x = Some y" for x y
    using that by (simp add: map_upd_triv)
  ultimately show ?thesis
    using False assms(2) by (auto simp: destruct_elem_def update_elem_def fun_upd_idem)
qed

lemma clear_elem_delete:
  assumes "elems st c = Some e" "pKey e = NullKey" "pNext e = c \<longleftrightarrow> pPrev e = c" "delete_elem c st = Some s1"
  shows "clear_elem c st = Some (dec_count s1)"
  using assms destruct_twice [OF assms(1-3)]
  by (auto simp: clear_elem_def delete_elem_def bind_eq_Some_conv)

lemma count_ok_update:
  "i < length bs \<Longrightarrow> count_ok st bs \<Longrightarrow> length (bs ! i) = Suc (length xs) \<Longrightarrow>
    mNumberOfElement st' = mNumberOfElement st - 1 \<Longrightarrow> count_ok st' (bs[i := xs])"
proof -
  assume a: "i < length bs" "count_ok st bs" "length (bs ! i) = Suc (length xs)" "mNumberOfElement st' = mNumberOfElement st - 1"
  have "length (bs ! i) \<le> sum_list (map length bs)" using a(1) by (intro member_le_sum_list) auto
  with a(1,3) have "sum_list (map length bs) = Suc (sum_list (map length (bs[i := xs])))"
    by (simp add: map_update sum_list_update)
  with a(2,4) show ?thesis by (simp add: count_ok_def)
qed

lemma clear_step:
  assumes "bins_rep st bs" "i < length bs" "bs ! i = h # zs @ [c]" "no_keys st" "count_ok st bs"
  obtains st' e where "elems st c = Some e" "pPrev e = last (h # zs)" "clear_elem c st = Some st'"
    "bins_rep st' (bs[i := h # zs])" "no_keys st'" "count_ok st' (bs[i := h # zs])" "mpBin st' = mpBin st"
    "same_config st st'"
proof -
  note b = bins_repD [OF assms(1,2)]
  have c: "c \<in> set (bs ! i)" "c \<noteq> h" "c \<noteq> last (h # zs)" "c \<notin> set (h # zs)" using b(4) assms(3) last_in_set [of "h # zs"] by auto
  then obtain e where e: "elems st c = Some e" "pKey e = NullKey" using b(3) assms(4) by (auto simp: no_keys_def)
  have l: "pPrev e = last (h # zs)" "pNext e = h"
    using bin_links [OF assms(1,2) _ e(1), of "h # zs" "[]"] assms(3) by auto
  have bin: "mpBin st ! i = (if pPrev e = c then None else if c = hd (bs ! i) then Some (pNext e) else mpBin st ! i)"
    using l c assms(3) by simp
  have k: "pKey e \<noteq> FreedKey" using e(2) by simp
  have st: "st\<lparr>mpBin := (mpBin st)[i := mpBin st ! i]\<rparr> = st" by simp
  obtain s1 where s1: "delete_elem c st = Some s1" "bins_rep s1 (bs[i := remove1 c (bs ! i)])"
    "\<And>x. map_option core (elems s1 x) = map_option core (((elems st)(c := None)) x)"
    "mNumberOfElement s1 = mNumberOfElement st"
    "mHashType s1 = mHashType st" "mBinNumber s1 = mBinNumber st" "mBitMask s1 = mBitMask st"
    "mDuplicateNumber s1 = mDuplicateNumber st" "length (mpBin s1) = length (mpBin st)" "mpBin s1 = mpBin st"
  proof -
    have same_bins: "mpBin s1 = mpBin st" if "delete_elem c st = Some s1" for s1
      using that by (auto simp: delete_elem_def destruct_elem_def update_elem_def bind_eq_Some_conv
        split: if_splits key_ptr.splits)
    show ?thesis
      using delete_elem_rep [OF assms(1,2) c(1) e(1) k bin] st same_bins that by metis
  qed
  have rm: "remove1 c (bs ! i) = h # zs" using assms(3) c(4) by (simp add: remove1_append)
  have "clear_elem c st = Some (dec_count s1)"
    using clear_elem_delete [OF e _ s1(1)] l c by simp
  moreover have "bins_rep (dec_count s1) (bs[i := h # zs])"
    using s1(2) rm bin_rep_cong [of _ "dec_count s1" s1] by (auto simp: bins_rep_def dec_count_def)
  moreover have "no_keys (dec_count s1)"
    unfolding no_keys_def
  proof (intro allI impI)
    fix a x assume "elems (dec_count s1) a = Some x"
    then obtain y where "elems st a = Some y" "core y = core x"
      using s1(3) [of a] by (cases "elems st a") (auto simp: dec_count_def split: if_splits)
    with core_eqD(2) [of y x] assms(4) show "pKey x = NullKey" by (auto simp: no_keys_def)
  qed
  moreover have "count_ok (dec_count s1) (bs[i := h # zs])"
    by (rule count_ok_update [OF assms(2,5)]) (simp_all add: assms(3) s1(4) dec_count_def)
  moreover have "mpBin (dec_count s1) = mpBin st" "same_config st (dec_count s1)"
    using s1 by (simp_all add: dec_count_def same_config_def)
  ultimately show ?thesis using that e(1) l(1) by blast
qed

lemma clear_loop_rep:
  assumes "bins_rep st bs" "i < length bs" "bs ! i = h # zs" "no_keys st" "count_ok st bs"
  shows "\<exists>st'. clear_loop h (last (h # zs)) st = Some st' \<and> bins_rep st' (bs[i := [h]]) \<and> no_keys st' \<and>
    count_ok st' (bs[i := [h]]) \<and> mpBin st' = mpBin st \<and> same_config st st'"
  using assms
proof (induction zs arbitrary: st bs rule: rev_induct)
  case Nil
  then have "bs[i := [h]] = bs" by (metis list_update_id)
  with Nil show ?case by (subst clear_loop.simps) (simp add: same_config_def)
next
  case (snoc c zs)
  from snoc.prems(3) have "bs ! i = h # zs @ [c]" by simp
  from clear_step [OF snoc.prems(1,2) this snoc.prems(4,5)]
  obtain s1 e where s1: "elems st c = Some e" "pPrev e = last (h # zs)" "clear_elem c st = Some s1"
    "bins_rep s1 (bs[i := h # zs])" "no_keys s1" "count_ok s1 (bs[i := h # zs])" "mpBin s1 = mpBin st" "same_config st s1"
    by blast
  from snoc.IH [OF s1(4) _ _ s1(5,6)] snoc.prems(2) obtain st' where st':
    "clear_loop h (last (h # zs)) s1 = Some st'" "bins_rep st' (bs[i := [h]])" "no_keys st'"
    "count_ok st' (bs[i := [h]])" "mpBin st' = mpBin s1" "same_config s1 st'" by auto
  have "c \<noteq> h" using bins_repD(4) [OF snoc.prems(1,2)] snoc.prems(3) by auto
  then have "clear_loop h (last (h # zs @ [c])) st = Some st'"
    using s1(1-3) st'(1) by (subst clear_loop.simps) simp
  with st' s1(7,8) show ?case by (auto simp: same_config_def)
qed

lemma clear_bin_rep:
  assumes "bins_rep st bs" "i < length bs" "no_keys st" "count_ok st bs"
  shows "\<exists>st'. clear_bin i st = Some st' \<and> bins_rep st' (bs[i := []]) \<and> no_keys st' \<and> count_ok st' (bs[i := []]) \<and>
    same_config st st'"
proof (cases "bs ! i")
  case Nil
  then have "mpBin st ! i = None" using bins_repD(2) [OF assms(1,2)] bin_rep_empty by blast
  moreover have "bs[i := []] = bs" using Nil by (metis list_update_id)
  ultimately show ?thesis using assms by (simp add: clear_bin_def same_config_def)
next
  case (Cons h zs)
  then have top: "mpBin st ! i = Some h" using bins_repD(2) [OF assms(1,2)] by (cases "mpBin st ! i") auto
  obtain e where e: "elems st h = Some e" using bins_repD(3) [OF assms(1,2)] Cons by auto
  have pe: "pPrev e = last (h # zs)" using bin_links(1) [OF assms(1,2) _ e, of "[]"] Cons by simp
  obtain s1 where s1: "clear_loop h (last (h # zs)) st = Some s1" "bins_rep s1 (bs[i := [h]])" "no_keys s1"
    "count_ok s1 (bs[i := [h]])" "mpBin s1 = mpBin st" "same_config st s1"
    using clear_loop_rep [OF assms(1,2) Cons assms(3,4)] by blast
  have i: "i < length (bs[i := [h]])" using assms(2) by simp
  have h: "h \<in> dom (elems s1)" using bins_repD(3) [OF s1(2) i] i by simp
  then obtain e1 where e1: "elems s1 h = Some e1" "pKey e1 = NullKey" using s1(3) by (auto simp: no_keys_def)
  have l: "pPrev e1 = h" "pNext e1 = h"
    using bin_links [OF s1(2) i _ e1(1), of "[]" "[]"] i by simp_all
  let ?s2 = "s1\<lparr>elems := (elems s1)(h := None)\<rparr>"
  have "clear_elem h s1 = Some (dec_count ?s2)"
    using e1 l by (simp add: clear_elem_def destruct_elem_def delete_elem_def)
  then have "clear_bin i st = Some ((dec_count ?s2)\<lparr>mpBin := (mpBin s1)[i := None]\<rparr>)"
    using top e pe s1(1) by (simp add: clear_bin_def dec_count_def)
  moreover have "bins_rep ((dec_count ?s2)\<lparr>mpBin := (mpBin s1)[i := None]\<rparr>) ((bs[i := [h]])[i := []])"
    by (rule bins_repI [OF s1(2) i]) (use i in \<open>auto simp: dec_count_def split: if_splits\<close>)
  moreover have "count_ok ((dec_count ?s2)\<lparr>mpBin := (mpBin s1)[i := None]\<rparr>) ((bs[i := [h]])[i := []])"
    by (rule count_ok_update [OF i s1(4)]) (use i in \<open>simp_all add: dec_count_def\<close>)
  ultimately show ?thesis using s1(3,6) by (auto simp: no_keys_def same_config_def dec_count_def)
qed

lemma clear_bins_rep:
  assumes "bins_rep st bs" "set is \<subseteq> {..<length bs}" "no_keys st" "count_ok st bs"
  shows "\<exists>st' bs'. clear_bins is st = Some st' \<and> bins_rep st' bs' \<and> no_keys st' \<and> count_ok st' bs' \<and> length bs' = length bs \<and>
    (\<forall>j. bs ! j = [] \<or> j \<in> set is \<longrightarrow> j < length bs \<longrightarrow> bs' ! j = []) \<and> same_config st st'"
  using assms
proof (induction "is" arbitrary: st bs)
  case Nil
  then show ?case by (auto simp: same_config_def)
next
  case (Cons i "is")
  then have i: "i < length bs" by simp
  obtain s1 where s1: "clear_bin i st = Some s1" "bins_rep s1 (bs[i := []])" "no_keys s1" "count_ok s1 (bs[i := []])"
    "same_config st s1"
    using clear_bin_rep [OF Cons.prems(1) i Cons.prems(3,4)] by blast
  from Cons.IH [OF s1(2) _ s1(3,4)] Cons.prems(2) obtain st' bs' where
    "clear_bins is s1 = Some st'" "bins_rep st' bs'" "no_keys st'" "count_ok st' bs'" "length bs' = length bs"
    "\<forall>j. bs[i := []] ! j = [] \<or> j \<in> set is \<longrightarrow> j < length bs \<longrightarrow> bs' ! j = []" "same_config s1 st'"
    by auto
  with s1(1,5) i show ?case
    by (intro exI [of _ st'] exI [of _ bs']) (auto simp: nth_list_update same_config_def)
qed

lemma clear_rep:
  assumes "table_ok st" "bins_rep st bs" "no_keys st" "count_ok st bs"
  shows "\<exists>st'. clear st = Some st' \<and> mpBin st' = replicate (length (mpBin st)) None \<and> elems st' = Map.empty \<and>
    size_ht st' = 0 \<and> same_config st st'"
proof -
  have n: "nat (sint (mBinNumber st)) = length bs"
    using assms(1) sint_small [of "mBinNumber st"] bins_rep_length [OF assms(2)] by (simp add: table_ok_def)
  have "set [0..<length bs] \<subseteq> {..<length bs}" by auto
  from clear_bins_rep [OF assms(2) this assms(3,4)] obtain st' bs' where
    cl: "clear_bins [0..<length bs] st = Some st'" "bins_rep st' bs'" "count_ok st' bs'" "length bs' = length bs"
      "\<forall>j. bs ! j = [] \<or> j \<in> set [0..<length bs] \<longrightarrow> j < length bs \<longrightarrow> bs' ! j = []" "same_config st st'"
    by (elim exE conjE) (rule that)
  have "clear st = Some st'" unfolding clear_def n by (rule cl(1))
  moreover have "\<forall>j < length bs. bs' ! j = []" using cl(5) by simp
  ultimately have st': "clear st = Some st'" "bins_rep st' bs'" "count_ok st' bs'" "length bs' = length bs"
    "\<forall>j < length bs. bs' ! j = []" "same_config st st'"
    using cl(2,3,4,6) by blast+
  have bs': "bs' = replicate (length bs) []" by (rule nth_equalityI) (use st'(4,5) in simp_all)
  have "mpBin st' ! j = None" if "j < length bs" for j
    using bins_repD(2) [OF st'(2), of j] bin_rep_empty [of st' "mpBin st' ! j" "bs' ! j"] that st'(4,5) by simp
  then have "mpBin st' = replicate (length (mpBin st)) None"
    by (intro nth_equalityI) (use bins_rep_length [OF st'(2)] bins_rep_length [OF assms(2)] st'(4) in simp_all)
  moreover have "dom (elems st') = {}" using st'(2) bs' by (auto simp: bins_rep_def)
  moreover have "size_ht st' = 0" using st'(3) bs' by (simp add: count_ok_def size_ht_def sum_list_replicate)
  ultimately show ?thesis using st'(1,6) by auto
qed

section \<open>Tables of the four kinds\<close>

abbreviation int_table :: "hash_table \<Rightarrow> (s32 \<times> u64) list \<Rightarrow> bool" where
  "int_table \<equiv> table_rep (\<lambda>t. t = INT32Type \<or> t = MainCCType) findBinIndex_int keyed_int (\<lambda>k. True)"

abbreviation int2_table :: "hash_table \<Rightarrow> ((s32 \<times> s32) \<times> u64) list \<Rightarrow> bool" where
  "int2_table \<equiv> table_rep (\<lambda>t. t = INT64Type) (\<lambda>(k1, k2). findBinIndex_int2 k1 k2) keyed_int2 (\<lambda>k. True)"

abbreviation ptr_table :: "hash_table \<Rightarrow> (u64 \<times> u64) list \<Rightarrow> bool" where
  "ptr_table \<equiv> table_rep (\<lambda>t. t = PointerType) findBinIndex_ptr keyed_ptr (\<lambda>k. k \<noteq> 0)"

abbreviation str_table :: "hash_table \<Rightarrow> (u8 list \<times> u64) list \<Rightarrow> bool" where
  "str_table \<equiv> table_rep (\<lambda>t. t = StringType) (\<lambda>bs. findBinIndex_str bs (of_nat (length bs))) keyed_str valid_str"

text \<open>Every entry is in one bin.\<close>

lemma sum_filter_partition:
  assumes "\<forall>x \<in> set xs. \<exists>i < n. \<forall>j < n. Q j x = (j = i)"
  shows "(\<Sum>j \<leftarrow> [0..<n]. length (filter (Q j) xs)) = length xs"
  using assms
proof (induction xs)
  case (Cons x xs)
  then obtain i where i: "i < n" "\<forall>j < n. Q j x = (j = i)" by auto
  have "(\<Sum>j \<leftarrow> [0..<n]. length (filter (Q j) (x # xs))) = (\<Sum>j \<leftarrow> [0..<n]. (if j = i then 1 else 0) + length (filter (Q j) xs))"
    using i(2) by (intro arg_cong [of _ _ sum_list] map_cong) auto
  also have "\<dots> = (\<Sum>j \<leftarrow> [0..<n]. if j = i then 1 else 0) + (\<Sum>j \<leftarrow> [0..<n]. length (filter (Q j) xs))"
    by (rule sum_list_addf)
  also have "(\<Sum>j \<leftarrow> [0..<n]. if j = i then 1 else 0 :: nat) = 1"
    using i(1) by (simp add: sum_list_distinct_conv_sum_set)
  finally show ?case using Cons by simp
qed simp

context key_kind
begin

lemma rep_bins:
  assumes "table_rep hashes idx keyed valid st xs"
  obtains bs where "table_ok st" "bins_rep st bs" "count_ok st bs"
    "\<And>a e. elems st a = Some e \<Longrightarrow> \<exists>k. keyed e k" "sum_list (map length bs) = length xs"
proof -
  from assms obtain bs where bs: "bins_rep st bs" "table_ok st" "hashes (mHashType st)"
    "\<forall>i < length bs. list_all2 (entry_at keyed st) (bs ! i) (filter (in_bin idx st i) xs)"
    "\<forall>p \<in> set xs. valid (fst p)" "mNumberOfElement st = of_nat (length xs)"
    by (auto simp: table_rep_def)
  have len: "length (mpBin st) = length bs" by (rule bins_rep_length [OF bs(1)])
  have n: "length bs < 2 ^ 31" using bs(2) len unfolding table_ok_def by metis
  have "\<exists>i < length bs. \<forall>j < length bs. in_bin idx st j p = (j = i)" if p: "p \<in> set xs" for p
  proof -
    obtain i where i: "i < length bs" "idx (fst p) st = Some (of_nat i)"
      using idx_range [OF bs(2,3)] bs(5) p len by metis
    have "\<forall>j < length bs. in_bin idx st j p = (j = i)"
      using i n of_nat_s32_inj [of i "length bs"] by (auto simp: in_bin_def)
    with i(1) show ?thesis by blast
  qed
  then have "(\<Sum>j \<leftarrow> [0..<length bs]. length (filter (in_bin idx st j) xs)) = length xs"
    by (intro sum_filter_partition) blast
  moreover have "map length bs = map (\<lambda>j. length (filter (in_bin idx st j) xs)) [0..<length bs]"
    by (intro nth_equalityI) (use bs(4) in \<open>auto dest: list_all2_lengthD\<close>)
  ultimately have s: "sum_list (map length bs) = length xs" by simp
  have "\<exists>k. keyed e k" if e: "elems st a = Some e" for a e
  proof -
    have "a \<in> (\<Union>i \<in> {..<length bs}. set (bs ! i))" using bs(1) e unfolding bins_rep_def by (metis domI)
    then obtain i where "i < length bs" "a \<in> set (bs ! i)" by auto
    with bs(4) list_all2_mem [of "entry_at keyed st" "bs ! i" _ a] e show ?thesis
      by (auto simp: entry_at_def)
  qed
  then show ?thesis using that [of bs] bs(1,2,6) s by (auto simp: count_ok_def)
qed

lemma clear_table:
  assumes "table_rep hashes idx keyed valid st xs" "\<And>e k. keyed e k \<Longrightarrow> pKey e = NullKey"
  shows "\<exists>st'. clear st = Some st' \<and> mpBin st' = replicate (length (mpBin st)) None \<and> elems st' = Map.empty \<and>
    size_ht st' = 0 \<and> same_config st st'"
proof -
  obtain bs where bs: "table_ok st" "bins_rep st bs" "count_ok st bs" "\<And>a e. elems st a = Some e \<Longrightarrow> \<exists>k. keyed e k"
    by (rule rep_bins [OF assms(1)]) blast
  have "no_keys st" unfolding no_keys_def using bs(4) assms(2) by blast
  from clear_rep [OF bs(1,2) this bs(3)] show ?thesis .
qed

end

text \<open>A string table: the first element \<^verbatim>\<open>clear\<close> destroys is destroyed twice.\<close>

lemma clear_elem_str:
  assumes "elems st c = Some e" "pKey e = KeyBuf bs"
  shows "clear_elem c st = None"
proof (cases "destruct_elem c st")
  case (Some s1)
  have "destruct_elem c s1 = None"
  proof -
    from Some assms obtain s0 where s0: "update_elem c (pKey_update (\<lambda>_. FreedKey)) s0 = Some s1"
      by (auto simp: destruct_elem_def bind_eq_Some_conv)
    then obtain e1 where "elems s1 c = Some e1" "pKey e1 = FreedKey"
      by (auto simp: update_elem_def bind_eq_Some_conv)
    then show ?thesis by (auto simp: destruct_elem_def update_elem_def bind_eq_None_conv split: option.split)
  qed
  with Some show ?thesis by (simp add: clear_elem_def delete_elem_def)
qed (simp add: clear_elem_def)

lemma clear_bins_str:
  assumes "bins_rep st bs" "\<And>a e. elems st a = Some e \<Longrightarrow> \<exists>bytes. pKey e = KeyBuf bytes"
    "set is \<subseteq> {..<length bs}" "i \<in> set is" "bs ! i \<noteq> []"
  shows "clear_bins is st = None"
  using assms(3-5)
proof (induction "is")
  case (Cons j "is")
  then have j: "j < length bs" by simp
  show ?case
  proof (cases "bs ! j")
    case Nil
    then have "mpBin st ! j = None" using bins_repD(2) [OF assms(1) j] bin_rep_empty by blast
    moreover have "i \<in> set is" using Cons.prems(2,3) Nil by auto
    ultimately show ?thesis using Cons by (simp add: clear_bin_def)
  next
    case (Cons h zs)
    then have top: "mpBin st ! j = Some h" using bins_repD(2) [OF assms(1) j] by (cases "mpBin st ! j") auto
    let ?l = "last (h # zs)"
    have mem: "h \<in> dom (elems st)" "?l \<in> dom (elems st)"
      using bins_repD(3) [OF assms(1) j] Cons last_in_set [of "h # zs"] by auto
    then obtain e l where e: "elems st h = Some e" "elems st ?l = Some l" by auto
    have pe: "pPrev e = ?l" using bin_links(1) [OF assms(1) j _ e(1), of "[]"] Cons by simp
    have none: "clear_elem h st = None" "clear_elem ?l st = None"
      using clear_elem_str [OF e(1)] clear_elem_str [OF e(2)] assms(2) [OF e(1)] assms(2) [OF e(2)] by blast+
    show ?thesis using top e pe none
      by (simp only: clear_bins.simps clear_bin_def) (subst clear_loop.simps, auto)
  qed
qed simp

section \<open>Properties\<close>

text \<open>
  C11: A table with \<^verbatim>\<open>s32_t\<close> keys and at least one bin: whatever sequence of insertions, searches
  and removals follows the constructor, every call returns what the association list of the
  entries in insertion order gives, and \<^verbatim>\<open>size\<close> is its length. In particular a second insertion
  of a key is refused unless duplicates are allowed, then searches and removals take the
  oldest entry, and no run touches freed memory or an index outside of \<^verbatim>\<open>mpBin\<close>.
\<close>

theorem int_table_runs:
  assumes "0 < unat n" "unat n < 2 ^ 31" "t = INT32Type \<or> t = MainCCType" "distinct (op_addrs ops)"
  shows "\<exists>st'. run_ops insert_int find_int find_null_int remove_int ops (mxHashTable n t dup)
      = Some (st', snd (spec_ops (dup \<noteq> 0) ops [])) \<and>
    int_table st' (fst (spec_ops (dup \<noteq> 0) ops [])) \<and>
    size_ht st' = of_nat (length (fst (spec_ops (dup \<noteq> 0) ops [])))"
  unfolding insert_int_def find_int_def find_null_int_def remove_int_def
  by (rule int_key.run_new_table) (use assms in simp_all)

theorem int_table_runs_witness:
  "\<exists>st'. run_ops insert_int find_int find_null_int remove_int
      [OpInsert 1 7 100, OpInsert 2 12 200, OpInsert 3 7 300, OpFind 12, OpRemove 7, OpFindNull 7] (mxHashTable 5 INT32Type 0)
      = Some (st', [OutBool True, OutBool True, OutBool False, OutFound (Some 200), OutData 100, OutData 0]) \<and>
    size_ht st' = 1"
  using int_table_runs [of 5 INT32Type "[OpInsert 1 7 100, OpInsert 2 12 200, OpInsert 3 7 300, OpFind 12, OpRemove 7, OpFindNull 7]" 0]
  by (auto simp: data_or_null_def)

text \<open>
  The same for the table with pairs of \<^verbatim>\<open>s32_t\<close> as keys.
\<close>

theorem int2_table_runs:
  assumes "0 < unat n" "unat n < 2 ^ 31" "distinct (op_addrs ops)"
  shows "\<exists>st'. run_ops (\<lambda>a (k1, k2). insert_int2 a k1 k2) (\<lambda>(k1, k2). find_int2 k1 k2) (\<lambda>(k1, k2). find_null_int2 k1 k2)
      (\<lambda>(k1, k2). remove_int2 k1 k2) ops (mxHashTable n INT64Type dup)
      = Some (st', snd (spec_ops (dup \<noteq> 0) ops [])) \<and>
    int2_table st' (fst (spec_ops (dup \<noteq> 0) ops [])) \<and>
    size_ht st' = of_nat (length (fst (spec_ops (dup \<noteq> 0) ops [])))"
proof -
  have e: "(\<lambda>a (k1, k2). insert_int2 a k1 k2) =
      (\<lambda>a k d s. insert_gen ((\<lambda>(k1, k2). findBinIndex_int2 k1 k2) k s) ((\<lambda>(k1, k2). isSameKey_int2 k1 k2) k)
        ((\<lambda>a (k1, k2) d. Some (hashElement_int2 a k1 k2 d)) a k d) a s)"
    "(\<lambda>(k1, k2). find_int2 k1 k2) = (\<lambda>k s. find_gen ((\<lambda>(k1, k2). findBinIndex_int2 k1 k2) k s) ((\<lambda>(k1, k2). isSameKey_int2 k1 k2) k) s)"
    "(\<lambda>(k1, k2). find_null_int2 k1 k2) = (\<lambda>k s. find_null ((\<lambda>(k1, k2). findBinIndex_int2 k1 k2) k s) ((\<lambda>(k1, k2). isSameKey_int2 k1 k2) k) s)"
    "(\<lambda>(k1, k2). remove_int2 k1 k2) = (\<lambda>k s. remove_gen ((\<lambda>(k1, k2). findBinIndex_int2 k1 k2) k s) ((\<lambda>(k1, k2). isSameKey_int2 k1 k2) k) s)"
    by (auto simp: fun_eq_iff insert_int2_def find_int2_def find_null_int2_def remove_int2_def)
  show ?thesis unfolding e by (rule int2_key.run_new_table) (use assms in simp_all)
qed

theorem int2_table_runs_witness:
  "\<exists>st'. run_ops (\<lambda>a (k1, k2). insert_int2 a k1 k2) (\<lambda>(k1, k2). find_int2 k1 k2) (\<lambda>(k1, k2). find_null_int2 k1 k2)
      (\<lambda>(k1, k2). remove_int2 k1 k2)
      [OpInsert 1 (2, 3) 100, OpInsert 2 (3, 2) 200, OpFind (3, 2), OpRemove (2, 3), OpFind (2, 3)] (mxHashTable 8 INT64Type 1)
      = Some (st', [OutBool True, OutBool True, OutFound (Some 200), OutData 100, OutFound None]) \<and>
    size_ht st' = 1"
  using int2_table_runs [of 8 "[OpInsert 1 (2, 3) 100, OpInsert 2 (3, 2) 200, OpFind (3, 2), OpRemove (2, 3), OpFind (2, 3)]" 1]
  by (auto simp: data_or_null_def)

text \<open>
  The same for the table with byte strings of positive length as keys: a key that is
  stored is found by any string with the same bytes, although only the buffers are compared.
\<close>

theorem str_table_runs:
  assumes "0 < unat n" "unat n < 2 ^ 31" "\<forall>x \<in> set ops. op_key x \<noteq> [] \<and> length (op_key x) < 2 ^ 31"
    "distinct (op_addrs ops)"
  shows "\<exists>st'. run_ops (\<lambda>a bs. insert_str a bs (of_nat (length bs))) (\<lambda>bs. find_str bs (of_nat (length bs)))
      (\<lambda>bs. find_null_str bs (of_nat (length bs))) (\<lambda>bs. remove_str bs (of_nat (length bs))) ops (mxHashTable n StringType dup)
      = Some (st', snd (spec_ops (dup \<noteq> 0) ops [])) \<and>
    str_table st' (fst (spec_ops (dup \<noteq> 0) ops [])) \<and>
    size_ht st' = of_nat (length (fst (spec_ops (dup \<noteq> 0) ops [])))"
  unfolding insert_str_def find_str_def find_null_str_def remove_str_def
  by (rule str_key.run_new_table) (use assms in \<open>simp_all add: valid_str_def\<close>)

theorem str_table_runs_witness:
  "\<exists>st'. run_ops (\<lambda>a bs. insert_str a bs (of_nat (length bs))) (\<lambda>bs. find_str bs (of_nat (length bs)))
      (\<lambda>bs. find_null_str bs (of_nat (length bs))) (\<lambda>bs. remove_str bs (of_nat (length bs)))
      [OpInsert 1 [65, 66] 100, OpFind [65, 66], OpInsert 2 [65, 66] 5, OpFindNull [66], OpRemove [65, 66]] (mxHashTable 3 StringType 0)
      = Some (st', [OutBool True, OutFound (Some 100), OutBool False, OutData 0, OutData 100]) \<and>
    size_ht st' = 0"
  using str_table_runs [of 3 "[OpInsert 1 [65, 66] 100, OpFind [65, 66], OpInsert 2 [65, 66] 5, OpFindNull [66], OpRemove [65, 66]]" 0]
  by (auto simp: data_or_null_def)

text \<open>
  The same for the table with pointers other than the null pointer as keys.
\<close>

theorem ptr_table_runs:
  assumes "0 < unat n" "unat n < 2 ^ 31" "\<forall>x \<in> set ops. op_key x \<noteq> 0" "distinct (op_addrs ops)"
  shows "\<exists>st'. run_ops insert_ptr find_ptr find_null_ptr remove_ptr ops (mxHashTable n PointerType dup)
      = Some (st', snd (spec_ops (dup \<noteq> 0) ops [])) \<and>
    ptr_table st' (fst (spec_ops (dup \<noteq> 0) ops [])) \<and>
    size_ht st' = of_nat (length (fst (spec_ops (dup \<noteq> 0) ops [])))"
  unfolding insert_ptr_def find_ptr_def find_null_ptr_def remove_ptr_def
  by (rule ptr_key.run_new_table) (use assms in simp_all)

theorem ptr_table_runs_witness:
  "\<exists>st'. run_ops insert_ptr find_ptr find_null_ptr remove_ptr
      [OpInsert 1 0x1000 1, OpInsert 2 0x1000 2, OpRemove 0x1000, OpFind 0x1000] (mxHashTable 16 PointerType 1)
      = Some (st', [OutBool True, OutBool True, OutData 1, OutFound (Some 2)]) \<and>
    size_ht st' = 1"
  using ptr_table_runs [of 16 "[OpInsert 1 0x1000 1, OpInsert 2 0x1000 2, OpRemove 0x1000, OpFind 0x1000]" 1]
  by (auto simp: data_or_null_def)

text \<open>
  C12: \<^verbatim>\<open>clear\<close> on a table of any kind but strings returns, frees every element, leaves every bin
  null and the count 0.
\<close>

theorem clear_correct:
  assumes "(\<exists>xs. int_table st xs) \<or> (\<exists>xs. int2_table st xs) \<or> (\<exists>xs. ptr_table st xs)"
  shows "\<exists>st'. clear st = Some st' \<and> mpBin st' = replicate (length (mpBin st)) None \<and> elems st' = Map.empty \<and> size_ht st' = 0"
proof -
  have "\<exists>st'. clear st = Some st' \<and> mpBin st' = replicate (length (mpBin st)) None \<and> elems st' = Map.empty \<and>
    size_ht st' = 0 \<and> same_config st st'"
    using assms int_key.clear_table [of st] int2_key.clear_table [of st] ptr_key.clear_table [of st]
    by (fastforce simp: keyed_defs)
  then show ?thesis by blast
qed

theorem clear_correct_witness:
  "\<exists>st. insert_int 1 7 100 (mxHashTable 5 INT32Type 0) = Some (st, True) \<and> (\<exists>st'. clear st = Some st' \<and> elems st' = Map.empty)"
proof -
  obtain st where st: "insert_int 1 7 100 (mxHashTable 5 INT32Type 0) = Some (st, True)"
    "int_table st [(7, 100)]"
    using int_key.run_new_table [of 5 INT32Type "[OpInsert 1 7 100]" 0]
    by (auto simp: insert_int_def bind_eq_Some_conv)
  then show ?thesis using clear_correct [of st] by blast
qed

text \<open>
  \<^verbatim>\<open>clear\<close> on a table of strings that is not empty calls the destructor of an element twice
  (explicitly, then by \<^verbatim>\<open>delete\<close>), so a key buffer is deleted twice: the run is undefined.
\<close>

theorem clear_strings_double_delete:
  assumes "str_table st xs" "xs \<noteq> []"
  shows "clear st = None"
proof -
  obtain bs where bs: "table_ok st" "bins_rep st bs" "count_ok st bs"
    "\<And>a e. elems st a = Some e \<Longrightarrow> \<exists>k. keyed_str e k" "sum_list (map length bs) = length xs"
    by (rule str_key.rep_bins [OF assms(1)]) blast
  have n: "nat (sint (mBinNumber st)) = length bs"
    using bs(1) sint_small [of "mBinNumber st"] bins_rep_length [OF bs(2)] by (simp add: table_ok_def)
  have "\<exists>xs \<in> set bs. xs \<noteq> []"
  proof (rule ccontr)
    assume "\<not> ?thesis"
    then have "sum_list (map length bs) = 0" by simp
    with bs(5) assms(2) show False by simp
  qed
  then obtain i where i: "i < length bs" "bs ! i \<noteq> []" by (auto simp: in_set_conv_nth)
  have "clear_bins [0..<length bs] st = None"
    by (rule clear_bins_str [OF bs(2) _ _ _ i(2)]) (use i(1) bs(4) in \<open>auto simp: keyed_str_def\<close>)
  then show ?thesis by (simp add: clear_def n)
qed

theorem clear_strings_double_delete_witness:
  "\<exists>st. insert_str 1 [65] 1 100 (mxHashTable 4 StringType 0) = Some (st, True) \<and> clear st = None"
proof -
  obtain st where st: "insert_str 1 [65] 1 100 (mxHashTable 4 StringType 0) = Some (st, True)"
    "str_table st [([65], 100)]"
    using str_key.run_new_table [of 4 StringType "[OpInsert 1 [65] 100]" 0]
    by (auto simp: insert_str_def bind_eq_Some_conv valid_str_def)
  then show ?thesis using clear_strings_double_delete [of st] by blast
qed

text \<open>
  A string of length 0 and the null pointer are accepted as keys but never found again:
  \<^verbatim>\<open>isSameKey\<close> needs a key buffer, or a pointer that is not null. In a table without
  duplicates such a key is inserted twice.
\<close>

theorem empty_keys_lost:
  assumes "0 < unat n" "unat n < 2 ^ 31" "a \<noteq> b"
  shows "(\<exists>st1 st2. insert_str a [] 0 d (mxHashTable n StringType 0) = Some (st1, True) \<and>
      insert_str b [] 0 d' st1 = Some (st2, True) \<and> find_str [] 0 st2 = Some None \<and> size_ht st2 = 2) \<and>
    (\<exists>st1 st2. insert_ptr a 0 d (mxHashTable n PointerType 0) = Some (st1, True) \<and>
      insert_ptr b 0 d' st1 = Some (st2, True) \<and> find_ptr 0 st2 = Some None \<and> size_ht st2 = 2)"
proof (rule conjI)
  have i0: "bin_index 0 st = Some 0" if "length (mpBin st) = unat n" for st
    using that assms(1) by (simp add: bin_index_def)
  have ixs: "findBinIndex_str [] 0 st = Some 0" if "mHashType st = StringType" "mBinNumber st = n" for st
    using that assms(1) by (auto simp: findBinIndex_str_def)
  have ixp: "findBinIndex_ptr 0 st = Some 0" if "mHashType st = PointerType" "mBinNumber st = n" for st
    using that assms(1) sint_small [of n] assms(2) by (auto simp: findBinIndex_ptr_def bin_of_def c_rem_def)
  note defs = insert_str_def insert_ptr_def find_str_def find_ptr_def insert_gen_def find_gen_def bin_find_def insertToBin_def
    update_elem_def hashElement_str_def hashElement_ptr_def isSameKey_str_def isSameKey_ptr_def size_ht_def
  show "\<exists>st1 st2. insert_str a [] 0 d (mxHashTable n StringType 0) = Some (st1, True) \<and>
      insert_str b [] 0 d' st1 = Some (st2, True) \<and> find_str [] 0 st2 = Some None \<and> size_ht st2 = 2"
    using assms by (simp add: defs i0 ixs mxHashTable_def find_loop.simps)
  show "\<exists>st1 st2. insert_ptr a 0 d (mxHashTable n PointerType 0) = Some (st1, True) \<and>
      insert_ptr b 0 d' st1 = Some (st2, True) \<and> find_ptr 0 st2 = Some None \<and> size_ht st2 = 2"
    using assms by (simp add: defs i0 ixp mxHashTable_def find_loop.simps)
qed

theorem empty_keys_lost_witness:
  "\<exists>st1 st2. insert_str 1 [] 0 5 (mxHashTable 4 StringType 0) = Some (st1, True) \<and>
      insert_str 2 [] 0 6 st1 = Some (st2, True) \<and> find_str [] 0 st2 = Some None \<and> size_ht st2 = 2"
  using empty_keys_lost [of 4 1 2 5 6] by simp

text \<open>
  A table built with 0 bins has \<open>mBitMask = -1\<close> (0 passes for a power of 2), so the key
  itself is the index: every insertion of a key other than \<open>-1\<close> reads outside of \<^verbatim>\<open>mpBin\<close>.
\<close>

theorem zero_bins:
  "insert_int a k d (mxHashTable 0 INT32Type dup) = (if k = - 1 then Some (mxHashTable 0 INT32Type dup, False) else None)"
proof -
  let ?st = "mxHashTable 0 INT32Type dup"
  have idx: "findBinIndex_int k ?st = Some k"
    by (simp add: findBinIndex_int_def bin_of_def mxHashTable_def)
  have "bin_index i ?st = None" for i by (simp add: bin_index_def mxHashTable_def)
  moreover have "bin_index i (?st\<lparr>elems := m\<rparr>) = None" for i m by (simp add: bin_index_def mxHashTable_def)
  ultimately show ?thesis
    unfolding insert_int_def idx
    by (auto simp: insert_gen_def find_gen_def bin_find_def insertToBin_def)
qed

end
