(* ===== verification/Status.thy ===== *)
theory Status
  imports Prelude
begin

text \<open>
  The status codes of \<^verbatim>\<open>platform/common/inc/mxStatus.h\<close>, which every component returns, and
  their names (\<^verbatim>\<open>mxStatus.cpp\<close>). A status passed as \<^verbatim>\<open>u32_t\<close> is its position in the
  enumeration.
\<close>

datatype Status_e =
    STATUS_SUCCESS
  | STATUS_FAILED
  | STATUS_CONTINUE
  | STATUS_ERR_PARAMETER
  | STATUS_ERR_MALLOC
  | STATUS_WAKE_UP
  | STATUS_EXIST
  | STATUS_END

fun status_code :: "Status_e \<Rightarrow> u32" where
  "status_code STATUS_SUCCESS = 0"
| "status_code STATUS_FAILED = 1"
| "status_code STATUS_CONTINUE = 2"
| "status_code STATUS_ERR_PARAMETER = 3"
| "status_code STATUS_ERR_MALLOC = 4"
| "status_code STATUS_WAKE_UP = 5"
| "status_code STATUS_EXIST = 6"
| "status_code STATUS_END = 7"

text \<open>The table has three entries, although seven codes pass the test of \<^verbatim>\<open>getStatusCodeString\<close>.\<close>

definition gp_StatusCode :: "string list" where
  "gp_StatusCode = [''Success'', ''General Failed'', ''continue'']"

definition getStatusCodeString :: "u32 \<Rightarrow> string option" where
  "getStatusCodeString status =
     (if status < status_code STATUS_END
      then (if unat status < length gp_StatusCode then Some (gp_StatusCode ! unat status) else None)
      else Some [])"

lemma getStatusCodeString_defined:
  "getStatusCodeString (status_code s) \<noteq> None
   \<longleftrightarrow> s \<in> {STATUS_SUCCESS, STATUS_FAILED, STATUS_CONTINUE, STATUS_END}"
  by (cases s) (simp_all add: getStatusCodeString_def gp_StatusCode_def)

end
