(* ===== verification/Chunk.thy ===== *)
theory Chunk
  imports Prelude
begin

text \<open>
  \<^verbatim>\<open>platform/common/src/chunk.cpp\<close> and \<^verbatim>\<open>inc/chunk.h\<close> for the parsers, which advance through a
  buffer and write to it. The buffer is one list of bytes; a \<^verbatim>\<open>chunk_t\<close> that points into it is
  an offset and a length. \<^verbatim>\<open>None\<close> is an access outside the buffer or through a null pointer.
\<close>

type_synonym mem = "u8 list"

record chunk_v =
  cptr :: "nat option"
  clen :: u32

definition chunk_empty :: chunk_v where
  "chunk_empty = \<lparr>cptr = None, clen = 0\<rparr>"

definition chunk_skip :: "chunk_v \<Rightarrow> nat \<Rightarrow> chunk_v" where
  "chunk_skip chunk bytes =
     (if bytes < unat (clen chunk)
      then \<lparr>cptr = map_option (\<lambda>p. p + bytes) (cptr chunk), clen = clen chunk - of_nat bytes\<rparr>
      else chunk_empty)"

text \<open>A copy in a buffer of its own; \<^verbatim>\<open>None\<close> inside is the null pointer.\<close>

definition chunk_clone :: "mem \<Rightarrow> chunk_v \<Rightarrow> u8 list option option" where
  "chunk_clone m chunk =
     (case cptr chunk of
        None \<Rightarrow> Some None
      | Some p \<Rightarrow> if 0 < clen chunk then map_option Some (buf_read m p (unat (clen chunk))) else Some None)"

text \<open>
  \<^verbatim>\<open>chunk_create\<close> cuts a \<^verbatim>\<open>size_t\<close> to 32 bits. \<^verbatim>\<open>chunk_alloc\<close> with the result of \<^verbatim>\<open>malloc\<close>: a block whose
  bytes are \<open>g\<close>, or \<open>None\<close>.
\<close>

definition chunk_create :: "nat option \<Rightarrow> nat \<Rightarrow> chunk_v" where
  "chunk_create p n = \<lparr>cptr = p, clen = of_nat n\<rparr>"

definition chunk_alloc :: "mem option \<Rightarrow> nat \<Rightarrow> mem \<times> chunk_v" where
  "chunk_alloc g n =
     (case g of
        Some bytes \<Rightarrow> if n = 0 then ([], chunk_create None 0) else (take n bytes, chunk_create (Some 0) n)
      | None \<Rightarrow> ([], chunk_create None n))"

definition chunk_free :: "chunk_v \<Rightarrow> chunk_v" where
  "chunk_free chunk = chunk\<lparr>cptr := None, clen := 0\<rparr>"

text \<open>\<^verbatim>\<open>ptr[i]\<close>\<close>

definition load :: "mem \<Rightarrow> nat option \<Rightarrow> nat \<Rightarrow> u8 option" where
  "load m p i = do { a \<leftarrow> p; if a + i < length m then Some (m ! (a + i)) else None }"

section \<open>Library functions on bytes\<close>

definition asc :: "string \<Rightarrow> u8 list" where
  "asc s = map of_char s"

text \<open>\<^verbatim>\<open>memchr\<close>: the first of \<open>n\<close> bytes that equals \<open>c\<close>.\<close>

fun mem_chr :: "mem \<Rightarrow> nat \<Rightarrow> u8 \<Rightarrow> nat \<Rightarrow> nat option option" where
  "mem_chr m a c 0 = Some None"
| "mem_chr m a c (Suc n) =
     (if a < length m then if m ! a = c then Some (Some a) else mem_chr m (Suc a) c n else None)"

definition memchr :: "mem \<Rightarrow> nat option \<Rightarrow> u8 \<Rightarrow> nat \<Rightarrow> nat option option" where
  "memchr m p c n = (if n = 0 then Some None else do { a \<leftarrow> p; mem_chr m a c n })"

text \<open>\<^verbatim>\<open>strncmp(ptr, s, strlen(s)) == 0\<close>, which stops at the first difference.\<close>

fun prefix_at :: "mem \<Rightarrow> nat \<Rightarrow> u8 list \<Rightarrow> bool option" where
  "prefix_at m a [] = Some True"
| "prefix_at m a (c # cs) =
     (if a < length m then if m ! a = c then prefix_at m (Suc a) cs else Some False else None)"

text \<open>\<^verbatim>\<open>strstr\<close>: reads up to the match or to a zero byte.\<close>

function str_str :: "mem \<Rightarrow> nat \<Rightarrow> u8 list \<Rightarrow> nat option option" where
  "str_str m a s =
     (if a < length m then
        do { b \<leftarrow> prefix_at m a s;
             if b then Some (Some a) else if m ! a = 0 then Some None else str_str m (Suc a) s }
      else None)"
  by pat_completeness auto
termination by (relation "measure (\<lambda>(m, a, s). length m - a)") auto

declare str_str.simps [simp del]

section \<open>Base 64\<close>

definition b642bin :: "u8 \<Rightarrow> int" where
  "b642bin b64 =
     (if 65 \<le> b64 \<and> b64 \<le> 90 then uint b64 - 65
      else if 97 \<le> b64 \<and> b64 \<le> 122 then (90 - 65 + 1) + uint b64 - 97
      else if 48 \<le> b64 \<and> b64 \<le> 57 then (90 - 65 + 1) + (122 - 97 + 1) + uint b64 - 48
      else if b64 = 43 \<or> b64 = 45 then 62
      else if b64 = 47 \<or> b64 = 95 then 63
      else if b64 = 61 then 0
      else - 1)"

text \<open>The inner loop: \<open>n\<close> digits from \<open>a\<close> on, and the count \<open>outlen\<close>.\<close>

fun b64_read :: "mem \<Rightarrow> nat \<Rightarrow> nat \<Rightarrow> int \<Rightarrow> (u8 list \<times> int) option" where
  "b64_read m a 0 outlen = Some ([], outlen)"
| "b64_read m a (Suc n) outlen =
     do { c \<leftarrow> load m (Some a) 0;
          (ds, out) \<leftarrow> b64_read m (Suc a) n (if c = 61 \<and> 0 < outlen then outlen - 1 else outlen);
          Some (word_of_int (b642bin c) # ds, out) }"

definition b64_bytes :: "u8 list \<Rightarrow> u8 list" where
  "b64_bytes d = [push_bit 2 (d ! 0) OR drop_bit 4 (d ! 1),
                  push_bit 4 (d ! 1) OR drop_bit 2 (d ! 2),
                  push_bit 6 (d ! 2) OR d ! 3]"

text \<open>The outer loop, for a buffer that is part of the same memory.\<close>

function b64_loop :: "mem \<Rightarrow> nat \<Rightarrow> nat \<Rightarrow> int \<Rightarrow> int \<Rightarrow> int \<Rightarrow> (mem \<times> int) option" where
  "b64_loop m a buf n i outlen =
     (if i < n then
        case b64_read m a 4 (outlen + 3) of
          None \<Rightarrow> None
        | Some (d, out) \<Rightarrow>
            (case buf_write m (buf + nat i) (b64_bytes d) of
               None \<Rightarrow> None
             | Some m' \<Rightarrow> b64_loop m' (a + 4) buf n (i + 3) out)
      else Some (m, outlen))"
  by pat_completeness auto
termination by (relation "measure (\<lambda>(m, a, buf, n, i, outlen). nat (n - i))") auto

declare b64_loop.simps [simp del]

definition chunk_from_base64 :: "mem \<Rightarrow> chunk_v \<Rightarrow> nat \<Rightarrow> (mem \<times> chunk_v) option" where
  "chunk_from_base64 m base64 buf =
     (let n = sint (clen base64 div 4 * 3) in
      if n \<le> 0 then Some (m, \<lparr>cptr = Some buf, clen = 0\<rparr>)
      else do { a \<leftarrow> cptr base64;
                (m', outlen) \<leftarrow> b64_loop m a buf n 0 0;
                Some (m', \<lparr>cptr = Some buf, clen = word_of_int outlen\<rparr>) })"

section \<open>Specification: RFC 4648\<close>

definition b64_alphabet :: "u8 list" where
  "b64_alphabet = asc ''ABCDEFGHIJKLMNOPQRSTUVWXYZabcdefghijklmnopqrstuvwxyz0123456789+/''"

definition b64_digit :: "u8 \<Rightarrow> u8" where
  "b64_digit d = b64_alphabet ! unat d"

text \<open>The four 6-bit groups of three bytes.\<close>

definition b64_split :: "u8 \<Rightarrow> u8 \<Rightarrow> u8 \<Rightarrow> u8 list" where
  "b64_split x y z = [drop_bit 2 x, push_bit 4 (x AND 3) OR drop_bit 4 y, push_bit 2 (y AND 15) OR drop_bit 6 z, z AND 63]"

fun b64_encode :: "u8 list \<Rightarrow> u8 list" where
  "b64_encode (x # y # z # bs) = map b64_digit (b64_split x y z) @ b64_encode bs"
| "b64_encode [x, y] = map b64_digit (take 3 (b64_split x y 0)) @ [61]"
| "b64_encode [x] = map b64_digit (take 2 (b64_split x 0 0)) @ [61, 61]"
| "b64_encode [] = []"

lemma b64_alphabet_val:
  "b64_alphabet = [65, 66, 67, 68, 69, 70, 71, 72, 73, 74, 75, 76, 77, 78, 79, 80, 81, 82, 83, 84, 85, 86, 87, 88, 89, 90,
     97, 98, 99, 100, 101, 102, 103, 104, 105, 106, 107, 108, 109, 110, 111, 112, 113, 114, 115, 116, 117, 118, 119, 120, 121, 122,
     48, 49, 50, 51, 52, 53, 54, 55, 56, 57, 43, 47]"
  by (simp add: b64_alphabet_def asc_def)

lemma b642bin_table: "map b642bin b64_alphabet = map int [0..<64]"
  by (simp add: b64_alphabet_val b642bin_def upt_rec)

lemma b64_alphabet_no: "\<forall>c \<in> set b64_alphabet. c \<notin> {0, 9, 10, 13, 32, 45, 58, 61}"
  by (simp add: b64_alphabet_val)

lemma b64_digit_in: "unat d < 64 \<Longrightarrow> b64_digit d \<in> set b64_alphabet"
  unfolding b64_digit_def by (rule nth_mem) (simp add: b64_alphabet_val)

lemma b642bin_digit:
  assumes "unat d < 64"
  shows "word_of_int (b642bin (b64_digit d)) = d"
proof -
  have "length b64_alphabet = 64" by (simp add: b64_alphabet_val)
  then have "b642bin (b64_digit d) = map b642bin b64_alphabet ! unat d"
    using assms by (simp add: b64_digit_def)
  also have "\<dots> = int (unat d)" unfolding b642bin_table using assms by simp
  finally show ?thesis by simp
qed

lemma unat_less_64: "drop_bit 6 (d :: u8) = 0 \<Longrightarrow> unat d < 64"
proof -
  assume "drop_bit 6 d = 0"
  then have "unat d div 2 ^ 6 = 0" using unat_drop_bit [of 6 d] by simp
  then show ?thesis by simp
qed

lemma b64_split_less: "d \<in> set (b64_split x y z) \<Longrightarrow> unat d < 64"
proof -
  have "drop_bit 6 (drop_bit 2 x) = 0" "drop_bit 6 (push_bit 4 (x AND 3) OR drop_bit 4 y) = 0"
    "drop_bit 6 (push_bit 2 (y AND 15) OR drop_bit 6 z) = 0" "drop_bit 6 (z AND 63) = 0"
    by (rule bit_word_eqI, auto simp: bit_simps numeral_eq_Suc less_Suc_eq)+
  then show "d \<in> set (b64_split x y z) \<Longrightarrow> unat d < 64"
    using unat_less_64 by (auto simp: b64_split_def)
qed

lemma less_8_cases:
  assumes "n < LENGTH(8)"
  obtains "n = 0" | "n = 1" | "n = 2" | "n = 3" | "n = 4" | "n = 5" | "n = 6" | "n = 7"
proof -
  from assms have "n = 0 \<or> n = 1 \<or> n = 2 \<or> n = 3 \<or> n = 4 \<or> n = 5 \<or> n = 6 \<or> n = 7" by auto
  then show ?thesis using that by blast
qed

lemma bit_masks: "bit (3 :: u8) n \<longleftrightarrow> n < 2" "bit (15 :: u8) n \<longleftrightarrow> n < 4" "bit (63 :: u8) n \<longleftrightarrow> n < 6"
  using bit_mask_iff [where 'a = u8, of 2 n] bit_mask_iff [where 'a = u8, of 4 n] bit_mask_iff [where 'a = u8, of 6 n]
  by (auto simp: mask_eq_exp_minus_1 possible_bit_def)

lemma b64_bytes_split: "b64_bytes (b64_split x y z) = [x, y, z]"
proof -
  have "push_bit 2 (drop_bit 2 x) OR drop_bit 4 (push_bit 4 (x AND 3) OR drop_bit 4 y) = x"
    "push_bit 4 (push_bit 4 (x AND 3) OR drop_bit 4 y) OR drop_bit 2 (push_bit 2 (y AND 15) OR drop_bit 6 z) = y"
    "push_bit 6 (push_bit 2 (y AND 15) OR drop_bit 6 z) OR (z AND 63) = z"
    by (rule bit_word_eqI, elim less_8_cases, auto simp: bit_simps bit_masks)+
  then show ?thesis by (simp add: b64_bytes_def b64_split_def)
qed

section \<open>Decoding inverts encoding\<close>

definition b64_values :: "u8 list \<Rightarrow> u8 list" where
  "b64_values cs = map (\<lambda>c. word_of_int (b642bin c)) cs"

lemma b64_read_eq:
  assumes "a + n \<le> length m" "int (count_list (take n (drop a m)) 61) \<le> outlen"
  shows "b64_read m a n outlen =
    Some (b64_values (take n (drop a m)), outlen - int (count_list (take n (drop a m)) 61))"
  using assms
proof (induction n arbitrary: a outlen)
  case (Suc n)
  then have d: "take (Suc n) (drop a m) = m ! a # take n (drop (Suc a) m)"
    by (simp add: Cons_nth_drop_Suc [symmetric])
  have l: "load m (Some a) 0 = Some (m ! a)" using Suc.prems by (simp add: load_def)
  show ?case
  proof (cases "m ! a = 61")
    case True
    with Suc.prems(2) d have "int (count_list (take n (drop (Suc a) m)) 61) \<le> outlen - 1" "0 < outlen" by auto
    with Suc.IH [of "Suc a" "outlen - 1"] Suc.prems(1) True l show ?thesis
      unfolding d by (simp add: b64_values_def)
  next
    case False
    with Suc.prems d have "int (count_list (take n (drop (Suc a) m)) 61) \<le> outlen" by auto
    with Suc.IH [of "Suc a" outlen] Suc.prems(1) False l show ?thesis
      unfolding d by (simp add: b64_values_def)
  qed
qed (simp add: b64_values_def)

lemma b64_digit_not_pad: "unat d < 64 \<Longrightarrow> b64_digit d \<noteq> 61"
  using b64_digit_in b64_alphabet_no by blast

lemma b64_values_digits: "(\<And>d. d \<in> set ds \<Longrightarrow> unat d < 64) \<Longrightarrow> b64_values (map b64_digit ds) = ds"
  by (induction ds) (auto simp: b64_values_def b642bin_digit)

lemma count_digits: "(\<And>d. d \<in> set ds \<Longrightarrow> unat d < 64) \<Longrightarrow> count_list (map b64_digit ds) 61 = 0"
  by (induction ds) (auto dest: b64_digit_not_pad)

lemma b64_group:
  assumes "bs \<noteq> []"
  obtains cs where "b64_encode bs = cs @ b64_encode (drop 3 bs)" "length cs = 4"
    "count_list cs 61 = 3 - min 3 (length bs)" "take (min 3 (length bs)) (b64_bytes (b64_values cs)) = take 3 bs"
proof (cases bs rule: b64_encode.cases)
  case (1 x y z r)
  let ?cs = "map b64_digit (b64_split x y z)"
  have "b64_values ?cs = b64_split x y z" "count_list ?cs 61 = 0"
    using b64_split_less by (blast intro: b64_values_digits count_digits)+
  with 1 that [of ?cs] show ?thesis by (simp add: b64_bytes_split) (simp add: b64_split_def)
next
  case (2 x y)
  let ?ds = "take 3 (b64_split x y 0)" let ?cs = "map b64_digit ?ds @ [61]"
  have "d \<in> set ?ds \<Longrightarrow> unat d < 64" for d using b64_split_less in_set_takeD by metis
  then have v: "b64_values (map b64_digit ?ds) = ?ds" "count_list (map b64_digit ?ds) 61 = 0"
    by (blast intro: b64_values_digits count_digits)+
  have "b64_values ?cs = b64_split x y 0"
    using v(1) by (simp add: b64_values_def b64_split_def b642bin_def)
  moreover have "count_list ?cs 61 = 1" using v(2) by simp
  ultimately show ?thesis
    using 2 that [of ?cs] by (simp add: b64_bytes_split) (simp add: b64_split_def)
next
  case (3 x)
  let ?ds = "take 2 (b64_split x 0 0)" let ?cs = "map b64_digit ?ds @ [61, 61]"
  have "d \<in> set ?ds \<Longrightarrow> unat d < 64" for d using b64_split_less in_set_takeD by metis
  then have v: "b64_values (map b64_digit ?ds) = ?ds" "count_list (map b64_digit ?ds) 61 = 0"
    by (blast intro: b64_values_digits count_digits)+
  have "b64_values ?cs = b64_split x 0 0"
    using v(1) by (simp add: b64_values_def b64_split_def b642bin_def)
  moreover have "count_list ?cs 61 = 2" using v(2) by simp
  ultimately show ?thesis
    using 3 that [of ?cs] by (simp add: b64_bytes_split) (simp add: b64_split_def)
qed (use assms in simp)

lemma length_b64_encode: "length (b64_encode bs) = 4 * ((length bs + 2) div 3)"
  by (induction bs rule: b64_encode.induct) (simp_all add: b64_split_def, presburger?)

text \<open>Three bytes \<open>w\<close> written at \<open>q\<close>, then the rest \<open>r\<close> behind them.\<close>

lemma splice_step:
  assumes "q + 3 \<le> length m" "length w = 3" "m1 = take q m @ w @ drop (q + 3) m"
    "length m' = length m1" "take (q + 3) m' = take (q + 3) m1" "take (length bs - 3) (drop (q + 3) m') = drop 3 bs"
    "drop j m' = drop j m1" "q + 3 \<le> j" "take (min 3 (length bs)) w = take 3 bs"
  shows "length m' = length m" "take q m' = take q m" "take (length bs) (drop q m') = bs" "drop j m' = drop j m"
proof -
  show "length m' = length m" using assms(1-4) by simp
  have "take q m' = take q (take (q + 3) m')" by (simp add: min_def)
  also have "\<dots> = take q m" unfolding assms(5) using assms(1,3) by simp
  finally show "take q m' = take q m" .
  have "take 3 (drop q m') = drop q (take (q + 3) m')" by (simp add: drop_take)
  also have "\<dots> = w" unfolding assms(5) using assms(1-3) by simp
  finally have w: "take 3 (drop q m') = w" .
  show "take (length bs) (drop q m') = bs"
  proof (cases "length bs \<le> 3")
    case True
    then have "take (length bs) (drop q m') = take (min 3 (length bs)) (take 3 (drop q m'))" by (simp add: min_def)
    also have "\<dots> = bs" unfolding w assms(9) using True by simp
    finally show ?thesis .
  next
    case False
    then have "take (length bs) (drop q m') = take 3 (drop q m') @ take (length bs - 3) (drop (q + 3) m')"
      using take_add [of 3 "length bs - 3" "drop q m'"] by (simp add: add.commute)
    also have "\<dots> = take 3 bs @ drop 3 bs" unfolding assms(6) w using assms(2,9) False by simp
    finally show ?thesis by simp
  qed
  show "drop j m' = drop j m" using assms(1-3,7,8) by simp
qed

lemma b64_loop_decode:
  assumes "take (length (b64_encode bs)) (drop a m) = b64_encode bs" "a + length (b64_encode bs) \<le> length m"
    "buf + nat i \<le> a" "0 \<le> i" "0 \<le> outlen"
  shows "\<exists>m'. b64_loop m a buf (i + int (length (b64_encode bs) div 4 * 3)) i outlen = Some (m', outlen + int (length bs)) \<and>
    length m' = length m \<and> take (buf + nat i) m' = take (buf + nat i) m \<and>
    take (length bs) (drop (buf + nat i) m') = bs \<and>
    drop (a + length (b64_encode bs)) m' = drop (a + length (b64_encode bs)) m"
  using assms
proof (induction "length bs" arbitrary: bs m a i outlen rule: less_induct)
  case less
  show ?case
  proof (cases "bs = []")
    case True
    then show ?thesis by (subst b64_loop.simps) simp
  next
    case False
    then obtain cs where cs: "b64_encode bs = cs @ b64_encode (drop 3 bs)" "length cs = 4"
      "count_list cs 61 = 3 - min 3 (length bs)" "take (min 3 (length bs)) (b64_bytes (b64_values cs)) = take 3 bs"
      by (rule b64_group)
    let ?r = "drop 3 bs" and ?k = "min 3 (length bs)" and ?q = "buf + nat i"
    let ?e = "length (b64_encode ?r)" and ?w = "b64_bytes (b64_values cs)"
    have le: "length (b64_encode bs) = 4 + ?e" using cs by simp
    have "take 4 (drop a m) = take 4 (take (length (b64_encode bs)) (drop a m))" by (simp add: le)
    then have t4: "take 4 (drop a m) = cs" unfolding less.prems(1) using cs(1,2) by simp
    have "drop 4 (take (4 + ?e) (drop a m)) = b64_encode ?r" using less.prems(1) cs(1,2) le by simp
    then have rest: "take ?e (drop (a + 4) m) = b64_encode ?r" by (simp add: drop_take add.commute)
    have rd: "b64_read m a 4 (outlen + 3) = Some (b64_values cs, outlen + int ?k)"
      using b64_read_eq [of a 4 m "outlen + 3"] less.prems(2,5) t4 cs(3) le by simp
    have lw: "length ?w = 3" by (simp add: b64_bytes_def)
    define m1 where "m1 = take ?q m @ ?w @ drop (?q + 3) m"
    have qm: "?q + 3 \<le> length m" using less.prems(2,3) le by simp
    then have wr: "buf_write m ?q ?w = Some m1" by (simp add: lw m1_def)
    have i3: "buf + nat (i + 3) = ?q + 3" using less.prems(4) by (simp add: nat_add_distrib)
    have IH: "\<exists>m'. b64_loop m1 (a + 4) buf ((i + 3) + int (?e div 4 * 3)) (i + 3) (outlen + int ?k) =
        Some (m', outlen + int ?k + int (length ?r)) \<and> length m' = length m1 \<and>
      take (buf + nat (i + 3)) m' = take (buf + nat (i + 3)) m1 \<and>
      take (length ?r) (drop (buf + nat (i + 3)) m') = ?r \<and> drop (a + 4 + ?e) m' = drop (a + 4 + ?e) m1"
    proof (rule less.hyps)
      show "length ?r < length bs" using False by simp
      show "take ?e (drop (a + 4) m1) = b64_encode ?r" using rest less.prems(3) qm by (simp add: m1_def lw add.commute [of a])
      show "a + 4 + ?e \<le> length m1" using less.prems(2) le qm by (simp add: m1_def lw)
    qed (use less.prems i3 in simp_all)
    then obtain m' where m': "b64_loop m1 (a + 4) buf ((i + 3) + int (?e div 4 * 3)) (i + 3) (outlen + int ?k) =
        Some (m', outlen + int ?k + int (length ?r))" "length m' = length m1"
      "take (?q + 3) m' = take (?q + 3) m1"
      "take (length bs - 3) (drop (?q + 3) m') = ?r" "drop (a + 4 + ?e) m' = drop (a + 4 + ?e) m1"
      unfolding i3 by auto
    have n: "i + int (length (b64_encode bs) div 4 * 3) = (i + 3) + int (?e div 4 * 3)"
      unfolding le by (simp add: div_add_self1)
    have "outlen + int ?k + int (length ?r) = outlen + int (length bs)" by simp
    with m'(1) rd wr have loop: "b64_loop m a buf (i + int (length (b64_encode bs) div 4 * 3)) i outlen =
        Some (m', outlen + int (length bs))"
      unfolding n by (subst b64_loop.simps) simp
    have j: "?q + 3 \<le> a + 4 + ?e" "a + length (b64_encode bs) = a + 4 + ?e" using less.prems(3) le by simp_all
    show ?thesis
      unfolding j(2) using loop splice_step [OF qm lw m1_def m'(2-5) j(1) cs(4)] by (intro exI [of _ m'] conjI)
  qed
qed

lemma sint_div4:
  assumes "unat (w :: u32) < 2 ^ 31"
  shows "sint (w div 4 * 3) = int (unat w div 4 * 3)"
proof -
  define k where "k = unat w div 4 * 3"
  have k: "k < 2 ^ 31" using assms by (simp add: k_def)
  have "w div 4 * 3 = of_nat k"
    using assms by (simp add: k_def word_unat_eq_iff unat_word_ariths unat_div unat_of_nat)
  then show ?thesis using k by (simp add: k_def [symmetric] signed_of_nat signed_take_bit_int_eq_self)
qed

lemma chunk_from_base64_in_place:
  assumes "cptr ch = Some a" "clen ch = of_nat (length (b64_encode bs))"
    "take (length (b64_encode bs)) (drop a m) = b64_encode bs" "a + length (b64_encode bs) \<le> length m" "buf \<le> a"
    "length (b64_encode bs) < 2 ^ 31"
  obtains m' where "chunk_from_base64 m ch buf = Some (m', \<lparr>cptr = Some buf, clen = of_nat (length bs)\<rparr>)"
    "length m' = length m" "take buf m' = take buf m" "take (length bs) (drop buf m') = bs"
    "drop (a + length (b64_encode bs)) m' = drop (a + length (b64_encode bs)) m"
proof -
  let ?e = "length (b64_encode bs)"
  define k where "k = ?e div 4 * 3"
  have "unat (clen ch) = ?e" unfolding assms(2) using assms(6) by (simp add: unat_of_nat)
  then have sn: "sint (clen ch div 4 * 3) = int k" using sint_div4 [of "clen ch"] assms(6) by (simp add: k_def)
  show ?thesis
  proof (cases "bs = []")
    case True
    then have "chunk_from_base64 m ch buf = Some (m, \<lparr>cptr = Some buf, clen = of_nat (length bs)\<rparr>)"
      unfolding chunk_from_base64_def sn Let_def by (simp add: k_def)
    then show ?thesis using that [of m] True by simp
  next
    case False
    then have "0 < k" by (cases bs) (auto simp: k_def length_b64_encode)
    from b64_loop_decode [OF assms(3,4), of buf 0 0] assms(5) obtain m' where m':
      "b64_loop m a buf (int k) 0 0 = Some (m', int (length bs))" "length m' = length m" "take buf m' = take buf m"
      "take (length bs) (drop buf m') = bs" "drop (a + ?e) m' = drop (a + ?e) m"
      by (auto simp: k_def)
    have "chunk_from_base64 m ch buf = Some (m', \<lparr>cptr = Some buf, clen = of_nat (length bs)\<rparr>)"
      unfolding chunk_from_base64_def sn Let_def using \<open>0 < k\<close> assms(1) m'(1) by simp
    then show ?thesis using that m'(2-) by blast
  qed
qed

end
