(* ===== verification/Lexparser.thy ===== *)
theory Lexparser
  imports Status Chunk
begin

text \<open>
  \<^verbatim>\<open>platform/common/src/mxLexparser.cpp\<close>: the line and token scanner for configuration and PEM
  files. All chunks point into one buffer, the contents of the file; \<^verbatim>\<open>fetchLine\<close> and the
  base 64 decoder write to it in place. A function gives back the chunks it changes and its
  status; the outer \<^verbatim>\<open>None\<close> is an access outside the buffer or through a null pointer.
\<close>


section \<open>Reading the file\<close>

text \<open>
  What the system calls give: whether \<^verbatim>\<open>open\<close>, \<^verbatim>\<open>fstat\<close> and \<^verbatim>\<open>malloc\<close> succeed, the size of the file, what
  \<^verbatim>\<open>malloc\<close>'s memory holds, and the results of the calls of \<^verbatim>\<open>read\<close> (\<^verbatim>\<open>None\<close>: the error \<open>-1\<close>).
\<close>

record file_env =
  open_ok :: bool
  fstat_ok :: bool
  malloc_ok :: bool
  st_size :: nat
  fresh :: "u8 list"
  reads :: "u8 list option list"

text \<open>The loop; \<open>None\<close> outside is a \<^verbatim>\<open>read\<close> that gives more bytes than asked for, or no further result.\<close>

fun read_loop :: "nat \<Rightarrow> u8 list option list \<Rightarrow> u8 list \<Rightarrow> nat \<Rightarrow> u8 list option option" where
  "read_loop sz [] buf tot = None"
| "read_loop sz (None # rs) buf tot = Some None"
| "read_loop sz (Some bs # rs) buf tot =
     (if sz - tot < length bs then None
      else if bs = [] then Some (Some buf)
      else do { buf' \<leftarrow> buf_write buf tot bs; read_loop sz rs buf' (tot + length bs) })"

definition getChunkFromFile :: "file_env \<Rightarrow> (Status_e \<times> (mem \<times> chunk_v) option) option" where
  "getChunkFromFile f =
     (if \<not> open_ok f \<or> \<not> fstat_ok f \<or> \<not> malloc_ok f then Some (STATUS_FAILED, None)
      else do { r \<leftarrow> read_loop (st_size f) (reads f) (take (st_size f) (fresh f)) 0;
                Some (case r of
                        None \<Rightarrow> (STATUS_FAILED, None)
                      | Some buf \<Rightarrow> (STATUS_SUCCESS, Some (buf, \<lparr>cptr = Some 0, clen = of_nat (st_size f)\<rparr>))) })"

section \<open>Tokens and lines\<close>

text \<open>The result is \<^verbatim>\<open>src\<close>, \<^verbatim>\<open>token\<close> and the status.\<close>

definition extractToken :: "mem \<Rightarrow> chunk_v \<Rightarrow> u8 \<Rightarrow> (chunk_v \<times> chunk_v \<times> Status_e) option" where
  "extractToken m src termination =
     do { eot0 \<leftarrow> memchr m (cptr src) termination (unat (clen src));
          eot \<leftarrow> (if termination = 32 then
                  do { eot_tab \<leftarrow> memchr m (cptr src) 9 (unat (clen src));
                       Some (if eot_tab = None \<or> eot0 \<noteq> None \<and> the eot0 < the eot_tab then eot0 else eot_tab) }
                else Some eot0);
          case eot of
            None \<Rightarrow> Some (src, chunk_empty, STATUS_FAILED)
          | Some e \<Rightarrow>
              (let n = of_nat (e - the (cptr src))
               in Some (\<lparr>cptr = Some (e + 1), clen = clen src - (n + 1)\<rparr>,
                        \<lparr>cptr = cptr src, clen = n\<rparr>, STATUS_SUCCESS)) }"

text \<open>The result is the buffer, \<^verbatim>\<open>src\<close>, \<^verbatim>\<open>line\<close> and the status.\<close>

definition fetchLine :: "mem \<Rightarrow> chunk_v \<Rightarrow> chunk_v \<Rightarrow> (mem \<times> chunk_v \<times> chunk_v \<times> Status_e) option" where
  "fetchLine m src line =
     (if clen src = 0 then Some (m, src, line, STATUS_FAILED)
      else do { (src', tok, st) \<leftarrow> extractToken m src 10;
                if st = STATUS_SUCCESS then
                  do { cr \<leftarrow> (if 0 < clen tok
                            then do { c \<leftarrow> load m (cptr tok) (unat (clen tok) - 1); Some (c = 13) } else Some False);
                       let tok' = (if cr then tok\<lparr>clen := clen tok - 1\<rparr> else tok)
                       in do { p \<leftarrow> cptr tok';
                               m' \<leftarrow> buf_write m (p + unat (clen tok')) [0];
                               Some (m', src', tok', STATUS_SUCCESS) } }
                else Some (m, \<lparr>cptr = map_option (\<lambda>p. p + unat (clen src)) (cptr src), clen = 0\<rparr>, src, STATUS_SUCCESS) })"

text \<open>Blanks and tabs up to the end of the chunk; the result is \<^verbatim>\<open>src\<close> and whether there is more.\<close>

function eatWhitespace :: "mem \<Rightarrow> chunk_v \<Rightarrow> (chunk_v \<times> bool) option" where
  "eatWhitespace m src =
     (if clen src = 0 then Some (src, False)
      else case load m (cptr src) 0 of
             None \<Rightarrow> None
           | Some c \<Rightarrow>
               if c = 32 \<or> c = 9
               then eatWhitespace m (src\<lparr>cptr := map_option Suc (cptr src), clen := clen src - 1\<rparr>)
               else Some (src, c \<noteq> 35))"
  by pat_completeness auto
termination
  by (relation "measure (\<lambda>(m, src). unat (clen src))") (auto simp: unat_minus_one unat_gt_0 intro!: diff_less)

declare eatWhitespace.simps [simp del]

text \<open>A value that starts with a quote ends at the next such quote; the result is \<^verbatim>\<open>src\<close> and the delimiter.\<close>

definition open_quote :: "mem \<Rightarrow> chunk_v \<Rightarrow> (chunk_v \<times> u8) option" where
  "open_quote m src =
     do { c \<leftarrow> load m (cptr src) 0;
          if c = 39 \<or> c = 34
          then Some (src\<lparr>cptr := map_option Suc (cptr src), clen := clen src - 1\<rparr>, c)
          else Some (src, 32) }"

text \<open>The result is \<^verbatim>\<open>src\<close>, \<^verbatim>\<open>key\<close>, \<^verbatim>\<open>value\<close> (\<open>value0\<close> is its value before the call) and the status.\<close>

definition extractKeyValue :: "mem \<Rightarrow> chunk_v \<Rightarrow> chunk_v \<Rightarrow> (chunk_v \<times> chunk_v \<times> chunk_v \<times> Status_e) option" where
  "extractKeyValue m src value0 =
     do { (src1, key, st) \<leftarrow> extractToken m src 58;
          if st = STATUS_FAILED then Some (src1, key, value0, STATUS_FAILED)
          else do { (src2, more) \<leftarrow> eatWhitespace m src1;
                    if \<not> more then Some (src2, key, chunk_empty, STATUS_SUCCESS)
                    else do { (src3, delimiter) \<leftarrow> open_quote m src2;
                              (src4, value, st') \<leftarrow> extractToken m src3 delimiter;
                              if st' \<noteq> STATUS_FAILED then Some (src4, key, value, STATUS_SUCCESS)
                              else if delimiter = 32 then Some (src4\<lparr>clen := 0\<rparr>, key, src4, STATUS_SUCCESS)
                              else Some (src4, key, value, STATUS_FAILED) } } }"

text \<open>The result is \<^verbatim>\<open>src\<close>, \<^verbatim>\<open>filename\<close>, the contents of \<^verbatim>\<open>secret\<close> and the status.\<close>

definition extractFilenameSecret ::
  "mem \<Rightarrow> chunk_v \<Rightarrow> chunk_v \<Rightarrow> (chunk_v \<times> chunk_v \<times> u8 list option \<times> Status_e) option" where
  "extractFilenameSecret m src filename0 =
     do { (src1, more) \<leftarrow> eatWhitespace m src;
          if \<not> more then Some (src1, filename0, None, STATUS_FAILED)
          else do { (src2, delimiter) \<leftarrow> open_quote m src1;
                    (src3, tok, st) \<leftarrow> extractToken m src2 delimiter;
                    if st = STATUS_FAILED \<and> delimiter \<noteq> 32 then Some (src3, tok, None, STATUS_FAILED)
                    else
                      (let (src4, filename) =
                             (if st = STATUS_FAILED then (chunk_empty, src3) else (src3, tok))
                       in do { (src5, more1) \<leftarrow> eatWhitespace m src4;
                               if \<not> more1 then Some (src5, filename, None, STATUS_SUCCESS)
                               else do { (src6, more2) \<leftarrow> eatWhitespace m src5;
                                         if \<not> more2 then Some (src6, filename, None, STATUS_FAILED)
                                         else do { (src7, delim) \<leftarrow> open_quote m src6;
                                                   (src8, raw, st') \<leftarrow> extractToken m src7 delim;
                                                   if st' = STATUS_FAILED \<and> delim \<noteq> 32 then Some (src8, filename, None, STATUS_FAILED)
                                                   else do { secret \<leftarrow> chunk_clone m (if st' = STATUS_FAILED then src8 else raw);
                                                             Some (src8, filename, secret, STATUS_SUCCESS) } } } }) } }"

section \<open>PEM\<close>

datatype pem_state = PEM_PRE | PEM_MSG | PEM_HEADER | PEM_BODY | PEM_POST | PEM_ABORT

text \<open>\<^verbatim>\<open>-----tag name-----\<close> at the start of the line; the result is \<^verbatim>\<open>line\<close> and the answer.\<close>

definition starts_with :: "mem \<Rightarrow> chunk_v \<Rightarrow> u8 list \<Rightarrow> bool option" where
  "starts_with m line s =
     (if unat (clen line) < length s then Some False
      else do { p \<leftarrow> cptr line; prefix_at m p s })"

definition findBoundary :: "mem \<Rightarrow> chunk_v \<Rightarrow> u8 list \<Rightarrow> (chunk_v \<times> bool) option" where
  "findBoundary m line tag =
     do { dashes \<leftarrow> starts_with m line (asc ''-----'');
          if \<not> dashes then Some (line, False)
          else let line1 = chunk_skip line 5
               in do { istag \<leftarrow> starts_with m line1 tag;
                       if \<not> istag then Some (line1, False)
                       else let line2 = chunk_skip line1 (length tag)
                            in do { space \<leftarrow> (if clen line2 < 1 then Some False
                                              else do { c \<leftarrow> load m (cptr line2) 0; Some (c = 32) });
                                    if \<not> space then Some (line2, False)
                                    else let line3 = chunk_skip line2 1
                                         in do { p \<leftarrow> cptr line3;
                                                 pos \<leftarrow> str_str m p (asc ''-----'');
                                                 case pos of
                                                   None \<Rightarrow> Some (line3, False)
                                                 | Some q \<Rightarrow> Some (chunk_skip line3 (unat (of_nat (q - p) :: u32)), True) } } } }"

text \<open>
  What \<^verbatim>\<open>PEM_HEADER\<close> does with a header: it reads the name and the value and sets variables that
  nothing uses, so that only the accesses matter.
\<close>

definition pem_header_reads :: "mem \<Rightarrow> chunk_v \<Rightarrow> chunk_v \<Rightarrow> unit option" where
  "pem_header_reads m name value =
     do { proc \<leftarrow> (if unat (clen name) = 9 then starts_with m name (asc ''Proc-Type'') else Some False);
          four \<leftarrow> (if proc \<and> clen value \<noteq> 0 then do { c \<leftarrow> load m (cptr value) 0; Some (c = 52) } else Some False);
          if four then Some ()
          else do { dek \<leftarrow> (if unat (clen name) = 8 then starts_with m name (asc ''DEK-Info'') else Some False);
                    if \<not> dek then Some ()
                    else do { (value', tok, st) \<leftarrow> extractToken m value 44;
                              if unat (clen value') = 12
                              then do { p \<leftarrow> cptr name; _ \<leftarrow> prefix_at m p (asc ''DES-EDE3-CBC''); Some () }
                              else Some () } } }"

text \<open>The result is the buffer, the state, \<^verbatim>\<open>result\<close> and the value returned.\<close>

definition analyseDataOfPEM :: "mem \<Rightarrow> chunk_v \<Rightarrow> pem_state \<Rightarrow> chunk_v \<Rightarrow> (mem \<times> pem_state \<times> chunk_v \<times> Status_e) option" where
  "analyseDataOfPEM m line state result =
     (case state of
        PEM_PRE \<Rightarrow>
          do { (line', found) \<leftarrow> findBoundary m line (asc ''BEGIN'');
               Some (m, if found then PEM_MSG else PEM_PRE, result, STATUS_SUCCESS) }
      | PEM_MSG \<Rightarrow>
          do { colon \<leftarrow> memchr m (cptr line) 58 (unat (clen line));
               Some (m, if colon = None then PEM_BODY else PEM_HEADER, result, STATUS_CONTINUE) }
      | PEM_HEADER \<Rightarrow>
          (if clen line = 0 then Some (m, PEM_BODY, result, STATUS_SUCCESS)
           else do { (line', name, value, st) \<leftarrow> extractKeyValue m line chunk_empty;
                     if st = STATUS_FAILED then Some (m, PEM_HEADER, result, STATUS_FAILED)
                     else do { _ \<leftarrow> pem_header_reads m name value;
                               Some (m, PEM_HEADER, result, STATUS_SUCCESS) } })
      | PEM_BODY \<Rightarrow>
          do { (line', found) \<leftarrow> findBoundary m line (asc ''END'');
               if found then Some (m, PEM_POST, result, STATUS_SUCCESS)
               else do { (line2, tok, st) \<leftarrow> extractToken m line' 32;
                         buf \<leftarrow> cptr result;
                         (m', data) \<leftarrow> chunk_from_base64 m (if st = STATUS_FAILED then line2 else tok) buf;
                         Some (m', PEM_BODY, \<lparr>cptr = Some (buf + unat (clen data)), clen = clen result + clen data\<rparr>, STATUS_SUCCESS) } }
      | _ \<Rightarrow> Some (m, state, result, STATUS_FAILED))"

text \<open>The inner loop goes round again only after \<^verbatim>\<open>PEM_MSG\<close>, which it leaves.\<close>

definition analyse_line :: "mem \<Rightarrow> chunk_v \<Rightarrow> pem_state \<Rightarrow> chunk_v \<Rightarrow> (mem \<times> pem_state \<times> chunk_v \<times> Status_e) option" where
  "analyse_line m line state result =
     do { (m1, st1, res1, ret) \<leftarrow> analyseDataOfPEM m line state result;
          if ret = STATUS_CONTINUE then analyseDataOfPEM m1 line st1 res1 else Some (m1, st1, res1, ret) }"

partial_function (option) pem_loop ::
  "mem \<Rightarrow> chunk_v \<Rightarrow> chunk_v \<Rightarrow> pem_state \<Rightarrow> chunk_v \<Rightarrow> (mem \<times> pem_state \<times> chunk_v \<times> Status_e) option" where
  "pem_loop m blob line state result =
     do { (m1, blob1, line1, st) \<leftarrow> fetchLine m blob line;
          if st \<noteq> STATUS_SUCCESS then Some (m1, state, result, STATUS_SUCCESS)
          else do { (m2, state2, result2, ret) \<leftarrow> analyse_line m1 line1 state result;
                    if ret = STATUS_FAILED then Some (m2, state2, result2, STATUS_FAILED)
                    else pem_loop m2 blob1 line1 state2 result2 } }"

text \<open>The result is the buffer, \<^verbatim>\<open>src\<close> and the status.\<close>

definition convertPEM2BIN :: "mem \<Rightarrow> chunk_v \<Rightarrow> (mem \<times> chunk_v \<times> Status_e) option" where
  "convertPEM2BIN m src =
     do { (m', state, result, ret) \<leftarrow> pem_loop m src \<lparr>cptr = None, clen = 0\<rparr> PEM_PRE \<lparr>cptr = cptr src, clen = 0\<rparr>;
          if ret = STATUS_FAILED then Some (m', src, STATUS_FAILED)
          else let src' = src\<lparr>clen := clen result\<rparr>
               in Some (m', src', if state = PEM_POST then STATUS_SUCCESS else STATUS_FAILED) }"

end
