(* ===== verification/PemCorrect.thy ===== *)
theory PemCorrect
  imports Lexparser
begin

text \<open>
  The scanner of \<^verbatim>\<open>mxLexparser.cpp\<close> on well-formed and on malformed files: lines, boundaries, the
  states of \<^verbatim>\<open>analyseDataOfPEM\<close>, and the conversion of a PEM file in place.
\<close>

abbreviation view :: "nat \<Rightarrow> nat \<Rightarrow> chunk_v" where
  "view a n \<equiv> \<lparr>cptr = Some a, clen = of_nat n\<rparr>"

abbreviation dashes :: "u8 list" where
  "dashes \<equiv> asc ''-----''"

lemma asc_vals:
  "dashes = [45, 45, 45, 45, 45]" "asc ''BEGIN'' = [66, 69, 71, 73, 78]" "asc ''END'' = [69, 78, 68]"
  by (simp_all add: asc_def)

section \<open>Library functions\<close>

lemma drop_split:
  assumes "drop a m = c # r"
  shows "a < length m" "m ! a = c" "drop (Suc a) m = r"
proof -
  show "a < length m" using assms by (cases "a < length m") auto
  then show "m ! a = c" "drop (Suc a) m = r" using assms by (auto simp: Cons_nth_drop_Suc [symmetric])
qed

lemma mem_chr_found: "\<lbrakk>drop a m = t @ c # r; c \<notin> set t; length t < n\<rbrakk> \<Longrightarrow> mem_chr m a c n = Some (Some (a + length t))"
proof (induction t arbitrary: a n)
  case Nil
  then show ?case using drop_split [of a m c r] by (cases n) auto
next
  case (Cons d t)
  then obtain n' where "n = Suc n'" by (cases n) auto
  with Cons drop_split [of a m d "t @ c # r"] show ?case by auto
qed

lemma mem_chr_none: "\<lbrakk>drop a m = t @ r; c \<notin> set t; length t = n\<rbrakk> \<Longrightarrow> mem_chr m a c n = Some None"
proof (induction t arbitrary: a n)
  case (Cons d t)
  then show ?case using drop_split [of a m d "t @ r"] by auto
qed simp

lemma mem_chr_total: "a + n \<le> length m \<Longrightarrow> \<exists>r. mem_chr m a c n = Some r \<and> (\<forall>e. r = Some e \<longrightarrow> a \<le> e \<and> e < a + n)"
proof (induction n arbitrary: a)
  case (Suc n)
  then show ?case using Suc.IH [of "Suc a"] by auto
qed simp

lemma prefix_at_eq: "a + length s \<le> length m \<Longrightarrow> prefix_at m a s = Some (take (length s) (drop a m) = s)"
proof (induction s arbitrary: a)
  case (Cons c s)
  then show ?case by (simp add: Cons_nth_drop_Suc [symmetric])
qed simp

lemma str_str_found:
  "\<lbrakk>drop a m = t @ s @ r; 0 \<notin> set t; s \<noteq> []\<rbrakk> \<Longrightarrow> \<exists>q. str_str m a s = Some (Some q) \<and> a \<le> q \<and> q \<le> a + length t"
proof (induction t arbitrary: a)
  case Nil
  then have "length (drop a m) = length s + length r" by simp
  moreover have "0 < length s" using Nil.prems by simp
  ultimately have "a < length m \<and> a + length s \<le> length m" by (simp only: length_drop) linarith
  then have "a < length m" "a + length s \<le> length m" by simp_all
  with Nil.prems show ?case by (subst str_str.simps) (simp add: prefix_at_eq)
next
  case (Cons c t)
  note d = drop_split [of a m c "t @ s @ r"]
  have "length (drop a m) = Suc (length t) + length s + length r" using Cons.prems by simp
  then have "a + length s \<le> length m" by simp
  moreover obtain q where "str_str m (Suc a) s = Some (Some q)" "Suc a \<le> q" "q \<le> Suc a + length t"
    using Cons.IH [of "Suc a"] Cons.prems d by auto
  ultimately show ?case using d Cons.prems
    by (subst str_str.simps) (auto simp: prefix_at_eq)
qed

section \<open>Lines\<close>

lemma unat_minus_one_less: "x \<noteq> 0 \<Longrightarrow> unat (x - 1 :: u32) < unat x"
  by (simp add: unat_minus_one unat_gt_0)

lemma unat_of_nat32: "n < 2 ^ 32 \<Longrightarrow> unat (of_nat n :: u32) = n"
  by (simp add: unat_of_nat)

lemma extractToken_view:
  assumes "drop p m = t @ c # r" "c \<notin> set t" "length t < n" "n < 2 ^ 32" "c \<noteq> 32"
  shows "extractToken m (view p n) c = Some (view (p + length t + 1) (n - length t - 1), view p (length t), STATUS_SUCCESS)"
proof -
  have "unat (of_nat n :: u32) = n" using assms(4) by (simp add: unat_of_nat)
  then have "memchr m (Some p) c (unat (of_nat n :: u32)) = Some (Some (p + length t))"
    using mem_chr_found [OF assms(1-3)] assms(3) by (simp add: memchr_def)
  moreover have "(of_nat n :: u32) - (of_nat (length t) + 1) = of_nat (n - length t - 1)"
    using assms(3) by (simp add: of_nat_diff)
  ultimately show ?thesis using assms(5) by (simp add: extractToken_def)
qed

lemma extractToken_none:
  assumes "drop p m = t @ r" "c \<notin> set t" "c = 32 \<Longrightarrow> 9 \<notin> set t" "length t < 2 ^ 32"
  shows "extractToken m (view p (length t)) c = Some (view p (length t), chunk_empty, STATUS_FAILED)"
proof -
  have n: "unat (of_nat (length t) :: u32) = length t" using assms(4) by (simp add: unat_of_nat)
  have "memchr m (Some p) c (length t) = Some None"
    using mem_chr_none [OF assms(1,2)] by (simp add: memchr_def)
  moreover have "c = 32 \<Longrightarrow> memchr m (Some p) 9 (length t) = Some None"
    using mem_chr_none [OF assms(1)] assms(3) by (simp add: memchr_def)
  ultimately show ?thesis by (auto simp: extractToken_def n)
qed

definition eol :: "bool \<Rightarrow> u8 list" where
  "eol cr = (if cr then [13, 10] else [10])"

lemma buf_write_single: "i < length m \<Longrightarrow> buf_write m i [x] = Some (m[i := x])"
  by (simp add: upd_conv_take_nth_drop)

text \<open>A line \<open>t\<close> with its end: the zero byte goes where the end of line was.\<close>

lemma fetchLine_view:
  assumes "drop p m = t @ eol cr @ r" "10 \<notin> set t" "\<not> cr \<Longrightarrow> t = [] \<or> last t \<noteq> 13" "length m < 2 ^ 32"
  shows "fetchLine m (view p (length m - p)) line =
    Some (m[p + length t := 0], view (p + length t + length (eol cr)) (length m - (p + length t + length (eol cr))),
      view p (length t), STATUS_SUCCESS)"
proof -
  define s where "s = t @ (if cr then [13] else [])"
  have d: "drop p m = s @ 10 # r" using assms(1) by (simp add: s_def eol_def)
  have s: "10 \<notin> set s" using assms(2) by (simp add: s_def)
  have "length (drop p m) = length s + 1 + length r" using d by simp
  then have l: "length m = p + length s + 1 + length r" by simp
  have n: "unat (of_nat (length m - p) :: u32) = length m - p" "unat (of_nat (length s) :: u32) = length s"
    "unat (of_nat (length t) :: u32) = length t"
    by (rule unat_of_nat32; use assms(4) l in \<open>simp add: s_def split: if_splits\<close>)+
  have e: "extractToken m (view p (length m - p)) 10 =
      Some (view (p + length s + 1) (length m - p - length s - 1), view p (length s), STATUS_SUCCESS)"
    by (rule extractToken_view [OF d s]) (use l assms(4) in auto)
  have nz: "(of_nat (length m - p) :: u32) \<noteq> 0" using n(1) l by (metis add_is_0 diff_add_inverse add.assoc unat_0 zero_neq_one)
  have lst: "m ! (p + k) = s ! k" if "k < length s" for k
    using that d l nth_drop [of p m k] by (simp add: nth_append)
  have z: "(0 :: u32) < of_nat (length s) \<longleftrightarrow> 0 < length s" using n(2) by (metis unat_gt_0 word_gt_0)
  have w: "buf_write m (p + length t) [0] = Some (m[p + length t := 0])"
    by (rule buf_write_single) (use l in \<open>simp add: s_def split: if_splits\<close>)
  show ?thesis
  proof (cases cr)
    case True
    then have s13: "0 < length s" "s ! (length s - 1) = 13" "length t = length s - 1" by (simp_all add: s_def nth_append)
    have "length s = Suc (length t)" using s13(1,3) by simp
    then have "(of_nat (length s) - 1 :: u32) = of_nat (length t)" by simp
    moreover have "p + length s + 1 = p + length t + length (eol cr)" "length m - p - length s - 1 = length m - (p + length t + length (eol cr))"
      using True \<open>length s = Suc (length t)\<close> by (simp_all add: eol_def)
    moreover have "load m (Some p) (length s - 1) = Some 13"
      using trans [OF lst [OF diff_less [OF zero_less_one s13(1)]] s13(2)] l s13(1)
      by (simp add: load_def del: diff_is_0_eq add_diff_assoc add_diff_assoc2 Nat.add_diff_assoc)
    ultimately show ?thesis using e nz n s13(1) w z
      by (simp add: fetchLine_def del: One_nat_def of_nat_diff buf_write_Some)
  next
    case False
    then have st: "s = t" by (simp add: s_def)
    have "0 < length t \<Longrightarrow> t ! (length t - 1) \<noteq> 13" using assms(3) False by (auto simp: last_conv_nth)
    then have "0 < length s \<Longrightarrow> m ! (p + (length s - 1)) \<noteq> 13" using lst [of "length s - 1"] st by simp
    moreover have "p + length s + 1 = p + length t + length (eol cr)" "length m - p - length s - 1 = length m - (p + length t + length (eol cr))"
      using False st by (simp_all add: eol_def)
    ultimately show ?thesis using e nz n l w z st
      by (auto simp: fetchLine_def load_def simp del: One_nat_def)
  qed
qed

section \<open>Boundaries\<close>

lemma chunk_skip_view: "\<lbrakk>k < n; n < 2 ^ 32\<rbrakk> \<Longrightarrow> chunk_skip (view p n) k = view (p + k) (n - k)"
  by (simp add: chunk_skip_def unat_of_nat32 of_nat_diff)

lemma starts_with_view:
  assumes "drop p m = t @ r" "n = length t" "n < 2 ^ 32"
  shows "starts_with m (view p n) s = Some (take (length s) t = s)"
proof (cases "s = [] \<or> n < length s")
  case True
  then show ?thesis using assms(2,3) by (auto simp: starts_with_def unat_of_nat32 dest: arg_cong [where f = length])
next
  case False
  have "length (drop p m) = length t + length r" using assms(1) by simp
  with False have "p + length s \<le> length m" using assms(2) by (cases s) auto
  then have "prefix_at m p s = Some (take (length s) t = s)"
    using False assms(1,2) by (simp add: prefix_at_eq)
  then show ?thesis using assms(3) False by (simp add: starts_with_def unat_of_nat32)
qed

lemma length_dashes: "length dashes = 5"
  by (simp add: asc_def)

lemma findBoundary_no:
  assumes "drop p m = t @ r" "length t < 2 ^ 32" "take 5 t \<noteq> dashes"
  shows "findBoundary m (view p (length t)) tag = Some (view p (length t), False)"
  using starts_with_view [OF assms(1) refl assms(2), of dashes] assms(3)
  by (simp add: findBoundary_def length_dashes)

lemma findBoundary_yes:
  assumes "drop p m = dashes @ tag @ [32] @ name @ dashes @ r" "0 \<notin> set name" "length m < 2 ^ 32"
    "n = length tag + length name + 11"
  shows "\<exists>line'. findBoundary m (view p n) tag = Some (line', True)"
proof -
  let ?p1 = "p + 5" and ?p2 = "p + 5 + length tag"
  have lt: "length (drop p m) = n + length r" unfolding assms(1) using assms(4) by (simp add: asc_vals)
  have n: "n < 2 ^ 32" using lt assms(3) by simp
  have nt: "n = length (dashes @ tag @ [32] @ name @ dashes)" using assms(4) by (simp add: length_dashes)
  have d1: "drop ?p1 m = (tag @ [32] @ name @ dashes) @ r"
    using arg_cong [OF assms(1), of "drop 5"] by (simp add: asc_vals add.commute)
  have d2: "drop ?p2 m = (32 # name @ dashes) @ r"
    using arg_cong [OF d1, of "drop (length tag)"] by (simp add: add.commute)
  have d3: "drop (Suc ?p2) m = name @ dashes @ r"
    using arg_cong [OF d2, of "drop 1"] by simp
  have s0: "starts_with m (view p n) dashes = Some True"
    by (subst starts_with_view [OF _ nt n, of p m r]) (simp_all add: assms(1))
  have s1: "starts_with m (view ?p1 (n - 5)) tag = Some True"
    by (subst starts_with_view [OF d1]) (use assms(4) n in \<open>simp_all add: length_dashes\<close>)
  have k: "chunk_skip (view p n) 5 = view ?p1 (n - 5)" "chunk_skip (view ?p1 (n - 5)) (length tag) = view ?p2 (n - 5 - length tag)"
    "chunk_skip (view ?p2 (n - 5 - length tag)) 1 = view (Suc ?p2) (n - 6 - length tag)"
    using chunk_skip_view [of 5 n p] chunk_skip_view [of "length tag" "n - 5" ?p1] chunk_skip_view [of 1 "n - 5 - length tag" ?p2]
      n assms(4) by simp_all
  have u: "\<not> (of_nat (n - 5 - length tag) :: u32) < 1"
    using unat_of_nat32 [of "n - 5 - length tag"] n assms(4) by (simp add: word_less_nat_alt)
  have ld: "load m (Some ?p2) 0 = Some 32"
    using drop_split [of ?p2 m 32 "name @ dashes @ r"] d2 by (simp add: load_def)
  obtain q where "str_str m (Suc ?p2) dashes = Some (Some q)"
    using str_str_found [OF d3 assms(2)] by (auto simp: asc_vals)
  then show ?thesis using s0 s1 k u ld
    by (simp add: findBoundary_def Let_def del: of_nat_diff)
qed

section \<open>The states\<close>

lemma analyse_begin:
  assumes "drop p m = dashes @ asc ''BEGIN'' @ [32] @ name @ dashes @ r" "0 \<notin> set name" "length m < 2 ^ 32"
  shows "analyse_line m (view p (length name + 16)) PEM_PRE res = Some (m, PEM_MSG, res, STATUS_SUCCESS)"
proof -
  obtain l where "findBoundary m (view p (length name + 16)) (asc ''BEGIN'') = Some (l, True)"
    using findBoundary_yes [OF assms, of "length name + 16"] by (auto simp: asc_vals)
  then show ?thesis by (simp add: analyse_line_def analyseDataOfPEM_def)
qed

lemma analyse_pre:
  assumes "drop p m = t @ r" "length t < 2 ^ 32" "take 5 t \<noteq> dashes"
  shows "analyse_line m (view p (length t)) PEM_PRE res = Some (m, PEM_PRE, res, STATUS_SUCCESS)"
  using findBoundary_no [OF assms] by (simp add: analyse_line_def analyseDataOfPEM_def)

lemma analyse_msg:
  assumes "drop p m = t @ r" "length t < 2 ^ 32" "58 \<notin> set t"
  shows "analyse_line m (view p (length t)) PEM_MSG res = analyseDataOfPEM m (view p (length t)) PEM_BODY res"
proof -
  have "memchr m (Some p) 58 (length t) = Some None"
    using mem_chr_none [OF assms(1,3) refl] by (simp add: memchr_def)
  then show ?thesis using assms(2) by (simp add: analyse_line_def analyseDataOfPEM_def unat_of_nat32)
qed

lemma analyse_end:
  assumes "drop p m = dashes @ asc ''END'' @ [32] @ name @ dashes @ r" "0 \<notin> set name" "length m < 2 ^ 32"
  shows "analyseDataOfPEM m (view p (length name + 14)) PEM_BODY res = Some (m, PEM_POST, res, STATUS_SUCCESS)"
proof -
  obtain l where "findBoundary m (view p (length name + 14)) (asc ''END'') = Some (l, True)"
    using findBoundary_yes [OF assms, of "length name + 14"] by (auto simp: asc_vals)
  then show ?thesis by (simp add: analyseDataOfPEM_def)
qed

lemma b64_encode_set: "set (b64_encode bs) \<subseteq> insert 61 (set b64_alphabet)"
proof (induction bs rule: b64_encode.induct)
  case (1 x y z bs)
  then show ?case using b64_digit_in b64_split_less [of _ x y z] by auto
next
  case (2 x y)
  then show ?case using b64_digit_in b64_split_less [of _ x y 0] by (auto dest!: in_set_takeD)
next
  case (3 x)
  then show ?case using b64_digit_in b64_split_less [of _ x 0 0] by (auto dest!: in_set_takeD)
qed simp

lemma b64_encode_no: "c \<in> {0, 9, 10, 13, 32, 45, 58} \<Longrightarrow> c \<notin> set (b64_encode bs)"
  using b64_encode_set [of bs] b64_alphabet_no by auto

text \<open>A line of base 64 is decoded behind what is there already.\<close>

lemma analyse_body:
  assumes "drop p m = b64_encode bs @ r" "q \<le> p" "length m < 2 ^ 31"
  obtains m' where "analyseDataOfPEM m (view p (length (b64_encode bs))) PEM_BODY (view q q) =
      Some (m', PEM_BODY, view (q + length bs) (q + length bs), STATUS_SUCCESS)"
    "length m' = length m" "take (q + length bs) m' = take q m @ bs" "drop (p + length (b64_encode bs)) m' = r"
proof -
  let ?t = "b64_encode bs"
  have "length (drop p m) = length ?t + length r" unfolding assms(1) by simp
  then have l: "p + length ?t \<le> length m \<or> ?t = []" by (cases ?t) auto
  have lt: "length ?t < 2 ^ 31" using l assms(3) by auto
  have lb: "length bs < 2 ^ 32" using lt by (simp add: length_b64_encode)
  have "take 5 ?t \<noteq> dashes"
    using b64_encode_no [of 45 bs] in_set_takeD [of 45 5 ?t] by (force simp: asc_def)
  then have fb: "findBoundary m (view p (length ?t)) (asc ''END'') = Some (view p (length ?t), False)"
    using findBoundary_no [OF assms(1)] lt by simp
  have ex: "extractToken m (view p (length ?t)) 32 = Some (view p (length ?t), chunk_empty, STATUS_FAILED)"
    by (rule extractToken_none [OF assms(1)]) (use b64_encode_no lt in auto)
  show ?thesis
  proof (cases "bs = []")
    case True
    have "chunk_from_base64 m (view p 0) q = Some (m, view q 0)"
      by (simp add: chunk_from_base64_def)
    then show ?thesis using that [of m] fb ex True assms(1)
      by (simp add: analyseDataOfPEM_def)
  next
    case False
    then have "?t \<noteq> []" by (cases bs rule: b64_encode.cases) (auto simp: b64_split_def)
    with l have le: "p + length ?t \<le> length m" by simp
    obtain m' where m': "chunk_from_base64 m (view p (length ?t)) q = Some (m', view q (length bs))"
      "length m' = length m" "take q m' = take q m" "take (length bs) (drop q m') = bs"
      "drop (p + length ?t) m' = drop (p + length ?t) m"
      by (rule chunk_from_base64_in_place [of "view p (length ?t)" p bs m q]) (use assms le lt in auto)
    have "drop (p + length ?t) m = r" using arg_cong [OF assms(1), of "drop (length ?t)"] by (simp add: add.commute)
    moreover have "take (q + length bs) m' = take q m @ bs" using m'(3,4) by (simp add: take_add)
    ultimately show ?thesis using that [of m'] m' fb ex lb
      by (simp add: analyseDataOfPEM_def unat_of_nat32)
  qed
qed

section \<open>The loop\<close>

lemma pem_loop_line:
  assumes "drop p m = t @ eol cr @ r" "10 \<notin> set t" "\<not> cr \<Longrightarrow> t = [] \<or> last t \<noteq> 13" "length m < 2 ^ 32"
    "analyse_line (m[p + length t := 0]) (view p (length t)) st res = Some (m2, st2, res2, STATUS_SUCCESS)"
  shows "pem_loop m (view p (length m - p)) line st res =
    pem_loop m2 (view (p + length t + length (eol cr)) (length m - (p + length t + length (eol cr)))) (view p (length t)) st2 res2"
  by (subst pem_loop.simps) (simp add: fetchLine_view [OF assms(1-4)] assms(5))

lemma pem_loop_end: "pem_loop m \<lparr>cptr = p, clen = 0\<rparr> line st res = Some (m, st, res, STATUS_SUCCESS)"
  by (subst pem_loop.simps) (simp add: fetchLine_def)

lemma after_line:
  assumes "drop p m = t @ eol cr @ r" "m1 = m[p + length t := 0]"
  obtains r' where "drop p m1 = t @ r'" "drop (length (eol cr)) r' = r" "length m1 = length m"
    "take p m1 = take p m" "p + length t + length (eol cr) + length r = length m"
proof -
  have "length (drop p m) = length t + length (eol cr) + length r" using assms(1) by simp
  moreover have e: "0 < length (eol cr)" by (simp add: eol_def)
  ultimately have l: "p + length t + length (eol cr) + length r = length m" by (simp only: length_drop)
  have "drop p m1 = (t @ eol cr @ r)[length t := 0]"
    unfolding assms(2) using assms(1) by (simp add: drop_update_swap)
  also have "\<dots> = t @ (eol cr @ r)[0 := 0]" by (simp add: list_update_append)
  finally have "drop p m1 = t @ (eol cr @ r)[0 := 0]" .
  moreover have "drop (length (eol cr)) ((eol cr @ r)[0 := 0]) = r" by (simp add: eol_def)
  ultimately show ?thesis using that assms(2) l by simp
qed

text \<open>One line of the body, of which \<open>b\<close> is decoded.\<close>

lemma pem_data_line:
  assumes "drop p m = t @ eol cr @ r" "set t \<inter> {10, 13, 58} = {}" "length m < 2 ^ 31" "q \<le> p"
    "st = PEM_MSG \<or> st = PEM_BODY" "p' = p + length t + length (eol cr)"
    "\<And>m1 r'. drop p m1 = t @ r' \<Longrightarrow> length m1 = length m \<Longrightarrow>
      \<exists>m2. analyseDataOfPEM m1 (view p (length t)) PEM_BODY (view q q) = Some (m2, st', view q' q', STATUS_SUCCESS) \<and>
        length m2 = length m \<and> take q' m2 = take q m1 @ b \<and> drop (p + length t) m2 = r'"
  shows "\<exists>m2. pem_loop m (view p (length m - p)) line st (view q q) =
      pem_loop m2 (view p' (length m2 - p')) (view p (length t)) st' (view q' q') \<and>
    length m2 = length m \<and> take q' m2 = take q m @ b \<and> drop p' m2 = r"
proof -
  define m1 where "m1 = m[p + length t := 0]"
  obtain r' where m1: "drop p m1 = t @ r'" "drop (length (eol cr)) r' = r" "length m1 = length m"
    "take p m1 = take p m" "p + length t + length (eol cr) + length r = length m"
    by (rule after_line [OF assms(1) m1_def])
  from assms(7) [OF m1(1,3)] obtain m2 where m2:
    "analyseDataOfPEM m1 (view p (length t)) PEM_BODY (view q q) = Some (m2, st', view q' q', STATUS_SUCCESS)"
    "length m2 = length m" "take q' m2 = take q m1 @ b" "drop (p + length t) m2 = r'" by auto
  have no: "10 \<notin> set t" "\<not> cr \<Longrightarrow> t = [] \<or> last t \<noteq> 13" "58 \<notin> set t"
    using assms(2) by (auto, metis last_in_set)
  have "analyse_line m1 (view p (length t)) st (view q q) = Some (m2, st', view q' q', STATUS_SUCCESS)"
    using assms(3,5) analyse_msg [OF m1(1) _ no(3)] m1(5) m2(1) by (auto simp: analyse_line_def)
  then have "pem_loop m (view p (length m - p)) line st (view q q) =
      pem_loop m2 (view p' (length m2 - p')) (view p (length t)) st' (view q' q')"
    unfolding m1_def assms(6) m2(2) using assms(3) by (intro pem_loop_line [OF assms(1) no(1,2)]) auto
  moreover have "take q m1 = take q m"
    using arg_cong [OF m1(4), of "take q"] assms(4) by (simp add: min_absorb1)
  moreover have "drop p' m2 = r"
    unfolding assms(6) m1(2) [symmetric] m2(4) [symmetric] by (simp add: add.commute)
  ultimately show ?thesis using m2(2,3) by (intro exI [of _ m2] conjI) simp_all
qed

definition pem_tail :: "bool \<Rightarrow> u8 list \<Rightarrow> u8 list list \<Rightarrow> u8 list" where
  "pem_tail cr name parts = concat (map (\<lambda>b. b64_encode b @ eol cr) parts) @ dashes @ asc ''END'' @ [32] @ name @ dashes @ eol cr"

definition pem_file :: "bool \<Rightarrow> u8 list \<Rightarrow> u8 list list \<Rightarrow> u8 list" where
  "pem_file cr name parts = dashes @ asc ''BEGIN'' @ [32] @ name @ dashes @ eol cr @ pem_tail cr name parts"

lemma pem_body:
  assumes "drop p m = pem_tail cr name parts @ r" "q \<le> p" "length m < 2 ^ 31" "set name \<inter> {0, 10, 13, 58} = {}"
    "st = PEM_MSG \<or> st = PEM_BODY" "q' = q + length (concat parts)"
  shows "\<exists>m' p' line'. pem_loop m (view p (length m - p)) line st (view q q) =
      pem_loop m' (view p' (length m' - p')) line' PEM_POST (view q' q') \<and>
    length m' = length m \<and> take q' m' = take q m @ concat parts \<and> drop p' m' = r"
  using assms
proof (induction parts arbitrary: p m q st line)
  case Nil
  define t where "t = dashes @ asc ''END'' @ [32] @ name @ dashes"
  have lt: "length t = length name + 14" by (simp add: t_def asc_vals)
  let ?p = "p + length t + length (eol cr)"
  have "\<exists>m2. pem_loop m (view p (length m - p)) line st (view q q) =
      pem_loop m2 (view ?p (length m2 - ?p)) (view p (length t)) PEM_POST (view q q) \<and>
    length m2 = length m \<and> take q m2 = take q m @ [] \<and> drop ?p m2 = r"
  proof (rule pem_data_line)
    show "drop p m = t @ eol cr @ r" using Nil.prems(1) by (simp add: pem_tail_def t_def)
    show "set t \<inter> {10, 13, 58} = {}" using Nil.prems(4) by (auto simp: t_def asc_vals)
    fix m1 r' assume d: "drop p m1 = t @ r'" and l: "length m1 = length m"
    have "analyseDataOfPEM m1 (view p (length t)) PEM_BODY (view q q) = Some (m1, PEM_POST, view q q, STATUS_SUCCESS)"
      unfolding lt by (rule analyse_end [where r = r']) (use d l Nil.prems in \<open>auto simp: t_def\<close>)
    moreover have "drop (p + length t) m1 = r'"
      using arg_cong [OF d, of "drop (length t)"] by (simp add: add.commute)
    ultimately show "\<exists>m2. analyseDataOfPEM m1 (view p (length t)) PEM_BODY (view q q) = Some (m2, PEM_POST, view q q, STATUS_SUCCESS) \<and>
      length m2 = length m \<and> take q m2 = take q m1 @ [] \<and> drop (p + length t) m2 = r'" using l by simp
  qed (use Nil.prems in auto)
  then show ?case using Nil.prems(6) by auto
next
  case (Cons b parts)
  let ?t = "b64_encode b" and ?r = "pem_tail cr name parts @ r" let ?p = "p + length ?t + length (eol cr)"
  have "\<exists>m2. pem_loop m (view p (length m - p)) line st (view q q) =
      pem_loop m2 (view ?p (length m2 - ?p)) (view p (length ?t)) PEM_BODY (view (q + length b) (q + length b)) \<and>
    length m2 = length m \<and> take (q + length b) m2 = take q m @ b \<and> drop ?p m2 = ?r"
  proof (rule pem_data_line)
    show "drop p m = ?t @ eol cr @ ?r" using Cons.prems(1) by (simp add: pem_tail_def)
    show "set ?t \<inter> {10, 13, 58} = {}" using b64_encode_no by auto
    fix m1 r' assume "drop p m1 = ?t @ r'" "length m1 = length m"
    then show "\<exists>m2. analyseDataOfPEM m1 (view p (length ?t)) PEM_BODY (view q q) =
        Some (m2, PEM_BODY, view (q + length b) (q + length b), STATUS_SUCCESS) \<and>
      length m2 = length m \<and> take (q + length b) m2 = take q m1 @ b \<and> drop (p + length ?t) m2 = r'"
      using analyse_body [of p m1 b r' q] Cons.prems(2,3) by metis
  qed (use Cons.prems in auto)
  then obtain m2 where m2: "pem_loop m (view p (length m - p)) line st (view q q) =
      pem_loop m2 (view ?p (length m2 - ?p)) (view p (length ?t)) PEM_BODY (view (q + length b) (q + length b))"
    "length m2 = length m" "take (q + length b) m2 = take q m @ b" "drop ?p m2 = ?r" by auto
  have "length b \<le> length ?t" by (simp add: length_b64_encode)
  then have "q + length b \<le> ?p" using Cons.prems(2) by simp
  from Cons.IH [OF m2(4) this _ Cons.prems(4), of PEM_BODY "view p (length ?t)"] Cons.prems(3,6) m2
  show ?case by (auto simp: add.assoc)
qed

lemma convert_pem_tail:
  assumes "set name \<inter> {0, 10, 13, 58} = {}" "length m < 2 ^ 31" "m = pem_file cr name parts @ r"
  shows "\<exists>m' p line'. pem_loop m (view 0 (length m)) line PEM_PRE (view 0 0) =
      pem_loop m' (view p (length m' - p)) line' PEM_POST (view (length (concat parts)) (length (concat parts))) \<and>
    length m' = length m \<and> take (length (concat parts)) m' = concat parts \<and> drop p m' = r"
proof -
  define t where "t = dashes @ asc ''BEGIN'' @ [32] @ name @ dashes"
  have lt: "length t = length name + 16" by (simp add: t_def asc_vals)
  let ?p = "length t + length (eol cr)"
  have d: "drop 0 m = t @ eol cr @ pem_tail cr name parts @ r" unfolding assms(3) by (simp add: t_def pem_file_def)
  have no: "10 \<notin> set t" "\<not> cr \<Longrightarrow> t = [] \<or> last t \<noteq> 13" using assms(1) by (auto simp: t_def asc_vals)
  define m1 where "m1 = m[0 + length t := 0]"
  obtain r' where m1: "drop 0 m1 = t @ r'" "drop (length (eol cr)) r' = pem_tail cr name parts @ r" "length m1 = length m"
    by (rule after_line [OF d m1_def])
  have "analyse_line m1 (view 0 (length t)) PEM_PRE (view 0 0) = Some (m1, PEM_MSG, view 0 0, STATUS_SUCCESS)"
    unfolding lt by (rule analyse_begin [where r = r']) (use m1 assms in \<open>auto simp: t_def\<close>)
  then have "pem_loop m (view 0 (length m - 0)) line PEM_PRE (view 0 0) =
      pem_loop m1 (view (0 + ?p) (length m1 - (0 + ?p))) (view 0 (length t)) PEM_MSG (view 0 0)"
    unfolding m1_def using d no assms(2) by (subst pem_loop_line [OF d]) (auto simp: add.assoc)
  moreover have "drop ?p m1 = pem_tail cr name parts @ r"
    using m1(1,2) by (metis add.commute append_eq_conv_conj drop_0 drop_drop)
  from pem_body [OF this, of 0 PEM_MSG "length (concat parts)" "view 0 (length t)"] m1(3) assms(1,2)
  obtain m' p' line' where "pem_loop m1 (view ?p (length m1 - ?p)) (view 0 (length t)) PEM_MSG (view 0 0) =
      pem_loop m' (view p' (length m' - p')) line' PEM_POST (view (length (concat parts)) (length (concat parts)))"
    "length m' = length m1" "take (length (concat parts)) m' = concat parts" "drop p' m' = r" by auto
  ultimately show ?thesis using m1(3) by (intro exI [of _ m'] exI [of _ p'] exI [of _ line']) simp
qed

lemma length_concat_pem: "length (concat parts) \<le> length (pem_file cr name parts)"
proof -
  have "length (concat parts) \<le> length (concat (map (\<lambda>b. b64_encode b @ eol cr) parts))"
    by (induction parts) (auto simp: length_b64_encode intro!: add_mono)
  then show ?thesis by (simp add: pem_file_def pem_tail_def)
qed

lemma convert_pem:
  assumes "set name \<inter> {0, 10, 13, 58} = {}" "length (pem_file cr name parts) < 2 ^ 31"
  shows "\<exists>m'. convertPEM2BIN (pem_file cr name parts) (view 0 (length (pem_file cr name parts))) =
      Some (m', view 0 (length (concat parts)), STATUS_SUCCESS) \<and>
    take (length (concat parts)) m' = concat parts"
proof -
  let ?n = "length (concat parts)"
  have "pem_file cr name parts = pem_file cr name parts @ []" by simp
  from convert_pem_tail [OF assms this, of "\<lparr>cptr = None, clen = 0\<rparr>"] obtain m' p line' where
    "pem_loop (pem_file cr name parts) (view 0 (length (pem_file cr name parts))) \<lparr>cptr = None, clen = 0\<rparr> PEM_PRE (view 0 0) =
      pem_loop m' (view p (length m' - p)) line' PEM_POST (view ?n ?n)"
    "length m' = length (pem_file cr name parts)" "take ?n m' = concat parts" "length m' \<le> p" by auto
  then show ?thesis by (simp add: convertPEM2BIN_def pem_loop_end)
qed

text \<open>Anything behind the \<^verbatim>\<open>END\<close> line, an empty line for one, makes the conversion fail.\<close>

lemma fetchLine_more:
  assumes "p < length m" "length m < 2 ^ 32"
  shows "\<exists>m' src line'. fetchLine m (view p (length m - p)) line = Some (m', src, line', STATUS_SUCCESS)"
proof -
  let ?n = "length m - p"
  have n: "unat (of_nat ?n :: u32) = ?n" by (rule unat_of_nat32) (use assms in auto)
  then have nz: "(of_nat ?n :: u32) \<noteq> 0" using assms(1) by (metis unat_0 zero_less_diff less_irrefl)
  obtain e where e: "mem_chr m p 10 ?n = Some e" "\<forall>a. e = Some a \<longrightarrow> p \<le> a \<and> a < p + ?n"
    using mem_chr_total [of p ?n m 10] assms(1) by auto
  then have mc: "memchr m (Some p) 10 ?n = Some e" using assms(1) by (simp add: memchr_def)
  show ?thesis
  proof (cases e)
    case None
    then show ?thesis using mc n nz by (simp add: fetchLine_def extractToken_def)
  next
    case (Some a)
    define w where "w = (of_nat (a - p) :: u32)"
    have k: "unat w = a - p" unfolding w_def by (rule unat_of_nat32) (use e Some assms in auto)
    have a: "p \<le> a" "a < length m" using e(2) Some assms(1) by auto
    obtain src' where x: "extractToken m (view p ?n) 10 = Some (src', \<lparr>cptr = Some p, clen = w\<rparr>, STATUS_SUCCESS)"
      using mc n Some by (simp add: extractToken_def w_def Let_def del: of_nat_diff)
    have "unat (w - 1) \<le> a - p" if "0 < w"
      using that k unat_minus_one_less [of w] by (simp add: word_gt_0)
    then have "buf_write m (p + unat w) [0] \<noteq> None" "0 < w \<Longrightarrow> buf_write m (p + unat (w - 1)) [0] \<noteq> None"
      using k a by auto
    then show ?thesis using x nz k a
      by (auto simp: fetchLine_def load_def simp del: buf_write_Some of_nat_diff)
  qed
qed

lemma convert_pem_trailing:
  assumes "set name \<inter> {0, 10, 13, 58} = {}" "length (pem_file cr name parts @ r) < 2 ^ 31" "r \<noteq> []"
    "m = pem_file cr name parts @ r"
  shows "\<exists>m'. convertPEM2BIN m (view 0 (length m)) = Some (m', view 0 (length m), STATUS_FAILED)"
proof -
  let ?n = "length (concat parts)"
  have "length m < 2 ^ 31" using assms(2,4) by simp
  from convert_pem_tail [OF assms(1) this assms(4), of "\<lparr>cptr = None, clen = 0\<rparr>"] obtain m' p line' where
    m': "pem_loop m (view 0 (length m)) \<lparr>cptr = None, clen = 0\<rparr> PEM_PRE (view 0 0) =
      pem_loop m' (view p (length m' - p)) line' PEM_POST (view ?n ?n)"
    "length m' = length m" "drop p m' = r" by (elim exE conjE) (rule that)
  have "p < length m'" using m'(3) assms(3) by (metis drop_all not_less)
  then obtain m2 src l where
    "fetchLine m' (view p (length m' - p)) line' = Some (m2, src, l, STATUS_SUCCESS)"
    using fetchLine_more [of p m' line'] m'(2) \<open>length m < 2 ^ 31\<close> by auto
  then have "pem_loop m' (view p (length m' - p)) line' PEM_POST (view ?n ?n) = Some (m2, PEM_POST, view ?n ?n, STATUS_FAILED)"
    by (subst pem_loop.simps) (simp add: analyse_line_def analyseDataOfPEM_def)
  then show ?thesis using m'(1) by (simp add: convertPEM2BIN_def)
qed

end
