(* ===== verification/LexSafe.thy ===== *)
theory LexSafe
  imports PemCorrect "HOL-Library.Sublist"
begin

text \<open>
  Which accesses of the scanner stay inside the part of the buffer they were given: the token
  functions always do, the PEM conversion does when the file ends with a newline and no boundary
  line stops right after its keyword.
\<close>

text \<open>The chunk is empty or lies in the \<open>n\<close> bytes from \<open>p\<close> on.\<close>

definition inside :: "nat \<Rightarrow> nat \<Rightarrow> chunk_v \<Rightarrow> bool" where
  "inside p n c \<longleftrightarrow> clen c = 0 \<or> (\<exists>a. cptr c = Some a \<and> p \<le> a \<and> a + unat (clen c) \<le> p + n)"

lemma inside_empty [simp]: "inside p n chunk_empty"
  by (simp add: inside_def chunk_empty_def)

lemma inside_view: "n < 2 ^ 32 \<Longrightarrow> inside p n (view p n)"
  by (simp add: inside_def unat_of_nat32)

lemma inside_len0 [simp]: "inside p n (c\<lparr>clen := 0\<rparr>)"
  by (simp add: inside_def)

text \<open>The rest of a chunk, \<open>k\<close> bytes on.\<close>

lemma inside_rest:
  assumes "inside p n c" "cptr c = Some a" "k \<le> unat (clen c)" "k < 2 ^ 32"
  shows "inside p n \<lparr>cptr = Some (a + k), clen = clen c - of_nat k\<rparr>" "inside p n \<lparr>cptr = Some a, clen = of_nat k\<rparr>"
proof -
  have k: "unat (of_nat k :: u32) = k" by (rule unat_of_nat32 [OF assms(4)])
  then have "unat (clen c - of_nat k) = unat (clen c) - k"
    using unat_sub [of "of_nat k" "clen c"] assms(3) by (simp add: word_le_nat_alt)
  then show "inside p n \<lparr>cptr = Some (a + k), clen = clen c - of_nat k\<rparr>" "inside p n \<lparr>cptr = Some a, clen = of_nat k\<rparr>"
    using assms(1-3) k by (auto simp: inside_def)
qed

lemma memchr_inside:
  assumes "inside p n c" "p + n \<le> length m"
  shows "\<exists>r. memchr m (cptr c) x (unat (clen c)) = Some r \<and>
    (\<forall>e. r = Some e \<longrightarrow> (\<exists>a. cptr c = Some a \<and> a \<le> e \<and> e < a + unat (clen c)))"
proof (cases "clen c = 0")
  case False
  with assms(1) obtain a where a: "cptr c = Some a" "a + unat (clen c) \<le> p + n" by (auto simp: inside_def)
  with assms(2) mem_chr_total [of a "unat (clen c)" m x] show ?thesis by (auto simp: memchr_def)
qed (simp add: memchr_def)

lemma extractToken_inside:
  assumes "inside p n src" "p + n \<le> length m"
  shows "\<exists>src' tok st. extractToken m src t = Some (src', tok, st) \<and> inside p n src' \<and> inside p n tok \<and>
    (st = STATUS_FAILED \<longrightarrow> src' = src) \<and> st \<noteq> STATUS_CONTINUE"
proof -
  have ok: "inside p n \<lparr>cptr = Some (e + 1), clen = clen src - (of_nat (e - a) + 1)\<rparr> \<and>
      inside p n \<lparr>cptr = cptr src, clen = of_nat (e - a)\<rparr>"
    if "cptr src = Some a" "a \<le> e" "e < a + unat (clen src)" for a e
  proof -
    have "unat (clen src) < 2 ^ LENGTH(32)" by (rule unsigned_less)
    then have k: "Suc (e - a) \<le> unat (clen src)" "Suc (e - a) < 2 ^ 32" "e - a \<le> unat (clen src)" "e - a < 2 ^ 32"
      using that(2,3) by auto
    have "a + Suc (e - a) = e + 1" "(of_nat (Suc (e - a)) :: u32) = of_nat (e - a) + 1" using that(2) by simp_all
    then show ?thesis
      using inside_rest(1) [OF assms(1) that(1) k(1,2)] inside_rest(2) [OF assms(1) that(1) k(3,4)] that(1)
      by (simp del: of_nat_diff of_nat_Suc)
  qed
  obtain r1 where r1: "memchr m (cptr src) t (unat (clen src)) = Some r1"
    "\<forall>e. r1 = Some e \<longrightarrow> (\<exists>a. cptr src = Some a \<and> a \<le> e \<and> e < a + unat (clen src))"
    using memchr_inside [OF assms, of t] by auto
  obtain r2 where r2: "memchr m (cptr src) 9 (unat (clen src)) = Some r2"
    "\<forall>e. r2 = Some e \<longrightarrow> (\<exists>a. cptr src = Some a \<and> a \<le> e \<and> e < a + unat (clen src))"
    using memchr_inside [OF assms, of 9] by auto
  define r where "r = (if t = 32 then (if r2 = None \<or> r1 \<noteq> None \<and> the r1 < the r2 then r1 else r2) else r1)"
  have r: "\<forall>e. r = Some e \<longrightarrow> (\<exists>a. cptr src = Some a \<and> a \<le> e \<and> e < a + unat (clen src))"
    using r1(2) r2(2) by (simp add: r_def)
  have x: "extractToken m src t = (case r of None \<Rightarrow> Some (src, chunk_empty, STATUS_FAILED)
      | Some e \<Rightarrow> Some (\<lparr>cptr = Some (Suc e), clen = clen src - (of_nat (e - the (cptr src)) + 1)\<rparr>,
                      \<lparr>cptr = cptr src, clen = of_nat (e - the (cptr src))\<rparr>, STATUS_SUCCESS))"
    by (simp add: extractToken_def r_def r1(1) r2(1) Let_def del: of_nat_diff)
  show ?thesis
  proof (cases r)
    case None
    then show ?thesis using x assms(1) by simp
  next
    case (Some e)
    with r obtain a where "cptr src = Some a" "a \<le> e" "e < a + unat (clen src)" by auto
    with ok [OF this] Some x show ?thesis by (simp del: of_nat_diff)
  qed
qed

lemma load_inside:
  assumes "inside p n c" "p + n \<le> length m" "clen c \<noteq> 0"
  shows "\<exists>a. cptr c = Some a \<and> load m (cptr c) 0 = Some (m ! a)"
proof -
  have "0 < unat (clen c)" using assms(3) by (simp add: unat_gt_0)
  then show ?thesis using assms by (auto simp: inside_def load_def)
qed

lemma inside_step: "\<lbrakk>inside p n c; clen c \<noteq> 0\<rbrakk> \<Longrightarrow> inside p n (c\<lparr>cptr := map_option Suc (cptr c), clen := clen c - 1\<rparr>)"
proof -
  assume "inside p n c" "clen c \<noteq> 0"
  moreover from this have "1 \<le> unat (clen c)" by (simp add: Suc_le_eq unat_gt_0)
  ultimately show ?thesis using inside_rest(1) [of p n c _ 1] by (auto simp: inside_def)
qed

lemma eatWhitespace_inside:
  "\<lbrakk>inside p n src; p + n \<le> length m\<rbrakk> \<Longrightarrow> \<exists>src' more. eatWhitespace m src = Some (src', more) \<and> inside p n src' \<and> (more \<longrightarrow> clen src' \<noteq> 0)"
proof (induction "unat (clen src)" arbitrary: src rule: less_induct)
  case less
  show ?case
  proof (cases "clen src = 0")
    case False
    let ?s = "src\<lparr>cptr := map_option Suc (cptr src), clen := clen src - 1\<rparr>"
    have "\<exists>src' more. eatWhitespace m ?s = Some (src', more) \<and> inside p n src' \<and> (more \<longrightarrow> clen src' \<noteq> 0)"
      using less.hyps [of ?s] unat_minus_one_less [OF False] inside_step [OF less.prems(1) False] less.prems(2) by simp
    with load_inside [OF less.prems False] False less.prems show ?thesis
      by (subst eatWhitespace.simps) auto
  next
    case True
    then have "eatWhitespace m src = Some (src, False)" by (subst eatWhitespace.simps) simp
    then show ?thesis using less.prems(1) by auto
  qed
qed

lemma open_quote_inside:
  "\<lbrakk>inside p n src; p + n \<le> length m; clen src \<noteq> 0\<rbrakk> \<Longrightarrow> \<exists>src' d. open_quote m src = Some (src', d) \<and> inside p n src'"
  using load_inside [of p n src m] inside_step [of p n src] by (auto simp: open_quote_def)

lemma extractKeyValue_inside:
  assumes "inside p n src" "p + n \<le> length m"
  shows "\<exists>src' key value st. extractKeyValue m src v0 = Some (src', key, value, st) \<and> inside p n src' \<and>
    (st \<noteq> STATUS_FAILED \<longrightarrow> inside p n key \<and> inside p n value)"
proof -
  obtain s1 key st where 1: "extractToken m src 58 = Some (s1, key, st)" "inside p n s1" "inside p n key"
    using extractToken_inside [OF assms, of 58] by auto
  obtain s2 more where 2: "eatWhitespace m s1 = Some (s2, more)" "inside p n s2" "more \<longrightarrow> clen s2 \<noteq> 0"
    using eatWhitespace_inside [OF 1(2) assms(2)] by auto
  show ?thesis
  proof (cases "st = STATUS_FAILED \<or> \<not> more")
    case True
    then show ?thesis using 1 2 by (auto simp: extractKeyValue_def)
  next
    case False
    then obtain s3 d where 3: "open_quote m s2 = Some (s3, d)" "inside p n s3"
      using open_quote_inside [OF 2(2) assms(2)] 2(3) by auto
    obtain s4 val st' where 4: "extractToken m s3 d = Some (s4, val, st')" "inside p n s4" "inside p n val"
      using extractToken_inside [OF 3(2) assms(2), of d] by auto
    show ?thesis using False 1 2 3 4 by (auto simp: extractKeyValue_def)
  qed
qed

lemma chunk_clone_inside: "\<lbrakk>inside p n c; p + n \<le> length m\<rbrakk> \<Longrightarrow> chunk_clone m c \<noteq> None"
  by (auto simp: chunk_clone_def inside_def split: option.splits)

lemma extractFilenameSecret_inside:
  assumes "inside p n src" "p + n \<le> length m"
  shows "\<exists>src' filename secret st. extractFilenameSecret m src f0 = Some (src', filename, secret, st) \<and> inside p n src' \<and>
    (st = STATUS_SUCCESS \<longrightarrow> inside p n filename)"
proof -
  obtain s1 more where 1: "eatWhitespace m src = Some (s1, more)" "inside p n s1" "more \<longrightarrow> clen s1 \<noteq> 0"
    using eatWhitespace_inside [OF assms] by auto
  show ?thesis
  proof (cases more)
    case False
    then show ?thesis using 1 by (simp add: extractFilenameSecret_def)
  next
    case True
    then obtain s2 d where 2: "open_quote m s1 = Some (s2, d)" "inside p n s2"
      using open_quote_inside [OF 1(2) assms(2)] 1(3) by auto
    obtain s3 tok st where 3: "extractToken m s2 d = Some (s3, tok, st)" "inside p n s3" "inside p n tok"
      using extractToken_inside [OF 2(2) assms(2), of d] by auto
    define s4 where "s4 = (if st = STATUS_FAILED then chunk_empty else s3)"
    define fn where "fn = (if st = STATUS_FAILED then s3 else tok)"
    have s4: "inside p n s4" "inside p n fn" using 3 by (simp_all add: s4_def fn_def)
    obtain s5 more1 where 5: "eatWhitespace m s4 = Some (s5, more1)" "inside p n s5" "more1 \<longrightarrow> clen s5 \<noteq> 0"
      using eatWhitespace_inside [OF s4(1) assms(2)] by auto
    obtain s6 more2 where 6: "eatWhitespace m s5 = Some (s6, more2)" "inside p n s6" "more2 \<longrightarrow> clen s6 \<noteq> 0"
      using eatWhitespace_inside [OF 5(2) assms(2)] by auto
    have q: "more2 \<longrightarrow> (\<exists>s7 d'. open_quote m s6 = Some (s7, d') \<and> inside p n s7)"
      using open_quote_inside [OF 6(2) assms(2)] 6(3) by auto
    have fin: "\<exists>s8 raw st'. extractToken m s7 d' = Some (s8, raw, st') \<and> inside p n s8 \<and>
        (\<exists>sec. chunk_clone m (if st' = STATUS_FAILED then s8 else raw) = Some sec)" if "inside p n s7" for s7 d'
      using extractToken_inside [OF that assms(2), of d'] chunk_clone_inside [OF _ assms(2)] by fastforce
    have e: "extractFilenameSecret m src f0 =
       (if st = STATUS_FAILED \<and> d \<noteq> 32 then Some (s3, tok, None, STATUS_FAILED)
        else if \<not> more1 then Some (s5, fn, None, STATUS_SUCCESS)
        else if \<not> more2 then Some (s6, fn, None, STATUS_FAILED)
        else do { (src7, delim) \<leftarrow> open_quote m s6;
                  (src8, raw, st') \<leftarrow> extractToken m src7 delim;
                  if st' = STATUS_FAILED \<and> delim \<noteq> 32 then Some (src8, fn, None, STATUS_FAILED)
                  else do { secret \<leftarrow> chunk_clone m (if st' = STATUS_FAILED then src8 else raw);
                            Some (src8, fn, secret, STATUS_SUCCESS) } })"
      using 1(1) 2(1) 3(1) 5(1) 6(1) True unfolding s4_def fn_def
      by (cases "st = STATUS_FAILED") (simp_all add: extractFilenameSecret_def)
    show ?thesis
    proof (cases "more1 \<and> more2 \<and> \<not> (st = STATUS_FAILED \<and> d \<noteq> 32)")
      case False
      then show ?thesis unfolding e using 3 5 6 s4 by auto
    next
      case True
      with q obtain s7 d' where 7: "open_quote m s6 = Some (s7, d')" "inside p n s7" by auto
      from fin [OF this(2), of d'] obtain s8 raw st' sec where "extractToken m s7 d' = Some (s8, raw, st')" "inside p n s8"
        "chunk_clone m (if st' = STATUS_FAILED then s8 else raw) = Some sec" by auto
      then show ?thesis unfolding e using True 7 s4 by auto
    qed
  qed
qed

end
