(* ===== verification/PemSafe.thy ===== *)
theory PemSafe
  imports LexSafe
begin

text \<open>The PEM conversion on arbitrary bytes: it ends, and stays inside the buffer.\<close>

section \<open>Base 64\<close>

lemma b64_read_total:
  "\<lbrakk>a + n \<le> length m; 0 \<le> outlen\<rbrakk> \<Longrightarrow>
    \<exists>ds out. b64_read m a n outlen = Some (ds, out) \<and> length ds = n \<and> 0 \<le> out \<and> out \<le> outlen"
proof (induction n arbitrary: a outlen)
  case (Suc n)
  have l: "load m (Some a) 0 = Some (m ! a)" using Suc.prems by (simp add: load_def)
  from Suc.IH [of "Suc a" "outlen - 1"] Suc.IH [of "Suc a" outlen] Suc.prems show ?case
    unfolding b64_read.simps l by fastforce
qed simp

lemma b64_loop_total:
  "\<lbrakk>a + 4 * k \<le> length m; buf + nat i \<le> a; 0 \<le> i; 0 \<le> outlen; outlen \<le> i\<rbrakk> \<Longrightarrow>
    \<exists>m' out. b64_loop m a buf (i + 3 * int k) i outlen = Some (m', out) \<and> length m' = length m \<and> 0 \<le> out \<and>
      out \<le> i + 3 * int k \<and> drop (a + 4 * k) m' = drop (a + 4 * k) m"
proof (induction k arbitrary: m a i outlen)
  case 0
  then show ?case by (subst b64_loop.simps) simp
next
  case (Suc k)
  obtain ds out where rd: "b64_read m a 4 (outlen + 3) = Some (ds, out)" "0 \<le> out" "out \<le> outlen + 3"
    using b64_read_total [of a 4 m "outlen + 3"] Suc.prems by auto
  let ?q = "buf + nat i"
  define m1 where "m1 = take ?q m @ b64_bytes ds @ drop (?q + 3) m"
  have lw: "length (b64_bytes ds) = 3" by (simp add: b64_bytes_def)
  have w: "buf_write m ?q (b64_bytes ds) = Some m1" "length m1 = length m"
    using Suc.prems by (simp_all add: m1_def b64_bytes_def numeral_3_eq_3)
  have d: "drop ((a + 4) + 4 * k) m1 = drop ((a + 4) + 4 * k) m"
    using Suc.prems lw by (simp add: m1_def ac_simps)
  have n: "i + 3 * int (Suc k) = (i + 3) + 3 * int k" "a + 4 * Suc k = (a + 4) + 4 * k" by simp_all
  from Suc.IH [of "a + 4" m1 "i + 3" out] Suc.prems w(2) rd(2,3) obtain m' out' where
    "b64_loop m1 (a + 4) buf ((i + 3) + 3 * int k) (i + 3) out = Some (m', out')" "length m' = length m" "0 \<le> out'"
    "out' \<le> (i + 3) + 3 * int k" "drop ((a + 4) + 4 * k) m' = drop ((a + 4) + 4 * k) m1"
    by (auto simp: nat_add_distrib)
  moreover from this(1) rd(1) w(1) have "b64_loop m a buf (i + 3 * int (Suc k)) i outlen = Some (m', out')"
    unfolding n by (subst b64_loop.simps) simp
  ultimately show ?case unfolding n using d by (intro exI [of _ m'] exI [of _ out'] conjI) simp_all
qed

lemma chunk_from_base64_inside:
  assumes "inside p n c" "p + n \<le> length m" "q \<le> p" "n < 2 ^ 31"
  shows "\<exists>m' k. chunk_from_base64 m c q = Some (m', view q k) \<and> length m' = length m \<and> k \<le> n \<and>
    drop (p + n) m' = drop (p + n) m"
proof -
  let ?k = "unat (clen c) div 4"
  have c: "unat (clen c) \<le> n" using assms(1) by (auto simp: inside_def)
  then have s: "sint (clen c div 4 * 3) = int (?k * 3)"
    using assms(4) by (intro sint_div4) simp
  show ?thesis
  proof (cases "?k = 0")
    case True
    then show ?thesis using s by (intro exI [of _ m] exI [of _ 0]) (simp add: chunk_from_base64_def Let_def)
  next
    case False
    then have "clen c \<noteq> 0" by auto
    with assms(1) obtain a where a: "cptr c = Some a" "p \<le> a" "a + unat (clen c) \<le> p + n" by (auto simp: inside_def)
    have "a + 4 * ?k \<le> length m" using a(3) assms(2) by linarith
    from b64_loop_total [OF this, of q 0 0] a(2) assms(3) obtain m' out where
      m': "b64_loop m a q (int (?k * 3)) 0 0 = Some (m', out)" "length m' = length m" "0 \<le> out" "out \<le> int (?k * 3)"
      "drop (a + 4 * ?k) m' = drop (a + 4 * ?k) m" by (auto simp: mult.commute)
    have "drop (p + n) m' = drop (p + n) m"
      using arg_cong [OF m'(5), of "drop (p + n - (a + 4 * ?k))"] a(3) by simp
    moreover have "chunk_from_base64 m c q = Some (m', view q (nat out))"
      using s False a(1) m'(1,3) by (simp add: chunk_from_base64_def Let_def)
    moreover have "nat out \<le> n" using m'(4) c by simp
    ultimately show ?thesis using m'(2) by (intro exI [of _ m'] exI [of _ "nat out"]) simp
  qed
qed

section \<open>Boundaries\<close>

lemma chunk_skip_inside: "inside p n c \<Longrightarrow> inside p n (chunk_skip c k)"
proof (cases "k < unat (clen c)")
  case True
  assume i: "inside p n c"
  with True obtain a where "cptr c = Some a" by (auto simp: inside_def)
  moreover have "unat (clen c) < 2 ^ LENGTH(32)" by (rule unsigned_less)
  ultimately show ?thesis using inside_rest(1) [OF i] True by (simp add: chunk_skip_def)
qed (simp add: chunk_skip_def)

lemma starts_with_inside:
  assumes "inside p n c" "p + n \<le> length m" "s \<noteq> []"
  shows "\<exists>b. starts_with m c s = Some b \<and>
    (b \<longrightarrow> (\<exists>a. cptr c = Some a \<and> a + length s \<le> length m \<and> take (length s) (drop a m) = s))"
proof (cases "unat (clen c) < length s")
  case False
  with assms(1,3) obtain a where "cptr c = Some a" "a + unat (clen c) \<le> p + n" by (auto simp: inside_def)
  with False assms(2) show ?thesis by (simp add: starts_with_def prefix_at_eq)
qed (auto simp: starts_with_def)

lemma prefix_at_zero:
  "\<lbrakk>a \<le> z; z < length m; m ! z = 0; 0 \<notin> set s\<rbrakk> \<Longrightarrow> \<exists>b. prefix_at m a s = Some b"
proof (induction s arbitrary: a)
  case (Cons c s)
  then show ?case using Cons.IH [of "Suc a"] by (cases "a = z") auto
qed auto

lemma str_str_zero:
  "\<lbrakk>a \<le> z; z < length m; m ! z = 0; 0 \<notin> set s\<rbrakk> \<Longrightarrow> \<exists>r. str_str m a s = Some r"
proof (induction "z - a" arbitrary: a rule: less_induct)
  case less
  from prefix_at_zero [OF less.prems] obtain b where "prefix_at m a s = Some b" ..
  moreover have "m ! a \<noteq> 0 \<Longrightarrow> \<exists>r. str_str m (Suc a) s = Some r"
    using less.prems by (intro less.hyps) (auto simp: le_less)
  ultimately show ?case using less.prems by (subst str_str.simps) auto
qed

lemma dashes_ne: "dashes \<noteq> []"
  by (simp add: asc_def)

lemma findBoundary_inside:
  assumes "p + n < length m" "m ! (p + n) = 0" "n < 2 ^ 32" "tag \<noteq> []"
    "take n (drop p m) \<noteq> dashes @ tag @ [32]"
  shows "\<exists>line' b. findBoundary m (view p n) tag = Some (line', b) \<and> inside p n line'"
proof -
  have pn: "p + n \<le> length m" using assms(1) by simp
  define l1 where "l1 = chunk_skip (view p n) 5"
  define l2 where "l2 = chunk_skip l1 (length tag)"
  define l3 where "l3 = chunk_skip l2 (Suc 0)"
  have i: "inside p n (view p n)" "inside p n l1" "inside p n l2" "inside p n l3"
    using inside_view [OF assms(3)] chunk_skip_inside by (simp_all add: l1_def l2_def l3_def)
  obtain b0 where b0: "starts_with m (view p n) dashes = Some b0" "b0 \<longrightarrow> take 5 (drop p m) = dashes"
    using starts_with_inside [OF i(1) pn dashes_ne] by (auto simp: length_dashes)
  obtain b1 where b1: "starts_with m l1 tag = Some b1" "b1 \<longrightarrow> (\<exists>a. cptr l1 = Some a \<and> take (length tag) (drop a m) = tag)"
    using starts_with_inside [OF i(2) pn assms(4)] by auto
  obtain b2 where b2: "(if clen l2 < 1 then Some False else do { c \<leftarrow> load m (cptr l2) 0; Some (c = 32) }) = Some b2"
    "b2 \<longrightarrow> clen l2 \<noteq> 0 \<and> (\<exists>a. cptr l2 = Some a \<and> m ! a = 32)"
    using load_inside [OF i(3) pn] by (cases "clen l2 = 0") (auto simp: word_less_1)
  have "\<exists>a r. cptr l3 = Some a \<and> str_str m a dashes = Some r" if "b0" "b1" "b2"
  proof -
    from b0 b1(1) that have t0: "take 5 (drop p m) = dashes" "\<not> n < 5"
      using assms(3) by (auto simp: starts_with_def unat_of_nat32 length_dashes split: if_splits)
    have "n \<noteq> 5"
    proof
      assume "n = 5"
      then have "l1 = chunk_empty" using assms(3) by (simp add: l1_def chunk_skip_def unat_of_nat32)
      then show False using b1(1) that(2) assms(4) by (simp add: starts_with_def chunk_empty_def)
    qed
    with t0(2) have n5: "5 < n" by simp
    then have l1: "l1 = view (p + 5) (n - 5)" using chunk_skip_view assms(3) by (simp add: l1_def)
    have n1: "n - 5 < 2 ^ 32" using assms(3) by simp
    have t1: "take (length tag) (drop (p + 5) m) = tag" "\<not> n - 5 < length tag"
      using b1 that(2) l1 unat_of_nat32 [OF n1] by (auto simp: starts_with_def simp del: of_nat_diff split: if_splits)
    have "n - 5 \<noteq> length tag"
    proof
      assume "n - 5 = length tag"
      then have "l2 = chunk_empty" using l1 unat_of_nat32 [OF n1] by (simp add: l2_def chunk_skip_def del: of_nat_diff)
      then show False using b2 that(3) by (simp add: chunk_empty_def)
    qed
    with t1(2) have "length tag < n - 5" by simp
    then have l2: "l2 = view (p + 5 + length tag) (n - 5 - length tag)" using chunk_skip_view n1 by (simp add: l2_def l1 del: of_nat_diff)
    have t2: "m ! (p + 5 + length tag) = 32" using b2 that(3) l2 by simp
    have "n - 5 - length tag \<noteq> 1"
    proof
      assume "n - 5 - length tag = 1"
      then have n6: "n = 5 + (length tag + 1)" by simp
      have "take n (drop p m) = take 5 (drop p m) @ take (length tag) (drop (p + 5) m) @ take 1 (drop (p + 5 + length tag) m)"
        unfolding n6 take_add drop_drop by (simp add: add.commute add.left_commute)
      also have "take 1 (drop (p + 5 + length tag) m) = [32]"
        using t2 assms(1) n6 by (simp add: take_Suc_conv_app_nth)
      finally show False using assms(5) t0(1) t1(1) by simp
    qed
    then have "l3 = view (p + 5 + length tag + 1) (n - 5 - length tag - 1)"
      using chunk_skip_view [of 1 "n - 5 - length tag" "p + 5 + length tag"] \<open>length tag < n - 5\<close> assms(3) by (simp add: l3_def l2 del: of_nat_diff)
    moreover have "\<exists>r. str_str m (p + 5 + length tag + 1) dashes = Some r"
      by (rule str_str_zero [of _ "p + n"]) (use assms(1,2) \<open>length tag < n - 5\<close> in \<open>simp_all add: asc_def\<close>)
    ultimately show ?thesis by simp
  qed
  then show ?thesis
    using b0(1) b1(1) b2(1) i chunk_skip_inside [OF i(4)]
    by (cases "b0 \<and> b1 \<and> b2") (auto simp: findBoundary_def Let_def l1_def [symmetric] l2_def [symmetric] l3_def [symmetric] split: option.split)
qed

section \<open>The states\<close>

lemma pem_header_reads_inside:
  assumes "inside p n name" "inside p n value" "p + n \<le> length m"
  shows "pem_header_reads m name value = Some ()"
proof -
  have l8: "length (asc ''DEK-Info'') = 8" "asc ''DEK-Info'' \<noteq> []" by (simp_all add: asc_def)
  obtain b1 where b1: "starts_with m name (asc ''Proc-Type'') = Some b1"
    using starts_with_inside [OF assms(1,3), of "asc ''Proc-Type''"] by (auto simp: asc_def)
  obtain b2 where b2: "starts_with m name (asc ''DEK-Info'') = Some b2"
    "b2 \<longrightarrow> (\<exists>a. cptr name = Some a \<and> a + 8 \<le> length m \<and> take 8 (drop a m) = asc ''DEK-Info'')"
    using starts_with_inside [OF assms(1,3) l8(2), unfolded l8(1)] by auto
  have dek: "\<exists>a b. cptr name = Some a \<and> prefix_at m a (asc ''DES-EDE3-CBC'') = Some b" if t: b2
  proof -
    obtain a where a: "cptr name = Some a" "a + 8 \<le> length m" "take 8 (drop a m) = asc ''DEK-Info''" using b2(2) t by auto
    then have "m ! a = asc ''DEK-Info'' ! 0" "m ! Suc a = asc ''DEK-Info'' ! 1" "m ! Suc (Suc a) = asc ''DEK-Info'' ! 2"
      unfolding a(3) [symmetric] by (simp_all add: eval_nat_numeral)
    with a show ?thesis by (auto simp: asc_def)
  qed
  obtain v tok st where x: "extractToken m value 44 = Some (v, tok, st)"
    using extractToken_inside [OF assms(2,3), of 44] by auto
  have ld: "clen value \<noteq> 0 \<Longrightarrow> \<exists>c. load m (cptr value) 0 = Some c"
    using load_inside [OF assms(2,3)] by auto
  show ?thesis using b1 b2(1) dek x ld
    by (cases b2; cases "clen value = 0") (auto simp: pem_header_reads_def)
qed

lemma analyseDataOfPEM_inside:
  assumes "p + n < length m" "m ! (p + n) = 0" "n < 2 ^ 31" "q \<le> p"
    "take n (drop p m) \<notin> {dashes @ asc ''BEGIN'' @ [32], dashes @ asc ''END'' @ [32]}"
  shows "\<exists>m' st' q' ret. analyseDataOfPEM m (view p n) st (view q q) = Some (m', st', view q' q', ret) \<and>
    length m' = length m \<and> q' \<le> p + n \<and> drop (p + n) m' = drop (p + n) m \<and>
    (ret = STATUS_CONTINUE \<longleftrightarrow> st = PEM_MSG) \<and> (st = PEM_MSG \<longrightarrow> m' = m \<and> q' = q \<and> st' \<noteq> PEM_MSG)"
proof -
  have n: "n < 2 ^ 32" "p + n \<le> length m" and q: "q \<le> p + n" using assms(1,3,4) by simp_all
  have i: "inside p n (view p n)" by (rule inside_view [OF n(1)])
  show ?thesis
  proof (cases st)
    case PEM_PRE
    obtain l b where "findBoundary m (view p n) (asc ''BEGIN'') = Some (l, b)"
      using findBoundary_inside [OF assms(1,2) n(1), of "asc ''BEGIN''"] assms(5) by (auto simp: asc_def)
    then show ?thesis using PEM_PRE q by (simp add: analyseDataOfPEM_def)
  next
    case PEM_MSG
    obtain c where "memchr m (cptr (view p n)) 58 (unat (clen (view p n))) = Some c"
      using memchr_inside [OF i n(2)] by auto
    then show ?thesis using PEM_MSG q by (simp add: analyseDataOfPEM_def)
  next
    case PEM_HEADER
    obtain l name val st1 where k: "extractKeyValue m (view p n) chunk_empty = Some (l, name, val, st1)"
      "st1 \<noteq> STATUS_FAILED \<longrightarrow> inside p n name \<and> inside p n val"
      using extractKeyValue_inside [OF i n(2), of chunk_empty] by auto
    then have "st1 \<noteq> STATUS_FAILED \<Longrightarrow> pem_header_reads m name val = Some ()"
      using pem_header_reads_inside n(2) by blast
    then show ?thesis using PEM_HEADER q k(1) by (simp add: analyseDataOfPEM_def)
  next
    case PEM_BODY
    obtain l b where fb: "findBoundary m (view p n) (asc ''END'') = Some (l, b)" "inside p n l"
      using findBoundary_inside [OF assms(1,2) n(1), of "asc ''END''"] assms(5) by (auto simp: asc_def)
    obtain l2 tok st1 where x: "extractToken m l 32 = Some (l2, tok, st1)" "inside p n l2" "inside p n tok"
      using extractToken_inside [OF fb(2) n(2), of 32] by auto
    define c where "c = (if st1 = STATUS_FAILED then l2 else tok)"
    have "inside p n c" using x by (simp add: c_def)
    from chunk_from_base64_inside [OF this n(2) assms(4,3)] obtain m' k where
      k: "chunk_from_base64 m c q = Some (m', view q k)" "length m' = length m" "k \<le> n" "drop (p + n) m' = drop (p + n) m" by auto
    have "unat (of_nat k :: u32) = k" by (rule unat_of_nat32) (use k(3) n(1) in simp)
    then have "\<not> b \<Longrightarrow> analyseDataOfPEM m (view p n) st (view q q) = Some (m', PEM_BODY, view (q + k) (q + k), STATUS_SUCCESS)"
      using PEM_BODY fb(1) x(1) k(1) by (simp add: analyseDataOfPEM_def c_def)
    moreover have "b \<Longrightarrow> analyseDataOfPEM m (view p n) st (view q q) = Some (m, PEM_POST, view q q, STATUS_SUCCESS)"
      using PEM_BODY fb(1) by (simp add: analyseDataOfPEM_def)
    ultimately show ?thesis using k(2-4) q assms(4) PEM_BODY by (cases b) auto
  qed (use q in \<open>auto simp: analyseDataOfPEM_def\<close>)
qed

lemma analyseDataOfPEM_ret:
  "analyseDataOfPEM m line st res = Some (m', st', res', ret) \<Longrightarrow> ret \<in> {STATUS_SUCCESS, STATUS_FAILED, STATUS_CONTINUE}"
  by (auto simp: analyseDataOfPEM_def split: pem_state.splits prod.splits if_splits Option.bind_splits)

lemma analyse_line_ret:
  "analyse_line m line st res = Some (m', st', res', ret) \<Longrightarrow> ret \<in> {STATUS_SUCCESS, STATUS_FAILED, STATUS_CONTINUE}"
  by (auto simp: analyse_line_def split: prod.splits if_splits Option.bind_splits dest!: analyseDataOfPEM_ret)

lemma analyse_line_inside:
  assumes "p + n < length m" "m ! (p + n) = 0" "n < 2 ^ 31" "q \<le> p"
    "take n (drop p m) \<notin> {dashes @ asc ''BEGIN'' @ [32], dashes @ asc ''END'' @ [32]}"
  shows "\<exists>m' st' q' ret. analyse_line m (view p n) st (view q q) = Some (m', st', view q' q', ret) \<and>
    length m' = length m \<and> q' \<le> p + n \<and> drop (p + n) m' = drop (p + n) m \<and> ret \<noteq> STATUS_CONTINUE"
proof -
  obtain m1 st1 q1 ret1 where 1: "analyseDataOfPEM m (view p n) st (view q q) = Some (m1, st1, view q1 q1, ret1)"
    "length m1 = length m" "q1 \<le> p + n" "drop (p + n) m1 = drop (p + n) m"
    "ret1 = STATUS_CONTINUE \<longleftrightarrow> st = PEM_MSG" "st = PEM_MSG \<longrightarrow> m1 = m \<and> q1 = q \<and> st1 \<noteq> PEM_MSG"
    using analyseDataOfPEM_inside [OF assms, of st] by (elim exE conjE) (rule that)
  obtain m2 st2 q2 ret2 where 2: "analyseDataOfPEM m (view p n) st1 (view q q) = Some (m2, st2, view q2 q2, ret2)"
    "length m2 = length m" "q2 \<le> p + n" "drop (p + n) m2 = drop (p + n) m"
    "ret2 = STATUS_CONTINUE \<longleftrightarrow> st1 = PEM_MSG"
    using analyseDataOfPEM_inside [OF assms, of st1] by (elim exE conjE) (rule that)
  show ?thesis
  proof (cases "st = PEM_MSG")
    case True
    then have "analyse_line m (view p n) st (view q q) = Some (m2, st2, view q2 q2, ret2)" "ret2 \<noteq> STATUS_CONTINUE"
      using 1 2 by (auto simp: analyse_line_def)
    then show ?thesis using 2 by blast
  next
    case False
    then have "analyse_line m (view p n) st (view q q) = Some (m1, st1, view q1 q1, ret1)" "ret1 \<noteq> STATUS_CONTINUE"
      using 1 by (auto simp: analyse_line_def)
    then show ?thesis using 1 by blast
  qed
qed

section \<open>The loop\<close>

lemma split_line:
  assumes "10 \<in> set s"
  obtains t cr r where "s = t @ eol cr @ r" "10 \<notin> set t" "\<not> cr \<longrightarrow> t = [] \<or> last t \<noteq> 13"
proof -
  from split_list_first [OF assms] obtain l r where l: "s = l @ 10 # r" "10 \<notin> set l" by auto
  show ?thesis
  proof (cases "l \<noteq> [] \<and> last l = 13")
    case True
    then have "l = butlast l @ [13]" using append_butlast_last_id [of l] by simp
    then show ?thesis using that [of "butlast l" True r] l by (auto simp: eol_def dest: in_set_butlastD)
  next
    case False
    then show ?thesis using that [of l False r] l by (auto simp: eol_def)
  qed
qed

text \<open>A boundary that ends right after its keyword.\<close>

definition bare_boundary :: "u8 list \<Rightarrow> bool" where
  "bare_boundary s \<longleftrightarrow> (\<exists>tag \<in> {asc ''BEGIN'', asc ''END''}. \<exists>cr. sublist (dashes @ tag @ [32] @ eol cr) s)"

lemma bare_boundary_mono: "bare_boundary r \<Longrightarrow> sublist r s \<Longrightarrow> bare_boundary s"
  unfolding bare_boundary_def by (meson sublist_order.order_trans)

lemma pem_loop_total:
  "\<lbrakk>drop p m = s; s = [] \<or> last s = 10; \<not> bare_boundary s; length m < 2 ^ 31; q \<le> p\<rbrakk> \<Longrightarrow>
    pem_loop m (view p (length m - p)) line st (view q q) \<noteq> None"
proof (induction "length s" arbitrary: s p m q st line rule: less_induct)
  case less
  show ?case
  proof (cases "s = []")
    case True
    then have "length m - p = 0" using less.prems(1) by (metis length_drop list.size(3))
    then show ?thesis by (simp add: pem_loop_end)
  next
    case False
    then have "10 \<in> set s" using less.prems(2) last_in_set by metis
    then obtain t cr r where t: "s = t @ eol cr @ r" "10 \<notin> set t" "\<not> cr \<longrightarrow> t = [] \<or> last t \<noteq> 13"
      by (rule split_line)
    have d: "drop p m = t @ eol cr @ r" using less.prems(1) t(1) by simp
    have m32: "length m < 2 ^ 32" using less.prems(4) by simp
    define m1 where "m1 = m[p + length t := 0]"
    obtain r' where m1: "drop p m1 = t @ r'" "drop (length (eol cr)) r' = r" "length m1 = length m"
      "p + length t + length (eol cr) + length r = length m"
      by (rule after_line [OF d m1_def])
    have el: "0 < length (eol cr)" by (simp add: eol_def)
    have pt: "p + length t < length m" using m1(4) el by linarith
    have bare: "t \<notin> {dashes @ asc ''BEGIN'' @ [32], dashes @ asc ''END'' @ [32]}"
      using less.prems(3) unfolding t(1) bare_boundary_def by (auto simp: sublist_appendI dest!: spec [of _ cr])
    have "\<exists>m' st' q' ret. analyse_line m1 (view p (length t)) st (view q q) = Some (m', st', view q' q', ret) \<and>
        length m' = length m1 \<and> q' \<le> p + length t \<and> drop (p + length t) m' = drop (p + length t) m1 \<and> ret \<noteq> STATUS_CONTINUE"
      using m1 pt less.prems(4,5) bare by (intro analyse_line_inside) (simp_all add: m1_def)
    then obtain m2 st2 q2 ret where m2: "analyse_line m1 (view p (length t)) st (view q q) = Some (m2, st2, view q2 q2, ret)"
      "length m2 = length m" "q2 \<le> p + length t" "drop (p + length t) m2 = drop (p + length t) m1" "ret \<noteq> STATUS_CONTINUE"
      unfolding m1(3) by (elim exE conjE) (rule that)
    show ?thesis
    proof (cases "ret = STATUS_FAILED")
      case True
      then show ?thesis
        using fetchLine_view [OF d t(2) mp [OF t(3)] m32] m2(1) by (subst pem_loop.simps) (simp add: m1_def)
    next
      case False
      then have "ret = STATUS_SUCCESS" using m2(5) analyse_line_ret [OF m2(1)] by auto
      with m2(1) have "analyse_line (m[p + length t := 0]) (view p (length t)) st (view q q) = Some (m2, st2, view q2 q2, STATUS_SUCCESS)"
        by (simp add: m1_def)
      let ?p = "p + length t + length (eol cr)"
      have step: "pem_loop m (view p (length m - p)) line st (view q q) =
          pem_loop m2 (view ?p (length m2 - ?p)) (view p (length t)) st2 (view q2 q2)"
        unfolding m2(2) using \<open>analyse_line (m[p + length t := 0]) _ _ _ = _\<close> t(3) by (intro pem_loop_line [OF d t(2) _ m32]) auto
      have e1: "drop (p + length t) m1 = r'"
        using arg_cong [OF m1(1), of "drop (length t)"] by (simp add: add.commute)
      have "drop ?p m2 = drop (length (eol cr)) (drop (p + length t) m2)" by (simp add: add.commute)
      also have "\<dots> = r" unfolding m2(4) e1 by (rule m1(2))
      finally have "drop ?p m2 = r" .
      moreover have "length r < length s" "r = [] \<or> last r = 10" using t(1) el less.prems(2) by (auto simp: eol_def split: if_splits)
      moreover have "\<not> bare_boundary r"
        using less.prems(3) bare_boundary_mono [OF _ sublist_append_leftI [of r "t @ eol cr"]] unfolding t(1) by auto
      ultimately have "pem_loop m2 (view ?p (length m2 - ?p)) (view p (length t)) st2 (view q2 q2) \<noteq> None"
        using less.prems(4) m2(2,3) by (intro less.hyps [of r]) simp_all
      then show ?thesis unfolding step .
    qed
  qed
qed

lemma convertPEM2BIN_total:
  assumes "m \<noteq> []" "last m = 10" "\<not> bare_boundary m" "length m < 2 ^ 31"
  shows "\<exists>m' src' st. convertPEM2BIN m (view 0 (length m)) = Some (m', src', st)"
  using pem_loop_total [of 0 m m 0 "\<lparr>cptr = None, clen = 0\<rparr>" PEM_PRE] assms
  by (auto simp: convertPEM2BIN_def)

end
