(* ===== verification/PemProps.thy ===== *)
theory PemProps
  imports PemSafe
begin

text \<open>The properties of the chunk helpers, the scanner and the PEM conversion.\<close>

section \<open>Reading the file\<close>

lemma read_loop_contents:
  "\<lbrakk>\<forall>bs \<in> set bss. bs \<noteq> []; tot + length (concat bss) \<le> sz; length buf = sz\<rbrakk> \<Longrightarrow>
    read_loop sz (map Some bss @ [Some []]) buf tot =
      Some (Some (take tot buf @ concat bss @ drop (tot + length (concat bss)) buf))"
proof (induction bss arbitrary: buf tot)
  case (Cons bs bss)
  let ?b = "take tot buf @ bs @ drop (tot + length bs) buf"
  have "buf_write buf tot bs = Some ?b" using Cons.prems by simp
  moreover have "take (tot + length bs) ?b = take tot buf @ bs" "length ?b = sz" using Cons.prems by simp_all
  moreover have "length bs \<le> sz - tot" using Cons.prems(2) by simp
  ultimately show ?case using Cons.prems Cons.IH [of "tot + length bs" ?b]
    by (simp add: ac_simps)
qed simp

lemma getChunkFromFile_contents:
  assumes "open_ok f" "fstat_ok f" "malloc_ok f" "length (fresh f) = st_size f"
    "reads f = map Some bss @ [Some []]" "\<forall>bs \<in> set bss. bs \<noteq> []" "length (concat bss) \<le> st_size f"
  shows "getChunkFromFile f =
    Some (STATUS_SUCCESS, Some (concat bss @ drop (length (concat bss)) (fresh f), view 0 (st_size f)))"
  using assms read_loop_contents [of bss 0 "st_size f" "fresh f"] by (simp add: getChunkFromFile_def)

text \<open>\<^verbatim>\<open>privateKeyGmpRSA::loadPriKeyFromPEM\<close>, which ignores both statuses.\<close>

definition loadPriKeyFromPEM :: "file_env \<Rightarrow> nat option" where
  "loadPriKeyFromPEM f =
     do { (ret, r) \<leftarrow> getChunkFromFile f;
          (m, data, ret') \<leftarrow> (case r of None \<Rightarrow> convertPEM2BIN [] \<lparr>cptr = None, clen = 0\<rparr>
                                    | Some (buf, chunk) \<Rightarrow> convertPEM2BIN buf chunk);
          Some 0 }"

section \<open>Boundaries without an end\<close>

lemma prefix_at_True: "prefix_at m a s = Some True \<Longrightarrow> take (length s) (drop a m) = s"
proof (induction s arbitrary: a)
  case (Cons c s)
  then show ?case by (auto split: if_splits simp: Cons_nth_drop_Suc [symmetric])
qed simp

lemma str_str_runs_off:
  "\<lbrakk>0 \<notin> set (drop a m); \<not> sublist s (drop a m)\<rbrakk> \<Longrightarrow> str_str m a s = None"
proof (induction "length m - a" arbitrary: a rule: less_induct)
  case less
  show ?case
  proof (cases "a < length m")
    case True
    then have d: "drop a m = m ! a # drop (Suc a) m" by (simp add: Cons_nth_drop_Suc)
    have "\<not> sublist s (drop (Suc a) m)" using less.prems(2) unfolding d by (auto intro: sublist_Cons_right [THEN iffD2])
    then have IH: "str_str m (Suc a) s = None" using True less.prems(1) d by (intro less.hyps) auto
    have "prefix_at m a s \<noteq> Some True"
    proof
      assume "prefix_at m a s = Some True"
      then have "prefix s (drop a m)" using prefix_at_True take_is_prefix by metis
      then show False using less.prems(2) by blast
    qed
    moreover have "m ! a \<noteq> 0" using less.prems(1) d by (metis list.set_intros(1))
    ultimately show ?thesis using IH True by (subst str_str.simps) (cases "prefix_at m a s"; auto)
  qed (subst str_str.simps, simp)
qed

lemma eatWhitespace_view:
  "\<lbrakk>drop a m = ws @ c # r; set ws \<subseteq> {32, 9}; c \<noteq> 32; c \<noteq> 9; length ws < n; n < 2 ^ 32\<rbrakk> \<Longrightarrow>
    eatWhitespace m (view a n) = Some (view (a + length ws) (n - length ws), c \<noteq> 35)"
proof (induction ws arbitrary: a n)
  case Nil
  have "(of_nat n :: u32) \<noteq> 0" using unat_of_nat32 [of n] Nil.prems by auto
  then show ?case using drop_split [of a m c r] Nil.prems by (subst eatWhitespace.simps) (simp add: load_def)
next
  case (Cons b ws)
  have nz: "(of_nat n :: u32) \<noteq> 0" using unat_of_nat32 [of n] Cons.prems by auto
  have "(of_nat n :: u32) - 1 = of_nat (n - 1)" using Cons.prems by (cases n) auto
  moreover have "eatWhitespace m (view (Suc a) (n - 1)) = Some (view (Suc a + length ws) (n - 1 - length ws), c \<noteq> 35)"
    using Cons.prems drop_split [of a m b "ws @ c # r"] by (intro Cons.IH) auto
  moreover have "b = 32 \<or> b = 9" using Cons.prems by auto
  ultimately show ?case using drop_split [of a m b "ws @ c # r"] Cons.prems nz
    by (subst eatWhitespace.simps) (auto simp: load_def simp del: of_nat_diff)
qed

section \<open>Properties\<close>

text \<open>C13: \<^verbatim>\<open>chunk_from_base64\<close> undoes base 64 of RFC 4648 in place: with the destination at or before the
  source in the same buffer, as \<^verbatim>\<open>analyseDataOfPEM\<close> calls it, it never reads a character it has
  overwritten, the result is the encoded bytes with the length less the padding, and the bytes before
  the destination and behind the source are untouched.\<close>

theorem base64_in_place:
  assumes "cptr ch = Some a" "clen ch = of_nat (length (b64_encode bs))"
    "take (length (b64_encode bs)) (drop a m) = b64_encode bs" "a + length (b64_encode bs) \<le> length m" "buf \<le> a"
    "length (b64_encode bs) < 2 ^ 31"
  shows "\<exists>m'. chunk_from_base64 m ch buf = Some (m', view buf (length bs)) \<and> length m' = length m \<and>
    take (length bs) (drop buf m') = bs \<and> take buf m' = take buf m \<and>
    drop (a + length (b64_encode bs)) m' = drop (a + length (b64_encode bs)) m"
  by (rule chunk_from_base64_in_place [OF assms]) blast

theorem base64_in_place_witness:
  "\<exists>m'. chunk_from_base64 (asc ''x TWFuTQ== y'') \<lparr>cptr = Some 2, clen = 8\<rparr> 1 = Some (m', view 1 (length (asc ''ManM''))) \<and>
    length m' = length (asc ''x TWFuTQ== y'') \<and> take (length (asc ''ManM'')) (drop 1 m') = asc ''ManM'' \<and>
    take 1 m' = take 1 (asc ''x TWFuTQ== y'') \<and>
    drop (2 + length (b64_encode (asc ''ManM''))) m' = drop (2 + length (b64_encode (asc ''ManM''))) (asc ''x TWFuTQ== y'')"
  by (rule base64_in_place) (simp_all add: asc_def b64_split_def b64_digit_def b64_alphabet_val)


text \<open>C14: \<^verbatim>\<open>convertPEM2BIN\<close> on a well-formed PEM file (a \<^verbatim>\<open>BEGIN\<close> line, lines of base 64 of any
  lengths that may each end with padding, an \<^verbatim>\<open>END\<close> line, every line ended by LF or by CR LF)
  ends, succeeds, and leaves exactly the encoded bytes at the start of the buffer, in place.\<close>

theorem PEM_decodes:
  assumes "set name \<inter> {0, 10, 13, 58} = {}" "length (pem_file cr name parts) < 2 ^ 31"
  shows "\<exists>m'. convertPEM2BIN (pem_file cr name parts) (view 0 (length (pem_file cr name parts))) =
      Some (m', view 0 (length (concat parts)), STATUS_SUCCESS) \<and>
    take (length (concat parts)) m' = concat parts"
  by (rule convert_pem [OF assms])

theorem PEM_decodes_witness:
  "\<exists>m'. convertPEM2BIN (pem_file True (asc ''RSA KEY'') [asc ''ManMan'', asc ''M''])
      (view 0 (length (pem_file True (asc ''RSA KEY'') [asc ''ManMan'', asc ''M'']))) =
        Some (m', view 0 (length (concat [asc ''ManMan'', asc ''M''])), STATUS_SUCCESS) \<and>
    take (length (concat [asc ''ManMan'', asc ''M''])) m' = concat [asc ''ManMan'', asc ''M'']"
  by (rule PEM_decodes) (simp_all add: asc_def pem_file_def pem_tail_def eol_def b64_split_def)


text \<open>Anything behind the \<^verbatim>\<open>END\<close> line, an empty line or a second certificate of a chain, makes
  \<^verbatim>\<open>convertPEM2BIN\<close> return \<^verbatim>\<open>STATUS_FAILED\<close> with the length of the text, although the data was decoded:
  the state \<^verbatim>\<open>PEM_POST\<close> falls into the \<^verbatim>\<open>default\<close> of the switch.\<close>

theorem PEM_trailing_text_fails:
  assumes "set name \<inter> {0, 10, 13, 58} = {}" "length (pem_file cr name parts @ r) < 2 ^ 31" "r \<noteq> []"
    "m = pem_file cr name parts @ r"
  shows "\<exists>m'. convertPEM2BIN m (view 0 (length m)) = Some (m', view 0 (length m), STATUS_FAILED)"
  by (rule convert_pem_trailing [OF assms])

theorem PEM_trailing_text_fails_witness:
  "\<exists>m'. convertPEM2BIN (pem_file False (asc ''KEY'') [asc ''Man''] @ [10])
      (view 0 (length (pem_file False (asc ''KEY'') [asc ''Man''] @ [10]))) =
    Some (m', view 0 (length (pem_file False (asc ''KEY'') [asc ''Man''] @ [10])), STATUS_FAILED)"
  by (rule PEM_trailing_text_fails [where r = "[10]", OF _ _ _ refl])
    (simp_all add: asc_def pem_file_def pem_tail_def eol_def b64_split_def)


text \<open>C15: Whatever the bytes of the file, \<^verbatim>\<open>convertPEM2BIN\<close> ends and makes no access outside the buffer or
  through a null pointer, if the file ends with a newline and no boundary line stops right after
  \<^verbatim>\<open>BEGIN\<close> or \<^verbatim>\<open>END\<close> and its space.\<close>

theorem PEM_safe_and_total:
  assumes "m \<noteq> []" "last m = 10" "\<not> bare_boundary m" "length m < 2 ^ 31"
  shows "\<exists>m' src' st. convertPEM2BIN m (view 0 (length m)) = Some (m', src', st)"
  by (rule convertPEM2BIN_total [OF assms])

theorem PEM_safe_and_total_witness:
  "\<exists>m' src' st. convertPEM2BIN (asc ''-----BEGIN A-----'' @ [10] @ asc ''K: !'' @ [10]) (view 0 23) = Some (m', src', st)"
  using PEM_safe_and_total [of "asc ''-----BEGIN A-----'' @ [10] @ asc ''K: !'' @ [10]"]
  by (simp add: asc_def bare_boundary_def eol_def sublist_Cons_right all_bool_eq ex_bool_eq)

text \<open>A last line that begins a boundary and has neither its closing dashes nor a newline makes
  \<^verbatim>\<open>findBoundary\<close> run \<^verbatim>\<open>strstr\<close> off the end of the buffer, or through a null pointer when nothing
  follows the space.\<close>

theorem unterminated_boundary_overreads:
  assumes "m = asc ''-----BEGIN '' @ name" "set name \<inter> {0, 10} = {}" "\<not> sublist (asc ''-----'') name" "length m < 2 ^ 31"
  shows "convertPEM2BIN m (view 0 (length m)) = None"
proof -
  let ?n = "length m" and ?k = "length name"
  have n: "?n = ?k + 11" "?n < 2 ^ 32" using assms(1,4) by (simp_all add: asc_def)
  have d: "drop 0 m = m @ []" by simp
  have no: "10 \<notin> set m" using assms(1,2) by (auto simp: asc_def)
  have nz: "(of_nat ?n :: u32) \<noteq> 0" using unat_of_nat32 [OF n(2)] n(1) by (metis add_is_0 unat_0 zero_neq_numeral)
  have "fetchLine m (view 0 ?n) \<lparr>cptr = None, clen = 0\<rparr> =
      Some (m, \<lparr>cptr = Some (0 + unat (of_nat ?n :: u32)), clen = 0\<rparr>, view 0 ?n, STATUS_SUCCESS)"
    using extractToken_none [OF d no _ n(2)] nz by (simp add: fetchLine_def)
  moreover have "findBoundary m (view 0 ?n) (asc ''BEGIN'') = None"
  proof -
    have s0: "starts_with m (view 0 ?n) dashes = Some True"
      by (subst starts_with_view [OF d refl n(2)]) (simp add: assms(1) asc_def)
    have d5: "drop 5 m = (asc ''BEGIN '' @ name) @ []" by (simp add: assms(1) asc_def)
    have s1: "starts_with m (view 5 (?n - 5)) (asc ''BEGIN'') = Some True"
      by (subst starts_with_view [OF d5]) (use n in \<open>simp_all add: asc_def\<close>)
    have k: "chunk_skip (view 0 ?n) 5 = view 5 (?n - 5)" "chunk_skip (view 5 (?n - 5)) 5 = view 10 (?n - 10)"
      using chunk_skip_view [of 5 ?n 0] chunk_skip_view [of 5 "?n - 5" 5] n by simp_all
    have u: "\<not> (of_nat (?n - 10) :: u32) < 1"
      using unat_of_nat32 [of "?n - 10"] n by (simp add: word_less_nat_alt)
    have ld: "load m (Some 10) 0 = Some 32" using n(1) by (simp add: load_def assms(1) asc_def)
    have "chunk_skip (view 10 (?n - 10)) 1 = chunk_empty" if "name = []"
      using that n by (simp add: chunk_skip_def)
    moreover have "chunk_skip (view 10 (?n - 10)) 1 = view 11 ?k" if "name \<noteq> []"
      using that chunk_skip_view [of 1 "?n - 10" 10] n by simp
    moreover have "str_str m 11 dashes = None"
    proof (rule str_str_runs_off)
      have "drop 11 m = name" by (simp add: assms(1) asc_def)
      then show "0 \<notin> set (drop 11 m)" "\<not> sublist dashes (drop 11 m)" using assms(2,3) by auto
    qed
    moreover have "length (asc ''BEGIN'') = 5" by (simp add: asc_def)
    ultimately show ?thesis using s0 s1 k u ld
      by (cases "name = []") (simp_all add: findBoundary_def Let_def chunk_empty_def length_dashes del: of_nat_diff One_nat_def)
  qed
  ultimately show ?thesis
    by (simp add: convertPEM2BIN_def analyse_line_def analyseDataOfPEM_def pem_loop.simps [of m "view 0 ?n"])
qed

theorem unterminated_boundary_overreads_witness:
  "convertPEM2BIN (asc ''-----BEGIN KEY---'') (view 0 17) = None"
  using unterminated_boundary_overreads [of "asc ''-----BEGIN KEY---''" "asc ''KEY---''"]
  by (simp add: asc_def sublist_Cons_right)

text \<open>C16: A file read in pieces of any sizes and then converted gives the encoded bytes: \<^verbatim>\<open>getChunkFromFile\<close>
  puts the pieces together in order, in a chunk of the size of the file.\<close>

theorem load_PEM_file:
  assumes "open_ok f" "fstat_ok f" "malloc_ok f" "length (fresh f) = st_size f"
    "reads f = map Some bss @ [Some []]" "\<forall>bs \<in> set bss. bs \<noteq> []" "length (concat bss) = st_size f"
    "concat bss = pem_file cr name parts" "set name \<inter> {0, 10, 13, 58} = {}" "st_size f < 2 ^ 31"
  shows "\<exists>m m'. getChunkFromFile f = Some (STATUS_SUCCESS, Some (m, view 0 (st_size f))) \<and>
    convertPEM2BIN m (view 0 (st_size f)) = Some (m', view 0 (length (concat parts)), STATUS_SUCCESS) \<and>
    take (length (concat parts)) m' = concat parts"
  using getChunkFromFile_contents [of f bss] convert_pem [of name cr parts] assms by simp

theorem load_PEM_file_witness:
  "\<exists>m m'. getChunkFromFile \<lparr>open_ok = True, fstat_ok = True, malloc_ok = True, st_size = 39, fresh = replicate 39 0,
       reads = map Some [take 7 (pem_file False (asc ''K'') [asc ''Man'']), drop 7 (pem_file False (asc ''K'') [asc ''Man''])] @ [Some []]\<rparr> =
      Some (STATUS_SUCCESS, Some (m, view 0 39)) \<and>
    convertPEM2BIN m (view 0 39) = Some (m', view 0 (length (concat [asc ''Man''])), STATUS_SUCCESS) \<and>
    take (length (concat [asc ''Man''])) m' = concat [asc ''Man'']"
  using load_PEM_file [of "\<lparr>open_ok = True, fstat_ok = True, malloc_ok = True, st_size = 39, fresh = replicate 39 0,
       reads = map Some [take 7 (pem_file False (asc ''K'') [asc ''Man'']), drop 7 (pem_file False (asc ''K'') [asc ''Man''])] @ [Some []]\<rparr>"
     "[take 7 (pem_file False (asc ''K'') [asc ''Man'']), drop 7 (pem_file False (asc ''K'') [asc ''Man''])]" False "asc ''K''" "[asc ''Man'']"]
  by (simp add: asc_def pem_file_def pem_tail_def eol_def b64_split_def)

text \<open>\<^verbatim>\<open>extractKeyValue\<close> on a key, a colon, blanks and a quoted value: it gives the key and the value without
  its quotes, blanks and colons inside it kept, and leaves the text behind the closing quote in \<^verbatim>\<open>src\<close>.\<close>

theorem extractKeyValue_quoted:
  assumes "drop p m = k @ [58] @ ws @ [q] @ v @ [q] @ rest" "58 \<notin> set k" "set ws \<subseteq> {32, 9}" "q \<in> {39, 34}" "q \<notin> set v"
    "n = length k + length ws + length v + length rest + 3" "n < 2 ^ 32"
  shows "extractKeyValue m (view p n) value0 =
    Some (view (p + length k + length ws + length v + 3) (length rest), view p (length k),
      view (p + length k + length ws + 2) (length v), STATUS_SUCCESS)"
proof -
  let ?p1 = "p + length k + 1" and ?n1 = "n - length k - 1"
  let ?p2 = "p + length k + 1 + length ws" and ?n2 = "n - length k - 1 - length ws"
  have d1: "drop ?p1 m = ws @ q # v @ [q] @ rest"
    using arg_cong [OF assms(1), of "drop (length k + 1)"] by (simp add: ac_simps)
  have d2: "drop ?p2 m = q # v @ [q] @ rest"
    using arg_cong [OF d1, of "drop (length ws)"] by (simp add: ac_simps)
  have d3: "drop (Suc ?p2) m = v @ q # rest" using drop_split(3) [OF d2] by simp
  have 1: "extractToken m (view p n) 58 = Some (view ?p1 ?n1, view p (length k), STATUS_SUCCESS)"
    using assms(6,7) by (intro extractToken_view) (use assms(1,2) in simp_all)
  have 2: "eatWhitespace m (view ?p1 ?n1) = Some (view ?p2 ?n2, True)"
    using eatWhitespace_view [OF d1 assms(3), of ?n1] assms(4,6,7) by auto
  have "(of_nat ?n2 :: u32) - 1 = of_nat (?n2 - 1)" using assms(6) by (simp add: of_nat_diff)
  then have 3: "open_quote m (view ?p2 ?n2) = Some (view (Suc ?p2) (?n2 - 1), q)"
    using drop_split(1,2) [OF d2] assms(4) by (auto simp: open_quote_def load_def simp del: of_nat_diff)
  have 4: "extractToken m (view (Suc ?p2) (?n2 - 1)) q =
      Some (view (Suc ?p2 + length v + 1) (?n2 - 1 - length v - 1), view (Suc ?p2) (length v), STATUS_SUCCESS)"
    by (rule extractToken_view [OF d3 assms(5)]) (use assms(4,6,7) in auto)
  have "?n2 - 1 - length v - 1 = length rest" "Suc ?p2 + length v + 1 = p + length k + length ws + length v + 3"
    "Suc ?p2 = p + length k + length ws + 2" using assms(6) by simp_all
  then show ?thesis using 1 2 3 4 by (simp add: extractKeyValue_def del: of_nat_diff add_2_eq_Suc add_2_eq_Suc')
qed

theorem extractKeyValue_quoted_witness:
  "extractKeyValue (asc ''key:  \"a b:c\"# x'') (view 0 16) chunk_empty =
    Some (view 13 3, view 0 3, view 7 5, STATUS_SUCCESS)"
  using extractKeyValue_quoted [of 0 "asc ''key:  \"a b:c\"# x''" "asc ''key''" "[32, 32]" 34 "asc ''a b:c''" "asc ''# x''" 16 chunk_empty]
  by (simp add: asc_def)

text \<open>The scanner never leaves the part of the buffer it was given: \<^verbatim>\<open>extractKeyValue\<close> and
  \<^verbatim>\<open>extractFilenameSecret\<close> return on every input, and every chunk they hand out on success lies inside it.\<close>

theorem tokens_stay_inside:
  assumes "inside p n src" "p + n \<le> length m"
  shows "(\<exists>src' key val st. extractKeyValue m src c = Some (src', key, val, st) \<and> inside p n src' \<and>
      (st \<noteq> STATUS_FAILED \<longrightarrow> inside p n key \<and> inside p n val)) \<and>
    (\<exists>src' filename secret st. extractFilenameSecret m src c = Some (src', filename, secret, st) \<and> inside p n src' \<and>
      (st = STATUS_SUCCESS \<longrightarrow> inside p n filename))"
  using extractKeyValue_inside [OF assms] extractFilenameSecret_inside [OF assms] by blast

theorem tokens_stay_inside_witness:
  "\<exists>src' filename secret st. extractFilenameSecret (asc '': RSA \"key'') (view 1 9) chunk_empty = Some (src', filename, secret, st) \<and>
    inside 1 9 src'"
  using tokens_stay_inside [of 1 9 "view 1 9" "asc '': RSA \"key''" chunk_empty]
  by (auto simp: asc_def inside_def)

end
