(* ===== verification/Asn1.thy ===== *)
theory Asn1
  imports PemCorrect
begin

text \<open>
  \<^verbatim>\<open>library/encoder/src/asn1Parser.cpp\<close>: the ASN.1 parser, which walks through a table of syntax
  lines with one parsing pointer per level. The blob is part of a buffer of bytes; \<^verbatim>\<open>None\<close> is an
  access outside the buffer, outside one of the arrays or outside the table.
\<close>

text \<open>\<^verbatim>\<open>asn1_t\<close>\<close>

abbreviation (input) "ASN1_PARSER_EOC \<equiv> (0x00 :: u32)"
abbreviation (input) "ASN1_PARSER_BOOLEAN \<equiv> (0x01 :: u32)"
abbreviation (input) "ASN1_PARSER_INTEGER \<equiv> (0x02 :: u32)"
abbreviation (input) "ASN1_PARSER_BIT_STRING \<equiv> (0x03 :: u32)"
abbreviation (input) "ASN1_PARSER_OCTET_STRING \<equiv> (0x04 :: u32)"
abbreviation (input) "ASN1_PARSER_OID \<equiv> (0x06 :: u32)"
abbreviation (input) "ASN1_PARSER_CONSTRUCTED \<equiv> (0x20 :: u32)"
abbreviation (input) "ASN1_PARSER_SEQUENCE \<equiv> (0x30 :: u32)"
abbreviation (input) "ASN1_PARSER_SET \<equiv> (0x31 :: u32)"
abbreviation (input) "ASN1_PARSER_CONTEXT_C_0 \<equiv> (0xA0 :: u32)"
abbreviation (input) "ASN1_PARSER_CONTEXT_C_1 \<equiv> (0xA1 :: u32)"
abbreviation (input) "ASN1_PARSER_CONTEXT_C_2 \<equiv> (0xA2 :: u32)"
abbreviation (input) "ASN1_PARSER_CONTEXT_C_3 \<equiv> (0xA3 :: u32)"

type_synonym u16 = "16 word"

abbreviation (input) "ASN1_NONE \<equiv> (0x0000 :: u16)"
abbreviation (input) "ASN1_DEF \<equiv> (0x0001 :: u16)"
abbreviation (input) "ASN1_OPT \<equiv> (0x0002 :: u16)"
abbreviation (input) "ASN1_LOOP \<equiv> (0x0004 :: u16)"
abbreviation (input) "ASN1_CHOICE \<equiv> (0x0008 :: u16)"
abbreviation (input) "ASN1_CH \<equiv> (0x0010 :: u16)"
abbreviation (input) "ASN1_END \<equiv> (0x0020 :: u16)"
abbreviation (input) "ASN1_OBJ \<equiv> (0x0040 :: u16)"
abbreviation (input) "ASN1_BODY \<equiv> (0x0080 :: u16)"
abbreviation (input) "ASN1_RAW \<equiv> (0x0100 :: u16)"
abbreviation (input) "ASN1_EXIT \<equiv> (0x0200 :: u16)"

abbreviation (input) ASN1_INVALID_LENGTH :: u32 where
  "ASN1_INVALID_LENGTH \<equiv> 0xffffffff"

record asn1Object_t =
  level :: nat
  name :: string
  type :: u32
  flags :: u16

definition has :: "asn1Object_t \<Rightarrow> u16 \<Rightarrow> bool" where
  "has obj f \<longleftrightarrow> flags obj AND f \<noteq> 0"

text \<open>The parser; \<^verbatim>\<open>mLevel0\<close> and \<^verbatim>\<open>mPrivate\<close> only matter for the log.\<close>

record asn1Parser =
  mpObjects :: "asn1Object_t list"
  mLine :: int
  mSuccess :: bool
  mImplicit :: bool
  mPrivate :: bool
  mLoopAddr :: "int list"
  mBlobs :: "chunk_v list"
  mChoice :: "bool list"

abbreviation (input) "ASN1_MAX_LEVEL \<equiv> (10 :: nat)"

definition asn1Parser :: "asn1Object_t list \<Rightarrow> chunk_v \<Rightarrow> asn1Parser" where
  "asn1Parser objects blob =
     \<lparr>mpObjects = objects, mLine = - 1, mSuccess = True, mImplicit = False, mPrivate = False,
      mLoopAddr = replicate (ASN1_MAX_LEVEL + 1) 0,
      mBlobs = (replicate (ASN1_MAX_LEVEL + 2) \<lparr>cptr = None, clen = 0\<rparr>)[0 := blob],
      mChoice = replicate (ASN1_MAX_LEVEL + 2) False\<rparr>"

definition setFlags :: "asn1Parser \<Rightarrow> bool \<Rightarrow> bool \<Rightarrow> asn1Parser" where
  "setFlags p implicit privated = p\<lparr>mImplicit := implicit, mPrivate := privated\<rparr>"

definition obj_at :: "asn1Object_t list \<Rightarrow> int \<Rightarrow> asn1Object_t option" where
  "obj_at objects i = (if 0 \<le> i \<and> nat i < length objects then Some (objects ! nat i) else None)"

section \<open>Lengths\<close>

definition advance :: "chunk_v \<Rightarrow> nat \<Rightarrow> chunk_v" where
  "advance c k = \<lparr>cptr = map_option (\<lambda>a. a + k) (cptr c), clen = clen c - of_nat k\<rparr>"

fun length_octets :: "mem \<Rightarrow> chunk_v \<Rightarrow> nat \<Rightarrow> u32 \<Rightarrow> (chunk_v \<times> u32) option" where
  "length_octets m blob 0 lng = Some (blob, lng)"
| "length_octets m blob (Suc n) lng =
     do { c \<leftarrow> load m (cptr blob) 0; length_octets m (advance blob 1) n (256 * lng + ucast c) }"

text \<open>The result is \<^verbatim>\<open>blob\<close> and the length; the \<^verbatim>\<open>s32_t\<close> length wraps around and is compared unsigned.\<close>

definition asn1Length :: "mem \<Rightarrow> chunk_v \<Rightarrow> (chunk_v \<times> u32) option" where
  "asn1Length m blob =
     (if clen blob < 2 then Some (blob, ASN1_INVALID_LENGTH)
      else do { n0 \<leftarrow> load m (cptr blob) 1;
                let blob1 = advance blob 2
                in if n0 AND 0x80 = 0 then
                     Some (blob1, if clen blob1 < ucast n0 then ASN1_INVALID_LENGTH else ucast n0)
                   else
                     let n = n0 AND 0x7f
                     in if n = 0 \<or> clen blob1 < ucast n then Some (blob1, ASN1_INVALID_LENGTH)
                        else if 4 < n then Some (blob1, ASN1_INVALID_LENGTH)
                        else do { (blob2, lng) \<leftarrow> length_octets m blob1 (unat n) 0;
                                  Some (blob2, if clen blob2 < lng then ASN1_INVALID_LENGTH else lng) } })"

definition isAsn1Encode :: "mem \<Rightarrow> chunk_v \<Rightarrow> bool option" where
  "isAsn1Encode m blob =
     (if clen blob = 0 \<or> cptr blob = None then Some False
      else do { tag \<leftarrow> load m (cptr blob) 0;
                if ucast tag \<noteq> ASN1_PARSER_SEQUENCE \<and> ucast tag \<noteq> ASN1_PARSER_SET \<and> ucast tag \<noteq> ASN1_PARSER_OCTET_STRING
                then Some False
                else do { (blob1, lng) \<leftarrow> asn1Length m blob;
                          if lng = ASN1_INVALID_LENGTH then Some False
                          else if lng = clen blob1 then Some True
                          else if lng + 1 = clen blob1
                               then do { c \<leftarrow> load m (cptr blob1) (unat lng); Some (c = 10) }
                               else Some False } })"

section \<open>One step\<close>

text \<open>\<^verbatim>\<open>do mLine++; while (!...)\<close>\<close>

function skip_to :: "asn1Object_t list \<Rightarrow> int \<Rightarrow> (asn1Object_t \<Rightarrow> bool) \<Rightarrow> int option" where
  "skip_to objects i P =
     (if 0 \<le> i + 1 \<and> nat (i + 1) < length objects
      then if P (objects ! nat (i + 1)) then Some (i + 1) else skip_to objects (i + 1) P
      else None)"
  by pat_completeness auto
termination by (relation "measure (\<lambda>(objects, i, P). nat (int (length objects) - i))") auto

declare skip_to.simps [simp del]

text \<open>\<^verbatim>\<open>blob->lng == 0 || *start_ptr != obj.type\<close>\<close>

definition differs :: "mem \<Rightarrow> chunk_v \<Rightarrow> asn1Object_t \<Rightarrow> bool option" where
  "differs m blob obj =
     (if clen blob = 0 then Some True else do { c \<leftarrow> load m (cptr blob) 0; Some (ucast c \<noteq> type obj) })"

text \<open>From the start of the object to where \<^verbatim>\<open>blob->ptr\<close> is now.\<close>

definition raw_object :: "nat option \<Rightarrow> chunk_v \<Rightarrow> chunk_v option" where
  "raw_object start_ptr blob = do { s \<leftarrow> start_ptr; e \<leftarrow> cptr blob; Some \<lparr>cptr = Some s, clen = of_nat (e - s)\<rparr> }"

text \<open>The object returned.\<close>

definition result_object :: "asn1Object_t \<Rightarrow> nat option \<Rightarrow> chunk_v \<Rightarrow> chunk_v \<Rightarrow> chunk_v option" where
  "result_object obj start_ptr blob blob1 =
     (if has obj ASN1_OBJ then raw_object start_ptr blob
      else if has obj ASN1_BODY then Some blob1 else Some \<lparr>cptr = None, clen = 0\<rparr>)"

text \<open>The part after \<^verbatim>\<open>asn1Length\<close>; \<open>p\<close> has the pointers it left, \<open>blob_ori\<close> is the pointer before.\<close>

definition iterate_content :: "mem \<Rightarrow> asn1Parser \<Rightarrow> asn1Object_t \<Rightarrow> chunk_v \<Rightarrow> (asn1Parser \<times> chunk_v) option" where
  "iterate_content m p0 obj blob_ori =
     (let lv = level obj; none = \<lparr>cptr = None, clen = 0\<rparr>;
          lng = clen (mBlobs p0 ! (lv + 1));
          blob1 = (mBlobs p0 ! lv)\<lparr>clen := lng\<rparr>;
          blob = advance (mBlobs p0 ! lv) (unat lng);
          p = p0\<lparr>mBlobs := (mBlobs p0)[lv := blob, lv + 1 := blob1]\<rparr>
      in if has obj ASN1_CHOICE \<and> type obj = ASN1_PARSER_EOC then
           Some (p\<lparr>mChoice := (mChoice p)[lv + 1 := True], mBlobs := (mBlobs p)[lv + 1 := blob_ori]\<rparr>, none)
         else if has obj ASN1_RAW then
           do { object \<leftarrow> raw_object (cptr blob_ori) blob; Some (p, object) }
         else do { tag \<leftarrow> load m (cptr blob_ori) 0;
                   if ucast tag \<noteq> type obj \<and> \<not> (mImplicit p \<and> mLine p = 0) then Some (p\<lparr>mSuccess := False\<rparr>, none)
                   else if has obj ASN1_LOOP \<and> clen blob1 = 0 then
                     do { l \<leftarrow> skip_to (mpObjects p) (mLine p) (\<lambda>o1. has o1 ASN1_END \<and> level o1 = lv);
                          Some (p\<lparr>mLine := l\<rparr>, none) }
                   else let p1 = (if has obj ASN1_LOOP then p\<lparr>mLoopAddr := (mLoopAddr p)[lv := mLine p + 1]\<rparr> else p)
                        in if has obj ASN1_CHOICE \<and> clen blob1 = 0 then Some (p1\<lparr>mSuccess := False\<rparr>, none)
                           else let p2 = (if has obj ASN1_CHOICE then p1\<lparr>mChoice := (mChoice p1)[lv + 1 := True]\<rparr> else p1)
                                in do { object \<leftarrow> result_object obj (cptr blob_ori) blob blob1; Some (p2, object) } })"

text \<open>From the defaults and options on.\<close>

definition iterate_body :: "mem \<Rightarrow> asn1Parser \<Rightarrow> asn1Object_t \<Rightarrow> (asn1Parser \<times> chunk_v) option" where
  "iterate_body m p obj =
     (let lv = level obj; none = \<lparr>cptr = None, clen = 0\<rparr>
      in if ASN1_MAX_LEVEL < lv then None
         else let blob = mBlobs p ! lv
         in do { absent \<leftarrow> (if has obj ASN1_DEF then differs m blob obj else Some False);
                 if absent then
                   Some (if type obj AND ASN1_PARSER_CONSTRUCTED \<noteq> 0 then p\<lparr>mLine := mLine p + 1\<rparr> else p, none)
                 else do { missing \<leftarrow> (if has obj ASN1_OPT then differs m blob obj else Some False);
                           if missing then
                             do { l \<leftarrow> skip_to (mpObjects p) (mLine p) (\<lambda>o1. has o1 ASN1_END \<and> level o1 = lv);
                                  Some (p\<lparr>mLine := l\<rparr>, none) }
                           else if clen blob < 2 then Some (p\<lparr>mSuccess := False\<rparr>, none)
                           else do { (blob', lng) \<leftarrow> asn1Length m blob;
                                     let p1 = p\<lparr>mBlobs := (mBlobs p)[lv := blob', lv + 1 := (mBlobs p ! (lv + 1))\<lparr>clen := lng\<rparr>]\<rparr>
                                     in if lng = ASN1_INVALID_LENGTH then Some (p1\<lparr>mSuccess := False\<rparr>, none)
                                        else iterate_content m p1 obj blob } } })"

text \<open>The end of a loop, a choice or an option that is not gone through again.\<close>

definition end_found :: "asn1Parser \<Rightarrow> asn1Object_t \<Rightarrow> asn1Parser option" where
  "end_found p0 obj =
     (let lv = level obj; p = p0\<lparr>mLoopAddr := (mLoopAddr p0)[lv := 0]\<rparr>
      in if has obj ASN1_CHOICE \<and> mChoice p ! (lv + 1) then Some (p\<lparr>mSuccess := False\<rparr>)
         else if has obj ASN1_CH then
           do { l \<leftarrow> skip_to (mpObjects p) (mLine p) (\<lambda>o1. has o1 ASN1_END \<and> has o1 ASN1_CHOICE \<and> level o1 + 1 = lv);
                Some (p\<lparr>mChoice := (mChoice p)[lv := False], mLine := l - 1\<rparr>) }
         else Some p)"

text \<open>The result is the parser, \<^verbatim>\<open>objectID\<close> unless it is not set, \<^verbatim>\<open>object\<close> and the value returned.\<close>

definition iterate :: "mem \<Rightarrow> asn1Parser \<Rightarrow> (asn1Parser \<times> int option \<times> chunk_v \<times> bool) option" where
  "iterate m p0 =
     (let p = p0\<lparr>mLine := mLine p0 + 1\<rparr>; none = \<lparr>cptr = None, clen = 0\<rparr>
      in do { obj \<leftarrow> obj_at (mpObjects p) (mLine p);
              if has obj ASN1_EXIT then Some (p, None, none, False)
              else if has obj ASN1_END \<and> ASN1_MAX_LEVEL < level obj then None
              else if has obj ASN1_END \<and> \<not> (mLoopAddr p ! level obj \<noteq> 0 \<and> 0 < clen (mBlobs p ! (level obj + 1))) then
                do { p' \<leftarrow> end_found p obj; Some (p', Some (mLine p'), none, mSuccess p') }
              else do { (p1, obj1) \<leftarrow> (if has obj ASN1_END
                          then do { obj' \<leftarrow> obj_at (mpObjects p) (mLoopAddr p ! level obj);
                                    Some (p\<lparr>mLine := mLoopAddr p ! level obj\<rparr>, obj') }
                          else Some (p, obj));
                        (p', object) \<leftarrow> iterate_body m p1 obj1;
                        Some (p', Some (mLine p'), object, mSuccess p') } })"

section \<open>The certificate\<close>

text \<open>\<^verbatim>\<open>certX509.cpp\<close>: the syntax table of a certificate.\<close>

definition certObjects :: "asn1Object_t list" where
  "certObjects = map (\<lambda>(l, s, t, f). \<lparr>level = l, name = s, type = t, flags = f\<rparr>)
    [(0, ''x509'', ASN1_PARSER_SEQUENCE, ASN1_OBJ),
     (1, ''tbsCertificate'', ASN1_PARSER_SEQUENCE, ASN1_OBJ),
     (2, ''DEFAULT v1'', ASN1_PARSER_CONTEXT_C_0, ASN1_DEF),
     (3, ''version'', ASN1_PARSER_INTEGER, ASN1_BODY),
     (2, ''serialNumber'', ASN1_PARSER_INTEGER, ASN1_BODY),
     (2, ''signature'', ASN1_PARSER_EOC, ASN1_RAW),
     (2, ''issuer'', ASN1_PARSER_SEQUENCE, ASN1_OBJ),
     (2, ''validity'', ASN1_PARSER_SEQUENCE, ASN1_NONE),
     (3, ''notBefore'', ASN1_PARSER_EOC, ASN1_RAW),
     (3, ''notAfter'', ASN1_PARSER_EOC, ASN1_RAW),
     (2, ''subject'', ASN1_PARSER_SEQUENCE, ASN1_OBJ),
     (2, ''subjectPublicKeyInfo'', ASN1_PARSER_SEQUENCE, ASN1_RAW),
     (2, ''issuerUniqueID'', ASN1_PARSER_CONTEXT_C_1, ASN1_OPT),
     (2, ''end opt'', ASN1_PARSER_EOC, ASN1_END),
     (2, ''subjectUniqueID'', ASN1_PARSER_CONTEXT_C_2, ASN1_OPT),
     (2, ''end opt'', ASN1_PARSER_EOC, ASN1_END),
     (2, ''optional extensions'', ASN1_PARSER_CONTEXT_C_3, ASN1_OPT),
     (3, ''extensions'', ASN1_PARSER_SEQUENCE, ASN1_LOOP),
     (4, ''extension'', ASN1_PARSER_SEQUENCE, ASN1_NONE),
     (5, ''extnID'', ASN1_PARSER_OID, ASN1_BODY),
     (5, ''critical'', ASN1_PARSER_BOOLEAN, ASN1_DEF OR ASN1_BODY),
     (5, ''extnValue'', ASN1_PARSER_OCTET_STRING, ASN1_BODY),
     (3, ''end loop'', ASN1_PARSER_EOC, ASN1_END),
     (2, ''end opt'', ASN1_PARSER_EOC, ASN1_END),
     (1, ''signatureAlgorithm'', ASN1_PARSER_EOC, ASN1_RAW),
     (1, ''signatureValue'', ASN1_PARSER_BIT_STRING, ASN1_BODY),
     (0, ''exit'', ASN1_PARSER_EOC, ASN1_EXIT)]"

abbreviation (input) "X509_OBJ_SUBJECT_PUBLIC_KEY_INFO \<equiv> (11 :: int)"

text \<open>The loop of \<^verbatim>\<open>calculatePublicKeyInfoHash\<close>; the result is \<^verbatim>\<open>object\<close> after it.\<close>

partial_function (option) pubkey_info_loop :: "mem \<Rightarrow> asn1Parser \<Rightarrow> chunk_v option" where
  "pubkey_info_loop m p =
     do { (p', objectID, object, ok) \<leftarrow> iterate m p;
          if \<not> ok then Some object
          else if objectID = Some X509_OBJ_SUBJECT_PUBLIC_KEY_INFO then Some object
          else pubkey_info_loop m p' }"

text \<open>The digest is OpenSSL's, the parameter \<open>evp_digest\<close>; the result is \<^verbatim>\<open>fp\<close>.\<close>

definition calculatePublicKeyInfoHash :: "(u8 list \<Rightarrow> u8 list) \<Rightarrow> mem \<Rightarrow> chunk_v \<Rightarrow> u8 list option" where
  "calculatePublicKeyInfoHash evp_digest m mDerEncoding =
     do { object \<leftarrow> pubkey_info_loop m (asn1Parser certObjects mDerEncoding);
          data \<leftarrow> (if clen object = 0 then Some []
                   else do { a \<leftarrow> cptr object; buf_read m a (unat (clen object)) });
          Some (evp_digest data) }"

end
