(* ===== verification/Asn1Safe.thy ===== *)
theory Asn1Safe
  imports Asn1 LexSafe
begin

text \<open>
  The parser on arbitrary bytes: with a well-formed table no step leaves the blob, the arrays of the
  parser or the table, and the search for the public key ends.
\<close>

section \<open>Lengths\<close>

lemma advance_advance: "advance (advance c i) j = advance c (i + j)"
  by (cases "cptr c") (simp_all add: advance_def add.assoc)

lemma clen_advance:
  assumes "k \<le> unat (clen c)"
  shows "unat (clen (advance c k)) = unat (clen c) - k"
proof -
  have "unat (clen c) < 2 ^ LENGTH(32)" by (rule unsigned_less)
  then have "unat (of_nat k :: u32) = k" using assms by (intro unat_of_nat32) simp
  then show ?thesis using unat_sub [of "of_nat k" "clen c"] assms by (simp add: advance_def word_le_nat_alt)
qed

lemma inside_advance:
  assumes "inside p n c" "k \<le> unat (clen c)"
  shows "inside p n (advance c k)"
  using assms clen_advance [OF assms(2)] by (auto simp: inside_def advance_def)

lemma inside_prefix: "\<lbrakk>inside p n c; l \<le> clen c\<rbrakk> \<Longrightarrow> inside p n (c\<lparr>clen := l\<rparr>)"
  by (auto simp: inside_def word_le_nat_alt unsigned_eq_0_iff)

lemma load_at:
  assumes "inside p n c" "p + n \<le> length m" "i < unat (clen c)"
  shows "\<exists>x. load m (cptr c) i = Some x"
proof -
  have "clen c \<noteq> 0" using assms(3) by auto
  then show ?thesis using assms by (auto simp: inside_def load_def)
qed

lemma length_octets_inside:
  "\<lbrakk>inside p n c; p + n \<le> length m; k \<le> unat (clen c)\<rbrakk> \<Longrightarrow> \<exists>l. length_octets m c k l0 = Some (advance c k, l)"
proof (induction k arbitrary: c l0)
  case 0
  then show ?case by (cases c; cases "cptr c") (simp_all add: advance_def)
next
  case (Suc k)
  obtain x where "load m (cptr c) 0 = Some x" using load_at [OF Suc.prems(1,2), of 0] Suc.prems(3) by auto
  moreover have "inside p n (advance c 1)" "k \<le> unat (clen (advance c 1))"
    using inside_advance [OF Suc.prems(1)] clen_advance [of 1 c] Suc.prems(3) by simp_all
  ultimately show ?case using Suc.IH [of "advance c 1" "256 * l0 + ucast x"] Suc.prems(2)
    by (simp add: advance_advance)
qed

lemma asn1Length_inside:
  assumes "inside p n c" "p + n \<le> length m" "2 \<le> clen c"
  shows "\<exists>k l. asn1Length m c = Some (advance c k, l) \<and> k \<le> unat (clen c) \<and>
    (l \<noteq> ASN1_INVALID_LENGTH \<longrightarrow> l \<le> clen (advance c k))"
proof -
  have c2: "2 \<le> unat (clen c)" using assms(3) by (simp add: word_le_nat_alt)
  obtain n0 where n0: "load m (cptr c) 1 = Some n0" using load_at [OF assms(1,2), of 1] c2 by auto
  let ?c1 = "advance c 2" and ?n = "n0 AND 0x7f"
  have i1: "inside p n ?c1" by (rule inside_advance [OF assms(1) c2])
  have lt: "\<not> clen c < 2" using assms(3) by simp
  have e: "asn1Length m c = (if n0 AND 0x80 = 0
      then Some (?c1, if clen ?c1 < ucast n0 then ASN1_INVALID_LENGTH else ucast n0)
      else if ?n = 0 \<or> clen ?c1 < ucast ?n then Some (?c1, ASN1_INVALID_LENGTH)
      else if 4 < ?n then Some (?c1, ASN1_INVALID_LENGTH)
      else do { (c2, l) \<leftarrow> length_octets m ?c1 (unat ?n) 0;
                Some (c2, if clen c2 < l then ASN1_INVALID_LENGTH else l) })"
    using n0 lt by (simp add: asn1Length_def Let_def)
  consider "n0 AND 0x80 = 0" | "n0 AND 0x80 \<noteq> 0" "?n = 0 \<or> clen ?c1 < ucast ?n \<or> 4 < ?n"
    | "n0 AND 0x80 \<noteq> 0" "\<not> (?n = 0 \<or> clen ?c1 < ucast ?n \<or> 4 < ?n)" by blast
  then show ?thesis
  proof cases
    case 1
    then show ?thesis unfolding e using c2
      by - (rule exI [of _ 2], rule exI [of _ "if clen ?c1 < ucast n0 then ASN1_INVALID_LENGTH else ucast n0"], simp add: not_less)
  next
    case 2
    then show ?thesis unfolding e using c2
      by - (rule exI [of _ 2], rule exI [of _ ASN1_INVALID_LENGTH], auto)
  next
    case 3
    then have k: "unat ?n \<le> unat (clen ?c1)"
      by (auto simp: not_less word_le_nat_alt unat_ucast_up)
    obtain l where l: "length_octets m ?c1 (unat ?n) 0 = Some (advance ?c1 (unat ?n), l)"
      using length_octets_inside [OF i1 assms(2) k] by blast
    have "2 + unat ?n \<le> unat (clen c)" using k clen_advance [OF c2] c2 by simp
    then show ?thesis unfolding e using 3 l
      by - (rule exI [of _ "2 + unat ?n"], rule exI [of _ "if clen (advance ?c1 (unat ?n)) < l then ASN1_INVALID_LENGTH else l"],
        auto simp: advance_advance not_less dest: leD)
  qed
qed

section \<open>The table\<close>

text \<open>
  Levels fit the arrays, every option, loop and choice has its end, and the last line, the only
  one that leaves the table, is the exit.
\<close>

definition ends :: "asn1Object_t list \<Rightarrow> nat \<Rightarrow> bool" where
  "ends objs i \<longleftrightarrow> (let ob = objs ! i in
     level ob \<le> ASN1_MAX_LEVEL \<and>
     (has ob ASN1_OPT \<or> has ob ASN1_LOOP \<longrightarrow>
       skip_to objs (int i) (\<lambda>o1. has o1 ASN1_END \<and> level o1 = level ob) \<noteq> None) \<and>
     (has ob ASN1_CH \<and> has ob ASN1_END \<longrightarrow>
       skip_to objs (int i) (\<lambda>o1. has o1 ASN1_END \<and> has o1 ASN1_CHOICE \<and> level o1 + 1 = level ob) \<noteq> None) \<and>
     (i + 2 = length objs \<longrightarrow> \<not> (has ob ASN1_DEF \<and> type ob AND ASN1_PARSER_CONSTRUCTED \<noteq> 0)))"

definition wf_table :: "asn1Object_t list \<Rightarrow> bool" where
  "wf_table objs \<longleftrightarrow> objs \<noteq> [] \<and> has (last objs) ASN1_EXIT \<and> \<not> has (last objs) ASN1_END \<and>
     (\<forall>i \<in> set [0..<length objs - 1]. ends objs i)"

lemma skip_to_range:
  "skip_to objs i P = Some l \<Longrightarrow> i < l \<and> 0 \<le> l \<and> nat l < length objs \<and> P (objs ! nat l)"
proof (induction objs i P rule: skip_to.induct)
  case (1 objs i P)
  show ?case
  proof (cases "0 \<le> i + 1 \<and> nat (i + 1) < length objs")
    case True
    show ?thesis
    proof (cases "P (objs ! nat (i + 1))")
      case True
      then show ?thesis using "1.prems" by (subst (asm) skip_to.simps) (auto split: if_splits)
    next
      case False
      then have "skip_to objs (i + 1) P = Some l" using "1.prems" \<open>0 \<le> i + 1 \<and> _\<close> by (subst (asm) (1) skip_to.simps) simp
      then show ?thesis using "1.IH" \<open>0 \<le> i + 1 \<and> _\<close> False by auto
    qed
  next
    case False
    then show ?thesis using "1.prems" by (subst (asm) skip_to.simps) (simp only: if_False, simp)
  qed
qed

text \<open>An end that was skipped to is not the exit.\<close>

lemma skip_to_before_exit:
  assumes "wf_table objs" "skip_to objs i P = Some l" "\<And>ob. P ob \<Longrightarrow> has ob ASN1_END"
  shows "i < l" "0 \<le> l" "l < int (length objs) - 1"
proof -
  note r = skip_to_range [OF assms(2)]
  show "i < l" "0 \<le> l" using r by simp_all
  have "objs ! nat l \<noteq> last objs" using r assms(1,3) by (auto simp: wf_table_def)
  then have "nat l \<noteq> length objs - 1" using assms(1) by (auto simp: wf_table_def last_conv_nth)
  then show "l < int (length objs) - 1" using r by linarith
qed

section \<open>The invariant\<close>

definition parser_ok :: "nat \<Rightarrow> nat \<Rightarrow> asn1Parser \<Rightarrow> bool" where
  "parser_ok q n p \<longleftrightarrow> wf_table (mpObjects p) \<and> length (mLoopAddr p) = ASN1_MAX_LEVEL + 1 \<and>
     length (mBlobs p) = ASN1_MAX_LEVEL + 2 \<and> length (mChoice p) = ASN1_MAX_LEVEL + 2 \<and>
     - 1 \<le> mLine p \<and> mLine p < int (length (mpObjects p)) - 1 \<and>
     (\<forall>a \<in> set (mLoopAddr p). a = 0 \<or> 0 \<le> a \<and> a < int (length (mpObjects p)) - 1) \<and>
     (\<forall>c \<in> set (mBlobs p). inside q n c)"

lemma parser_ok_blob: "\<lbrakk>parser_ok q n p; i < ASN1_MAX_LEVEL + 2\<rbrakk> \<Longrightarrow> inside q n (mBlobs p ! i)"
  by (auto simp: parser_ok_def)

lemma ball_set_update: "\<lbrakk>\<forall>x \<in> set xs. P x; P y\<rbrakk> \<Longrightarrow> \<forall>x \<in> set (xs[i := y]). P x"
  by (auto dest: set_update_subset_insert [THEN subsetD])

lemma parser_ok_updates:
  assumes "parser_ok q n p"
  shows "parser_ok q n (p\<lparr>mSuccess := b\<rparr>)" "parser_ok q n (p\<lparr>mChoice := (mChoice p)[i := b]\<rparr>)"
    "inside q n c \<Longrightarrow> parser_ok q n (p\<lparr>mBlobs := (mBlobs p)[i := c]\<rparr>)"
    "\<lbrakk>- 1 \<le> l; l < int (length (mpObjects p)) - 1\<rbrakk> \<Longrightarrow> parser_ok q n (p\<lparr>mLine := l\<rparr>)"
    "\<lbrakk>0 \<le> l; l < int (length (mpObjects p)) - 1\<rbrakk> \<Longrightarrow> parser_ok q n (p\<lparr>mLoopAddr := (mLoopAddr p)[i := l]\<rparr>)"
  using assms ball_set_update [of "mBlobs p" "inside q n" c i]
    ball_set_update [of "mLoopAddr p" "\<lambda>a. a = 0 \<or> 0 \<le> a \<and> a < int (length (mpObjects p)) - 1" l i]
  by (simp_all add: parser_ok_def)

lemma wf_certObjects: "wf_table certObjects"
  by code_simp

section \<open>The steps\<close>

lemma wf_tableD:
  assumes "wf_table objs" "0 \<le> i" "i < int (length objs) - 1" "ob = objs ! nat i"
  shows "level ob \<le> ASN1_MAX_LEVEL"
    "has ob ASN1_OPT \<or> has ob ASN1_LOOP \<Longrightarrow> \<exists>l. skip_to objs i (\<lambda>o1. has o1 ASN1_END \<and> level o1 = level ob) = Some l"
    "has ob ASN1_CH \<Longrightarrow> has ob ASN1_END \<Longrightarrow>
      \<exists>l. skip_to objs i (\<lambda>o1. has o1 ASN1_END \<and> has o1 ASN1_CHOICE \<and> level o1 + 1 = level ob) = Some l"
    "has ob ASN1_DEF \<Longrightarrow> type ob AND ASN1_PARSER_CONSTRUCTED \<noteq> 0 \<Longrightarrow> i + 1 < int (length objs) - 1"
proof -
  have e: "ends objs (nat i)" using assms(1-3) by (auto simp: wf_table_def)
  then show "level ob \<le> ASN1_MAX_LEVEL"
    "has ob ASN1_OPT \<or> has ob ASN1_LOOP \<Longrightarrow> \<exists>l. skip_to objs i (\<lambda>o1. has o1 ASN1_END \<and> level o1 = level ob) = Some l"
    "has ob ASN1_CH \<Longrightarrow> has ob ASN1_END \<Longrightarrow>
      \<exists>l. skip_to objs i (\<lambda>o1. has o1 ASN1_END \<and> has o1 ASN1_CHOICE \<and> level o1 + 1 = level ob) = Some l"
    using assms(2,4) by (auto simp: ends_def Let_def)
  show "i + 1 < int (length objs) - 1" if "has ob ASN1_DEF" "type ob AND ASN1_PARSER_CONSTRUCTED \<noteq> 0"
  proof -
    have "nat i + 2 \<noteq> length objs" using e that assms(4) by (auto simp: ends_def Let_def)
    then show ?thesis using assms(2,3) by linarith
  qed
qed

abbreviation none_c :: chunk_v where
  "none_c \<equiv> \<lparr>cptr = None, clen = 0\<rparr>"

lemma inside_none [simp]: "inside q n none_c"
  by (simp add: inside_def)

definition safe_result :: "nat \<Rightarrow> nat \<Rightarrow> (asn1Parser \<times> chunk_v) option \<Rightarrow> bool" where
  "safe_result q n r \<longleftrightarrow> (\<exists>p ob. r = Some (p, ob) \<and> inside q n ob \<and> (mSuccess p \<longrightarrow> parser_ok q n p))"

lemma safe_resultI [intro]:
  "\<lbrakk>inside q n ob; parser_ok q n p\<rbrakk> \<Longrightarrow> safe_result q n (Some (p, ob))"
  "inside q n ob \<Longrightarrow> safe_result q n (Some (p\<lparr>mSuccess := False\<rparr>, ob))"
  by (simp_all add: safe_result_def)

lemma safe_result_skip:
  assumes "parser_ok q n p" "skip_to (mpObjects p) i P = Some l" "\<And>ob. P ob \<Longrightarrow> has ob ASN1_END"
  shows "safe_result q n (Some (p\<lparr>mLine := l\<rparr>, none_c))"
proof -
  have "wf_table (mpObjects p)" using assms(1) by (simp add: parser_ok_def)
  from skip_to_before_exit [OF this assms(2,3)] show ?thesis
    using parser_ok_updates(4) [OF assms(1)] by (intro safe_resultI) simp_all
qed

lemma raw_object_inside:
  assumes "inside q n b" "cptr b = Some s" "k \<le> unat (clen b)"
  shows "\<exists>ob. raw_object (cptr b) (advance b k) = Some ob \<and> inside q n ob"
proof -
  have "unat (clen b) < 2 ^ LENGTH(32)" by (rule unsigned_less)
  then have k: "k < 2 ^ 32" using assms(3) by simp
  from inside_rest(2) [OF assms(1,2,3) k] show ?thesis
    using assms(2) by (simp add: raw_object_def advance_def)
qed

lemma iterate_content_safe:
  assumes "parser_ok q n p" "q + n \<le> length m" "ob = mpObjects p ! nat (mLine p)" "0 \<le> mLine p"
    "b = mBlobs p ! level ob" "2 \<le> clen b" "k \<le> unat (clen b)" "l \<le> clen (advance b k)" "clen c = l"
    "p0 = p\<lparr>mBlobs := (mBlobs p)[level ob := advance b k, level ob + 1 := c]\<rparr>"
  shows "safe_result q n (iterate_content m p0 ob b)"
proof -
  let ?lv = "level ob"
  have wf: "wf_table (mpObjects p)" "mLine p < int (length (mpObjects p)) - 1"
    using assms(1) by (simp_all add: parser_ok_def)
  note ends = wf_tableD [OF wf(1) assms(4) wf(2) assms(3)]
  have b: "inside q n b" unfolding assms(5) using parser_ok_blob [OF assms(1)] ends(1) by simp
  have lens: "length (mBlobs p) = ASN1_MAX_LEVEL + 2" using assms(1) by (simp add: parser_ok_def)
  have "clen b \<noteq> 0" using assms(6) by auto
  with b obtain s where s: "cptr b = Some s" by (auto simp: inside_def)
  have ld: "\<exists>x. load m (Some s) 0 = Some x"
    using load_at [OF b assms(2), of 0] assms(6) s by (simp add: word_le_nat_alt)
  define b1 where "b1 = (advance b k)\<lparr>clen := l\<rparr>"
  define b2 where "b2 = advance b (k + unat l)"
  have kl: "k + unat l \<le> unat (clen b)"
    using assms(7,8) clen_advance [OF assms(7)] by (simp add: word_le_nat_alt)
  have i: "inside q n b1" "inside q n b2"
    using inside_prefix [OF inside_advance [OF b assms(7)] assms(8)] inside_advance [OF b kl] by (simp_all add: b1_def b2_def)
  define P where "P = p\<lparr>mBlobs := (mBlobs p)[?lv := b2, ?lv + 1 := b1]\<rparr>"
  have P: "parser_ok q n P"
    using parser_ok_updates(3) [OF parser_ok_updates(3) [OF assms(1) i(2), of ?lv] i(1), of "?lv + 1"] by (simp add: P_def)
  have PP: "mpObjects P = mpObjects p" "mLine P = mLine p" by (simp_all add: P_def)
  obtain ro where ro: "raw_object (cptr b) b2 = Some ro" "inside q n ro"
    using raw_object_inside [OF b s kl] by (auto simp: b2_def)
  obtain res where res: "result_object ob (cptr b) b2 b1 = Some res" "inside q n res"
    using ro i(1) that by (cases "has ob ASN1_OBJ"; cases "has ob ASN1_BODY") (auto simp: result_object_def)
  have upd: "parser_ok q n (P\<lparr>mLoopAddr := (mLoopAddr P)[?lv := mLine P + 1]\<rparr>)" if lp: "has ob ASN1_LOOP"
  proof -
    obtain j where "skip_to (mpObjects p) (mLine p) (\<lambda>o1. has o1 ASN1_END \<and> level o1 = ?lv) = Some j" using ends(2) lp by auto
    from skip_to_before_exit [OF wf(1) this] have "mLine p + 1 < int (length (mpObjects p)) - 1" by simp
    then show ?thesis using parser_ok_updates(5) [OF P, of "mLine P + 1"] assms(4) PP by simp
  qed
  have n1: "mBlobs p0 ! ?lv = advance b k" and n2: "mBlobs p0 ! (?lv + 1) = c" and n3: "clen c = l"
    using lens ends(1) assms(9) by (simp_all add: assms(10))
  have P0: "p0\<lparr>mBlobs := (mBlobs p0)[?lv := b2, ?lv + 1 := b1]\<rparr> = P"
    by (simp add: P_def assms(10) list_update_swap [of ?lv "Suc ?lv"])
  have e: "iterate_content m p0 ob b =
     (if has ob ASN1_CHOICE \<and> type ob = ASN1_PARSER_EOC then
           Some (P\<lparr>mChoice := (mChoice P)[?lv + 1 := True], mBlobs := (mBlobs P)[?lv + 1 := b]\<rparr>, none_c)
      else if has ob ASN1_RAW then do { object \<leftarrow> raw_object (cptr b) b2; Some (P, object) }
      else do { tag \<leftarrow> load m (cptr b) 0;
                if ucast tag \<noteq> type ob \<and> \<not> (mImplicit P \<and> mLine P = 0) then Some (P\<lparr>mSuccess := False\<rparr>, none_c)
                else if has ob ASN1_LOOP \<and> clen b1 = 0 then
                  do { l \<leftarrow> skip_to (mpObjects P) (mLine P) (\<lambda>o1. has o1 ASN1_END \<and> level o1 = ?lv);
                       Some (P\<lparr>mLine := l\<rparr>, none_c) }
                else let p1 = (if has ob ASN1_LOOP then P\<lparr>mLoopAddr := (mLoopAddr P)[?lv := mLine P + 1]\<rparr> else P)
                     in if has ob ASN1_CHOICE \<and> clen b1 = 0 then Some (p1\<lparr>mSuccess := False\<rparr>, none_c)
                        else let p2 = (if has ob ASN1_CHOICE then p1\<lparr>mChoice := (mChoice p1)[?lv + 1 := True]\<rparr> else p1)
                             in do { object \<leftarrow> result_object ob (cptr b) b2 b1; Some (p2, object) } })"
    unfolding iterate_content_def Let_def n1 n2 n3 b1_def [symmetric] advance_advance b2_def [symmetric] P0 ..
  define p1 where "p1 = (if has ob ASN1_LOOP then P\<lparr>mLoopAddr := (mLoopAddr P)[?lv := mLine P + 1]\<rparr> else P)"
  have p1: "parser_ok q n p1" using upd P by (simp add: p1_def)
  obtain x where "load m (cptr b) 0 = Some x" using ld s by auto
  then show ?thesis
    unfolding e p1_def [symmetric] Let_def using ro res ends(2)
      parser_ok_updates(3) [OF parser_ok_updates(2) [OF P, of "?lv + 1" True] b, of "?lv + 1"]
      parser_ok_updates(2) [OF p1, of "?lv + 1" True] p1 P safe_result_skip [OF P] PP
    by auto
qed

lemma differs_total:
  assumes "inside q n b" "q + n \<le> length m"
  shows "\<exists>d. (if f then differs m b ob else Some False) = Some d"
proof -
  have "clen b \<noteq> 0 \<Longrightarrow> \<exists>x. load m (cptr b) 0 = Some x" using load_inside [OF assms] by auto
  then show ?thesis by (cases "clen b = 0") (auto simp: differs_def)
qed

lemma iterate_body_safe:
  assumes "parser_ok q n p" "q + n \<le> length m" "ob = mpObjects p ! nat (mLine p)" "0 \<le> mLine p"
  shows "safe_result q n (iterate_body m p ob)"
proof -
  let ?lv = "level ob" let ?b = "mBlobs p ! level ob"
  have wf: "wf_table (mpObjects p)" "mLine p < int (length (mpObjects p)) - 1"
    using assms(1) by (simp_all add: parser_ok_def)
  note ends = wf_tableD [OF wf(1) assms(4) wf(2) assms(3)]
  have b: "inside q n ?b" using parser_ok_blob [OF assms(1)] ends(1) by simp
  obtain d1 where d1: "(if has ob ASN1_DEF then differs m ?b ob else Some False) = Some d1"
    using differs_total [OF b assms(2)] by blast
  obtain d2 where d2: "(if has ob ASN1_OPT then differs m ?b ob else Some False) = Some d2"
    using differs_total [OF b assms(2)] by blast
  have x: "has ob ASN1_DEF" if "d1" using d1 that by (auto split: if_splits)
  have y: "has ob ASN1_OPT" if "d2" using d2 that by (auto split: if_splits)
  have le: "\<not> ASN1_MAX_LEVEL < ?lv" using ends(1) by simp
  note body = iterate_body_def [of m p ob, unfolded Let_def, unfolded d1 d2 if_not_P [OF le] Option.bind.bind_lunit]
  consider "d1" | "\<not> d1" "d2" | "\<not> d1" "\<not> d2" "clen ?b < 2" | "\<not> d1" "\<not> d2" "2 \<le> clen ?b" by fastforce
  then show ?thesis
  proof cases
    case 1
    then show ?thesis unfolding body
      using ends(4) [OF x] parser_ok_updates(4) [OF assms(1), of "mLine p + 1"] assms(1,4) by auto
  next
    case 2
    then show ?thesis unfolding body using ends(2) y safe_result_skip [OF assms(1)] by auto
  next
    case 3
    then show ?thesis unfolding body by auto
  next
    case 4
    obtain k l where kl: "asn1Length m ?b = Some (advance ?b k, l)" "k \<le> unat (clen ?b)"
      "l \<noteq> ASN1_INVALID_LENGTH \<longrightarrow> l \<le> clen (advance ?b k)"
      using asn1Length_inside [OF b assms(2) 4(3)] by blast
    have "\<not> clen ?b < 2" using 4(3) by (simp add: not_less)
    then have e: "iterate_body m p ob = (let p1 = p\<lparr>mBlobs := (mBlobs p)[?lv := advance ?b k, ?lv + 1 := (mBlobs p ! (?lv + 1))\<lparr>clen := l\<rparr>]\<rparr>
        in if l = ASN1_INVALID_LENGTH then Some (p1\<lparr>mSuccess := False\<rparr>, none_c) else iterate_content m p1 ob ?b)"
      unfolding body using 4(1,2) kl(1) by simp
    show ?thesis
    proof (cases "l = ASN1_INVALID_LENGTH")
      case True
      then show ?thesis unfolding e by (auto simp: Let_def)
    next
      case False
      with kl(3) have "l \<le> clen (advance ?b k)" by simp
      from iterate_content_safe [OF assms refl 4(3) kl(2) this _ refl] False show ?thesis
        unfolding e by (simp add: Let_def)
    qed
  qed
qed

lemma end_found_safe:
  assumes "parser_ok q n p" "ob = mpObjects p ! nat (mLine p)" "0 \<le> mLine p" "has ob ASN1_END"
  shows "\<exists>p'. end_found p ob = Some p' \<and> (mSuccess p' \<longrightarrow> parser_ok q n p')"
proof -
  let ?lv = "level ob"
  have wf: "wf_table (mpObjects p)" "mLine p < int (length (mpObjects p)) - 1"
    using assms(1) by (simp_all add: parser_ok_def)
  note ends = wf_tableD [OF wf(1) assms(3) wf(2) assms(2)]
  define P where "P = p\<lparr>mLoopAddr := (mLoopAddr p)[?lv := 0]\<rparr>"
  have P: "parser_ok q n P" using parser_ok_updates(5) [OF assms(1), of 0] assms(3) wf(2) by (simp add: P_def)
  have PP: "mpObjects P = mpObjects p" "mLine P = mLine p" "mChoice P = mChoice p" by (simp_all add: P_def)
  show ?thesis
  proof (cases "has ob ASN1_CH \<and> \<not> (has ob ASN1_CHOICE \<and> mChoice P ! (?lv + 1))")
    case False
    then show ?thesis using P PP by (auto simp: end_found_def Let_def P_def [symmetric])
  next
    case True
    then obtain l where l: "skip_to (mpObjects p) (mLine p) (\<lambda>o1. has o1 ASN1_END \<and> has o1 ASN1_CHOICE \<and> level o1 + 1 = ?lv) = Some l"
      using ends(3) assms(4) by auto
    from skip_to_before_exit [OF wf(1) this] have "- 1 \<le> l - 1" "l - 1 < int (length (mpObjects p)) - 1" by auto
    from parser_ok_updates(4) [OF parser_ok_updates(2) [OF P, of ?lv False], of "l - 1"] this PP
    have "parser_ok q n (P\<lparr>mChoice := (mChoice P)[?lv := False], mLine := l - 1\<rparr>)" by simp
    moreover have "end_found p ob = Some (P\<lparr>mChoice := (mChoice P)[?lv := False], mLine := l - 1\<rparr>)"
      using True l PP by (auto simp: end_found_def Let_def P_def [symmetric])
    ultimately show ?thesis by simp
  qed
qed

lemma wf_table_line:
  assumes "wf_table objs" "0 \<le> i" "i < int (length objs)"
  shows "i < int (length objs) - 1 \<or> has (objs ! nat i) ASN1_EXIT"
proof (cases "i < int (length objs) - 1")
  case False
  then have "nat i = length objs - 1" using assms(2,3) by linarith
  then show ?thesis using assms(1) by (auto simp: wf_table_def last_conv_nth)
qed simp

text \<open>One step keeps the invariant as long as it reports success.\<close>

lemma iterate_safe:
  assumes "parser_ok q n p" "q + n \<le> length m"
  shows "\<exists>p' objectID object ok. iterate m p = Some (p', objectID, object, ok) \<and> inside q n object \<and>
    (ok \<longrightarrow> parser_ok q n p' \<and> objectID = Some (mLine p'))"
proof -
  let ?objs = "mpObjects p" and ?i = "mLine p + 1"
  define P where "P = p\<lparr>mLine := ?i\<rparr>"
  define ob where "ob = ?objs ! nat ?i"
  have wf: "wf_table ?objs" and i: "0 \<le> ?i" "?i < int (length ?objs)" using assms(1) by (auto simp: parser_ok_def)
  have at: "obj_at ?objs ?i = Some ob" using i by (simp add: obj_at_def ob_def)
  show ?thesis
  proof (cases "has ob ASN1_EXIT")
    case True
    then show ?thesis using at by (auto simp: iterate_def Let_def)
  next
    case False
    then have i2: "?i < int (length ?objs) - 1" using wf_table_line [OF wf i] by (auto simp: ob_def)
    then have P: "parser_ok q n P" using parser_ok_updates(4) [OF assms(1)] i(1) by (simp add: P_def)
    have PP: "mpObjects P = ?objs" "mLine P = ?i" by (simp_all add: P_def)
    have obP: "ob = mpObjects P ! nat (mLine P)" "0 \<le> mLine P" using i(1) PP by (simp_all add: ob_def)
    have lv: "\<not> ASN1_MAX_LEVEL < level ob" using wf_tableD(1) [OF wf i(1) i2 ob_def] by simp
    let ?la = "mLoopAddr P ! level ob"
    consider "\<not> has ob ASN1_END" | "has ob ASN1_END" "\<not> (?la \<noteq> 0 \<and> 0 < clen (mBlobs P ! (level ob + 1)))"
      | "has ob ASN1_END" "?la \<noteq> 0" "0 < clen (mBlobs P ! (level ob + 1))" by blast
    then show ?thesis
    proof cases
      case 1
      from iterate_body_safe [OF P assms(2) obP] obtain p' object where
        "iterate_body m P ob = Some (p', object)" "inside q n object" "mSuccess p' \<longrightarrow> parser_ok q n p'"
        by (auto simp: safe_result_def)
      then show ?thesis using False 1 at by (simp add: iterate_def Let_def P_def)
    next
      case 2
      from end_found_safe [OF P obP 2(1)] obtain p' where "end_found P ob = Some p'" "mSuccess p' \<longrightarrow> parser_ok q n p'" by blast
      then show ?thesis using False 2 at lv by (simp add: iterate_def Let_def P_def)
    next
      case 3
      have "?la \<in> set (mLoopAddr P)" using P lv by (auto simp: parser_ok_def)
      then have la: "0 \<le> ?la" "?la < int (length ?objs) - 1" using P 3(2) PP by (auto simp: parser_ok_def)
      define Q where "Q = P\<lparr>mLine := ?la\<rparr>"
      have Q: "parser_ok q n Q" using parser_ok_updates(4) [OF P] la PP by (simp add: Q_def)
      have at2: "obj_at ?objs ?la = Some (?objs ! nat ?la)" using la by (simp add: obj_at_def)
      from iterate_body_safe [OF Q assms(2) refl] la obtain p' object where
        "iterate_body m Q (?objs ! nat ?la) = Some (p', object)" "inside q n object" "mSuccess p' \<longrightarrow> parser_ok q n p'"
        by (auto simp: safe_result_def Q_def PP)
      then show ?thesis using False 3 at at2 lv by (simp add: iterate_def Let_def P_def Q_def)
    qed
  qed
qed

end
