(* ===== verification/Asn1Props.thy ===== *)
theory Asn1Props
  imports Asn1Safe
begin

text \<open>DER encodings as specification, the parser on them, and the properties of the ASN.1 parser.\<close>

section \<open>Specification: DER\<close>

fun be_bytes :: "nat \<Rightarrow> u8 list" where
  "be_bytes n = (if n = 0 then [] else be_bytes (n div 256) @ [of_nat (n mod 256)])"

declare be_bytes.simps [simp del]

definition der_len :: "nat \<Rightarrow> u8 list" where
  "der_len n = (if n < 128 then [of_nat n] else of_nat (128 + length (be_bytes n)) # be_bytes n)"

definition tlv :: "u8 \<Rightarrow> u8 list \<Rightarrow> u8 list" where
  "tlv t c = t # der_len (length c) @ c"

text \<open>Bytes before the contents.\<close>

definition hdr :: "u8 list \<Rightarrow> nat" where
  "hdr c = Suc (length (der_len (length c)))"

lemma length_tlv: "length (tlv t c) = hdr c + length c"
  by (simp add: tlv_def hdr_def)

lemma be_bytes_bound: "n < 256 ^ k \<Longrightarrow> length (be_bytes n) \<le> k"
proof (induction k arbitrary: n)
  case (Suc k)
  then have "n div 256 < 256 ^ k" by (simp add: div_less_iff_less_mult mult.commute)
  with Suc.IH [of "n div 256"] show ?case by (subst be_bytes.simps) simp
qed (simp add: be_bytes.simps)

lemma be_bytes_value: "foldl (\<lambda>l b. 256 * l + ucast b) 0 (be_bytes n) = (of_nat n :: u32)"
proof (induction n rule: be_bytes.induct)
  case (1 n)
  show ?case
  proof (cases "n = 0")
    case False
    have "ucast (of_nat (n mod 256) :: u8) = (of_nat (n mod 256) :: u32)"
      by (simp add: word_unat_eq_iff unat_ucast_up unat_of_nat)
    then have "256 * of_nat (n div 256) + ucast (of_nat (n mod 256) :: u8) = (of_nat (256 * (n div 256) + n mod 256) :: u32)"
      by (simp only: of_nat_add of_nat_mult of_nat_numeral)
    then show ?thesis using "1.IH" False by (subst be_bytes.simps) simp
  qed (simp add: be_bytes.simps)
qed

section \<open>Lengths\<close>

lemma advance_view: "k \<le> n \<Longrightarrow> advance (view a n) k = view (a + k) (n - k)"
  by (simp add: advance_def of_nat_diff)

lemma length_octets_view:
  "\<lbrakk>drop a m = bs @ r; length bs \<le> n\<rbrakk> \<Longrightarrow>
    length_octets m (view a n) (length bs) l = Some (view (a + length bs) (n - length bs), foldl (\<lambda>l b. 256 * l + ucast b) l bs)"
proof (induction bs arbitrary: a n l)
  case (Cons b bs)
  have "load m (Some a) 0 = Some b" using drop_split [of a m b "bs @ r"] Cons.prems(1) by (simp add: load_def)
  moreover have "length_octets m (view (Suc a) (n - 1)) (length bs) (256 * l + ucast b) =
      Some (view (Suc a + length bs) (n - 1 - length bs), foldl (\<lambda>l b. 256 * l + ucast b) (256 * l + ucast b) bs)"
    using drop_split [of a m b "bs @ r"] Cons.prems by (intro Cons.IH) auto
  ultimately show ?case using advance_view [of 1 n a] Cons.prems(2) by (simp del: of_nat_diff)
qed simp

lemma small_length: "n < 128 \<Longrightarrow> (of_nat n :: u8) AND 0x80 = 0"
proof -
  have "\<forall>k \<in> set [0..<128]. (of_nat k :: u8) AND 0x80 = 0" by code_simp
  then show "n < 128 \<Longrightarrow> (of_nat n :: u8) AND 0x80 = 0" by simp
qed

lemma long_length:
  assumes "1 \<le> k" "k \<le> 4"
  shows "(of_nat (128 + k) :: u8) AND 0x80 \<noteq> 0" "(of_nat (128 + k) :: u8) AND 0x7f = of_nat k"
proof -
  have "k = 1 \<or> k = 2 \<or> k = 3 \<or> k = 4" using assms by auto
  then show "(of_nat (128 + k) :: u8) AND 0x80 \<noteq> 0" "(of_nat (128 + k) :: u8) AND 0x7f = of_nat k" by auto
qed

lemma asn1Length_tlv:
  assumes "drop a m = tlv t c @ r" "length (tlv t c) \<le> n" "n < 2 ^ 32 - 1"
  shows "asn1Length m (view a n) = Some (view (a + hdr c) (n - hdr c), of_nat (length c))"
proof -
  let ?k = "length (be_bytes (length c))"
  have c: "length c < 2 ^ 32 - 1" and n: "unat (of_nat n :: u32) = n" using assms(2,3) length_tlv [of t c] by (simp_all add: unat_of_nat)
  have h2: "2 \<le> hdr c" by (simp add: hdr_def der_len_def)
  have n2: "hdr c + length c \<le> n" using assms(2) length_tlv [of t c] by simp
  then have "\<not> (of_nat n :: u32) < 2" using h2 n by (simp add: word_less_nat_alt)
  note start = this advance_view [of 2 n a]
  have d1: "drop (Suc a) m = der_len (length c) @ c @ r" using drop_split(3) [of a m t] assms(1) by (simp add: tlv_def)
  show ?thesis
  proof (cases "length c < 128")
    case True
    then have h: "hdr c = 2" by (simp add: hdr_def der_len_def)
    have l: "load m (Some a) 1 = Some (of_nat (length c))"
      using drop_split(1,2) [of "Suc a" m "of_nat (length c)" "c @ r"] d1 True by (simp add: load_def der_len_def)
    have u: "ucast (of_nat (length c) :: u8) = (of_nat (length c) :: u32)"
      using True by (simp add: word_unat_eq_iff unat_ucast_up unat_of_nat)
    have "\<not> (of_nat (n - 2) :: u32) < of_nat (length c)"
      using n2 h assms(3) c by (simp add: word_less_nat_alt unat_of_nat32 del: of_nat_diff)
    then show ?thesis using start l small_length [OF True] h n2 u
      by (simp add: asn1Length_def Let_def del: of_nat_diff)
  next
    case False
    have k4: "?k \<le> 4" by (rule be_bytes_bound) (use c in simp)
    have k1: "1 \<le> ?k" using False by (subst be_bytes.simps) auto
    have h: "hdr c = 2 + ?k" using False by (simp add: hdr_def der_len_def)
    have d2: "drop (a + 2) m = be_bytes (length c) @ c @ r"
      using drop_split(3) [of "Suc a" m "of_nat (128 + ?k)" "be_bytes (length c) @ c @ r"] d1 False
      by (simp add: der_len_def del: of_nat_add)
    have l: "load m (Some a) 1 = Some (of_nat (128 + ?k))"
      using drop_split(1,2) [of "Suc a" m "of_nat (128 + ?k)" "be_bytes (length c) @ c @ r"] d1 False
      by (simp add: load_def der_len_def del: of_nat_add)
    have oct: "length_octets m (view (a + 2) (n - 2)) ?k 0 = Some (view (a + 2 + ?k) (n - 2 - ?k), of_nat (length c))"
      using length_octets_view [OF d2, of "n - 2" 0] n2 h be_bytes_value [of "length c"] by (simp del: of_nat_diff)
    have k: "unat (of_nat ?k :: u8) = ?k" "(ucast (of_nat ?k :: u8) :: u32) = of_nat ?k" "(of_nat ?k :: u8) \<noteq> 0" "\<not> (4 :: u8) < of_nat ?k"
      using k4 k1 by (auto simp: word_unat_eq_iff unat_ucast_up unat_of_nat word_less_nat_alt)
    have "\<not> (of_nat (n - 2) :: u32) < of_nat ?k" "\<not> (of_nat (n - 2 - ?k) :: u32) < of_nat (length c)"
      using n2 h assms(3) c k4 by (simp_all add: word_less_nat_alt unat_of_nat32 del: of_nat_diff)
    then show ?thesis using start l long_length [OF k1 k4] h n2 k oct
      by (simp add: asn1Length_def Let_def del: of_nat_diff of_nat_add)
  qed
qed

section \<open>A step on an encoded object\<close>

lemma iterate_tlv:
  assumes "mLine p + 1 = int i" "i < length (mpObjects p)" "ob = mpObjects p ! i" "length (mBlobs p) = ASN1_MAX_LEVEL + 2"
    "\<not> has ob ASN1_EXIT" "\<not> has ob ASN1_END" "\<not> has ob ASN1_CHOICE" "\<not> has ob ASN1_LOOP" "\<not> has ob ASN1_OPT"
    "level ob = lv" "lv \<le> ASN1_MAX_LEVEL" "has ob ASN1_RAW \<and> \<not> has ob ASN1_DEF \<or> ucast t = type ob"
    "mBlobs p ! lv = view a n" "drop a m = tlv t c @ r" "length (tlv t c) \<le> n" "n < 2 ^ 32 - 1"
  shows "\<exists>object. iterate m p = Some (p\<lparr>mLine := int i, mBlobs := (mBlobs p)[lv := view (a + length (tlv t c)) (n - length (tlv t c)),
      lv + 1 := view (a + hdr c) (length c)]\<rparr>, Some (int i), object, mSuccess p) \<and>
    (has ob ASN1_RAW \<longrightarrow> object = view a (length (tlv t c)))"
proof -
  let ?l = "length (tlv t c)"
  have l: "?l = hdr c + length c" "2 \<le> ?l" by (simp_all add: length_tlv hdr_def der_len_def)
  define P where "P = p\<lparr>mLine := int i\<rparr>"
  have PP: "mBlobs P ! lv = view a n" "length (mBlobs P) = ASN1_MAX_LEVEL + 2" "mLine P = int i" "mSuccess P = mSuccess p"
    "mBlobs P = mBlobs p" using assms(4,13) by (simp_all add: P_def)
  have n: "(of_nat n :: u32) \<noteq> 0" "\<not> (of_nat n :: u32) < 2"
    using unat_of_nat32 [of n] assms(15,16) l(2) by (auto simp: word_less_nat_alt)
  have ld: "load m (Some a) 0 = Some t" using drop_split(1,2) [of a m t] assms(14) by (simp add: tlv_def load_def)
  have c: "(of_nat (length c) :: u32) \<noteq> ASN1_INVALID_LENGTH" "unat (of_nat (length c) :: u32) = length c"
    using unat_of_nat32 [of "length c"] assms(15,16) l(1) by (auto dest: arg_cong [where f = unat])
  define C where "C = P\<lparr>mBlobs := (mBlobs p)[lv := view (a + ?l) (n - ?l), lv + 1 := view (a + hdr c) (length c)]\<rparr>"
  have adv: "advance (view (a + hdr c) (n - hdr c)) (length c) = view (a + ?l) (n - ?l)"
    using advance_view [of "length c" "n - hdr c" "a + hdr c"] assms(15) l(1) by (simp add: add.assoc)
  have ro: "raw_object (Some a) (view (a + ?l) (n - ?l)) = Some (view a ?l)" by (simp add: raw_object_def)
  define P0 where "P0 = P\<lparr>mBlobs := (mBlobs P)[lv := view (a + hdr c) (n - hdr c), lv + 1 := (mBlobs P ! (lv + 1))\<lparr>clen := of_nat (length c)\<rparr>]\<rparr>"
  have P0: "mBlobs P0 ! lv = view (a + hdr c) (n - hdr c)" "clen (mBlobs P0 ! (lv + 1)) = of_nat (length c)"
    "P0\<lparr>mBlobs := (mBlobs P0)[lv := view (a + ?l) (n - ?l), lv + 1 := view (a + hdr c) (length c)]\<rparr> = C"
    using PP(2) assms(11) by (simp_all add: P0_def C_def PP(5) list_update_swap [of lv "Suc lv"])
  obtain res where res: "result_object ob (Some a) (view (a + ?l) (n - ?l)) (view (a + hdr c) (length c)) = Some res"
    using ro by (cases "has ob ASN1_OBJ"; cases "has ob ASN1_BODY") (auto simp: result_object_def)
  have "iterate_content m P0 ob (view a n) = (if has ob ASN1_RAW then Some (C, view a ?l) else Some (C, res))"
    using P0 adv ro res ld assms(7,8,10,12) c(2)
    by (auto simp: iterate_content_def Let_def)
  moreover have "iterate_body m P ob = iterate_content m P0 ob (view a n)"
    using assms(9,10,11,12) PP(1) ld n asn1Length_tlv [OF assms(14-16)] c(1)
    by (auto simp: iterate_body_def Let_def differs_def P0_def not_less)
  moreover have "obj_at (mpObjects p) (int i) = Some ob" using assms(2,3) by (simp add: obj_at_def)
  ultimately show ?thesis using assms(1,5,6)
    by (simp add: iterate_def Let_def P_def [symmetric]) (simp add: C_def P_def)
qed

section \<open>The certificate\<close>

definition on_line :: "asn1Parser \<Rightarrow> int \<Rightarrow> bool" where
  "on_line p i \<longleftrightarrow> mpObjects p = certObjects \<and> mLine p = i \<and> mSuccess p \<and> length (mBlobs p) = ASN1_MAX_LEVEL + 2"

text \<open>At level \<open>lv\<close> exactly the bytes \<open>bs\<close> are left.\<close>

definition left_at :: "mem \<Rightarrow> asn1Parser \<Rightarrow> nat \<Rightarrow> u8 list \<Rightarrow> bool" where
  "left_at m p lv bs \<longleftrightarrow> (\<exists>a r. mBlobs p ! lv = view a (length bs) \<and> drop a m = bs @ r \<and> length bs < 2 ^ 32 - 1)"

text \<open>Line \<open>i\<close> of the table takes an object with the tag \<open>t\<close> at level \<open>lv\<close>.\<close>

definition fits :: "nat \<Rightarrow> nat \<Rightarrow> u8 \<Rightarrow> bool" where
  "fits i lv t \<longleftrightarrow> (let ob = certObjects ! i in i < 26 \<and> i \<noteq> 11 \<and> \<not> has ob ASN1_EXIT \<and> \<not> has ob ASN1_END \<and>
     \<not> has ob ASN1_CHOICE \<and> \<not> has ob ASN1_LOOP \<and> \<not> has ob ASN1_OPT \<and> level ob = lv \<and> lv \<le> ASN1_MAX_LEVEL \<and>
     (has ob ASN1_RAW \<and> \<not> has ob ASN1_DEF \<or> ucast t = type ob))"

lemma cert_fits:
  "fits 0 0 0x30" "fits 1 1 0x30" "fits 2 2 0xA0" "fits 3 3 0x02" "fits 4 2 0x02" "fits 5 2 t" "fits 6 2 0x30"
  "fits 7 2 0x30" "fits 8 3 t" "fits 9 3 t" "fits 10 2 0x30"
  by (simp_all add: fits_def certObjects_def has_def)

lemma cert_step:
  assumes "on_line p j" "fits i lv t" "left_at m p lv (tlv t c @ bs)" "int i = j + 1"
  obtains p' where "pubkey_info_loop m p = pubkey_info_loop m p'" "on_line p' (int i)" "left_at m p' lv bs" "left_at m p' (lv + 1) c"
    "\<forall>k x. k \<noteq> lv \<and> k \<noteq> lv + 1 \<and> left_at m p k x \<longrightarrow> left_at m p' k x"
proof -
  let ?l = "length (tlv t c)" and ?n = "length (tlv t c @ bs)"
  define ob where "ob = certObjects ! i"
  have f: "i < 26" "i \<noteq> 11" "\<not> has ob ASN1_EXIT" "\<not> has ob ASN1_END" "\<not> has ob ASN1_CHOICE" "\<not> has ob ASN1_LOOP"
    "\<not> has ob ASN1_OPT" "level ob = lv" "lv \<le> ASN1_MAX_LEVEL" "has ob ASN1_RAW \<and> \<not> has ob ASN1_DEF \<or> ucast t = type ob"
    using assms(2) by (auto simp: fits_def Let_def ob_def)
  from assms(3) obtain a r where a: "mBlobs p ! lv = view a ?n" "drop a m = tlv t c @ bs @ r" "?n < 2 ^ 32 - 1"
    unfolding left_at_def append_assoc by blast
  have len: "length certObjects = 27" by (simp add: certObjects_def)
  define p' where "p' = p\<lparr>mLine := int i, mBlobs := (mBlobs p)[lv := view (a + ?l) (?n - ?l), lv + 1 := view (a + hdr c) (length c)]\<rparr>"
  obtain object where it: "iterate m p = Some (p', Some (int i), object, mSuccess p)"
    using iterate_tlv [of p i ob lv t a ?n m c "bs @ r"] assms(1,4) f a len ob_def unfolding on_line_def p'_def by auto
  have "pubkey_info_loop m p = pubkey_info_loop m p'"
    using it assms(1,4) f(2) by (subst pubkey_info_loop.simps) (simp add: on_line_def)
  moreover have "on_line p' (int i)" using assms(1) by (simp add: on_line_def p'_def)
  moreover have "left_at m p' lv bs"
  proof -
    have "drop (a + ?l) m = bs @ r" using arg_cong [OF a(2), of "drop ?l"] by (simp add: add.commute)
    moreover have "?n - ?l = length bs" by simp
    ultimately show ?thesis using a(3) assms(1) f(9)
      by (auto simp: left_at_def p'_def on_line_def simp del: length_append)
  qed
  moreover have "left_at m p' (lv + 1) c"
  proof -
    have "drop (a + hdr c) m = c @ bs @ r" using arg_cong [OF a(2), of "drop (hdr c)"] by (simp add: tlv_def hdr_def add.commute)
    then show ?thesis using a(3) assms(1) f(9) by (auto simp: left_at_def p'_def on_line_def length_tlv)
  qed
  moreover have "\<forall>k x. k \<noteq> lv \<and> k \<noteq> lv + 1 \<and> left_at m p k x \<longrightarrow> left_at m p' k x"
    by (auto simp: left_at_def p'_def)
  ultimately show ?thesis by (rule that)
qed

lemma ucast_eq_u32: "(ucast (t :: u8) :: u32) = ucast (s :: u8) \<longleftrightarrow> t = s"
proof -
  have "unat t < 2 ^ LENGTH(8)" "unat s < 2 ^ LENGTH(8)" by (rule unsigned_less)+
  then have "unat (ucast t :: u32) = unat t" "unat (ucast s :: u32) = unat s" by (intro unat_ucast_up; simp)+
  then show ?thesis by (metis word_unat_eq_iff)
qed

lemma cert_default_absent:
  assumes "on_line p 1" "left_at m p 2 (tlv t c @ bs)" "t \<noteq> 0xA0"
  shows "pubkey_info_loop m p = pubkey_info_loop m (p\<lparr>mLine := 3\<rparr>)"
proof -
  from assms(2) obtain a r where a: "mBlobs p ! 2 = view a (length (tlv t c @ bs))" "drop a m = tlv t c @ bs @ r"
    "length (tlv t c @ bs) < 2 ^ 32 - 1" unfolding left_at_def append_assoc by blast
  have "load m (Some a) 0 = Some t" using drop_split(1,2) [of a m t] a(2) by (simp add: tlv_def load_def)
  moreover have "(of_nat (length (tlv t c @ bs)) :: u32) \<noteq> 0"
    using unat_of_nat32 [of "length (tlv t c @ bs)"] a(3) by (auto simp: tlv_def simp del: of_nat_add of_nat_Suc)
  moreover have "ucast t \<noteq> (0xA0 :: u32)"
    using ucast_eq_u32 [of t "0xA0"] assms(3) by simp
  ultimately have "iterate m p = Some (p\<lparr>mLine := 3\<rparr>, Some 3, \<lparr>cptr = None, clen = 0\<rparr>, True)"
    using assms(1) a(1)
    by (simp add: iterate_def Let_def on_line_def obj_at_def certObjects_def has_def iterate_body_def differs_def del: length_append)
  then show ?thesis by (subst pubkey_info_loop.simps) simp
qed

definition tbs_certificate ::
  "u8 list option \<Rightarrow> u8 list \<Rightarrow> u8 \<times> u8 list \<Rightarrow> u8 list \<Rightarrow> u8 \<times> u8 list \<Rightarrow> u8 \<times> u8 list \<Rightarrow> u8 list \<Rightarrow> u8 list \<Rightarrow> u8 list \<Rightarrow> u8 list" where
  "tbs_certificate version serial algorithm issuer not_before not_after subject spki rest =
     (case version of None \<Rightarrow> [] | Some v \<Rightarrow> tlv 0xA0 (tlv 0x02 v)) @ tlv 0x02 serial @
     tlv (fst algorithm) (snd algorithm) @ tlv 0x30 issuer @
     tlv 0x30 (tlv (fst not_before) (snd not_before) @ tlv (fst not_after) (snd not_after)) @
     tlv 0x30 subject @ tlv 0x30 spki @ rest"

text \<open>A certificate: the signed part, and the signature behind it.\<close>

definition certificate :: "u8 list \<Rightarrow> u8 list \<Rightarrow> u8 list" where
  "certificate tbs signature = tlv 0x30 (tlv 0x30 tbs @ signature)"

lemmas cert_line = on_line_def certObjects_def has_def

lemma cert_to_serial:
  assumes "on_line p 1" "left_at m p 2 ((case version of None \<Rightarrow> [] | Some v \<Rightarrow> tlv 0xA0 (tlv 0x02 v)) @ tlv 0x02 serial @ bs)"
  obtains p' where "pubkey_info_loop m p = pubkey_info_loop m p'" "on_line p' 3" "left_at m p' 2 (tlv 0x02 serial @ bs)"
proof (cases version)
  case None
  with assms have "pubkey_info_loop m p = pubkey_info_loop m (p\<lparr>mLine := 3\<rparr>)"
    by (intro cert_default_absent [where t = 2]) auto
  then show ?thesis using assms None that [of "p\<lparr>mLine := 3\<rparr>"] by (simp add: on_line_def left_at_def)
next
  case (Some v)
  obtain p1 where p1: "pubkey_info_loop m p = pubkey_info_loop m p1" "on_line p1 2" "left_at m p1 2 (tlv 0x02 serial @ bs)"
    "left_at m p1 3 (tlv 0x02 v @ [])"
    by (rule cert_step [OF assms(1) cert_fits(3)]) (use assms(2) Some in simp_all)
  obtain p2 where p2: "pubkey_info_loop m p1 = pubkey_info_loop m p2" "on_line p2 3"
    "\<forall>k x. k \<noteq> 3 \<and> k \<noteq> 4 \<and> left_at m p1 k x \<longrightarrow> left_at m p2 k x"
    by (rule cert_step [OF p1(2) cert_fits(4) p1(4)]) simp_all
  show ?thesis using that [of p2] p1 p2 by simp
qed

lemma cert_to_subject:
  assumes "on_line p 3" "left_at m p 2 (tlv 0x02 serial @ tlv ta algorithm @ tlv 0x30 issuer @
    tlv 0x30 (tlv tb not_before @ tlv tc not_after) @ bs)"
  obtains p' where "pubkey_info_loop m p = pubkey_info_loop m p'" "on_line p' 9" "left_at m p' 2 bs"
proof -
  obtain p1 where p1: "pubkey_info_loop m p = pubkey_info_loop m p1" "on_line p1 4"
    "left_at m p1 2 (tlv ta algorithm @ tlv 0x30 issuer @ tlv 0x30 (tlv tb not_before @ tlv tc not_after) @ bs)"
    by (rule cert_step [OF assms(1) cert_fits(5) assms(2)]) simp_all
  obtain p2 where p2: "pubkey_info_loop m p1 = pubkey_info_loop m p2" "on_line p2 5"
    "left_at m p2 2 (tlv 0x30 issuer @ tlv 0x30 (tlv tb not_before @ tlv tc not_after) @ bs)"
    by (rule cert_step [OF p1(2) cert_fits(6) p1(3)]) simp_all
  obtain p3 where p3: "pubkey_info_loop m p2 = pubkey_info_loop m p3" "on_line p3 6"
    "left_at m p3 2 (tlv 0x30 (tlv tb not_before @ tlv tc not_after) @ bs)"
    by (rule cert_step [OF p2(2) cert_fits(7) p2(3)]) simp_all
  obtain p4 where p4: "pubkey_info_loop m p3 = pubkey_info_loop m p4" "on_line p4 7" "left_at m p4 2 bs"
    "left_at m p4 3 (tlv tb not_before @ tlv tc not_after @ [])"
    by (rule cert_step [OF p3(2) cert_fits(8) p3(3)]) simp_all
  obtain p5 where p5: "pubkey_info_loop m p4 = pubkey_info_loop m p5" "on_line p5 8" "left_at m p5 3 (tlv tc not_after @ [])"
    "\<forall>k x. k \<noteq> 3 \<and> k \<noteq> 4 \<and> left_at m p4 k x \<longrightarrow> left_at m p5 k x"
    by (rule cert_step [OF p4(2) cert_fits(9) p4(4)]) simp_all
  obtain p6 where p6: "pubkey_info_loop m p5 = pubkey_info_loop m p6" "on_line p6 9"
    "\<forall>k x. k \<noteq> 3 \<and> k \<noteq> 4 \<and> left_at m p5 k x \<longrightarrow> left_at m p6 k x"
    by (rule cert_step [OF p5(2) cert_fits(10) p5(3)]) simp_all
  show ?thesis using that [of p6] p1 p2 p3 p4 p5 p6 by simp
qed

lemma cert_key:
  assumes "on_line p 10" "left_at m p 2 (tlv 0x30 spki @ bs)"
  obtains a r where "pubkey_info_loop m p = Some (view a (length (tlv 0x30 spki)))" "drop a m = tlv 0x30 spki @ bs @ r"
    "length (tlv 0x30 spki @ bs) < 2 ^ 32 - 1"
proof -
  let ?n = "length (tlv 0x30 spki @ bs)"
  from assms(2) obtain a r where a: "mBlobs p ! 2 = view a ?n" "drop a m = tlv 0x30 spki @ bs @ r" "?n < 2 ^ 32 - 1"
    unfolding left_at_def append_assoc by blast
  define ob where "ob = certObjects ! 11"
  have f: "11 < length certObjects" "\<not> has ob ASN1_EXIT" "\<not> has ob ASN1_END" "\<not> has ob ASN1_CHOICE" "\<not> has ob ASN1_LOOP"
    "\<not> has ob ASN1_OPT" "\<not> has ob ASN1_DEF" "level ob = 2" "has ob ASN1_RAW"
    by (simp_all add: ob_def certObjects_def has_def)
  obtain p' object where it: "iterate m p = Some (p', Some 11, object, True)" "object = view a (length (tlv 0x30 spki))"
    using iterate_tlv [of p 11 ob 2 "0x30" a ?n m spki "bs @ r"] assms(1) f a ob_def unfolding on_line_def by auto
  have "pubkey_info_loop m p = Some (view a (length (tlv 0x30 spki)))"
    using it by (subst pubkey_info_loop.simps) simp
  then show ?thesis using a that by blast
qed

lemma pubkey_info_found:
  assumes "m = certificate (tbs_certificate version serial algorithm issuer not_before not_after subject spki rest) signature"
    "length m < 2 ^ 31"
  shows "\<exists>a r. pubkey_info_loop m (asn1Parser certObjects (view 0 (length m))) = Some (view a (length (tlv 0x30 spki))) \<and>
    drop a m = tlv 0x30 spki @ r \<and> length (tlv 0x30 spki) < 2 ^ 32"
proof -
  let ?p = "asn1Parser certObjects (view 0 (length m))"
  define tbs where "tbs = tbs_certificate version serial algorithm issuer not_before not_after subject spki rest"
  have ok: "on_line ?p (- 1)" by (simp add: on_line_def asn1Parser_def)
  have l0: "left_at m ?p 0 (tlv 0x30 (tlv 0x30 tbs @ signature) @ [])"
    using assms by (simp add: left_at_def asn1Parser_def certificate_def tbs_def)
  obtain p0 where p0: "pubkey_info_loop m ?p = pubkey_info_loop m p0" "on_line p0 0" "left_at m p0 1 (tlv 0x30 tbs @ signature)"
    by (rule cert_step [OF ok cert_fits(1) l0]) simp_all
  obtain p1 where p1: "pubkey_info_loop m p0 = pubkey_info_loop m p1" "on_line p1 1" "left_at m p1 2 tbs"
    by (rule cert_step [OF p0(2) cert_fits(2) p0(3)]) (simp_all add: numeral_2_eq_2)
  obtain p2 where p2: "pubkey_info_loop m p1 = pubkey_info_loop m p2" "on_line p2 3" "left_at m p2 2 (tlv 0x02 serial @
     tlv (fst algorithm) (snd algorithm) @ tlv 0x30 issuer @
     tlv 0x30 (tlv (fst not_before) (snd not_before) @ tlv (fst not_after) (snd not_after)) @
     tlv 0x30 subject @ tlv 0x30 spki @ rest)"
    using p1(3) unfolding tbs_def tbs_certificate_def by (rule cert_to_serial [OF p1(2)])
  obtain p3 where p3: "pubkey_info_loop m p2 = pubkey_info_loop m p3" "on_line p3 9" "left_at m p3 2 (tlv 0x30 subject @ tlv 0x30 spki @ rest)"
    using p2(3) by (rule cert_to_subject [OF p2(2)])
  obtain p4 where p4: "pubkey_info_loop m p3 = pubkey_info_loop m p4" "on_line p4 10" "left_at m p4 2 (tlv 0x30 spki @ rest)"
    by (rule cert_step [OF p3(2) cert_fits(11) p3(3)]) simp_all
  obtain a r where "pubkey_info_loop m p4 = Some (view a (length (tlv 0x30 spki)))" "drop a m = tlv 0x30 spki @ rest @ r"
    "length (tlv 0x30 spki @ rest) < 2 ^ 32 - 1"
    by (rule cert_key [OF p4(2,3)])
  then show ?thesis using p0(1) p1(1) p2(1) p3(1) p4(1) by auto
qed

section \<open>The search ends\<close>

lemma iterate_content_line:
  "\<lbrakk>iterate_content m p ob b = Some (p', object); \<not> has ob ASN1_LOOP\<rbrakk> \<Longrightarrow>
    mLine p' = mLine p \<and> mpObjects p' = mpObjects p"
  by (auto simp: iterate_content_def Let_def bind_eq_Some_conv split: if_splits)

lemma iterate_body_line:
  assumes "iterate_body m p ob = Some (p', object)" "\<not> has ob ASN1_LOOP" "\<not> has ob ASN1_OPT"
  shows "mpObjects p' = mpObjects p \<and>
    (mLine p' = mLine p \<or> has ob ASN1_DEF \<and> type ob AND ASN1_PARSER_CONSTRUCTED \<noteq> 0 \<and> mLine p' = mLine p + 1)"
  using assms(1,3) unfolding iterate_body_def Let_def
  by (auto simp: bind_eq_Some_conv split: if_splits dest!: iterate_content_line [OF _ assms(2)])

lemma iterate_line:
  assumes "iterate m p = Some (p', objectID, object, True)" "obj_at (mpObjects p) (mLine p + 1) = Some ob"
    "\<not> has ob ASN1_END" "\<not> has ob ASN1_LOOP" "\<not> has ob ASN1_OPT"
  shows "mpObjects p' = mpObjects p \<and>
    (mLine p' = mLine p + 1 \<or> has ob ASN1_DEF \<and> type ob AND ASN1_PARSER_CONSTRUCTED \<noteq> 0 \<and> mLine p' = mLine p + 2)"
proof -
  have "\<exists>object'. iterate_body m (p\<lparr>mLine := mLine p + 1\<rparr>) ob = Some (p', object')"
    using assms(1-3) by (auto simp: iterate_def Let_def bind_eq_Some_conv split: if_splits)
  then show ?thesis using iterate_body_line [OF _ assms(4,5)] by fastforce
qed

lemma cert_first_lines:
  "\<forall>i \<in> set [0..<12]. let ob = certObjects ! i in \<not> has ob ASN1_END \<and> \<not> has ob ASN1_LOOP \<and> \<not> has ob ASN1_OPT \<and>
    (has ob ASN1_DEF \<and> type ob AND ASN1_PARSER_CONSTRUCTED \<noteq> 0 \<longrightarrow> i = 2)"
  by (simp add: certObjects_def has_def upt_rec)

lemma pubkey_info_total:
  "\<lbrakk>parser_ok q n p; mpObjects p = certObjects; mLine p < 11; q + n \<le> length m\<rbrakk> \<Longrightarrow>
    \<exists>object. pubkey_info_loop m p = Some object \<and> inside q n object"
proof (induction "nat (11 - mLine p)" arbitrary: p rule: less_induct)
  case less
  obtain p' objectID object ok where it: "iterate m p = Some (p', objectID, object, ok)" "inside q n object"
    "ok \<longrightarrow> parser_ok q n p' \<and> objectID = Some (mLine p')"
    using iterate_safe [OF less.prems(1,4)] by (elim exE conjE) (rule that)
  show ?case
  proof (cases "ok \<and> mLine p' \<noteq> 11")
    case False
    then have "pubkey_info_loop m p = Some object"
      using it by (subst pubkey_info_loop.simps) auto
    then show ?thesis using it(2) by blast
  next
    case True
    define i where "i = nat (mLine p + 1)"
    have i: "i < 12" "mLine p + 1 = int i" using less.prems(1,3) by (auto simp: parser_ok_def i_def)
    define ob where "ob = certObjects ! i"
    have at: "obj_at (mpObjects p) (mLine p + 1) = Some ob"
      using i less.prems(2) by (simp add: obj_at_def ob_def certObjects_def)
    have "i \<in> set [0..<12]" using i(1) by simp
    from bspec [OF cert_first_lines this, folded ob_def] have f: "\<not> has ob ASN1_END" "\<not> has ob ASN1_LOOP" "\<not> has ob ASN1_OPT"
      "has ob ASN1_DEF \<and> type ob AND ASN1_PARSER_CONSTRUCTED \<noteq> 0 \<longrightarrow> i = 2" by (simp_all add: Let_def ob_def)
    have "iterate m p = Some (p', objectID, object, True)" using it(1) True by simp
    from iterate_line [OF this at f(1-3)] f(4) i(2)
    have l: "mpObjects p' = certObjects" "mLine p < mLine p'" "mLine p' \<le> 11" using less.prems(2,3) by auto
    have "\<exists>object. pubkey_info_loop m p' = Some object \<and> inside q n object"
      using True l it(3) less.prems(3,4) by (intro less.hyps) auto
    moreover have "pubkey_info_loop m p = pubkey_info_loop m p'"
      using it True by (subst pubkey_info_loop.simps) auto
    ultimately show ?thesis by simp
  qed
qed

lemma parser_ok_init: "\<lbrakk>wf_table objs; 1 < length objs; inside q n blob\<rbrakk> \<Longrightarrow> parser_ok q n (asn1Parser objs blob)"
  by (auto simp: parser_ok_def asn1Parser_def dest!: set_update_subset_insert [THEN subsetD])

section \<open>Properties\<close>

lemma of_nat32_eq:
  assumes "i < 2 ^ 32" "j < 2 ^ 32"
  shows "(of_nat i :: u32) = of_nat j \<longleftrightarrow> i = j"
  using unat_of_nat32 [OF assms(1)] unat_of_nat32 [OF assms(2)] by metis

text \<open>The tests of \<^verbatim>\<open>isAsn1Encode\<close> behind the tag.\<close>

lemma isAsn1Encode_tests:
  assumes "t \<in> {0x30, 0x31, 0x04}" "length (tlv t c @ r) < 2 ^ 32 - 1"
  shows "isAsn1Encode (tlv t c @ r) (view 0 (length (tlv t c @ r))) =
    (if r = [] then Some True else if length r = 1 then do { x \<leftarrow> load (tlv t c @ r) (Some (hdr c)) (length c); Some (x = 10) }
     else Some False)"
proof -
  let ?m = "tlv t c @ r" and ?n = "length (tlv t c @ r)"
  let ?L = "of_nat (length c) :: u32" and ?N = "of_nat (length c + length r) :: u32"
  have al: "asn1Length ?m (view 0 ?n) = Some (view (hdr c) (?n - hdr c), ?L)"
    using asn1Length_tlv [of 0 ?m t c r ?n] assms(2) by simp
  have n: "?n - hdr c = length c + length r" "length c + length r < 2 ^ 32 - 1"
    using assms(2) length_tlv [of t c] by simp_all
  have nz: "(of_nat ?n :: u32) \<noteq> 0" using of_nat32_eq [of ?n 0] assms(2) by (simp add: tlv_def del: of_nat_add of_nat_Suc)
  have ld: "load ?m (Some 0) 0 = Some t" by (simp add: load_def tlv_def)
  have u: "unat ?L = length c" using n(2) by (simp add: unat_of_nat32)
  have inv: "?L \<noteq> ASN1_INVALID_LENGTH" using of_nat32_eq [of "length c" "2 ^ 32 - 1"] n(2) by simp
  have e0: "?L = ?N \<longleftrightarrow> r = []" using of_nat32_eq [of "length c" "length c + length r"] n(2) by simp
  have e1: "?L + 1 = ?N \<longleftrightarrow> length r = 1"
    using of_nat32_eq [of "Suc (length c)" "length c + length r"] n(2) by (auto simp: add.commute)
  have tag: "(ucast t \<noteq> (0x30 :: u32) \<and> ucast t \<noteq> (0x31 :: u32) \<and> ucast t \<noteq> (0x04 :: u32)) = False" using assms(1) by auto
  show ?thesis unfolding isAsn1Encode_def
    by (simp only: nz tag inv al ld n(1) e0 e1 u option.simps bind.bind_lunit prod.case chunk_v.simps if_False simp_thms)
qed

text \<open>\<^verbatim>\<open>asn1Length\<close> undoes the DER encoding of lengths, short form and long form of up to four octets: it
  gives the length and leaves the pointer at the contents.\<close>

theorem asn1Length_DER:
  assumes "drop a m = tlv t c @ r" "length (tlv t c) \<le> n" "n < 2 ^ 32 - 1"
  shows "asn1Length m (view a n) = Some (view (a + hdr c) (n - hdr c), of_nat (length c))"
  by (rule asn1Length_tlv [OF assms])

theorem asn1Length_DER_witness:
  "asn1Length ([9] @ tlv 0x04 (replicate 300 7)) (view 1 304) = Some (view (1 + hdr (replicate 300 7)) (304 - hdr (replicate 300 7)), of_nat (length (replicate 300 (7 :: u8))))"
  by (rule asn1Length_DER [where r = "[]" and t = 4]) (simp_all add: tlv_def der_len_def be_bytes.simps)

text \<open>\<^verbatim>\<open>isAsn1Encode\<close> accepts a DER object exactly when it fills the blob or is followed by one newline, if
  its tag is that of a sequence, a set or an octet string.\<close>

theorem isAsn1Encode_DER:
  assumes "t \<in> {0x30, 0x31, 0x04}" "length (tlv t c @ r) < 2 ^ 32 - 1"
  shows "isAsn1Encode (tlv t c @ r) (view 0 (length (tlv t c @ r))) = Some (r = [] \<or> r = [10])"
proof -
  consider "r = []" | x where "r = [x]" | "1 < length r" by (cases r; cases "tl r") auto
  then show ?thesis
  proof cases
    case 2
    then have "load (tlv t c @ r) (Some (hdr c)) (length c) = Some x" by (simp add: load_def nth_append length_tlv)
    then show ?thesis unfolding isAsn1Encode_tests [OF assms] using 2 by simp
  qed (use isAsn1Encode_tests [OF assms] in auto)
qed

theorem isAsn1Encode_DER_witness:
  "isAsn1Encode (tlv 0x30 [1, 2] @ [13, 10]) (view 0 (length (tlv 0x30 [1, 2] @ [13, 10]))) = Some ([13 :: u8, 10] = [] \<or> [13 :: u8, 10] = [10])"
  by (rule isAsn1Encode_DER) (simp_all add: tlv_def der_len_def)

text \<open>C17: A step of the parser on arbitrary bytes and with any well-formed table never leaves the blob, its
  arrays or the table; the object it returns lies in the blob, and if it reports success the
  pointers of all levels still do.\<close>

theorem iterate_stays_inside:
  assumes "parser_ok q n p" "q + n \<le> length m"
  shows "\<exists>p' objectID object ok. iterate m p = Some (p', objectID, object, ok) \<and> inside q n object \<and>
    (ok \<longrightarrow> parser_ok q n p' \<and> objectID = Some (mLine p'))"
  by (rule iterate_safe [OF assms])

theorem iterate_stays_inside_witness:
  "\<exists>p' objectID object ok. iterate [0x30, 0x84, 0xff, 0xff, 0xff, 0xff, 0] (asn1Parser certObjects (view 0 7)) = Some (p', objectID, object, ok) \<and>
    inside 0 7 object \<and> (ok \<longrightarrow> parser_ok 0 7 p' \<and> objectID = Some (mLine p'))"
  by (rule iterate_stays_inside [OF parser_ok_init [OF wf_certObjects]]) (simp_all add: certObjects_def inside_def)

text \<open>C18: The search for the public key ends on every certificate, well-formed or not, without an access outside
  it: \<^verbatim>\<open>calculatePublicKeyInfoHash\<close> always gives the digest of some part of the blob.\<close>

theorem fingerprint_total:
  assumes "inside q n blob" "q + n \<le> length m"
  shows "\<exists>object data. pubkey_info_loop m (asn1Parser certObjects blob) = Some object \<and> inside q n object \<and>
    calculatePublicKeyInfoHash evp_digest m blob = Some (evp_digest data) \<and> length data = unat (clen object)"
proof -
  have ok: "parser_ok q n (asn1Parser certObjects blob)"
    by (rule parser_ok_init [OF wf_certObjects _ assms(1)]) (simp add: certObjects_def)
  obtain object where o: "pubkey_info_loop m (asn1Parser certObjects blob) = Some object" "inside q n object"
    using pubkey_info_total [OF ok _ _ assms(2)] by (auto simp: asn1Parser_def)
  obtain data where "(if clen object = 0 then Some [] else do { a \<leftarrow> cptr object; buf_read m a (unat (clen object)) }) = Some data"
      "length data = unat (clen object)"
    using o(2) assms(2) that by (cases "clen object = 0") (force simp: inside_def)+
  then show ?thesis using o by (intro exI [of _ object] exI [of _ data]) (simp add: calculatePublicKeyInfoHash_def del: bind_eq_Some_conv split del: if_split)
qed

theorem fingerprint_total_witness:
  "\<exists>object data. pubkey_info_loop [0x30, 0x03, 0x30, 0x81] (asn1Parser certObjects (view 0 4)) = Some object \<and> inside 0 4 object \<and>
    calculatePublicKeyInfoHash id [0x30, 0x03, 0x30, 0x81] (view 0 4) = Some (id data) \<and> length data = unat (clen object)"
  by (rule fingerprint_total) (simp_all add: inside_def)

lemma fingerprint_spki:
  assumes "m = certificate (tbs_certificate version serial algorithm issuer not_before not_after subject spki rest) signature"
    "length m < 2 ^ 31"
  shows "calculatePublicKeyInfoHash evp_digest m (view 0 (length m)) = Some (evp_digest (tlv 0x30 spki))"
proof -
  let ?l = "length (tlv 0x30 spki)"
  obtain a r where a: "pubkey_info_loop m (asn1Parser certObjects (view 0 (length m))) = Some (view a ?l)"
    "drop a m = tlv 0x30 spki @ r" "?l < 2 ^ 32"
    using pubkey_info_found [OF assms] by (elim exE conjE) (rule that)
  have "a + ?l \<le> length m" using arg_cong [OF a(2), of length] by (simp add: tlv_def)
  then have "buf_read m a ?l = Some (tlv 0x30 spki)" using a(2) by simp
  moreover have "(of_nat ?l :: u32) \<noteq> 0" using of_nat32_eq [of ?l 0] a(3) by (simp add: tlv_def del: of_nat_Suc)
  ultimately show ?thesis
    using a(1) unat_of_nat32 [OF a(3)] by (simp add: calculatePublicKeyInfoHash_def)
qed

text \<open>C19: On a DER certificate, of any version, with any contents of its fields, the fingerprint is the digest of
  exactly the encoded subjectPublicKeyInfo, its tag and length included.\<close>

theorem fingerprint_of_certificate:
  assumes "m = certificate (tbs_certificate version serial algorithm issuer not_before not_after subject spki rest) signature"
    "length m < 2 ^ 31"
  shows "calculatePublicKeyInfoHash evp_digest m (view 0 (length m)) = Some (evp_digest (tlv 0x30 spki))"
  by (rule fingerprint_spki [OF assms])

theorem fingerprint_of_certificate_witness:
  "calculatePublicKeyInfoHash rev (certificate (tbs_certificate None [7] (0x30, [6, 0]) [] (0x17, [48]) (0x17, [49]) [] [1, 2] []) [])
     (view 0 (length (certificate (tbs_certificate None [7] (0x30, [6, 0]) [] (0x17, [48]) (0x17, [49]) [] [1, 2] []) []))) =
   Some (rev (tlv 0x30 [1, 2]))"
  by (rule fingerprint_of_certificate [OF refl]) (simp add: certificate_def tbs_certificate_def tlv_def der_len_def)

text \<open>A blob that does not start with a sequence has a fingerprint all the same, the digest of the empty string,
  since the loop does not tell a failed parse from a found key.\<close>

theorem fingerprint_of_garbage:
  assumes "inside q n blob" "q + n \<le> length m" "\<forall>a. cptr blob = Some a \<longrightarrow> m ! a \<noteq> 0x30"
  shows "calculatePublicKeyInfoHash evp_digest m blob = Some (evp_digest [])"
proof -
  let ?p = "asn1Parser certObjects blob"
  define ob where "ob = certObjects ! 0"
  have ob: "type ob = 0x30" "flags ob = ASN1_OBJ" "level ob = 0" "obj_at certObjects 0 = Some ob"
    by (simp_all add: ob_def certObjects_def obj_at_def)
  define P where "P = ?p\<lparr>mLine := 0\<rparr>"
  have P: "mBlobs P ! 0 = blob" "mImplicit P = False" "length (mBlobs P) = ASN1_MAX_LEVEL + 2" by (simp_all add: P_def asn1Parser_def)
  have "\<exists>p'. iterate_body m P ob = Some (p', none_c) \<and> mSuccess p' = False"
  proof (cases "clen blob < 2")
    case True
    then show ?thesis using P(1) ob by (simp add: iterate_body_def has_def)
  next
    case False
    then obtain k l where al: "asn1Length m blob = Some (advance blob k, l)"
      using asn1Length_inside [OF assms(1,2)] by (auto simp: not_less)
    have "clen blob \<noteq> 0" using False by auto
    then obtain a where a: "load m (cptr blob) 0 = Some (m ! a)" "cptr blob = Some a" using load_inside [OF assms(1,2)] by auto
    have "ucast (m ! a) \<noteq> (0x30 :: u32)"
      using assms(3) a(2) ucast_eq_u32 [of "m ! a" "0x30"] by simp
    then show ?thesis using P ob False al a(1)
      by (simp add: iterate_body_def iterate_content_def Let_def has_def)
  qed
  then obtain p' where "iterate m ?p = Some (p', Some (mLine p'), none_c, False)"
    using ob by (auto simp: iterate_def Let_def P_def asn1Parser_def has_def)
  then have "pubkey_info_loop m ?p = Some none_c" by (subst pubkey_info_loop.simps) simp
  then show ?thesis by (simp add: calculatePublicKeyInfoHash_def)
qed

theorem fingerprint_of_garbage_witness:
  "calculatePublicKeyInfoHash id (asc ''-----BEGIN'') (view 0 10) = Some (id [])"
  by (rule fingerprint_of_garbage [of 0 10]) (simp_all add: inside_def asc_def)

end
