(* ===== verification/MiniTimer.thy ===== *)
theory MiniTimer
  imports Status "HOL-Library.Signed_Division" "HOL-Library.Multiset"
begin

text \<open>
  \<^verbatim>\<open>platform/common/src/mxMiniTimer.cpp\<close>: one-shot timers in a list ordered by due time, and
  the pass over the list that the timer thread makes between two calls of \<^verbatim>\<open>select\<close>.

  The fields of \<^verbatim>\<open>struct timeval\<close> are 64-bit and hold readings of the monotonic clock; they
  are integers here. The width that matters is that of the result of \<^verbatim>\<open>getTimeDiff\<close>, which
  cuts a 64-bit difference in milliseconds down to 32 bits. The list holds pointers to blocks
  that nothing else refers to, so it is modelled as a list of blocks. The callback and the
  world it acts on are parameters. The mutex is held by every access to the list, so the
  operations are steps on the state; the callback runs with the mutex released and may
  itself call \<^verbatim>\<open>addTimer\<close>.
\<close>

section \<open>State (mxMiniTimer.h, mxTimer.h)\<close>

record timeval =
  tv_sec :: int
  tv_usec :: int

record timespec =
  ts_sec :: int
  ts_nsec :: int

record ('f, 'p) timerPara_t =
  interval :: u32
  arg_para :: 'p
  arg_Func :: 'f
  arg_file :: string
  arg_line :: s32
  arg_caller :: string

record ('f, 'p) miniTimerBlock_t =
  timerId :: u32
  due_time :: timeval
  Func :: 'f
  para :: 'p
  blk_file :: string
  blk_line :: s32
  blk_caller :: string

text \<open>\<open>mWaker\<close> counts the bytes that wait in the pipe between \<^verbatim>\<open>addTimer\<close> and the thread.\<close>

record ('f, 'p) mxMiniTimer =
  mStatus :: bool
  mThreadId :: nat
  mActiveTimerCount :: u32
  mTimerList :: "('f, 'p) miniTimerBlock_t list"
  mWaker :: nat

definition mxMiniTimer_init :: "('f, 'p) mxMiniTimer" where
  "mxMiniTimer_init =
     \<lparr>mStatus = False, mThreadId = 0, mActiveTimerCount = 0, mTimerList = [], mWaker = 0\<rparr>"

section \<open>Comparing two times\<close>

definition to_s32 :: "int \<Rightarrow> int" where
  "to_s32 x = signed_take_bit 31 x"

definition getTimeDiff :: "timeval \<Rightarrow> timeval \<Rightarrow> int" where
  "getTimeDiff t1 t2 =
     to_s32 ((tv_sec t1 - tv_sec t2) * 1000 + (tv_usec t1 - tv_usec t2) sdiv 1000)"

section \<open>Adding a timer\<close>

text \<open>The iterator of \<^verbatim>\<open>addToTimerList\<close> is the position it stands at.\<close>

fun find_later :: "('f, 'p) miniTimerBlock_t \<Rightarrow> ('f, 'p) miniTimerBlock_t list \<Rightarrow> nat" where
  "find_later b [] = 0"
| "find_later b (x # xs) =
     (if 0 < getTimeDiff (due_time x) (due_time b) then 0 else Suc (find_later b xs))"

text \<open>
  \<^verbatim>\<open>list::insert\<close> puts the block in front of the iterator, which stays with its element: it
  is one position further when it is compared with \<^verbatim>\<open>begin()\<close>.
\<close>

definition addToTimerList ::
  "('f, 'p) miniTimerBlock_t \<Rightarrow> ('f, 'p) miniTimerBlock_t list
    \<Rightarrow> ('f, 'p) miniTimerBlock_t list \<times> Status_e" where
  "addToTimerList b tms =
     (if tms = [] then ([b], STATUS_WAKE_UP)
      else let it = find_later b tms in
        if it = length tms then (tms @ [b], STATUS_SUCCESS)
        else let tms' = take it tms @ b # drop it tms; it' = Suc it in
          if it' = 0 then (tms', STATUS_WAKE_UP) else (tms', STATUS_SUCCESS))"

definition timer_due :: "timespec \<Rightarrow> u32 \<Rightarrow> timeval" where
  "timer_due ts ival =
     (let sec = ts_sec ts + int (unat (ival div 1000));
          usec = ts_nsec ts sdiv 1000 + int (unat (ival mod 1000 * 1000))
      in if 1000000 < usec then \<lparr>tv_sec = sec + 1, tv_usec = usec - 1000000\<rparr>
         else \<lparr>tv_sec = sec, tv_usec = usec\<rparr>)"

definition new_block :: "timespec \<Rightarrow> ('f, 'p) timerPara_t \<Rightarrow> u32 \<Rightarrow> ('f, 'p) miniTimerBlock_t" where
  "new_block ts param i =
     \<lparr>timerId = i, due_time = timer_due ts (interval param), Func = arg_Func param,
      para = arg_para param, blk_file = arg_file param, blk_line = arg_line param,
      blk_caller = arg_caller param\<rparr>"

definition sendWakeSignal :: "('f, 'p) mxMiniTimer \<Rightarrow> ('f, 'p) mxMiniTimer" where
  "sendWakeSignal st = st\<lparr>mWaker := Suc (mWaker st)\<rparr>"

text \<open>
  \<^verbatim>\<open>addTimer\<close>: \<open>alloc\<close> tells whether \<^verbatim>\<open>malloc\<close> gives a block. The only return value is that of
  the failure; on success the function ends without a \<^verbatim>\<open>return\<close>, which is \<open>None\<close>.
\<close>

definition addTimer ::
  "bool \<Rightarrow> timespec \<Rightarrow> ('f, 'p) timerPara_t \<Rightarrow> ('f, 'p) mxMiniTimer
    \<Rightarrow> ('f, 'p) mxMiniTimer \<times> Status_e option" where
  "addTimer alloc ts param st =
     (if \<not> alloc then (st, Some STATUS_ERR_MALLOC)
      else
        let n = mActiveTimerCount st + 1;
            (tms, ret) = addToTimerList (new_block ts param n) (mTimerList st);
            st' = st\<lparr>mActiveTimerCount := n, mTimerList := tms\<rparr>
        in (if ret = STATUS_WAKE_UP then sendWakeSignal st' else st', None))"

section \<open>Firing the timers that are due\<close>

text \<open>
  The time until the first timer, as \<^verbatim>\<open>select\<close> gets it.
\<close>

definition wait_time :: "timeval \<Rightarrow> timeval \<Rightarrow> timeval" where
  "wait_time now t =
     (let sec = tv_sec t - tv_sec now;
          (sec', usec) = (if tv_usec t < tv_usec now
                          then (sec - 1, 1000000 + tv_usec t - tv_usec now)
                          else (sec, tv_usec t - tv_usec now))
      in if sec' = 0 \<and> usec < 1000 then \<lparr>tv_sec = sec', tv_usec = 1000\<rparr>
         else \<lparr>tv_sec = sec', tv_usec = usec\<rparr>)"

text \<open>
  The loop of \<^verbatim>\<open>processTimeout\<close>. A callback can add timers for ever, so the loop is partial.
  The result is the state and the world afterwards, the time to wait and, in the order of the
  calls, the blocks that were fired.
\<close>

type_synonym ('f, 'p, 'w) callback =
  "'f \<Rightarrow> 'p \<Rightarrow> ('f, 'p) mxMiniTimer \<times> 'w \<Rightarrow> ('f, 'p) mxMiniTimer \<times> 'w"

partial_function (option) timeout_loop ::
  "('f, 'p, 'w) callback \<Rightarrow> timeval \<Rightarrow> ('f, 'p) mxMiniTimer \<times> 'w
    \<Rightarrow> ((('f, 'p) mxMiniTimer \<times> 'w) \<times> timeval \<times> ('f, 'p) miniTimerBlock_t list) option" where
  "timeout_loop call now sw =
     (case mTimerList (fst sw) of
        [] \<Rightarrow> Some (sw, \<lparr>tv_sec = 2, tv_usec = 0\<rparr>, [])
      | b # rest \<Rightarrow>
          if 0 \<le> getTimeDiff now (due_time b)
          then do {
            (sw', next, fired) \<leftarrow>
              timeout_loop call now (call (Func b) (para b) ((fst sw)\<lparr>mTimerList := rest\<rparr>, snd sw));
            Some (sw', next, b # fired) }
          else Some (sw, wait_time now (due_time b), []))"

definition clock_timeval :: "timespec \<Rightarrow> timeval" where
  "clock_timeval ts = \<lparr>tv_sec = ts_sec ts, tv_usec = ts_nsec ts sdiv 1000\<rparr>"

definition processTimeout ::
  "('f, 'p, 'w) callback \<Rightarrow> timespec \<Rightarrow> ('f, 'p) mxMiniTimer \<times> 'w
    \<Rightarrow> ((('f, 'p) mxMiniTimer \<times> 'w) \<times> timeval \<times> ('f, 'p) miniTimerBlock_t list) option" where
  "processTimeout call ts sw = timeout_loop call (clock_timeval ts) sw"

section \<open>The thread\<close>

text \<open>
  What \<^verbatim>\<open>select\<close> reports: an error, the end of the waiting time, or a byte in the pipe. One turn
  of the loop of \<^verbatim>\<open>runTimerTask\<close>; the bytes are read until the pipe is empty.
\<close>

datatype select_result = Select_error | Select_timeout | Select_ready

definition timer_turn ::
  "('f, 'p, 'w) callback \<Rightarrow> timespec \<Rightarrow> (timeval \<Rightarrow> ('f, 'p) mxMiniTimer \<times> 'w \<Rightarrow> select_result)
    \<Rightarrow> ('f, 'p) mxMiniTimer \<times> 'w \<Rightarrow> (('f, 'p) mxMiniTimer \<times> 'w) option" where
  "timer_turn call ts select sw =
     do {
       (sw', next, fired) \<leftarrow> processTimeout call ts sw;
       Some (case select next sw' of
               Select_error \<Rightarrow> sw'
             | Select_timeout \<Rightarrow> sw'
             | Select_ready \<Rightarrow> ((fst sw')\<lparr>mWaker := 0\<rparr>, snd sw')) }"

text \<open>\<^verbatim>\<open>startTimer\<close> and \<^verbatim>\<open>stopTimer\<close>: \<open>tid\<close> is the identifier that \<^verbatim>\<open>pthread_create\<close> stores.\<close>

definition startTimer :: "nat \<Rightarrow> ('f, 'p) mxMiniTimer \<Rightarrow> ('f, 'p) mxMiniTimer \<times> Status_e" where
  "startTimer tid st =
     (if mThreadId st \<noteq> 0 then (st, STATUS_FAILED)
      else (st\<lparr>mStatus := True, mThreadId := tid, mWaker := 0\<rparr>, STATUS_SUCCESS))"

definition stopTimer :: "('f, 'p) mxMiniTimer \<Rightarrow> ('f, 'p) mxMiniTimer" where
  "stopTimer st = st\<lparr>mStatus := False, mThreadId := 0\<rparr>"

end
