(* ===== verification/TimerOrder.thy ===== *)
theory TimerOrder
  imports MiniTimer
begin

text \<open>
  The order of the timer list. \<^verbatim>\<open>getTimeDiff\<close> divides the microseconds towards zero, so two times
  less than a millisecond apart count as equal and the list is ordered up to a
  millisecond: a block may stand behind another that is due less than 1000 microseconds
  later. The comparison is right only while the times compared are less than \<open>2 ^ 31\<close>
  milliseconds apart, which \<open>timer_window\<close> states with a base that moves with the clock.
\<close>

section \<open>Times in microseconds\<close>

definition micros :: "timeval \<Rightarrow> int" where
  "micros t = tv_sec t * 1000000 + tv_usec t"

definition window :: "int \<Rightarrow> timeval \<Rightarrow> bool" where
  "window base t \<longleftrightarrow> base \<le> tv_sec t \<and> tv_sec t \<le> base + 2147482 \<and> 0 \<le> tv_usec t \<and> tv_usec t \<le> 1000000"

lemma to_s32_id: "- (2 ^ 31) \<le> x \<Longrightarrow> x < 2 ^ 31 \<Longrightarrow> to_s32 x = x"
  by (simp add: to_s32_def signed_take_bit_int_eq_self)

lemma sdiv_1000: "x sdiv 1000 = (if 0 \<le> x then x div 1000 else - (- x div 1000))" for x :: int
  by (cases "x = 0") (auto simp: signed_divide_int_def sgn_if)

lemma to_s32_millis:
  assumes "b \<le> s1" "s1 \<le> b + 2147482" "b \<le> s2" "s2 \<le> b + 2147482" "-1000 \<le> q" "q \<le> (1000 :: int)"
  shows "to_s32 ((s1 - s2) * 1000 + q) = (s1 - s2) * 1000 + q"
  by (rule to_s32_id) (use assms in simp_all)

lemma getTimeDiff_window:
  assumes "window base t1" "window base t2"
  shows "getTimeDiff t1 t2 = (tv_sec t1 - tv_sec t2) * 1000 + (tv_usec t1 - tv_usec t2) sdiv 1000"
proof -
  have "-1000 \<le> (tv_usec t1 - tv_usec t2) sdiv 1000" "(tv_usec t1 - tv_usec t2) sdiv 1000 \<le> 1000"
    using assms unfolding window_def sdiv_1000 by (auto split: if_splits)
  then show ?thesis
    using assms unfolding getTimeDiff_def window_def by (elim conjE) (rule to_s32_millis)
qed

lemma diff_pos:
  assumes "window base t1" "window base t2" "0 < getTimeDiff t1 t2"
  shows "micros t2 < micros t1"
  using assms(3) unfolding getTimeDiff_window [OF assms(1,2)] micros_def sdiv_1000
  by (simp split: if_splits)

lemma diff_nonpos:
  assumes "window base t1" "window base t2" "\<not> 0 < getTimeDiff t1 t2"
  shows "micros t1 < micros t2 + 1000"
  using assms(3) unfolding getTimeDiff_window [OF assms(1,2)] micros_def sdiv_1000
  by (simp split: if_splits)

lemma diff_neg:
  assumes "window base t1" "window base t2" "\<not> 0 \<le> getTimeDiff t1 t2"
  shows "micros t1 < micros t2"
  using assms(3) unfolding getTimeDiff_window [OF assms(1,2)] micros_def sdiv_1000
  by (simp split: if_splits)

lemma diff_nonneg:
  assumes "window base t1" "window base t2" "0 \<le> getTimeDiff t1 t2"
  shows "micros t2 < micros t1 + 1000"
  using assms(3) unfolding getTimeDiff_window [OF assms(1,2)] micros_def sdiv_1000
  by (simp split: if_splits)

section \<open>The order of the list\<close>

definition due_before :: "('f, 'p) miniTimerBlock_t \<Rightarrow> ('f, 'p) miniTimerBlock_t \<Rightarrow> bool" where
  "due_before x y \<longleftrightarrow> micros (due_time x) < micros (due_time y) + 1000"

definition timers_ok :: "int \<Rightarrow> ('f, 'p) miniTimerBlock_t list \<Rightarrow> bool" where
  "timers_ok base tms \<longleftrightarrow> (\<forall>b \<in> set tms. window base (due_time b)) \<and> sorted_wrt due_before tms"

text \<open>What \<^verbatim>\<open>addToTimerList\<close> computes, as one recursion.\<close>

fun insert_timer :: "('f, 'p) miniTimerBlock_t \<Rightarrow> ('f, 'p) miniTimerBlock_t list \<Rightarrow> ('f, 'p) miniTimerBlock_t list" where
  "insert_timer b [] = [b]"
| "insert_timer b (x # xs) =
     (if 0 < getTimeDiff (due_time x) (due_time b) then b # x # xs else x # insert_timer b xs)"

lemma insert_at_find_later: "take (find_later b tms) tms @ b # drop (find_later b tms) tms = insert_timer b tms"
  by (induction tms) simp_all

lemma find_later_end: "find_later b tms = length tms \<Longrightarrow> tms @ [b] = insert_timer b tms"
  using insert_at_find_later [of b tms] by simp

lemma addToTimerList_eq:
  "addToTimerList b tms = (insert_timer b tms, if tms = [] then STATUS_WAKE_UP else STATUS_SUCCESS)"
  by (simp add: addToTimerList_def Let_def insert_at_find_later find_later_end)

lemma mset_insert_timer [simp]: "mset (insert_timer b tms) = add_mset b (mset tms)"
  by (induction tms) simp_all

lemma set_insert_timer [simp]: "set (insert_timer b tms) = insert b (set tms)"
  by (induction tms) auto

lemma timers_ok_insert:
  "timers_ok base tms \<Longrightarrow> window base (due_time b) \<Longrightarrow> timers_ok base (insert_timer b tms)"
proof (induction tms)
  case Nil
  then show ?case by (simp add: timers_ok_def)
next
  case (Cons x tms)
  have x: "window base (due_time x)" using Cons.prems by (simp add: timers_ok_def)
  show ?case
  proof (cases "0 < getTimeDiff (due_time x) (due_time b)")
    case True
    from diff_pos [OF x Cons.prems(2) this] show ?thesis
      using Cons.prems True by (fastforce simp: timers_ok_def due_before_def)
  next
    case False
    from diff_nonpos [OF x Cons.prems(2) this] show ?thesis
      using Cons False by (auto simp: timers_ok_def due_before_def)
  qed
qed

lemma timers_ok_tl: "timers_ok base (b # tms) \<Longrightarrow> timers_ok base tms"
  by (simp add: timers_ok_def)

end
