(* ===== verification/TimerProps.thy ===== *)
theory TimerProps
  imports TimerOrder
begin

text \<open>
  The theorems about the mini timer: the order of its list, what a pass of the thread fires
  and how long it then sleeps, the wake-up signal, and intervals of more than \<open>2 ^ 31\<close>
  milliseconds.
\<close>

section \<open>Adding\<close>

definition clock_ok :: "timespec \<Rightarrow> bool" where
  "clock_ok ts \<longleftrightarrow> 0 \<le> ts_nsec ts \<and> ts_nsec ts < 1000000000"

lemma clock_usec: "clock_ok ts \<Longrightarrow> 0 \<le> ts_nsec ts sdiv 1000 \<and> ts_nsec ts sdiv 1000 < 1000000"
  by (auto simp: clock_ok_def sdiv_1000)

lemma interval_split:
  "uint ((i :: u32) div 1000) = uint i div 1000"
  "uint ((i :: u32) mod 1000 * 1000) = uint i mod 1000 * 1000"
proof -
  show "uint (i div 1000) = uint i div 1000" by (simp add: uint_div)
  have "unat (i mod 1000) = unat i mod 1000" by (simp add: unat_mod)
  moreover have "unat i mod 1000 * 1000 < 2 ^ 32"
    using mod_less_divisor [of 1000 "unat i"] by simp
  ultimately have "unat (i mod 1000 * 1000) = unat i mod 1000 * 1000"
    by (simp add: unat_word_ariths)
  then have "int (unat (i mod 1000 * 1000)) = int (unat i) mod 1000 * 1000"
    by (simp only: of_nat_mult zmod_int of_nat_numeral)
  then show "uint (i mod 1000 * 1000) = uint i mod 1000 * 1000" by simp
qed

lemma interval_split_nat:
  "int (unat ((i :: u32) div 1000)) = uint i div 1000"
  "int (unat ((i :: u32) mod 1000 * 1000)) = uint i mod 1000 * 1000"
  using interval_split [of i] by simp_all

lemma micros_timer_due:
  "micros (timer_due ts i) = micros (clock_timeval ts) + 1000 * uint i"
proof -
  define q r where qr: "q = uint i div 1000" "r = uint i mod 1000"
  then have "uint i = 1000 * q + r" by simp
  moreover have "micros (timer_due ts i) = micros (clock_timeval ts) + 1000000 * q + 1000 * r"
    by (simp add: timer_due_def Let_def interval_split qr [symmetric] micros_def clock_timeval_def)
  ultimately show ?thesis by simp
qed

lemma window_timer_due:
  assumes "clock_ok ts" "base \<le> ts_sec ts" "ts_sec ts + uint i div 1000 < base + 2147482"
  shows "window base (timer_due ts i)"
proof -
  define q r where qr: "q = uint i div 1000" "r = uint i mod 1000"
  then have "0 \<le> q" "0 \<le> r" "r < 1000" by (simp_all add: pos_imp_zdiv_nonneg_iff)
  then show ?thesis
    using assms clock_usec [OF assms(1)]
    by (simp add: timer_due_def Let_def interval_split qr [symmetric] window_def)
qed

lemma window_clock:
  "clock_ok ts \<Longrightarrow> base \<le> ts_sec ts \<Longrightarrow> ts_sec ts \<le> base + 2147482 \<Longrightarrow> window base (clock_timeval ts)"
  using clock_usec [of ts] by (simp add: window_def clock_timeval_def)

lemma addTimer_eq:
  "addTimer True ts param st =
     (st\<lparr>mActiveTimerCount := mActiveTimerCount st + 1,
        mTimerList := insert_timer (new_block ts param (mActiveTimerCount st + 1)) (mTimerList st),
        mWaker := (if mTimerList st = [] then Suc (mWaker st) else mWaker st)\<rparr>, None)"
  by (simp add: addTimer_def addToTimerList_eq sendWakeSignal_def Let_def)

section \<open>One pass over the list\<close>

abbreviation due :: "timeval \<Rightarrow> ('f, 'p) miniTimerBlock_t \<Rightarrow> bool" where
  "due now b \<equiv> 0 \<le> getTimeDiff now (due_time b)"

text \<open>What the callbacks may do to the list: add timers that are not due yet.\<close>

definition adds_pending ::
  "int \<Rightarrow> timeval \<Rightarrow> ('f, 'p) miniTimerBlock_t list \<Rightarrow> ('f, 'p) miniTimerBlock_t list
    \<Rightarrow> ('f, 'p) miniTimerBlock_t list \<Rightarrow> bool" where
  "adds_pending base now tms bs tms' \<longleftrightarrow>
     (\<forall>b \<in> set bs. window base (due_time b) \<and> \<not> due now b) \<and> tms' = fold insert_timer bs tms"

definition callback_ok :: "int \<Rightarrow> timeval \<Rightarrow> ('f, 'p, 'w) callback \<Rightarrow> bool" where
  "callback_ok base now call \<longleftrightarrow>
     (\<forall>f p st w. \<exists>bs. adds_pending base now (mTimerList st) bs (mTimerList (fst (call f p (st, w)))))"

lemma fold_insert_timer:
  "timers_ok base tms \<Longrightarrow> \<forall>b \<in> set bs. window base (due_time b) \<Longrightarrow>
     timers_ok base (fold insert_timer bs tms) \<and> mset (fold insert_timer bs tms) = mset tms + mset bs"
  by (induction bs arbitrary: tms) (simp_all add: timers_ok_insert)

lemma wait_time_micros:
  assumes "window base now" "window base t" "\<not> 0 \<le> getTimeDiff now t"
  shows "micros (wait_time now t) = max 1000 (micros t - micros now) \<and> 0 \<le> tv_sec (wait_time now t)
    \<and> 0 \<le> tv_usec (wait_time now t) \<and> tv_usec (wait_time now t) \<le> 1000000"
proof -
  have less: "micros now < micros t" by (rule diff_neg [OF assms])
  then have "tv_sec now \<le> tv_sec t" using assms(1,2) by (simp add: window_def micros_def)
  then consider "tv_sec t = tv_sec now" | "tv_sec t = tv_sec now + 1" | "tv_sec now + 2 \<le> tv_sec t"
    by linarith
  then show ?thesis
    using assms(1,2) less by cases (simp_all add: window_def wait_time_def Let_def micros_def max_def)
qed

definition not_overdue :: "timeval \<Rightarrow> ('f, 'p) miniTimerBlock_t list \<Rightarrow> bool" where
  "not_overdue now tms \<longleftrightarrow> (\<forall>b \<in> set tms. micros now < micros (due_time b) + 1000)"

definition wait_ok :: "timeval \<Rightarrow> ('f, 'p) miniTimerBlock_t list \<Rightarrow> timeval \<Rightarrow> bool" where
  "wait_ok now tms nxt \<longleftrightarrow>
     (case tms of [] \<Rightarrow> nxt = \<lparr>tv_sec = 2, tv_usec = 0\<rparr>
      | b # _ \<Rightarrow> micros nxt = max 1000 (micros (due_time b) - micros now) \<and> 0 \<le> tv_sec nxt
          \<and> 0 \<le> tv_usec nxt \<and> tv_usec nxt \<le> 1000000)"

lemma pass_ends:
  assumes "timers_ok base (b # rest)" "window base now" "\<not> due now b"
  shows "not_overdue now (b # rest) \<and> wait_ok now (b # rest) (wait_time now (due_time b))"
proof -
  have b: "window base (due_time b)" and s: "\<forall>x \<in> set rest. due_before b x"
    using assms(1) by (simp_all add: timers_ok_def)
  show ?thesis
    using s diff_neg [OF assms(2) b assms(3)] wait_time_micros [OF assms(2) b assms(3)]
    by (auto simp: not_overdue_def wait_ok_def due_before_def)
qed

lemma timeout_loop_total:
  assumes now: "window base now" and call: "callback_ok base now call"
  shows "timers_ok base (mTimerList (fst sw)) \<Longrightarrow>
    \<exists>sw' nxt fired added. timeout_loop call now sw = Some (sw', nxt, fired) \<and>
      mset (mTimerList (fst sw')) + mset fired = mset (mTimerList (fst sw)) + mset added \<and>
      (\<forall>b \<in> set added. \<not> due now b) \<and> (\<forall>b \<in> set fired. due now b) \<and>
      timers_ok base (mTimerList (fst sw')) \<and> not_overdue now (mTimerList (fst sw')) \<and>
      wait_ok now (mTimerList (fst sw')) nxt"
proof (induction "length (filter (due now) (mTimerList (fst sw)))" arbitrary: sw rule: less_induct)
  case less
  show ?case
  proof (cases "mTimerList (fst sw)")
    case Nil
    then show ?thesis by (subst timeout_loop.simps) (auto simp: timers_ok_def not_overdue_def wait_ok_def)
  next
    case (Cons b rest)
    show ?thesis
    proof (cases "due now b")
      case False
      then show ?thesis
        using less.prems pass_ends [OF _ now False, of rest] unfolding Cons
        by (subst timeout_loop.simps) (auto simp: Cons)
    next
      case True
      obtain st w where sw: "sw = (st, w)" by (cases sw)
      define sw1 where "sw1 = call (Func b) (para b) (st\<lparr>mTimerList := rest\<rparr>, w)"
      have ok: "timers_ok base rest" using less.prems Cons by (simp add: timers_ok_def)
      obtain bs where bs: "\<forall>x \<in> set bs. window base (due_time x) \<and> \<not> due now x"
        "mTimerList (fst sw1) = fold insert_timer bs rest"
        using call [unfolded callback_ok_def adds_pending_def, rule_format, where st = "st\<lparr>mTimerList := rest\<rparr>" and f = "Func b" and p = "para b" and w = w]
        by (auto simp: sw1_def)
      have m1: "timers_ok base (mTimerList (fst sw1))" "mset (mTimerList (fst sw1)) = mset rest + mset bs"
        using fold_insert_timer [OF ok, of bs] bs by simp_all
      have "mset (filter (due now) (mTimerList (fst sw1))) = mset (filter (due now) rest)"
        using bs(1) m1(2) by (simp add: mset_filter)
      then have "length (filter (due now) (mTimerList (fst sw1))) < length (filter (due now) (mTimerList (fst sw)))"
        using True unfolding Cons by (metis filter.simps(2) length_Cons lessI size_mset)
      from less.hyps [OF this m1(1)] obtain sw' nxt fired added where
        r: "timeout_loop call now sw1 = Some (sw', nxt, fired)"
        "mset (mTimerList (fst sw')) + mset fired = mset rest + mset bs + mset added"
        "\<forall>b \<in> set added. \<not> due now b" "\<forall>b \<in> set fired. due now b"
        "timers_ok base (mTimerList (fst sw'))" "not_overdue now (mTimerList (fst sw'))"
        "wait_ok now (mTimerList (fst sw')) nxt"
        unfolding m1(2) by blast
      have "timeout_loop call now sw = Some (sw', nxt, b # fired)"
        using True Cons r(1) by (subst timeout_loop.simps) (simp add: sw sw1_def)
      moreover have "mset (mTimerList (fst sw')) + mset (b # fired) = mset (mTimerList (fst sw)) + mset (bs @ added)"
        using r(2) Cons by simp
      moreover have "\<forall>b \<in> set (bs @ added). \<not> due now b" using bs(1) r(3) by auto
      moreover have "\<forall>x \<in> set (b # fired). due now x" using True r(4) by simp
      ultimately show ?thesis using r(5-7) by blast
    qed
  qed
qed

text \<open>After a pass everything left is due at most a millisecond before the clock: the window moves on.\<close>

lemma window_moves:
  assumes "timers_ok base tms" "window base now" "not_overdue now tms"
  shows "timers_ok (max base (tv_sec now - 1)) tms"
proof -
  have "tv_sec now - 1 \<le> tv_sec (due_time b)" if "b \<in> set tms" for b
    using assms that by (fastforce simp: timers_ok_def not_overdue_def window_def micros_def)
  then show ?thesis using assms(1,2) by (auto simp: timers_ok_def window_def)
qed

text \<open>A callback that does nothing but start a timer of at least a millisecond is such a callback.\<close>

lemma addTimer_callback_ok:
  assumes "window base now"
    "\<And>f p. clock_ok (tick f p) \<and> micros now \<le> micros (clock_timeval (tick f p)) \<and> base \<le> ts_sec (tick f p)
      \<and> ts_sec (tick f p) + uint (interval (again f p)) div 1000 < base + 2147482 \<and> 1 \<le> uint (interval (again f p))"
  shows "callback_ok base now (\<lambda>f p (st, w). (fst (addTimer True (tick f p) (again f p) st), w))"
proof -
  have "adds_pending base now (mTimerList st) [new_block (tick f p) (again f p) (mActiveTimerCount st + 1)]
      (mTimerList (fst (addTimer True (tick f p) (again f p) st)))" for f p st
  proof -
    define t where "t = timer_due (tick f p) (interval (again f p))"
    have w: "window base t" unfolding t_def using assms(2) by (intro window_timer_due) blast+
    have "micros now + 1000 \<le> micros t" using assms(2) [of f p] by (simp add: t_def micros_timer_due)
    then have "\<not> 0 \<le> getTimeDiff now t" using diff_nonneg [OF assms(1) w] by fastforce
    with w show ?thesis by (simp add: adds_pending_def addTimer_eq new_block_def t_def)
  qed
  then show ?thesis by (auto simp: callback_ok_def)
qed

section \<open>The theorems\<close>

text \<open>
  C20: adding a timer keeps the list in order. The list then holds the old blocks and the new
  one, which is due exactly \<^verbatim>\<open>interval\<close> milliseconds after the clock reading, and for every
  two blocks the one in front is due less than a millisecond after the other. The condition
  is that all times lie in a window of 2147482 seconds.
\<close>

theorem addTimer_keeps_order:
  assumes "timers_ok base (mTimerList st)" "clock_ok ts" "base \<le> ts_sec ts"
    "ts_sec ts + uint (interval param) div 1000 < base + 2147482"
  shows "let (st', ret) = addTimer True ts param st; b = new_block ts param (mActiveTimerCount st + 1)
    in timers_ok base (mTimerList st') \<and> mset (mTimerList st') = add_mset b (mset (mTimerList st)) \<and>
       micros (due_time b) = micros (clock_timeval ts) + 1000 * uint (interval param)"
  using timers_ok_insert [OF assms(1), of "new_block ts param (mActiveTimerCount st + 1)"] window_timer_due [OF assms(2-4)]
  by (simp add: addTimer_eq new_block_def micros_timer_due)

text \<open>
  C21: one pass of the timer thread. If the callbacks add only timers that are not due yet,
  \<^verbatim>\<open>processTimeout\<close> returns. What it fired and what is left are together what was there and what
  the callbacks added; it fired nothing that is due a millisecond or more after the clock and
  nothing that a callback added; it left nothing that is overdue by a millisecond, so every
  such timer was fired; and what is left is in order in a window that has moved with the
  clock. The time to sleep is two seconds for an empty list, and otherwise the time until the
  first timer, but at least a millisecond.
\<close>

theorem processTimeout_fires:
  assumes "timers_ok base (mTimerList st)" "clock_ok ts" "base \<le> ts_sec ts" "ts_sec ts \<le> base + 2147482"
    "callback_ok base (clock_timeval ts) call"
  shows "\<exists>st' w' nxt fired added. processTimeout call ts (st, w) = Some ((st', w'), nxt, fired) \<and>
    mset (mTimerList st') + mset fired = mset (mTimerList st) + mset added \<and>
    (\<forall>b \<in> set fired. micros (due_time b) < micros (clock_timeval ts) + 1000) \<and>
    (\<forall>b \<in> set added. b \<notin> set fired) \<and>
    (\<forall>b \<in> set (mTimerList st'). micros (clock_timeval ts) < micros (due_time b) + 1000) \<and>
    (\<forall>b \<in> set (mTimerList st). micros (due_time b) + 1000 \<le> micros (clock_timeval ts) \<longrightarrow> b \<in> set fired) \<and>
    timers_ok (max base (ts_sec ts - 1)) (mTimerList st') \<and> wait_ok (clock_timeval ts) (mTimerList st') nxt"
proof -
  define now where "now = clock_timeval ts"
  have now: "window base now" unfolding now_def by (rule window_clock [OF assms(2-4)])
  have sec: "tv_sec now = ts_sec ts" by (simp add: now_def clock_timeval_def)
  obtain st' w' nxt fired added where r: "timeout_loop call now (st, w) = Some ((st', w'), nxt, fired)"
    "mset (mTimerList st') + mset fired = mset (mTimerList st) + mset added"
    "\<forall>b \<in> set added. \<not> due now b" "\<forall>b \<in> set fired. due now b"
    "timers_ok base (mTimerList st')" "not_overdue now (mTimerList st')" "wait_ok now (mTimerList st') nxt"
    using timeout_loop_total [OF now assms(5) [folded now_def], of "(st, w)"] assms(1) by auto
  have sets: "set (mTimerList st') \<union> set fired = set (mTimerList st) \<union> set added"
    using arg_cong [OF r(2), of set_mset] by simp
  have "window base (due_time b)" if "b \<in> set fired" for b
    using that sets r(3,4) assms(1) by (auto simp: timers_ok_def)
  then have "\<forall>b \<in> set fired. micros (due_time b) < micros now + 1000"
    using r(4) diff_nonneg [OF now] by blast
  moreover have "\<forall>b \<in> set (mTimerList st). micros (due_time b) + 1000 \<le> micros now \<longrightarrow> b \<in> set fired"
  proof (intro ballI impI)
    fix b assume b: "b \<in> set (mTimerList st)" "micros (due_time b) + 1000 \<le> micros now"
    then have "b \<notin> set (mTimerList st')" using r(6) by (auto simp: not_overdue_def)
    then show "b \<in> set fired" using sets b(1) by blast
  qed
  moreover have "timers_ok (max base (ts_sec ts - 1)) (mTimerList st')"
    using window_moves [OF r(5) now r(6)] by (simp add: sec)
  ultimately show ?thesis
    using r(1-4,6,7) unfolding processTimeout_def now_def [symmetric] not_overdue_def by blast
qed

definition select_returns :: "('f, 'p) mxMiniTimer \<Rightarrow> timeval \<Rightarrow> timeval \<Rightarrow> timeval \<Rightarrow> bool" where
  "select_returns st now nxt t \<longleftrightarrow> 0 < mWaker st \<or> micros now + micros nxt \<le> micros t"

text \<open>
  C22: the wake-up signal is sent for the first timer only. When the thread sleeps with a timer
  in its list, a timer added meanwhile never wakes it, however early it is due: \<^verbatim>\<open>select\<close>
  returns at a time \<open>t\<close> only with a byte in the pipe or after the time it was given, so the
  new timer waits until the timer that was first before the sleep is due.
\<close>

theorem wake_up_is_lost:
  assumes "timers_ok base (b # rest)" "mTimerList st = b # rest" "mWaker st = 0"
    "clock_ok ts" "base \<le> ts_sec ts" "ts_sec ts \<le> base + 2147482"
    "processTimeout call ts (st, w) = Some ((st, w), nxt, [])"
    "select_returns (fst (addTimer True ts' param st)) (clock_timeval ts) nxt t"
  shows "micros (due_time b) \<le> micros t \<and>
    new_block ts' param (mActiveTimerCount st + 1) \<in> set (mTimerList (fst (addTimer True ts' param st)))"
proof -
  define now where "now = clock_timeval ts"
  have now: "window base now" unfolding now_def by (rule window_clock [OF assms(4-6)])
  have nd: "\<not> due now b \<and> nxt = wait_time now (due_time b)"
    using assms(7) unfolding processTimeout_def now_def [symmetric]
    by (subst (asm) timeout_loop.simps) (auto simp: assms(2) split: if_splits Option.bind_splits)
  have "micros (due_time b) \<le> micros now + micros nxt"
    using pass_ends [OF assms(1) now] nd by (auto simp: wait_ok_def)
  then show ?thesis
    using assms(8) by (simp add: select_returns_def addTimer_eq assms(2,3) now_def)
qed

lemma getTimeDiff_due:
  "getTimeDiff (clock_timeval ts) (timer_due ts i) = to_s32 (- uint i)"
proof -
  define q r where qr: "q = uint i div 1000" "r = uint i mod 1000"
  then have i: "uint i = 1000 * q + r" and r: "0 \<le> r" "r < 1000" by simp_all
  have d: "(- (r * 1000)) sdiv 1000 = - r" "(1000000 - r * 1000) sdiv 1000 = 1000 - r"
    using r unfolding sdiv_1000 by (auto simp: algebra_simps)
  then show ?thesis
    unfolding getTimeDiff_def clock_timeval_def timer_due_def Let_def interval_split_nat qr [symmetric]
    by (simp add: i d) (simp add: algebra_simps)
qed

lemma to_s32_wrap:
  assumes "2 ^ 31 < x" "x < 2 ^ 32"
  shows "to_s32 (- x) = 2 ^ 32 - x"
proof -
  have "(2147483648 - x) mod 4294967296 = (6442450944 - x) mod 4294967296"
    using mod_add_self2 [of "2147483648 - x" 4294967296] by simp
  also have "\<dots> = 6442450944 - x" by (rule mod_pos_pos_trivial) (use assms in simp_all)
  finally show ?thesis
    unfolding to_s32_def signed_take_bit_eq_take_bit_shift take_bit_eq_mod by simp
qed

text \<open>
  An interval of more than \<open>2 ^ 31\<close> milliseconds (25 days) does not fit the 32-bit
  difference: the timer is fired by the first pass, at the very time it was added.
\<close>

theorem long_interval_fires_at_once:
  assumes "2 ^ 31 < uint (interval param)" "mTimerList st = []"
    "\<And>f p sw. mTimerList (fst (call f p sw)) = mTimerList (fst sw)"
  shows "\<exists>sw' nxt. processTimeout call ts (fst (addTimer True ts param st), w) =
    Some (sw', nxt, [new_block ts param (mActiveTimerCount st + 1)]) \<and> mTimerList (fst sw') = []"
proof -
  define b where "b = new_block ts param (mActiveTimerCount st + 1)"
  have "to_s32 (- uint (interval param)) = 2 ^ 32 - uint (interval param)"
    using assms(1) uint_lt2p [of "interval param"] by (intro to_s32_wrap) simp_all
  then have "due (clock_timeval ts) b"
    using uint_lt2p [of "interval param"] by (simp add: b_def new_block_def getTimeDiff_due)
  moreover have "mTimerList (fst (addTimer True ts param st)) = [b]"
    by (simp add: addTimer_eq assms(2) b_def)
  ultimately show ?thesis
    unfolding processTimeout_def b_def [symmetric]
    by (subst timeout_loop.simps, subst timeout_loop.simps) (simp add: assms(3))
qed

section \<open>Witnesses\<close>

definition ex_ts :: timespec where "ex_ts = \<lparr>ts_sec = 100, ts_nsec = 999500000\<rparr>"

definition ex_para :: "u32 \<Rightarrow> nat \<Rightarrow> (nat, unit) timerPara_t" where
  "ex_para i f = \<lparr>interval = i, arg_para = (), arg_Func = f, arg_file = ''test'', arg_line = 1, arg_caller = ''main''\<rparr>"

definition ex_timer :: "(nat, unit) mxMiniTimer" where
  "ex_timer = fst (addTimer True ex_ts (ex_para 5000 7) mxMiniTimer_init)"

lemma ex_timer_list: "mTimerList ex_timer = [new_block ex_ts (ex_para 5000 7) 1]"
  by (simp add: ex_timer_def addTimer_eq mxMiniTimer_init_def)

lemma ex_due: "due_time (new_block ex_ts (ex_para 5000 7) n) = \<lparr>tv_sec = 105, tv_usec = 999500\<rparr>"
  by (simp add: new_block_def ex_para_def ex_ts_def timer_due_def sdiv_1000)

lemma ex_clock: "clock_timeval ex_ts = \<lparr>tv_sec = 100, tv_usec = 999500\<rparr>"
  by (simp add: clock_timeval_def ex_ts_def sdiv_1000)

lemma ex_timer_ok: "timers_ok 0 (mTimerList ex_timer)"
  by (simp add: ex_timer_list timers_ok_def ex_due window_def)

lemma addTimer_keeps_order_witness:
  "let (st', ret) = addTimer True ex_ts (ex_para 20 8) ex_timer; b = new_block ex_ts (ex_para 20 8) (mActiveTimerCount ex_timer + 1)
   in timers_ok 0 (mTimerList st') \<and> mset (mTimerList st') = add_mset b (mset (mTimerList ex_timer)) \<and>
      micros (due_time b) = micros (clock_timeval ex_ts) + 1000 * uint (interval (ex_para 20 8))"
  by (rule addTimer_keeps_order [OF ex_timer_ok]) (simp_all add: ex_ts_def ex_para_def clock_ok_def)

text \<open>The callback starts its timer again, five seconds later.\<close>

definition ex_ts2 :: timespec where "ex_ts2 = \<lparr>ts_sec = 106, ts_nsec = 0\<rparr>"

definition ex_call :: "(nat, unit, unit) callback" where
  "ex_call = (\<lambda>f p (st, w). (fst (addTimer True ex_ts2 (ex_para 5000 f) st), w))"

lemma ex_call_ok: "callback_ok 0 (clock_timeval ex_ts2) ex_call"
  unfolding ex_call_def
  by (rule addTimer_callback_ok) (simp_all add: ex_ts2_def ex_para_def clock_ok_def clock_timeval_def window_def sdiv_1000)

lemma processTimeout_fires_witness:
  "\<exists>st' w' nxt fired added. processTimeout ex_call ex_ts2 (ex_timer, ()) = Some ((st', w'), nxt, fired) \<and>
    mset (mTimerList st') + mset fired = mset (mTimerList ex_timer) + mset added \<and>
    (\<forall>b \<in> set fired. micros (due_time b) < micros (clock_timeval ex_ts2) + 1000) \<and>
    (\<forall>b \<in> set added. b \<notin> set fired) \<and>
    (\<forall>b \<in> set (mTimerList st'). micros (clock_timeval ex_ts2) < micros (due_time b) + 1000) \<and>
    (\<forall>b \<in> set (mTimerList ex_timer). micros (due_time b) + 1000 \<le> micros (clock_timeval ex_ts2) \<longrightarrow> b \<in> set fired) \<and>
    timers_ok (max 0 (ts_sec ex_ts2 - 1)) (mTimerList st') \<and> wait_ok (clock_timeval ex_ts2) (mTimerList st') nxt"
  by (rule processTimeout_fires [OF ex_timer_ok _ _ _ ex_call_ok]) (simp_all add: ex_ts2_def clock_ok_def)

text \<open>The thread sleeps for the timer of five seconds; one of 20 milliseconds waits as long.\<close>

definition ex_sleeping :: "(nat, unit) mxMiniTimer" where
  "ex_sleeping = ex_timer\<lparr>mWaker := 0\<rparr>"

lemma ex_sleep:
  "processTimeout ex_call ex_ts (ex_sleeping, ()) = Some ((ex_sleeping, ()), \<lparr>tv_sec = 5, tv_usec = 0\<rparr>, [])"
  unfolding processTimeout_def
  by (subst timeout_loop.simps)
     (simp add: ex_sleeping_def ex_timer_list ex_due getTimeDiff_def to_s32_id ex_clock sdiv_1000 wait_time_def)

lemma wake_up_is_lost_witness:
  "micros \<lparr>tv_sec = 105, tv_usec = 999500\<rparr> \<le> micros \<lparr>tv_sec = 105, tv_usec = 999500\<rparr> \<and>
   micros (due_time (new_block ex_ts (ex_para 20 8) (mActiveTimerCount ex_sleeping + 1))) < micros \<lparr>tv_sec = 101, tv_usec = 20000\<rparr> \<and>
   new_block ex_ts (ex_para 20 8) (mActiveTimerCount ex_sleeping + 1)
     \<in> set (mTimerList (fst (addTimer True ex_ts (ex_para 20 8) ex_sleeping)))"
proof -
  have l: "mTimerList ex_sleeping = [new_block ex_ts (ex_para 5000 7) 1]" "mWaker ex_sleeping = 0"
    by (simp_all add: ex_sleeping_def ex_timer_list)
  have "select_returns (fst (addTimer True ex_ts (ex_para 20 8) ex_sleeping)) (clock_timeval ex_ts)
      \<lparr>tv_sec = 5, tv_usec = 0\<rparr> \<lparr>tv_sec = 105, tv_usec = 999500\<rparr>"
    by (simp add: select_returns_def micros_def ex_clock)
  moreover have "micros (due_time (new_block ex_ts (ex_para 20 8) n)) < micros \<lparr>tv_sec = 101, tv_usec = 20000\<rparr>" for n
    by (simp add: new_block_def micros_timer_due ex_para_def ex_clock) (simp add: micros_def)
  moreover have "timers_ok 0 [new_block ex_ts (ex_para 5000 7) 1]" using ex_timer_ok by (simp only: ex_timer_list)
  moreover have "clock_ok ex_ts" "0 \<le> ts_sec ex_ts" "ts_sec ex_ts \<le> 0 + 2147482" by (simp_all add: clock_ok_def ex_ts_def)
  ultimately show ?thesis
    using wake_up_is_lost [OF _ l(1,2) _ _ _ ex_sleep, of 0 ex_ts "ex_para 20 8"] by blast
qed

lemma long_interval_fires_at_once_witness:
  "\<exists>sw' nxt. processTimeout (\<lambda>f p sw. sw) ex_ts (fst (addTimer True ex_ts (ex_para (2 ^ 31 + 1) 9) mxMiniTimer_init), ()) =
    Some (sw', nxt, [new_block ex_ts (ex_para (2 ^ 31 + 1) 9) (mActiveTimerCount (mxMiniTimer_init :: (nat, unit) mxMiniTimer) + 1)]) \<and>
    mTimerList (fst sw') = []"
  by (rule long_interval_fires_at_once) (simp_all add: ex_para_def mxMiniTimer_init_def)

end
