(* ===== verification/SomeIp.thy ===== *)
theory SomeIp
  imports Status
begin

text \<open>
  The SOME/IP service manager: \<^verbatim>\<open>serviceDatabase.cpp\<close> and \<^verbatim>\<open>someip.cpp\<close> of
  \<^verbatim>\<open>app/someip/someip\<close> with the data of \<^verbatim>\<open>app/someip/common\<close>.

  The database is the list of its entries; the entries and the items hung on them are heap
  copies that only the database refers to, so they are values. Handlers and their arguments
  are opaque (\<open>'h\<close>, \<open>'a\<close>). The lists inside an entry are \<^verbatim>\<open>std::list\<close> objects: \<open>None\<close> is
  storage in which no list was constructed, and any use of it is undefined, which is the
  outer \<open>None\<close> of an operation.
\<close>

section \<open>Data (service_interface.h, someip_interface.h)\<close>

record service_key_t =
  service_id :: u16
  instance_id :: u16

record esomeip_endpoint_t =
  v4_addr :: u32
  v4_port :: u16

record someip_service_cfg_t =
  role :: u32
  s_key :: service_key_t
  tcp :: esomeip_endpoint_t
  udp :: esomeip_endpoint_t
  mul_udp :: esomeip_endpoint_t

record ('a, 'h) someip_method_t =
  method_id :: u16
  method_args :: 'a
  method_on_message :: 'h

record ('a, 'h) someip_event_t =
  event_id :: u16
  event_args :: 'a
  event_on_message :: 'h

record 'h someip_field_t =
  field_id :: u16
  get_func :: 'h
  set_func :: 'h

record ('a, 'h) someip_service_entry_t =
  cfg :: someip_service_cfg_t
  mMethodList :: "('a, 'h) someip_method_t list option"
  mEventList :: "('a, 'h) someip_event_t list option"
  mFieldList :: "'h someip_field_t list option"
  is_available :: u32
  on_available_handler :: "'h option"
  entry_args :: "'a option"

type_synonym ('a, 'h) serviceDatabase = "('a, 'h) someip_service_entry_t list"

section \<open>The database (serviceDatabase.cpp)\<close>

text \<open>\<^verbatim>\<open>addEntry\<close> makes an entry of zero bytes and copies the configuration into it.\<close>

definition new_entry :: "someip_service_cfg_t \<Rightarrow> ('a, 'h) someip_service_entry_t" where
  "new_entry service =
     \<lparr>cfg = service, mMethodList = None, mEventList = None, mFieldList = None,
      is_available = 0, on_available_handler = None, entry_args = None\<rparr>"

definition same_key :: "u16 \<Rightarrow> u16 \<Rightarrow> ('a, 'h) someip_service_entry_t \<Rightarrow> bool" where
  "same_key sid iid e \<longleftrightarrow> sid = service_id (s_key (cfg e)) \<and> iid = instance_id (s_key (cfg e))"

text \<open>The loop over the entries, which all four operations start with: the position it stops at.\<close>

fun find_service :: "u16 \<Rightarrow> u16 \<Rightarrow> ('a, 'h) serviceDatabase \<Rightarrow> nat option" where
  "find_service sid iid [] = None"
| "find_service sid iid (e # es) =
     (if same_key sid iid e then Some 0 else map_option Suc (find_service sid iid es))"

definition addEntry ::
  "bool \<Rightarrow> someip_service_cfg_t \<Rightarrow> ('a, 'h) serviceDatabase \<Rightarrow> ('a, 'h) serviceDatabase \<times> Status_e" where
  "addEntry alloc service db =
     (if find_service (service_id (s_key service)) (instance_id (s_key service)) db \<noteq> None
      then (db, STATUS_EXIST)
      else if \<not> alloc then (db, STATUS_ERR_MALLOC)
      else (db @ [new_entry service], STATUS_SUCCESS))"

text \<open>The loop over the items of an entry.\<close>

fun has_id :: "('i \<Rightarrow> u16) \<Rightarrow> u16 \<Rightarrow> 'i list \<Rightarrow> bool" where
  "has_id key k [] = False"
| "has_id key k (x # xs) = (if key x = k then True else has_id key k xs)"

text \<open>
  What the operations do with the list of the entry they found: \<open>Some\<close> the list and the status,
  or \<open>None\<close> for a list that was never constructed.
\<close>

definition add_item :: "('i \<Rightarrow> u16) \<Rightarrow> bool \<Rightarrow> 'i \<Rightarrow> 'i list option \<Rightarrow> ('i list \<times> Status_e) option" where
  "add_item key alloc x xs =
     (case xs of
        None \<Rightarrow> None
      | Some xs \<Rightarrow>
          if has_id key (key x) xs then Some (xs, STATUS_EXIST)
          else if \<not> alloc then Some (xs, STATUS_ERR_MALLOC)
          else Some (xs @ [x], STATUS_SUCCESS))"

definition addMethod ::
  "bool \<Rightarrow> u16 \<Rightarrow> u16 \<Rightarrow> ('a, 'h) someip_method_t \<Rightarrow> ('a, 'h) serviceDatabase
    \<Rightarrow> (('a, 'h) serviceDatabase \<times> Status_e) option" where
  "addMethod alloc sid iid x db =
     (if db = [] then Some (db, STATUS_FAILED)
      else case find_service sid iid db of
        None \<Rightarrow> Some (db, STATUS_FAILED)
      | Some i \<Rightarrow> do {
          (xs, ret) \<leftarrow> add_item method_id alloc x (mMethodList (db ! i));
          Some (db[i := (db ! i)\<lparr>mMethodList := Some xs\<rparr>], ret) })"

definition addEvent ::
  "bool \<Rightarrow> u16 \<Rightarrow> u16 \<Rightarrow> ('a, 'h) someip_event_t \<Rightarrow> ('a, 'h) serviceDatabase
    \<Rightarrow> (('a, 'h) serviceDatabase \<times> Status_e) option" where
  "addEvent alloc sid iid x db =
     (if db = [] then Some (db, STATUS_FAILED)
      else case find_service sid iid db of
        None \<Rightarrow> Some (db, STATUS_FAILED)
      | Some i \<Rightarrow> do {
          (xs, ret) \<leftarrow> add_item event_id alloc x (mEventList (db ! i));
          Some (db[i := (db ! i)\<lparr>mEventList := Some xs\<rparr>], ret) })"

definition addField ::
  "bool \<Rightarrow> u16 \<Rightarrow> u16 \<Rightarrow> 'h someip_field_t \<Rightarrow> ('a, 'h) serviceDatabase
    \<Rightarrow> (('a, 'h) serviceDatabase \<times> Status_e) option" where
  "addField alloc sid iid x db =
     (if db = [] then Some (db, STATUS_FAILED)
      else case find_service sid iid db of
        None \<Rightarrow> Some (db, STATUS_FAILED)
      | Some i \<Rightarrow> do {
          (xs, ret) \<leftarrow> add_item field_id alloc x (mFieldList (db ! i));
          Some (db[i := (db ! i)\<lparr>mFieldList := Some xs\<rparr>], ret) })"

section \<open>The manager (someip.cpp)\<close>

record ('a, 'h) someipMgr =
  mAppId :: u32
  mAppName :: string
  mMgrStatus :: u32
  mpDatabase :: "('a, 'h) serviceDatabase"

text \<open>The constructor leaves the status word as it finds it.\<close>

definition someipMgr_init :: "u32 \<Rightarrow> ('a, 'h) someipMgr" where
  "someipMgr_init junk = \<lparr>mAppId = 0, mAppName = [], mMgrStatus = junk, mpDatabase = []\<rparr>"

definition initService :: "u32 \<Rightarrow> string \<Rightarrow> ('a, 'h) someipMgr \<Rightarrow> ('a, 'h) someipMgr \<times> u32" where
  "initService appid name g = (g\<lparr>mAppId := appid, mAppName := name\<rparr>, 0)"

partial_function (option) service_loop :: "('a, 'h) someipMgr \<Rightarrow> ('a, 'h) someipMgr option" where
  "service_loop g = (if mMgrStatus g \<noteq> 0 then service_loop g else Some g)"

definition startService :: "('a, 'h) someipMgr \<Rightarrow> (('a, 'h) someipMgr \<times> u32) option" where
  "startService g = do { g' \<leftarrow> service_loop (g\<lparr>mMgrStatus := 1\<rparr>); Some (g', 0) }"

definition stopService :: "('a, 'h) someipMgr \<Rightarrow> ('a, 'h) someipMgr \<times> u32" where
  "stopService g = (g, 0)"

definition createSomeipService ::
  "bool \<Rightarrow> someip_service_cfg_t \<Rightarrow> ('a, 'h) someipMgr \<Rightarrow> ('a, 'h) someipMgr \<times> u32" where
  "createSomeipService alloc service g =
     (let (db, ret) = addEntry alloc service (mpDatabase g)
      in (g\<lparr>mpDatabase := db\<rparr>, status_code ret))"

definition enableSomeipService :: "u16 \<Rightarrow> u16 \<Rightarrow> u32 \<Rightarrow> ('a, 'h) someipMgr \<Rightarrow> ('a, 'h) someipMgr \<times> u32" where
  "enableSomeipService sid iid flag g = (g, 0)"

definition deleteSomeipService :: "u16 \<Rightarrow> u16 \<Rightarrow> ('a, 'h) someipMgr \<Rightarrow> ('a, 'h) someipMgr \<times> u32" where
  "deleteSomeipService sid iid g = (g, 0)"

definition addSomeipServiceMethod ::
  "bool \<Rightarrow> u16 \<Rightarrow> u16 \<Rightarrow> ('a, 'h) someip_method_t \<Rightarrow> ('a, 'h) someipMgr \<Rightarrow> (('a, 'h) someipMgr \<times> u32) option" where
  "addSomeipServiceMethod alloc sid iid x g =
     do { (db, ret) \<leftarrow> addMethod alloc sid iid x (mpDatabase g);
          Some (g\<lparr>mpDatabase := db\<rparr>, status_code ret) }"

definition addSomeipServiceEvent ::
  "bool \<Rightarrow> u16 \<Rightarrow> u16 \<Rightarrow> ('a, 'h) someip_event_t \<Rightarrow> ('a, 'h) someipMgr \<Rightarrow> (('a, 'h) someipMgr \<times> u32) option" where
  "addSomeipServiceEvent alloc sid iid x g =
     do { (db, ret) \<leftarrow> addEvent alloc sid iid x (mpDatabase g);
          Some (g\<lparr>mpDatabase := db\<rparr>, status_code ret) }"

definition addSomeipServiceField ::
  "bool \<Rightarrow> u16 \<Rightarrow> u16 \<Rightarrow> 'h someip_field_t \<Rightarrow> ('a, 'h) someipMgr \<Rightarrow> (('a, 'h) someipMgr \<times> u32) option" where
  "addSomeipServiceField alloc sid iid x g =
     do { (db, ret) \<leftarrow> addField alloc sid iid x (mpDatabase g);
          Some (g\<lparr>mpDatabase := db\<rparr>, status_code ret) }"

section \<open>Runs\<close>

text \<open>
  The calls an application can make and the step each of them is. A call whose behaviour is
  undefined has no step; \<^verbatim>\<open>startService\<close> steps only when it returns.
\<close>

datatype ('a, 'h) someip_call =
    Init u32 string
  | Start
  | Stop
  | Create bool someip_service_cfg_t
  | Enable u16 u16 u32
  | Delete u16 u16
  | Add_method bool u16 u16 "('a, 'h) someip_method_t"
  | Add_event bool u16 u16 "('a, 'h) someip_event_t"
  | Add_field bool u16 u16 "'h someip_field_t"

fun run_call :: "('a, 'h) someip_call \<Rightarrow> ('a, 'h) someipMgr \<Rightarrow> (('a, 'h) someipMgr \<times> u32) option" where
  "run_call (Init appid name) g = Some (initService appid name g)"
| "run_call Start g = startService g"
| "run_call Stop g = Some (stopService g)"
| "run_call (Create alloc service) g = Some (createSomeipService alloc service g)"
| "run_call (Enable sid iid flag) g = Some (enableSomeipService sid iid flag g)"
| "run_call (Delete sid iid) g = Some (deleteSomeipService sid iid g)"
| "run_call (Add_method alloc sid iid x) g = addSomeipServiceMethod alloc sid iid x g"
| "run_call (Add_event alloc sid iid x) g = addSomeipServiceEvent alloc sid iid x g"
| "run_call (Add_field alloc sid iid x) g = addSomeipServiceField alloc sid iid x g"

inductive someip_step :: "('a, 'h) someipMgr \<Rightarrow> ('a, 'h) someip_call \<times> u32 \<Rightarrow> ('a, 'h) someipMgr \<Rightarrow> bool" where
  call: "run_call c g = Some (g', ret) \<Longrightarrow> someip_step g (c, ret) g'"

inductive_cases someip_stepE: "someip_step g (c, ret) g'"

inductive someip_reachable :: "('a, 'h) someipMgr \<Rightarrow> bool" where
  start: "someip_reachable (someipMgr_init junk)"
| step: "someip_reachable g \<Longrightarrow> someip_step g l g' \<Longrightarrow> someip_reachable g'"

section \<open>The operations of the database\<close>

definition entry_key :: "('a, 'h) someip_service_entry_t \<Rightarrow> u16 \<times> u16" where
  "entry_key e = (service_id (s_key (cfg e)), instance_id (s_key (cfg e)))"

lemma same_key_eq: "same_key sid iid e \<longleftrightarrow> entry_key e = (sid, iid)"
  by (auto simp: same_key_def entry_key_def)

lemma find_service_None: "find_service sid iid db = None \<longleftrightarrow> (sid, iid) \<notin> entry_key ` set db"
  by (induction db) (auto simp: same_key_eq)

lemma find_service_Some:
  "find_service sid iid db = Some i \<Longrightarrow> i < length db \<and> entry_key (db ! i) = (sid, iid)"
  by (induction db arbitrary: i) (auto simp: same_key_eq split: if_splits)

lemma has_id_iff: "has_id key k xs \<longleftrightarrow> k \<in> key ` set xs"
  by (induction xs) auto

text \<open>On a list that was constructed the ids stay distinct.\<close>

lemma add_item_distinct:
  "add_item key alloc x (Some xs) = Some (ys, ret) \<Longrightarrow> distinct (map key xs) \<Longrightarrow>
     distinct (map key ys) \<and> (ret = STATUS_SUCCESS \<longleftrightarrow> ys \<noteq> xs) \<and>
     (ret = STATUS_EXIST \<longleftrightarrow> key x \<in> key ` set xs) \<and> (ret = STATUS_SUCCESS \<longrightarrow> ys = xs @ [x])"
  by (auto simp: add_item_def has_id_iff split: if_splits)

text \<open>No entry of the database has a list that was constructed.\<close>

definition unconstructed :: "('a, 'h) someip_service_entry_t \<Rightarrow> bool" where
  "unconstructed e \<longleftrightarrow> mMethodList e = None \<and> mEventList e = None \<and> mFieldList e = None"

definition db_inv :: "('a, 'h) serviceDatabase \<Rightarrow> bool" where
  "db_inv db \<longleftrightarrow> distinct (map entry_key db) \<and> (\<forall>e \<in> set db. unconstructed e)"

lemma addEntry_inv: "db_inv db \<Longrightarrow> addEntry alloc service db = (db', ret) \<Longrightarrow> db_inv db'"
  by (auto simp: db_inv_def addEntry_def find_service_None unconstructed_def new_entry_def entry_key_def split: if_splits)

lemma add_items_undefined:
  assumes "db_inv db"
  shows "addMethod alloc sid iid x db = (if (sid, iid) \<in> entry_key ` set db then None else Some (db, STATUS_FAILED))"
    and "addEvent alloc sid iid y db = (if (sid, iid) \<in> entry_key ` set db then None else Some (db, STATUS_FAILED))"
    and "addField alloc sid iid z db = (if (sid, iid) \<in> entry_key ` set db then None else Some (db, STATUS_FAILED))"
proof -
  have "unconstructed (db ! i)" if "find_service sid iid db = Some i" for i
    using assms find_service_Some [OF that] by (auto simp: db_inv_def)
  then show "addMethod alloc sid iid x db = (if (sid, iid) \<in> entry_key ` set db then None else Some (db, STATUS_FAILED))"
    and "addEvent alloc sid iid y db = (if (sid, iid) \<in> entry_key ` set db then None else Some (db, STATUS_FAILED))"
    and "addField alloc sid iid z db = (if (sid, iid) \<in> entry_key ` set db then None else Some (db, STATUS_FAILED))"
    using find_service_None [of sid iid db]
    by (cases "find_service sid iid db";
        auto simp: addMethod_def addEvent_def addField_def add_item_def unconstructed_def)+
qed

lemma service_loop_diverges:
  assumes "mMgrStatus g \<noteq> 0"
  shows "service_loop g = None"
proof (rule ccontr)
  assume "service_loop g \<noteq> None"
  then obtain g' where "service_loop g = Some g'" by auto
  then have "mMgrStatus g = 0"
    by (rule service_loop.raw_induct [rotated]) (auto split: if_splits)
  with assms show False by simp
qed

lemma startService_never_returns: "startService g = None"
  by (simp add: startService_def service_loop_diverges)

lemma run_call_inv: "run_call c g = Some (g', ret) \<Longrightarrow> db_inv (mpDatabase g) \<Longrightarrow> db_inv (mpDatabase g')"
  by (cases c)
     (auto simp: initService_def stopService_def createSomeipService_def enableSomeipService_def deleteSomeipService_def
        addSomeipServiceMethod_def addSomeipServiceEvent_def addSomeipServiceField_def startService_never_returns
        add_items_undefined split: prod.splits if_splits dest: addEntry_inv)

lemma reachable_inv: "someip_reachable g \<Longrightarrow> db_inv (mpDatabase g)"
proof (induction rule: someip_reachable.induct)
  case (start junk)
  show ?case by (simp add: someipMgr_init_def db_inv_def)
next
  case (step g l g')
  then show ?case by (cases l) (auto elim!: someip_stepE dest: run_call_inv)
qed

section \<open>The theorem\<close>

text \<open>
  C23: in every state the manager can reach, by whatever calls, the keys of the services are
  distinct, and a new service is refused exactly when its key is known. But no method, event
  or field can ever be added: for an unknown service the status is \<^verbatim>\<open>STATUS_FAILED\<close>, and for a
  known one the operation uses a list that was never constructed. Nor does \<^verbatim>\<open>startService\<close>
  ever return.
\<close>

theorem someip_manager:
  assumes "someip_reachable g"
  shows "distinct (map entry_key (mpDatabase g)) \<and>
    (\<forall>service. snd (createSomeipService True service g) =
       status_code (if (service_id (s_key service), instance_id (s_key service)) \<in> entry_key ` set (mpDatabase g)
                    then STATUS_EXIST else STATUS_SUCCESS)) \<and>
    (\<forall>alloc sid iid x y z.
       if (sid, iid) \<in> entry_key ` set (mpDatabase g)
       then addSomeipServiceMethod alloc sid iid x g = None \<and> addSomeipServiceEvent alloc sid iid y g = None \<and>
            addSomeipServiceField alloc sid iid z g = None
       else addSomeipServiceMethod alloc sid iid x g = Some (g, status_code STATUS_FAILED) \<and>
            addSomeipServiceEvent alloc sid iid y g = Some (g, status_code STATUS_FAILED) \<and>
            addSomeipServiceField alloc sid iid z g = Some (g, status_code STATUS_FAILED)) \<and>
    startService g = None"
  using reachable_inv [OF assms]
  by (auto simp: db_inv_def [of "mpDatabase g"] createSomeipService_def addEntry_def find_service_None
      addSomeipServiceMethod_def addSomeipServiceEvent_def addSomeipServiceField_def
      add_items_undefined [OF reachable_inv [OF assms]] startService_never_returns)

definition ex_cfg :: someip_service_cfg_t where
  "ex_cfg = \<lparr>role = 0, s_key = \<lparr>service_id = 4660, instance_id = 1\<rparr>,
     tcp = \<lparr>v4_addr = 0, v4_port = 30509\<rparr>, udp = \<lparr>v4_addr = 0, v4_port = 0\<rparr>, mul_udp = \<lparr>v4_addr = 0, v4_port = 0\<rparr>\<rparr>"

definition ex_mgr :: "(unit, unit) someipMgr" where
  "ex_mgr = fst (createSomeipService True ex_cfg (someipMgr_init 0))"

lemma ex_mgr_reachable: "someip_reachable ex_mgr"
  by (rule someip_reachable.step [OF someip_reachable.start [of 0]], rule someip_step.call [of "Create True ex_cfg" _ _ 0])
     (simp add: ex_mgr_def createSomeipService_def addEntry_def someipMgr_init_def)

lemma someip_manager_witness:
  "addSomeipServiceMethod True 4660 1 \<lparr>method_id = 33, method_args = (), method_on_message = ()\<rparr> ex_mgr = None \<and>
   addSomeipServiceMethod True 4660 2 \<lparr>method_id = 33, method_args = (), method_on_message = ()\<rparr> ex_mgr = Some (ex_mgr, 1)"
proof -
  have "entry_key ` set (mpDatabase ex_mgr) = {(4660, 1)}"
    by (simp add: ex_mgr_def createSomeipService_def addEntry_def someipMgr_init_def new_entry_def entry_key_def ex_cfg_def)
  then show ?thesis using someip_manager [OF ex_mgr_reachable] by (auto split: if_splits)
qed

end
