(* ===== verification/EArray.thy ===== *)
theory EArray
  imports Prelude Ring
begin

text \<open>
  \<^verbatim>\<open>platform/common/inc/eArray.h\<close>: objects in blocks of nodes, with a ring of free nodes and a
  ring of nodes in use.

  A node has an address: the two roots that are members of the array, or a position in a
  block. Blocks are never given back, so the block made when the array has \<open>b\<close> blocks is
  called \<open>b\<close>. The store gives the node at an address; an access to an address without a
  node is undefined, which is the outer \<open>None\<close>. The bytes \<^verbatim>\<open>mData\<close> are an object or raw (\<open>None\<close>).
\<close>

section \<open>Nodes (eANode)\<close>

datatype node_addr = Free_root | Data_root | Node nat nat

record 't eANode =
  mId :: u32
  mpNext :: node_addr
  mpPrev :: node_addr
  mData :: "'t option"

type_synonym 't heap = "node_addr \<Rightarrow> 't eANode option"

definition IS_FREE_INDICATOR :: u32 where "IS_FREE_INDICATOR = 0x80000000"
definition CLR_FREE_INDICATOR :: u32 where "CLR_FREE_INDICATOR = 0x7FFFFFFF"

definition eANode_init :: "node_addr \<Rightarrow> 't eANode" where
  "eANode_init a = \<lparr>mId = 0, mpNext = a, mpPrev = a, mData = None\<rparr>"

definition setId :: "u32 \<Rightarrow> 't eANode \<Rightarrow> 't eANode" where
  "setId i n = n\<lparr>mId := i OR IS_FREE_INDICATOR\<rparr>"

definition getIsFree :: "'t eANode \<Rightarrow> bool" where
  "getIsFree n \<longleftrightarrow> mId n AND IS_FREE_INDICATOR \<noteq> 0"

definition setIsFree :: "bool \<Rightarrow> 't eANode \<Rightarrow> 't eANode" where
  "setIsFree b n = n\<lparr>mId := if b then mId n OR IS_FREE_INDICATOR else mId n AND CLR_FREE_INDICATOR\<rparr>"

definition upd :: "node_addr \<Rightarrow> ('t eANode \<Rightarrow> 't eANode) \<Rightarrow> 't heap \<Rightarrow> 't heap option" where
  "upd a f h = (case h a of None \<Rightarrow> None | Some n \<Rightarrow> Some (h(a \<mapsto> f n)))"

definition insert_before :: "node_addr \<Rightarrow> node_addr \<Rightarrow> 't heap \<Rightarrow> 't heap option" where
  "insert_before this loc h =
     do { h1 \<leftarrow> upd loc (\<lambda>n. n\<lparr>mpNext := this\<rparr>) h;
          t1 \<leftarrow> h1 this;
          h2 \<leftarrow> upd loc (\<lambda>n. n\<lparr>mpPrev := mpPrev t1\<rparr>) h1;
          t2 \<leftarrow> h2 this;
          h3 \<leftarrow> upd (mpPrev t2) (\<lambda>n. n\<lparr>mpNext := loc\<rparr>) h2;
          upd this (\<lambda>n. n\<lparr>mpPrev := loc\<rparr>) h3 }"

definition insert_after :: "node_addr \<Rightarrow> node_addr \<Rightarrow> 't heap \<Rightarrow> 't heap option" where
  "insert_after this loc h =
     do { t \<leftarrow> h this;
          h1 \<leftarrow> upd loc (\<lambda>n. n\<lparr>mpNext := mpNext t\<rparr>) h;
          h2 \<leftarrow> upd loc (\<lambda>n. n\<lparr>mpPrev := this\<rparr>) h1;
          t2 \<leftarrow> h2 this;
          h3 \<leftarrow> upd (mpNext t2) (\<lambda>n. n\<lparr>mpPrev := loc\<rparr>) h2;
          upd this (\<lambda>n. n\<lparr>mpNext := loc\<rparr>) h3 }"

definition node_remove :: "node_addr \<Rightarrow> 't heap \<Rightarrow> 't heap option" where
  "node_remove this h =
     do { t \<leftarrow> h this;
          h1 \<leftarrow> upd (mpNext t) (\<lambda>n. n\<lparr>mpPrev := mpPrev t\<rparr>) h;
          t1 \<leftarrow> h1 this;
          h2 \<leftarrow> upd (mpPrev t1) (\<lambda>n. n\<lparr>mpNext := mpNext t1\<rparr>) h1;
          upd this (\<lambda>n. n\<lparr>mpNext := this, mpPrev := this\<rparr>) h2 }"

text \<open>\<^verbatim>\<open>empty\<close>, \<^verbatim>\<open>create\<close> and \<^verbatim>\<open>destroy\<close>; the object is what the constructor of \<^verbatim>\<open>TYPE\<close> gives.\<close>

definition node_empty :: "node_addr \<Rightarrow> 't heap \<Rightarrow> bool option" where
  "node_empty this h = do { t \<leftarrow> h this; Some (mpNext t = this) }"

definition create :: "'t \<Rightarrow> 't eANode \<Rightarrow> 't eANode" where
  "create obj n = n\<lparr>mData := Some obj\<rparr>"

definition destroy :: "'t eANode \<Rightarrow> 't eANode" where
  "destroy n = n\<lparr>mData := None\<rparr>"

section \<open>Blocks (eABlock)\<close>

definition NODES_PER_BLOCK :: "u32 \<Rightarrow> u32" where
  "NODES_PER_BLOCK SIZE = push_bit (unat (SIZE AND 0xFFFF)) 1"

text \<open>A new block: each node is constructed, then the nodes get their ids in order.\<close>

fun eABlock_ids :: "nat \<Rightarrow> u32 \<Rightarrow> nat list \<Rightarrow> 't heap \<Rightarrow> 't heap" where
  "eABlock_ids b i [] h = h"
| "eABlock_ids b i (j # js) h = eABlock_ids b (i + 1) js (h(Node b j \<mapsto> setId i (eANode_init (Node b j))))"

definition eABlock :: "u32 \<Rightarrow> nat \<Rightarrow> u32 \<Rightarrow> 't heap \<Rightarrow> 't heap" where
  "eABlock SIZE b i h = eABlock_ids b i [0..<unat (NODES_PER_BLOCK SIZE)] h"

fun link_nodes :: "nat \<Rightarrow> nat list \<Rightarrow> 't heap \<Rightarrow> 't heap option" where
  "link_nodes b [] h = Some h"
| "link_nodes b (j # js) h = do { h' \<leftarrow> insert_before Free_root (Node b j) h; link_nodes b js h' }"

definition eABlock_initialize :: "u32 \<Rightarrow> nat \<Rightarrow> 't heap \<Rightarrow> ('t heap \<times> u32) option" where
  "eABlock_initialize SIZE b h =
     do { h' \<leftarrow> link_nodes b [0..<unat (NODES_PER_BLOCK SIZE)] h; Some (h', NODES_PER_BLOCK SIZE) }"

section \<open>The array (eArray)\<close>

text \<open>The pointer \<^verbatim>\<open>mpBlocks\<close>: null, a table of blocks, or whatever was in the memory before.\<close>

datatype block_table = Null_table | Table "nat option list" | Garbage

record 't eArray =
  mSize :: u32
  mCapacity :: u32
  mBlocksCnt :: u32
  mBlocksMax :: u32
  mpBlocks :: block_table
  store :: "'t heap"

abbreviation MAX_ALLOCATIONS :: u32 where "MAX_ALLOCATIONS \<equiv> 0x00FFFFFF"
abbreviation GROW_BLOCKS_LENGTH :: u32 where "GROW_BLOCKS_LENGTH \<equiv> 64"

text \<open>
  Growing the table: \<open>None\<close> copies from or frees a pointer that was never set; \<open>Some None\<close> is
  the early return of \<^verbatim>\<open>gen_free_nodes\<close>.
\<close>

definition grow_table :: "u32 \<Rightarrow> bool \<Rightarrow> 't eArray \<Rightarrow> 't eArray option option" where
  "grow_table SIZE mem st =
     (if mBlocksCnt st = mBlocksMax st
      then if MAX_ALLOCATIONS < mCapacity st + NODES_PER_BLOCK SIZE then Some None
           else if \<not> mem then Some None
           else case mpBlocks st of
             Garbage \<Rightarrow> None
           | Null_table \<Rightarrow>
               (if mBlocksMax st = 0
                then Some (Some (st\<lparr>mpBlocks := Table (replicate (unat GROW_BLOCKS_LENGTH) None),
                                    mBlocksMax := mBlocksMax st + GROW_BLOCKS_LENGTH\<rparr>))
                else None)
           | Table t \<Rightarrow>
               Some (Some (st\<lparr>mpBlocks := Table (take (unat (mBlocksMax st)) t @ replicate (unat GROW_BLOCKS_LENGTH) None),
                              mBlocksMax := mBlocksMax st + GROW_BLOCKS_LENGTH\<rparr>))
      else Some (Some st))"

definition gen_free_nodes :: "u32 \<Rightarrow> bool \<Rightarrow> 't eArray \<Rightarrow> 't eArray option" where
  "gen_free_nodes SIZE mem st =
     do { g \<leftarrow> grow_table SIZE mem st;
          case g of
            None \<Rightarrow> Some st
          | Some st1 \<Rightarrow>
              let b = unat (mBlocksCnt st1) in
              (case mpBlocks st1 of
                 Table t \<Rightarrow>
                   (if b < length t then do {
                      (h, n) \<leftarrow> eABlock_initialize SIZE b (eABlock SIZE b (mCapacity st1) (store st1));
                      Some (st1\<lparr>mpBlocks := Table (t[b := Some b]), store := h,
                                mCapacity := mCapacity st1 + n, mBlocksCnt := mBlocksCnt st1 + 1\<rparr>) }
                    else None)
               | _ \<Rightarrow> None) }"

text \<open>The constructor does not set \<^verbatim>\<open>mpBlocks\<close>: \<open>junk\<close> is what the memory held.\<close>

definition eArray_init :: "u32 \<Rightarrow> bool \<Rightarrow> block_table \<Rightarrow> 't eArray option" where
  "eArray_init SIZE mem junk =
     gen_free_nodes SIZE mem
       \<lparr>mSize = 0, mCapacity = 0, mBlocksCnt = 0, mBlocksMax = 0, mpBlocks = junk,
        store = [Free_root \<mapsto> eANode_init Free_root, Data_root \<mapsto> eANode_init Data_root]\<rparr>"

definition get_free_node :: "u32 \<Rightarrow> bool \<Rightarrow> 't eArray \<Rightarrow> ('t eArray \<times> node_addr option) option" where
  "get_free_node SIZE mem st =
     do { e \<leftarrow> node_empty Free_root (store st);
          st1 \<leftarrow> (if e then gen_free_nodes SIZE mem st else Some st);
          e1 \<leftarrow> node_empty Free_root (store st1);
          if e1 then Some (st1, None)
          else do {
            r \<leftarrow> store st1 Free_root;
            h \<leftarrow> node_remove (mpNext r) (store st1);
            h' \<leftarrow> upd (mpNext r) (setIsFree False) h;
            Some (st1\<lparr>store := h'\<rparr>, Some (mpNext r)) } }"

text \<open>
  \<^verbatim>\<open>alloc(object, &idx)\<close>, and \<^verbatim>\<open>alloc(&idx)\<close> with the value of \<^verbatim>\<open>TYPE()\<close> as the object. The
  constructor may throw (\<open>obj = None\<close>): the node goes back to the free ring and the exception
  leaves the function. The result is the address and the index.
\<close>

datatype 'r outcome = Thrown | Returned 'r

definition alloc :: "u32 \<Rightarrow> bool \<Rightarrow> 't option \<Rightarrow> 't eArray \<Rightarrow> ('t eArray \<times> (node_addr \<times> u32) option outcome) option" where
  "alloc SIZE mem obj st =
     do { (st1, tmp) \<leftarrow> get_free_node SIZE mem st;
          case tmp of
            None \<Rightarrow> Some (st1, Returned None)
          | Some a \<Rightarrow>
              (case obj of
                 None \<Rightarrow> do { h \<leftarrow> insert_before Free_root a (store st1); Some (st1\<lparr>store := h\<rparr>, Thrown) }
               | Some x \<Rightarrow> do {
                   h \<leftarrow> upd a (create x) (store st1);
                   h' \<leftarrow> insert_before Data_root a h;
                   n \<leftarrow> h' a;
                   Some (st1\<lparr>mSize := mSize st1 + 1, store := h'\<rparr>, Returned (Some (a, mId n))) }) }"

text \<open>A run of allocations, with the addresses and indices they return.\<close>

fun alloc_run :: "u32 \<Rightarrow> 't list \<Rightarrow> 't eArray \<Rightarrow> ('t eArray \<times> (node_addr \<times> u32) list) option" where
  "alloc_run SIZE [] st = Some (st, [])"
| "alloc_run SIZE (x # xs) st =
     do { (st1, r) \<leftarrow> alloc SIZE True (Some x) st;
          case r of
            Returned (Some p) \<Rightarrow> do { (st2, ps) \<leftarrow> alloc_run SIZE xs st1; Some (st2, p # ps) }
          | _ \<Rightarrow> None }"

end
