(* ===== verification/EArrayProps.thy ===== *)
theory EArrayProps
  imports EArray
begin

text \<open>
  The effect of the node operations on the two rings, and the theorem about runs of
  allocations.
\<close>

section \<open>The rings of the store\<close>

definition nx :: "'t heap \<Rightarrow> node_addr \<Rightarrow> node_addr option" where
  "nx h a = map_option mpNext (h a)"

definition pv :: "'t heap \<Rightarrow> node_addr \<Rightarrow> node_addr option" where
  "pv h a = map_option mpPrev (h a)"

lemma upd_eq: "h a \<noteq> None \<Longrightarrow> upd a f h = Some (h(a := map_option f (h a)))"
  by (auto simp: upd_def)

text \<open>Two stores that differ only in links at some addresses.\<close>

definition same_nodes :: "node_addr set \<Rightarrow> 't heap \<Rightarrow> 't heap \<Rightarrow> bool" where
  "same_nodes A h h' \<longleftrightarrow>
     (\<forall>c. map_option mId (h' c) = map_option mId (h c) \<and> map_option mData (h' c) = map_option mData (h c)) \<and>
     (\<forall>c. c \<notin> A \<longrightarrow> h' c = h c)"

lemma same_nodes_None: "same_nodes A h h' \<Longrightarrow> h' c = None \<longleftrightarrow> h c = None"
  unfolding same_nodes_def by (cases "h c"; cases "h' c") (auto dest!: spec [of _ c])

lemma same_nodes_ring:
  "same_nodes A h h' \<Longrightarrow> A \<inter> set xs = {} \<Longrightarrow> ring (nx h') (pv h') xs \<longleftrightarrow> ring (nx h) (pv h) xs"
  by (intro ring_cong) (auto simp: same_nodes_def nx_def pv_def)

lemma ring_mapped:
  assumes "ring (nx h) (pv h) xs" "c \<in> set xs"
  shows "h c \<noteq> None"
proof -
  obtain ys zs where "xs = ys @ c # zs" using split_list [OF assms(2)] by blast
  then have "nx h c = Some (hd (zs @ ys @ [c]))" using ring_after assms(1) by metis
  then show ?thesis by (auto simp: nx_def)
qed

lemma insert_before_ring:
  assumes "ring (nx h) (pv h) (r # xs)" "a \<notin> set (r # xs)" "h a \<noteq> None"
  shows "\<exists>h'. insert_before r a h = Some h' \<and> ring (nx h') (pv h') (r # xs @ [a]) \<and> same_nodes (insert a (set (r # xs))) h h'"
proof -
  define l where "l = last (r # xs)"
  have l: "l \<in> set (r # xs)" "l \<noteq> a" using assms(2) last_in_set [of "r # xs"] unfolding l_def by auto
  have ar: "a \<noteq> r" using assms(2) by auto
  have m: "h r \<noteq> None" "h l \<noteq> None" using assms(1) l ring_mapped by fastforce+
  then obtain nr nl na where n: "h r = Some nr" "h l = Some nl" "h a = Some na" using assms(3) by auto
  have p: "mpPrev nr = l" using ring_ends [OF assms(1)] n by (simp add: l_def pv_def)
  define h' where "h' = (let h1 = h(a \<mapsto> na\<lparr>mpNext := r, mpPrev := l\<rparr>); h2 = h1(l := map_option (\<lambda>n. n\<lparr>mpNext := a\<rparr>) (h1 l))
    in h2(r := map_option (\<lambda>n. n\<lparr>mpPrev := a\<rparr>) (h2 r)))"
  have e: "insert_before r a h = Some h'"
    using n p ar l(2) by (cases "l = r") (auto simp: insert_before_def upd_def h'_def Let_def fun_eq_iff)
  have "nx h' = (nx h)(a \<mapsto> hd (r # xs), last (r # xs) \<mapsto> a)" "pv h' = (pv h)(a \<mapsto> last (r # xs), hd (r # xs) \<mapsto> a)"
    using n ar l(2) unfolding h'_def Let_def l_def [symmetric] by (auto simp: fun_eq_iff nx_def pv_def)
  then have "ring (nx h') (pv h') (r # xs @ [a])"
    using ring_insert_last [OF assms(1,2)] by simp
  moreover have "same_nodes (insert a (set (r # xs))) h h'"
    using n l(1) by (auto simp: same_nodes_def h'_def Let_def)
  ultimately show ?thesis using e by blast
qed

lemma node_remove_ring:
  assumes "ring (nx h) (pv h) (r # a # xs)"
  shows "\<exists>h'. node_remove a h = Some h' \<and> ring (nx h') (pv h') (r # xs) \<and> same_nodes (set (r # a # xs)) h h'"
proof -
  define l where "l = hd (xs @ [r])"
  have rot: "ring (nx h) (pv h) (a # xs @ [r])" using ring_rotate [of "nx h" "pv h" "[r]" "a # xs"] assms by simp
  have d: "a \<noteq> r" "a \<notin> set xs" using assms by (auto simp: ring_def)
  have l: "l \<in> set (r # xs)" "l \<noteq> a" using d unfolding l_def by (cases xs; auto)+
  have m: "h a \<noteq> None" "h l \<noteq> None" "h r \<noteq> None" using assms l(1) ring_mapped by fastforce+
  then obtain na nl nr where n: "h a = Some na" "h l = Some nl" "h r = Some nr" by auto
  have p: "mpNext na = l" "mpPrev na = r"
    using ring_after [of "nx h" "pv h" "[]" a "xs @ [r]"] ring_ends [OF rot] rot n
    by (simp_all add: l_def nx_def pv_def) (cases xs; simp)
  define h' where "h' = (let h1 = h(l := map_option (\<lambda>n. n\<lparr>mpPrev := r\<rparr>) (h l)); h2 = h1(r := map_option (\<lambda>n. n\<lparr>mpNext := l\<rparr>) (h1 r))
    in h2(a \<mapsto> na\<lparr>mpNext := a, mpPrev := a\<rparr>))"
  have e: "node_remove a h = Some h'"
    using n p d l(2) by (cases "l = r") (auto simp: node_remove_def upd_def h'_def Let_def fun_eq_iff)
  define g where "g = (let h1 = h(l := map_option (\<lambda>n. n\<lparr>mpPrev := r\<rparr>) (h l)) in h1(r := map_option (\<lambda>n. n\<lparr>mpNext := l\<rparr>) (h1 r)))"
  have "nx g = (nx h)(last (xs @ [r]) \<mapsto> hd (xs @ [r]))" "pv g = (pv h)(hd (xs @ [r]) \<mapsto> last (xs @ [r]))"
    using n unfolding g_def Let_def l_def [symmetric] by (auto simp: fun_eq_iff nx_def pv_def)
  then have "ring (nx g) (pv g) (xs @ [r])" using ring_remove [OF rot] by simp
  moreover have "ring (nx h') (pv h') (xs @ [r]) \<longleftrightarrow> ring (nx g) (pv g) (xs @ [r])"
    by (intro ring_cong) (use d in \<open>auto simp: h'_def g_def Let_def nx_def pv_def\<close>)
  ultimately have "ring (nx h') (pv h') (r # xs)" using ring_rotate [of _ _ xs "[r]"] by simp
  moreover have "same_nodes (set (r # a # xs)) h h'"
    using n l(1) by (auto simp: same_nodes_def h'_def Let_def)
  ultimately show ?thesis using e by blast
qed

lemma same_nodes_trans:
  "same_nodes A h h' \<Longrightarrow> same_nodes B h' h'' \<Longrightarrow> A \<union> B \<subseteq> C \<Longrightarrow> same_nodes C h h''"
  unfolding same_nodes_def by (metis UnCI subset_iff)

lemma link_nodes_ring:
  "\<lbrakk>ring (nx h) (pv h) (Free_root # fs); distinct js; \<forall>j \<in> set js. h (Node b j) \<noteq> None \<and> Node b j \<notin> set fs\<rbrakk> \<Longrightarrow>
    \<exists>h'. link_nodes b js h = Some h' \<and> ring (nx h') (pv h') (Free_root # fs @ map (Node b) js) \<and>
      same_nodes (insert Free_root (set fs \<union> Node b ` set js)) h h'"
proof (induction js arbitrary: h fs)
  case Nil
  then show ?case by (simp add: same_nodes_def)
next
  case (Cons j js)
  have "Node b j \<notin> set (Free_root # fs)" "h (Node b j) \<noteq> None" using Cons.prems(3) by simp_all
  from insert_before_ring [OF Cons.prems(1) this] obtain h1 where h1: "insert_before Free_root (Node b j) h = Some h1"
    "ring (nx h1) (pv h1) (Free_root # fs @ [Node b j])" "same_nodes (insert (Node b j) (set (Free_root # fs))) h h1" by blast
  have "\<forall>i \<in> set js. h1 (Node b i) \<noteq> None \<and> Node b i \<notin> set (fs @ [Node b j])"
    using Cons.prems(2,3) same_nodes_None [OF h1(3)] by auto
  with Cons.IH [OF h1(2)] Cons.prems(2) obtain h2 where h2: "link_nodes b js h1 = Some h2"
    "ring (nx h2) (pv h2) (Free_root # (fs @ [Node b j]) @ map (Node b) js)"
    "same_nodes (insert Free_root (set (fs @ [Node b j]) \<union> Node b ` set js)) h1 h2" by auto
  have "same_nodes (insert Free_root (set fs \<union> Node b ` set (j # js))) h h2"
    by (rule same_nodes_trans [OF h1(3) h2(3)]) auto
  then show ?case using h1(1) h2(1,2) by simp
qed

section \<open>The invariant\<close>

definition slot :: "nat \<Rightarrow> nat \<Rightarrow> node_addr" where
  "slot N i = Node (i div N) (i mod N)"

lemma slot_inj: "slot N i = slot N j \<Longrightarrow> i = j"
  by (metis node_addr.inject slot_def mult_div_mod_eq)

lemma slot_eq [simp]: "slot N i = slot N j \<longleftrightarrow> i = j"
  using slot_inj by blast

lemma slot_neq [simp]: "slot N i \<noteq> Free_root" "slot N i \<noteq> Data_root" "Free_root \<noteq> slot N i" "Data_root \<noteq> slot N i"
  by (simp_all add: slot_def)

text \<open>
  With \<open>cnt\<close> blocks of \<open>N\<close> nodes and the objects \<open>objs\<close> stored, the slots are used in order:
  the first ones form the ring of used nodes, the others the ring of free nodes.
\<close>

definition slots_ok :: "nat \<Rightarrow> 't heap \<Rightarrow> 't list \<Rightarrow> nat \<Rightarrow> bool" where
  "slots_ok N h objs cap \<longleftrightarrow>
     length objs \<le> cap \<and>
     ring (nx h) (pv h) (Free_root # map (slot N) [length objs..<cap]) \<and>
     ring (nx h) (pv h) (Data_root # map (slot N) [0..<length objs]) \<and>
     (\<forall>i < cap. map_option mId (h (slot N i)) = Some (if i < length objs then of_nat i else of_nat i OR IS_FREE_INDICATOR)) \<and>
     (\<forall>i < length objs. map_option mData (h (slot N i)) = Some (Some (objs ! i)))"

definition table_ok :: "'t eArray \<Rightarrow> nat \<Rightarrow> bool" where
  "table_ok st cnt \<longleftrightarrow>
     (mpBlocks st = Null_table \<and> mBlocksMax st = 0 \<or> (\<exists>t. mpBlocks st = Table t \<and> length t = unat (mBlocksMax st))) \<and>
     cnt \<le> unat (mBlocksMax st) \<and> unat (mBlocksMax st) \<le> cnt + 64"

definition array_ok :: "nat \<Rightarrow> 't eArray \<Rightarrow> 't list \<Rightarrow> nat \<Rightarrow> bool" where
  "array_ok N st objs cnt \<longleftrightarrow>
     mSize st = of_nat (length objs) \<and> mCapacity st = of_nat (cnt * N) \<and> mBlocksCnt st = of_nat cnt \<and>
     table_ok st cnt \<and> slots_ok N (store st) objs (cnt * N)"

lemma unat_of_nat_lt: "n < 2 ^ 32 \<Longrightarrow> unat (of_nat n :: u32) = n"
  by (simp add: unat_of_nat take_bit_eq_mod)

section \<open>A new block\<close>

lemma eABlock_ids_eq:
  "eABlock_ids b i [m..<m + k] h =
     (\<lambda>c. case c of Node b' j \<Rightarrow> if b' = b \<and> m \<le> j \<and> j < m + k then Some (setId (i + of_nat (j - m)) (eANode_init c)) else h c
          | _ \<Rightarrow> h c)"
proof (induction k arbitrary: m i h)
  case 0
  then show ?case by (auto simp: fun_eq_iff split: node_addr.splits)
next
  case (Suc k)
  have u: "[m..<m + Suc k] = m # [Suc m..<Suc m + k]" by (simp add: upt_rec)
  show ?case
    unfolding u eABlock_ids.simps Suc.IH
    by (rule ext) (auto simp: Suc_diff_Suc not_less_eq_eq order.order_iff_strict split: node_addr.splits)
qed

lemma map_slot_block: "0 < N \<Longrightarrow> map (slot N) [b * N..<b * N + N] = map (Node b) [0..<N]"
  by (rule nth_equalityI) (simp_all add: slot_def)

lemma slots_grow:
  assumes "slots_ok N h objs (cnt * N)" "length objs = cnt * N" "0 < N" "N = unat (NODES_PER_BLOCK SIZE)"
  shows "\<exists>h'. eABlock_initialize SIZE cnt (eABlock SIZE cnt (of_nat (cnt * N)) h) = Some (h', of_nat N) \<and>
    slots_ok N h' objs (Suc cnt * N)"
proof -
  define h1 where "h1 = eABlock SIZE cnt (of_nat (cnt * N)) h"
  have h1: "h1 c = (case c of Node b j \<Rightarrow> if b = cnt \<and> j < N then Some (setId (of_nat (cnt * N) + of_nat j) (eANode_init c)) else h c
          | _ \<Rightarrow> h c)" for c
    using eABlock_ids_eq [of cnt "of_nat (cnt * N)" 0 N h] by (simp add: h1_def eABlock_def assms(4) split: node_addr.splits)
  have old: "h1 (slot N i) = h (slot N i)" if "i < cnt * N" for i
    using that less_mult_imp_div_less [of i cnt N] by (simp add: h1 slot_def)
  have new: "h1 (slot N i) = Some (setId (of_nat i) (eANode_init (slot N i)))" if "cnt * N \<le> i" "i < Suc cnt * N" for i
  proof -
    have "i div N = cnt" using that assms(3) by (intro div_nat_eqI) (simp_all add: mult.commute)
    then have "slot N i = Node cnt (i mod N)" "i = cnt * N + i mod N" "i mod N < N"
      using assms(3) div_mult_mod_eq [of i N] by (simp_all add: slot_def)
    then show ?thesis by (simp add: h1) (metis of_nat_add of_nat_mult)
  qed
  have "ring (nx h1) (pv h1) [Free_root]"
    using assms(1,2) by (simp add: slots_ok_def nx_def pv_def h1)
  from link_nodes_ring [of h1 "[]" "[0..<N]" cnt, OF this]
  obtain h2 where h2: "link_nodes cnt [0..<N] h1 = Some h2"
    "ring (nx h2) (pv h2) (Free_root # map (Node cnt) [0..<N])" "same_nodes (insert Free_root (Node cnt ` set [0..<N])) h1 h2"
    by (auto simp: h1)
  have e: "eABlock_initialize SIZE cnt h1 = Some (h2, of_nat N)"
    using h2(1) assms(4) by (simp add: eABlock_initialize_def)
  have "ring (nx h2) (pv h2) (Data_root # map (slot N) [0..<cnt * N]) \<longleftrightarrow> ring (nx h1) (pv h1) (Data_root # map (slot N) [0..<cnt * N])"
    by (rule same_nodes_ring [OF h2(3)]) (auto simp: slot_def dest: less_mult_imp_div_less)
  also have "\<dots> \<longleftrightarrow> ring (nx h) (pv h) (Data_root # map (slot N) [0..<cnt * N])"
    by (rule ring_cong) (auto simp: nx_def pv_def old, auto simp: h1)
  finally have d: "ring (nx h2) (pv h2) (Data_root # map (slot N) [0..<cnt * N])"
    using assms(1,2) by (simp add: slots_ok_def)
  have data: "map_option mId (h2 c) = map_option mId (h1 c)" "map_option mData (h2 c) = map_option mData (h1 c)" for c
    using h2(3) by (simp_all add: same_nodes_def)
  have "map_option mId (h2 (slot N i)) = Some (if i < length objs then of_nat i else of_nat i OR IS_FREE_INDICATOR)"
    if "i < Suc cnt * N" for i
    using that assms(1,2) by (cases "i < cnt * N") (simp_all add: data old new slots_ok_def setId_def)
  moreover have "map_option mData (h2 (slot N i)) = Some (Some (objs ! i))" if "i < length objs" for i
    using that assms(1,2) by (simp add: data old slots_ok_def)
  moreover have "map (slot N) [cnt * N..<Suc cnt * N] = map (Node cnt) [0..<N]"
    using map_slot_block [OF assms(3), of cnt] by (simp add: add.commute)
  ultimately have "slots_ok N h2 objs (Suc cnt * N)"
    using h2(2) d assms(2) unfolding slots_ok_def by simp
  then show ?thesis using e unfolding h1_def by blast
qed

section \<open>Allocation\<close>

lemma grow_table_ok:
  assumes "array_ok N st objs cnt" "N = unat (NODES_PER_BLOCK SIZE)" "0 < N" "cnt * N + N \<le> 16777215"
  shows "\<exists>t mx. grow_table SIZE True st = Some (Some (st\<lparr>mpBlocks := Table t, mBlocksMax := mx\<rparr>)) \<and>
    length t = unat mx \<and> cnt < unat mx \<and> unat mx \<le> cnt + 64"
proof -
  have "cnt \<le> cnt * N" using assms(3) by (cases N) simp_all
  then have cnt: "cnt < 16777215" using assms(3,4) by linarith
  have N: "NODES_PER_BLOCK SIZE = of_nat N" using assms(2) by simp
  have lim: "\<not> MAX_ALLOCATIONS < mCapacity st + NODES_PER_BLOCK SIZE"
    using assms(1,4) unat_of_nat_lt [of "cnt * N + N"] by (simp add: N array_ok_def word_less_nat_alt flip: of_nat_mult of_nat_add)
  have c: "mBlocksCnt st = of_nat cnt" "unat (mBlocksCnt st) = cnt"
    using assms(1) cnt unat_of_nat_lt [of cnt] by (simp_all add: array_ok_def)
  have t: "mpBlocks st = Null_table \<and> mBlocksMax st = 0 \<or> (\<exists>t. mpBlocks st = Table t \<and> length t = unat (mBlocksMax st))"
    "cnt \<le> unat (mBlocksMax st)" "unat (mBlocksMax st) \<le> cnt + 64"
    using assms(1) by (simp_all add: array_ok_def table_ok_def)
  show ?thesis
  proof (cases "mBlocksCnt st = mBlocksMax st")
    case True
    have mx: "unat (mBlocksMax st + 64) = unat (mBlocksMax st) + 64"
      using True c(2) cnt by (simp add: unat_word_ariths)
    show ?thesis using t(1)
    proof (elim disjE exE conjE)
      assume "mpBlocks st = Null_table" "mBlocksMax st = 0"
      then show ?thesis
        using True lim c(2) mx
        by (intro exI [of _ "replicate 64 None"] exI [of _ 64]) (simp add: grow_table_def)
    next
      fix t assume "mpBlocks st = Table t" "length t = unat (mBlocksMax st)"
      then show ?thesis
        using True lim c(2) mx
        by (intro exI [of _ "t @ replicate 64 None"] exI [of _ "mBlocksMax st + 64"]) (simp add: grow_table_def)
    qed
  next
    case False
    then have "cnt \<noteq> unat (mBlocksMax st)" using c by (metis word_unat_eq_iff)
    then have less: "cnt < unat (mBlocksMax st)" using t(2) by simp
    then obtain tb where tb: "mpBlocks st = Table tb" "length tb = unat (mBlocksMax st)" using t(1) by auto
    have "st = st\<lparr>mpBlocks := Table tb, mBlocksMax := mBlocksMax st\<rparr>" using tb(1) by (cases st) simp
    then have "grow_table SIZE True st = Some (Some (st\<lparr>mpBlocks := Table tb, mBlocksMax := mBlocksMax st\<rparr>))"
      using False by (simp add: grow_table_def)
    then show ?thesis using less tb(2) t(3) by blast
  qed
qed

lemma gen_free_nodes_ok:
  assumes "array_ok N st objs cnt" "length objs = cnt * N" "N = unat (NODES_PER_BLOCK SIZE)" "0 < N" "cnt * N + N \<le> 16777215"
  shows "\<exists>st'. gen_free_nodes SIZE True st = Some st' \<and> array_ok N st' objs (Suc cnt)"
proof -
  obtain t mx where g: "grow_table SIZE True st = Some (Some (st\<lparr>mpBlocks := Table t, mBlocksMax := mx\<rparr>))"
    "length t = unat mx" "cnt < unat mx" "unat mx \<le> cnt + 64"
    using grow_table_ok [OF assms(1,3-5)] by blast
  have "cnt \<le> cnt * N" using assms(4) by (cases N) simp_all
  then have "cnt < 4294967296" using assms(5) by linarith
  then have cnt: "unat (of_nat cnt :: u32) = cnt" by (intro unat_of_nat_lt) simp
  have a: "mSize st = of_nat (length objs)" "mCapacity st = of_nat (cnt * N)" "mBlocksCnt st = of_nat cnt"
    "slots_ok N (store st) objs (cnt * N)" using assms(1) by (simp_all add: array_ok_def)
  obtain h where h: "eABlock_initialize SIZE cnt (eABlock SIZE cnt (of_nat (cnt * N)) (store st)) = Some (h, of_nat N)"
    "slots_ok N h objs (Suc cnt * N)" using slots_grow [OF a(4) assms(2,4,3)] by blast
  define st' where "st' = st\<lparr>mpBlocks := Table (t[cnt := Some cnt]), mBlocksMax := mx, store := h,
    mCapacity := mCapacity st + of_nat N, mBlocksCnt := mBlocksCnt st + 1\<rparr>"
  have "gen_free_nodes SIZE True st = Some st'"
    using g h(1) cnt a(2,3) by (simp add: gen_free_nodes_def st'_def Let_def)
  moreover have "array_ok N st' objs (Suc cnt)"
    using a h(2) g(2-4) by (simp add: array_ok_def st'_def table_ok_def algebra_simps)
  ultimately show ?thesis by blast
qed

lemma clear_free_flag:
  assumes "k < 2 ^ 31"
  shows "(of_nat k OR IS_FREE_INDICATOR) AND CLR_FREE_INDICATOR = (of_nat k :: u32)"
proof -
  have m: "CLR_FREE_INDICATOR = mask 31" by (simp add: CLR_FREE_INDICATOR_def mask_eq_exp_minus_1)
  have "IS_FREE_INDICATOR AND mask 31 = 0" by (simp add: IS_FREE_INDICATOR_def mask_eq_exp_minus_1)
  moreover have "(of_nat k :: u32) AND mask 31 = of_nat k"
    using assms by (simp flip: take_bit_eq_mask) (simp add: take_bit_of_nat take_bit_nat_eq_self)
  ultimately show ?thesis by (simp add: m bit.conj_disj_distrib2)
qed

text \<open>Taking the first free slot.\<close>

lemma slots_take:
  assumes "slots_ok N h objs cap" "length objs < cap" "cap < 2 ^ 31"
  shows "\<exists>h1 h2 h3 h4. h Free_root \<noteq> None \<and> nx h Free_root = Some (slot N (length objs)) \<and>
    node_remove (slot N (length objs)) h = Some h1 \<and> upd (slot N (length objs)) (setIsFree False) h1 = Some h2 \<and>
    upd (slot N (length objs)) (create x) h2 = Some h3 \<and> insert_before Data_root (slot N (length objs)) h3 = Some h4 \<and>
    map_option mId (h4 (slot N (length objs))) = Some (of_nat (length objs)) \<and> slots_ok N h4 (objs @ [x]) cap"
proof -
  define k where "k = length objs"
  define a where "a = slot N k"
  have u: "[k..<cap] = k # [Suc k..<cap]" using assms(2) by (simp add: k_def upt_rec)
  have F: "ring (nx h) (pv h) (Free_root # a # map (slot N) [Suc k..<cap])"
    and D: "ring (nx h) (pv h) (Data_root # map (slot N) [0..<k])"
    using assms(1) u by (simp_all add: slots_ok_def k_def [symmetric] a_def)
  have fr: "nx h Free_root = Some a" using ring_after [of "nx h" "pv h" "[]" Free_root] F by fastforce
  obtain h1 where h1: "node_remove a h = Some h1" "ring (nx h1) (pv h1) (Free_root # map (slot N) [Suc k..<cap])"
    "same_nodes (set (Free_root # a # map (slot N) [Suc k..<cap])) h h1"
    using node_remove_ring [OF F] by blast
  have "h1 a \<noteq> None" using ring_mapped [OF F, of a] same_nodes_None [OF h1(3)] by simp
  then obtain na where na: "h1 a = Some na" by blast
  define h3 where "h3 = h1(a \<mapsto> create x (setIsFree False na))"
  have nxpv: "nx h3 = nx h1" "pv h3 = pv h1"
    by (auto simp: fun_eq_iff nx_def pv_def h3_def na create_def setIsFree_def)
  have "ring (nx h3) (pv h3) (Data_root # map (slot N) [0..<k])"
    using D by (subst nxpv, subst nxpv, subst same_nodes_ring [OF h1(3)]) (auto simp: a_def)
  moreover have "a \<notin> set (Data_root # map (slot N) [0..<k])" by (auto simp: a_def)
  ultimately obtain h4 where h4: "insert_before Data_root a h3 = Some h4"
    "ring (nx h4) (pv h4) (Data_root # map (slot N) [0..<k] @ [a])"
    "same_nodes (insert a (set (Data_root # map (slot N) [0..<k]))) h3 h4"
    using insert_before_ring [of h3 Data_root "map (slot N) [0..<k]" a] by (auto simp: h3_def)
  have same: "map_option mId (h4 (slot N i)) = map_option mId (h (slot N i))"
    "map_option mData (h4 (slot N i)) = map_option mData (h (slot N i))" if "i \<noteq> k" for i
    using that h1(3) h4(3) by (simp_all add: same_nodes_def h3_def a_def del: map_option_eq_Some)
  have "ring (nx h4) (pv h4) (Free_root # map (slot N) [Suc k..<cap])"
    using h1(2) by (subst same_nodes_ring [OF h4(3)]) (auto simp: nxpv a_def)
  moreover have "map_option mId (h4 (slot N i)) = Some (if i < Suc k then of_nat i else of_nat i OR IS_FREE_INDICATOR)"
    if "i < cap" for i
  proof (cases "i = k")
    case True
    have "map_option mId (h (slot N k)) = Some (if k < length objs then of_nat k else of_nat k OR IS_FREE_INDICATOR)"
      using assms(1,2) unfolding slots_ok_def k_def by blast
    moreover have "map_option mId (h1 a) = map_option mId (h a)" using h1(3) unfolding same_nodes_def by blast
    ultimately have "mId na = of_nat k OR IS_FREE_INDICATOR" using na by (auto simp: k_def a_def)
    moreover have "k < 2 ^ 31" using assms(2,3) by (simp add: k_def)
    ultimately show ?thesis
      using h4(3) True by (simp add: same_nodes_def h3_def a_def create_def setIsFree_def clear_free_flag)
  next
    case False
    have "map_option mId (h (slot N i)) = Some (if i < k then of_nat i else of_nat i OR IS_FREE_INDICATOR)"
      using that assms(1) unfolding slots_ok_def k_def by blast
    with same(1) [OF False] False show ?thesis by (simp del: map_option_eq_Some)
  qed
  moreover have "map_option mData (h4 (slot N i)) = Some (Some ((objs @ [x]) ! i))" if "i < Suc k" for i
  proof (cases "i = k")
    case True
    then show ?thesis using h4(3) by (simp add: same_nodes_def h3_def a_def k_def create_def)
  next
    case False
    then have "map_option mData (h (slot N i)) = Some (Some (objs ! i))"
      using that assms(1) unfolding slots_ok_def k_def by auto
    with same(2) [OF False] False that show ?thesis by (simp add: nth_append k_def del: map_option_eq_Some)
  qed
  ultimately have "slots_ok N h4 (objs @ [x]) cap"
    using h4(2) assms(2) by (simp add: slots_ok_def k_def [symmetric] a_def)
  moreover have "map_option mId (h4 a) = Some (of_nat k)"
  proof -
    have "map_option mId (h4 (slot N k)) = Some (if k < length (objs @ [x]) then of_nat k else of_nat k OR IS_FREE_INDICATOR)"
      using \<open>slots_ok N h4 (objs @ [x]) cap\<close> assms(2) unfolding slots_ok_def k_def by blast
    then show ?thesis by (simp add: k_def a_def del: map_option_eq_Some)
  qed
  moreover have "upd a (setIsFree False) h1 = Some (h1(a \<mapsto> setIsFree False na))"
    "upd a (create x) (h1(a \<mapsto> setIsFree False na)) = Some h3"
    by (simp_all add: upd_def na h3_def)
  ultimately show ?thesis
    unfolding k_def [symmetric] a_def [symmetric] using fr h1(1) h4(1) ring_mapped [OF F, of Free_root] by auto
qed

lemma node_empty_slots:
  "slots_ok N h objs cap \<Longrightarrow> node_empty Free_root h = Some (length objs = cap)"
proof -
  assume ok: "slots_ok N h objs cap"
  then have F: "ring (nx h) (pv h) ([] @ Free_root # map (slot N) [length objs..<cap])" by (simp add: slots_ok_def)
  obtain n where n: "h Free_root = Some n" using ring_mapped [OF F, of Free_root] by auto
  have "nx h Free_root = Some (hd (map (slot N) [length objs..<cap] @ [] @ [Free_root]))" by (rule ring_after [OF F])
  moreover have "length objs \<le> cap" using ok by (simp add: slots_ok_def)
  ultimately show ?thesis using n
    by (cases "length objs = cap") (simp_all add: node_empty_def nx_def hd_append hd_map)
qed

lemma alloc_step:
  assumes "array_ok N st objs cnt" "N = unat (NODES_PER_BLOCK SIZE)" "0 < N" "length objs + N \<le> 16777215" "cnt * N \<le> 2 ^ 30"
  shows "\<exists>st' cnt'. alloc SIZE True (Some x) st = Some (st', Returned (Some (slot N (length objs), of_nat (length objs)))) \<and>
    array_ok N st' (objs @ [x]) cnt' \<and> cnt' * N \<le> max (cnt * N) 16777215"
proof -
  have s: "slots_ok N (store st) objs (cnt * N)" using assms(1) by (simp add: array_ok_def)
  obtain st1 cnt1 where st1: "(if length objs = cnt * N then gen_free_nodes SIZE True st else Some st) = Some st1"
    "array_ok N st1 objs cnt1" "length objs < cnt1 * N" "cnt1 * N \<le> max (cnt * N) 16777215"
  proof (cases "length objs = cnt * N")
    case True
    then obtain st' where "gen_free_nodes SIZE True st = Some st'" "array_ok N st' objs (Suc cnt)"
      using gen_free_nodes_ok [OF assms(1) True assms(2,3)] assms(4) by auto
    then show ?thesis using True assms(3,4) that [of st' "Suc cnt"] by simp
  next
    case False
    then show ?thesis using s assms(1) that [of st cnt] by (simp add: slots_ok_def)
  qed
  have s1: "slots_ok N (store st1) objs (cnt1 * N)" using st1(2) by (simp add: array_ok_def)
  have lim: "cnt1 * N < 2 ^ 31" using st1(4) assms(5) by simp
  obtain h1 h2 h3 h4 where h: "store st1 Free_root \<noteq> None" "nx (store st1) Free_root = Some (slot N (length objs))"
    "node_remove (slot N (length objs)) (store st1) = Some h1" "upd (slot N (length objs)) (setIsFree False) h1 = Some h2"
    "upd (slot N (length objs)) (create x) h2 = Some h3" "insert_before Data_root (slot N (length objs)) h3 = Some h4"
    "map_option mId (h4 (slot N (length objs))) = Some (of_nat (length objs))" "slots_ok N h4 (objs @ [x]) (cnt1 * N)"
    using slots_take [OF s1 st1(3) lim, of x] by blast
  obtain r where r: "store st1 Free_root = Some r" "mpNext r = slot N (length objs)" using h(1,2) by (auto simp: nx_def)
  obtain n where n: "h4 (slot N (length objs)) = Some n" "mId n = of_nat (length objs)" using h(7) by auto
  have "get_free_node SIZE True st = Some (st1\<lparr>store := h2\<rparr>, Some (slot N (length objs)))"
    unfolding get_free_node_def using st1(3) node_empty_slots [OF s] node_empty_slots [OF s1] st1(1) r h(3,4)
    by (auto split: if_splits)
  then have "alloc SIZE True (Some x) st =
      Some (st1\<lparr>mSize := mSize st1 + 1, store := h4\<rparr>, Returned (Some (slot N (length objs), of_nat (length objs))))"
    using h(5,6) n by (simp add: alloc_def)
  moreover have "array_ok N (st1\<lparr>mSize := mSize st1 + 1, store := h4\<rparr>) (objs @ [x]) cnt1"
    using st1(2) h(8) by (simp add: array_ok_def table_ok_def)
  ultimately show ?thesis using st1(4) by blast
qed

lemma alloc_run_ok:
  assumes "N = unat (NODES_PER_BLOCK SIZE)" "0 < N"
  shows "\<lbrakk>array_ok N st objs cnt; cnt * N \<le> 16777215; length objs + length xs + N \<le> 16777215\<rbrakk> \<Longrightarrow>
    \<exists>st' cnt'. alloc_run SIZE xs st =
        Some (st', map (\<lambda>i. (slot N i, of_nat i)) [length objs..<length objs + length xs]) \<and>
      array_ok N st' (objs @ xs) cnt'"
proof (induction xs arbitrary: st objs cnt)
  case Nil
  then show ?case by auto
next
  case (Cons x xs)
  have "length objs + N \<le> 16777215" "cnt * N \<le> 2 ^ 30" using Cons.prems(2,3) by simp_all
  from alloc_step [OF Cons.prems(1) assms this] obtain st1 cnt1 where
    a: "alloc SIZE True (Some x) st = Some (st1, Returned (Some (slot N (length objs), of_nat (length objs))))"
      "array_ok N st1 (objs @ [x]) cnt1" "cnt1 * N \<le> max (cnt * N) 16777215" by blast
  obtain st' cnt' where "alloc_run SIZE xs st1 =
      Some (st', map (\<lambda>i. (slot N i, of_nat i)) [length (objs @ [x])..<length (objs @ [x]) + length xs])"
    "array_ok N st' ((objs @ [x]) @ xs) cnt'"
    using Cons.IH [OF a(2)] a(3) Cons.prems(2,3) by auto
  moreover have "[length objs..<length objs + length (x # xs)] = length objs # [Suc (length objs)..<Suc (length objs) + length xs]"
    by (simp add: upt_rec)
  ultimately show ?case using a(1) by auto
qed

lemma eArray_init_ok:
  assumes "N = unat (NODES_PER_BLOCK SIZE)" "0 < N" "N \<le> 16777215"
  shows "\<exists>st. eArray_init SIZE True Null_table = Some st \<and> array_ok N st [] 1"
proof -
  let ?st = "\<lparr>mSize = 0, mCapacity = 0, mBlocksCnt = 0, mBlocksMax = 0, mpBlocks = Null_table,
        store = [Free_root \<mapsto> eANode_init Free_root, Data_root \<mapsto> eANode_init Data_root]\<rparr>"
  have "array_ok N ?st [] 0"
    by (simp add: array_ok_def table_ok_def slots_ok_def nx_def pv_def eANode_init_def)
  from gen_free_nodes_ok [OF this _ assms(1,2)] assms(3) show ?thesis by (simp add: eArray_init_def)
qed

section \<open>The theorem\<close>

text \<open>
  C24: an array whose memory was zero before it was constructed returns from every allocation
  up to the limit (\<open>N\<close> is the number of nodes of a block): the objects get the indices 0, 1, 2
  and so on, each at its own address, and every object is still there at the end. Where the
  memory was not zero, the constructor already uses the pointer \<^verbatim>\<open>mpBlocks\<close> that it never set.
\<close>

theorem eArray_runs:
  fixes objs :: "'t list"
  assumes "N = unat (NODES_PER_BLOCK SIZE)" "0 < N" "length objs + N \<le> 16777215"
  shows "(\<exists>st st'. eArray_init SIZE True Null_table = Some st \<and>
      alloc_run SIZE objs st = Some (st', map (\<lambda>i. (slot N i, of_nat i)) [0..<length objs]) \<and>
      mSize st' = of_nat (length objs) \<and> distinct (map (slot N) [0..<length objs]) \<and>
      (\<forall>i < length objs. map_option mData (store st' (slot N i)) = Some (Some (objs ! i)))) \<and>
    (eArray_init SIZE True Garbage :: 't eArray option) = None"
proof -
  have "N \<le> 16777215" using assms(3) by simp
  from eArray_init_ok [OF assms(1,2) this] obtain st :: "'t eArray" where
    st: "eArray_init SIZE True Null_table = Some st" "array_ok N st [] 1" by blast
  from alloc_run_ok [OF assms(1,2) st(2), of objs] assms(3) obtain st' cnt' where
    "alloc_run SIZE objs st = Some (st', map (\<lambda>i. (slot N i, of_nat i)) [0..<length objs])" "array_ok N st' objs cnt'"
    by auto
  moreover have "distinct (map (slot N) [0..<length objs])" by (simp add: distinct_map inj_on_def)
  moreover have "\<not> MAX_ALLOCATIONS < NODES_PER_BLOCK SIZE"
    using \<open>N \<le> 16777215\<close> assms(1) by (simp add: word_less_nat_alt)
  ultimately show ?thesis
    using st(1) by (auto simp: array_ok_def slots_ok_def eArray_init_def gen_free_nodes_def grow_table_def)
qed

lemma eArray_runs_witness:
  "(\<exists>st st'. eArray_init 0x00030002 True Null_table = Some st \<and>
      alloc_run 0x00030002 [10, 20, 30, 40, 50 :: nat] st =
        Some (st', map (\<lambda>i. (slot 4 i, of_nat i)) [0..<length [10, 20, 30, 40, 50 :: nat]]) \<and>
      mSize st' = of_nat (length [10, 20, 30, 40, 50 :: nat]) \<and> distinct (map (slot 4) [0..<length [10, 20, 30, 40, 50 :: nat]]) \<and>
      (\<forall>i < length [10, 20, 30, 40, 50 :: nat]. map_option mData (store st' (slot 4 i)) = Some (Some ([10, 20, 30, 40, 50] ! i)))) \<and>
    (eArray_init 0x00030002 True Garbage :: nat eArray option) = None"
  by (rule eArray_runs) (simp_all add: NODES_PER_BLOCK_def)

end
