(* ===== verification/CertX509.thy ===== *)
theory CertX509
  imports Status Chunk
begin

text \<open>
  \<^verbatim>\<open>library/credentials/src/certX509.cpp\<close>, the parts that are the program's own: the flags that the
  extensions of a certificate set, and the line that names its subject.

  What OpenSSL makes of a certificate is data here: the entries of the subject (the number of
  the attribute and its bytes) and the extensions, each with the value that
  \<^verbatim>\<open>X509V3_EXT_d2i\<close> gives for it (\<open>None\<close> when it fails).
\<close>

section \<open>Certificates\<close>

datatype ext_key_usage = Server_auth | Client_auth | OCSP_sign | Other_usage

text \<open>
  \<open>Listed\<close> are the extensions whose branch of \<^verbatim>\<open>parseCertExtensions\<close> is only a \<^verbatim>\<open>break\<close> (access
  information, alternative names, distribution points, address blocks); \<open>Unknown\<close> the ones
  of the default branch, with the critical bit.
\<close>

datatype cert_ext =
    Basic_constraints "(bool \<times> int option) option"
  | Key_usage "u8 list option"
  | Auth_key_identifier bool
  | Subject_key_identifier
  | Ext_key_usage "ext_key_usage list option"
  | Listed
  | Unknown bool

datatype name_attr =
    Country | State | Locality | Organization | Unit | Common_name | Email | Other_attr

record x509 =
  subject :: "(name_attr \<times> u8 list) list"
  extensions :: "cert_ext list option"
  der_bytes :: "u8 list"

record certX509 =
  mpX509 :: "x509 option"
  der_block :: mem
  mDerEncoding :: chunk_v
  mCertFlags :: u32

definition certX509_init :: certX509 where
  "certX509_init = \<lparr>mpX509 = None, der_block = [], mDerEncoding = chunk_empty, mCertFlags = 0\<rparr>"

abbreviation (input) X509_CA :: u32 where "X509_CA \<equiv> 1"
abbreviation (input) X509_AA :: u32 where "X509_AA \<equiv> 2"
abbreviation (input) X509_OCSP_SIGNER :: u32 where "X509_OCSP_SIGNER \<equiv> 4"
abbreviation (input) X509_SERVER_AUTH :: u32 where "X509_SERVER_AUTH \<equiv> 8"
abbreviation (input) X509_CLIENT_AUTH :: u32 where "X509_CLIENT_AUTH \<equiv> 16"
abbreviation (input) X509_CRL_SIGN :: u32 where "X509_CRL_SIGN \<equiv> 128"

definition getCertFlag :: "certX509 \<Rightarrow> u32" where
  "getCertFlag c = mCertFlags c"

definition setCertFlag :: "u32 \<Rightarrow> certX509 \<Rightarrow> certX509" where
  "setCertFlag flag c = c\<lparr>mCertFlags := mCertFlags c OR flag\<rparr>"

section \<open>Extensions\<close>

definition parseBasicConstraintsExt :: "(bool \<times> int option) option \<Rightarrow> certX509 \<Rightarrow> certX509 \<times> bool" where
  "parseBasicConstraintsExt v c =
     (case v of
        None \<Rightarrow> (c, False)
      | Some (ca, pathlen) \<Rightarrow> (if ca then setCertFlag X509_CA c else c, True))"

text \<open>The bits of the first two bytes; \<^verbatim>\<open>X509v3_KU_CRL_SIGN\<close> is \<^verbatim>\<open>0x0002\<close>.\<close>

definition parseKeyUsageExt :: "u8 list option \<Rightarrow> certX509 \<Rightarrow> certX509 \<times> bool" where
  "parseKeyUsageExt v c =
     (case v of
        None \<Rightarrow> (c, False)
      | Some [] \<Rightarrow> (c, True)
      | Some (b0 # bs) \<Rightarrow>
          let flags = (ucast b0 :: s32) OR (case bs of [] \<Rightarrow> 0 | b1 # _ \<Rightarrow> push_bit 8 (ucast b1))
          in (if flags AND 0x0002 \<noteq> 0 then setCertFlag X509_CRL_SIGN c else c, True))"

fun usage_flag :: "ext_key_usage \<Rightarrow> u32" where
  "usage_flag Server_auth = X509_SERVER_AUTH"
| "usage_flag Client_auth = X509_CLIENT_AUTH"
| "usage_flag OCSP_sign = X509_OCSP_SIGNER"
| "usage_flag Other_usage = 0"

definition parseExtKeyUsageExt :: "ext_key_usage list option \<Rightarrow> certX509 \<Rightarrow> certX509 \<times> bool" where
  "parseExtKeyUsageExt v c =
     (case v of None \<Rightarrow> (c, False) | Some us \<Rightarrow> (fold (\<lambda>u c. setCertFlag (usage_flag u) c) us c, True))"

definition parseAuthKeyIdentifierExt :: "bool \<Rightarrow> certX509 \<Rightarrow> certX509 \<times> bool" where
  "parseAuthKeyIdentifierExt ok c = (c, ok)"

definition parseSubjectKeyIdentifierExt :: "certX509 \<Rightarrow> certX509 \<times> bool" where
  "parseSubjectKeyIdentifierExt c = (c, True)"

text \<open>
  The body of the loop of \<^verbatim>\<open>parseCertExtensions\<close>. The variable \<^verbatim>\<open>ok\<close> is declared in the loop and
  not initialised: after a branch that is only a \<^verbatim>\<open>break\<close> it is \<open>None\<close>.
\<close>

fun parse_ext :: "cert_ext \<Rightarrow> certX509 \<Rightarrow> certX509 \<times> bool option" where
  "parse_ext (Basic_constraints v) c = map_prod id Some (parseBasicConstraintsExt v c)"
| "parse_ext (Key_usage v) c = map_prod id Some (parseKeyUsageExt v c)"
| "parse_ext (Auth_key_identifier v) c = map_prod id Some (parseAuthKeyIdentifierExt v c)"
| "parse_ext Subject_key_identifier c = map_prod id Some (parseSubjectKeyIdentifierExt c)"
| "parse_ext (Ext_key_usage v) c = map_prod id Some (parseExtKeyUsageExt v c)"
| "parse_ext Listed c = (c, None)"
| "parse_ext (Unknown critical) c = (c, Some (\<not> critical))"

text \<open>The test of \<^verbatim>\<open>ok\<close> is undefined when it was not set; the status is 0 either way.\<close>

fun parse_exts :: "cert_ext list \<Rightarrow> certX509 \<Rightarrow> certX509 option" where
  "parse_exts [] c = Some c"
| "parse_exts (e # es) c =
     (case parse_ext e c of
        (c', None) \<Rightarrow> None
      | (c', Some ok) \<Rightarrow> if \<not> ok then Some c' else parse_exts es c')"

text \<open>\<^verbatim>\<open>X509_get0_extensions\<close> reads through the pointer, which is null when the parser failed.\<close>

definition parseCertExtensions :: "certX509 \<Rightarrow> certX509 option" where
  "parseCertExtensions c =
     (case mpX509 c of
        None \<Rightarrow> None
      | Some x \<Rightarrow> (case extensions x of None \<Rightarrow> Some c | Some es \<Rightarrow> parse_exts es c))"

section \<open>Loading\<close>

text \<open>What OpenSSL gives for a file: \<^verbatim>\<open>X509_new\<close>, \<^verbatim>\<open>BIO_new_file\<close>, and the certificate or a null pointer.\<close>

record ssl_file =
  x509_new_ok :: bool
  bio_ok :: bool
  pem_x509 :: "x509 option"
  der_x509 :: "x509 option"

text \<open>
  \<^verbatim>\<open>i2d_X509_AUX\<close> allocates the encoding when the pointer is null; otherwise it writes behind the
  pointer and moves it, and \<open>der_block\<close> is the block the pointer stands in.
\<close>

definition transformX509ToDER :: "certX509 \<Rightarrow> certX509 option" where
  "transformX509ToDER c =
     (case mpX509 c of
        None \<Rightarrow> Some (c\<lparr>mDerEncoding := (mDerEncoding c)\<lparr>clen := 0\<rparr>\<rparr>)
      | Some x \<Rightarrow>
          let n = of_nat (length (der_bytes x))
          in (case cptr (mDerEncoding c) of
                None \<Rightarrow> Some (c\<lparr>der_block := der_bytes x, mDerEncoding := \<lparr>cptr = Some 0, clen = n\<rparr>\<rparr>)
              | Some p \<Rightarrow> do { m \<leftarrow> buf_write (der_block c) p (der_bytes x);
                              Some (c\<lparr>der_block := m, mDerEncoding := \<lparr>cptr = Some (p + length (der_bytes x)), clen = n\<rparr>\<rparr>) }))"

definition loadX509CertFromPEM :: "ssl_file \<Rightarrow> certX509 \<Rightarrow> (certX509 \<times> Status_e) option" where
  "loadX509CertFromPEM f c =
     (if \<not> x509_new_ok f then Some (c, STATUS_FAILED)
      else if \<not> bio_ok f then Some (c, STATUS_FAILED)
      else do { c1 \<leftarrow> transformX509ToDER (c\<lparr>mpX509 := pem_x509 f\<rparr>);
                c2 \<leftarrow> parseCertExtensions c1;
                Some (c2, STATUS_SUCCESS) })"

definition loadX509CertFromDER :: "ssl_file \<Rightarrow> certX509 \<Rightarrow> (certX509 \<times> Status_e) option" where
  "loadX509CertFromDER f c =
     (if \<not> x509_new_ok f then Some (c, STATUS_FAILED)
      else if \<not> bio_ok f then Some (c, STATUS_FAILED)
      else do { c1 \<leftarrow> transformX509ToDER (c\<lparr>mpX509 := der_x509 f\<rparr>);
                c2 \<leftarrow> parseCertExtensions c1;
                Some (c2, STATUS_SUCCESS) })"

section \<open>The subject\<close>

text \<open>
  \<^verbatim>\<open>snprintf(str + off, sizeof(str) - off, ...)\<close> on the 128 bytes of \<^verbatim>\<open>str\<close>: it writes what fits
  and a zero byte, nothing when no byte is left, and returns the length of the whole text.
  Behind the end of the array the pointer is outside and the unsigned difference is huge.
\<close>

definition snprintf_at :: "u8 list \<Rightarrow> nat \<Rightarrow> u8 list \<Rightarrow> (u8 list \<times> nat) option" where
  "snprintf_at str off txt =
     (if length str < off then None
      else if off = length str then Some (str, length txt)
      else do { str' \<leftarrow> buf_write str off (take (length str - off - 1) txt @ [0]); Some (str', length txt) })"

text \<open>The bytes of an attribute up to the first zero byte, as \<^verbatim>\<open>%s\<close> prints them.\<close>

definition c_str :: "u8 list \<Rightarrow> u8 list" where
  "c_str bs = takeWhile (\<lambda>b. b \<noteq> 0) bs"

fun attr_label :: "name_attr \<Rightarrow> string option" where
  "attr_label Country = Some ''C = ''"
| "attr_label State = Some ''ST = ''"
| "attr_label Locality = Some ''L = ''"
| "attr_label Organization = Some ''O = ''"
| "attr_label Unit = Some ''OU = ''"
| "attr_label Common_name = Some ''CN = ''"
| "attr_label Email = Some ''M = ''"
| "attr_label Other_attr = None"

definition attr_text :: "name_attr \<Rightarrow> u8 list \<Rightarrow> u8 list" where
  "attr_text a v =
     (case attr_label a of None \<Rightarrow> [] | Some s \<Rightarrow> map of_char s @ c_str v @ map of_char '', '')"

fun subject_loop :: "(name_attr \<times> u8 list) list \<Rightarrow> u8 list \<Rightarrow> nat \<Rightarrow> (u8 list \<times> nat) option" where
  "subject_loop [] str n = Some (str, n)"
| "subject_loop ((a, v) # es) str n =
     (if attr_label a = None then subject_loop es str n
      else do { (str', k) \<leftarrow> snprintf_at str n (attr_text a v); subject_loop es str' (n + k) })"

text \<open>
  The result: \<open>None\<close> inside is the null chunk; otherwise the \<^verbatim>\<open>len\<close> bytes of the chunk. The
  zero byte is written at \<^verbatim>\<open>str[str_len - 2]\<close>, and \<^verbatim>\<open>strncpy\<close> copies up to it.
\<close>

definition getCertSubjectString :: "certX509 \<Rightarrow> u8 list option option" where
  "getCertSubjectString c =
     do { x \<leftarrow> mpX509 c;
          (str, n) \<leftarrow> subject_loop (subject x) (replicate 128 0) 0;
          if 2 < n
          then do { str' \<leftarrow> buf_write str (n - 2) [0];
                    bs \<leftarrow> buf_read str' 0 (n - 2);
                    Some (Some bs) }
          else Some None }"

section \<open>The length of the subject decides\<close>

definition subject_text :: "(name_attr \<times> u8 list) list \<Rightarrow> u8 list" where
  "subject_text es = concat (map (\<lambda>(a, v). attr_text a v) es)"

lemma subject_text_simps [simp]:
  "subject_text [] = []" "subject_text ((a, v) # es) = attr_text a v @ subject_text es"
  by (simp_all add: subject_text_def)

lemma attr_text_length: "attr_label a \<noteq> None \<Longrightarrow> 6 \<le> length (attr_text a v)"
  by (cases a) (simp_all add: attr_text_def)

lemma attr_text_None: "attr_label a = None \<Longrightarrow> attr_text a v = []"
  by (simp add: attr_text_def)

text \<open>
  While the text so far fits, the array holds its first 127 bytes. Once 129 bytes are passed
  with an entry to come, the next call is outside.
\<close>

definition holds :: "u8 list \<Rightarrow> u8 list \<Rightarrow> bool" where
  "holds str t \<longleftrightarrow> length str = 128 \<and> take (min 127 (length t)) str = take 127 t"

lemma snprintf_holds:
  assumes "holds str t" "length t \<le> 128"
  shows "\<exists>str'. snprintf_at str (length t) u = Some (str', length u) \<and> holds str' (t @ u)"
proof (cases "length t = 128")
  case True
  then show ?thesis using assms(1) by (simp add: snprintf_at_def holds_def)
next
  case False
  let ?k = "length t"
  have k: "?k \<le> 127" "length str = 128" using assms False by (simp_all add: holds_def)
  define w where "w = take (127 - ?k) u @ [0]"
  have w: "?k + length w \<le> 128" using k by (simp add: w_def)
  define str' where "str' = take ?k str @ w @ drop (?k + length w) str"
  have "snprintf_at str ?k u = Some (str', length u)"
    using k w False by (simp add: snprintf_at_def str'_def w_def [symmetric])
  moreover have "take ?k str = t" using assms(1) k by (simp add: holds_def)
  then have "holds str' (t @ u)"
    using k w by (auto simp: holds_def str'_def w_def min_def)
  ultimately show ?thesis by blast
qed

lemma subject_loop_holds:
  "holds str t \<Longrightarrow> length t \<le> 128 \<Longrightarrow> length (t @ subject_text es) \<le> 129 \<Longrightarrow>
     \<exists>str'. subject_loop es str (length t) = Some (str', length (t @ subject_text es)) \<and> holds str' (t @ subject_text es)"
proof (induction es arbitrary: str t)
  case (Cons e es)
  obtain a v where e: "e = (a, v)" by (cases e)
  show ?case
  proof (cases "attr_label a = None")
    case True
    then show ?thesis using Cons attr_text_None [OF True] by (simp add: e)
  next
    case False
    obtain str1 where s: "snprintf_at str (length t) (attr_text a v) = Some (str1, length (attr_text a v))"
      "holds str1 (t @ attr_text a v)" using snprintf_holds [OF Cons.prems(1,2)] by blast
    show ?thesis
    proof (cases "length (t @ attr_text a v) \<le> 128")
      case True
      then show ?thesis using Cons.IH [OF s(2) True] Cons.prems(3) s(1) False by (auto simp: e add.assoc)
    next
      case over: False
      then have none: "attr_text b w = []" if "(b, w) \<in> set es" for b w
        using that Cons.prems(3) attr_text_length [of b w] attr_text_None [of b w]
        by (cases "attr_label b = None") (auto simp: e subject_text_def dest!: split_list)
      have "subject_loop es str1 n = Some (str1, n)" for n
        using none by (induction es) (auto split: prod.splits, metis attr_text_length le_zero_eq list.size(3) numeral_eq_iff option.distinct(1) zero_neq_numeral)
      moreover have "subject_text es = []" using none by (auto simp: subject_text_def)
      ultimately show ?thesis using s False by (auto simp: e)
    qed
  qed
qed simp

lemma snprintf_at_length: "snprintf_at str n u = Some (str', k) \<Longrightarrow> length str' = length str \<and> k = length u"
  by (auto simp: snprintf_at_def split: if_splits Option.bind_splits dest: buf_write_length)

lemma subject_loop_length:
  "subject_loop es str n = Some (str', n') \<Longrightarrow> length str' = length str \<and> n' = n + length (subject_text es)"
proof (induction es arbitrary: str n)
  case (Cons e es)
  obtain a v where e: "e = (a, v)" by (cases e)
  show ?case
  proof (cases "attr_label a = None")
    case True
    then show ?thesis using Cons attr_text_None [OF True] by (simp add: e)
  next
    case False
    then obtain str1 k where s: "snprintf_at str n (attr_text a v) = Some (str1, k)" "subject_loop es str1 (n + k) = Some (str', n')"
      using Cons.prems by (auto simp: e split: Option.bind_splits)
    show ?thesis using Cons.IH [OF s(2)] snprintf_at_length [OF s(1)] by (simp add: e)
  qed
qed simp

text \<open>
  C25: the subject of a certificate as one line. With all entries in their printed form in a
  row, the result is this text without its last comma and blank as long as the text has at
  most 129 bytes; for a longer one (the bytes come from the certificate) the function
  writes behind the 128 bytes of its array.
\<close>

theorem getCertSubjectString_bounds:
  assumes "mpX509 c = Some x"
  shows "getCertSubjectString c =
    (let t = subject_text (subject x) in
     if 129 < length t then None else if length t \<le> 2 then Some None else Some (Some (take (length t - 2) t)))"
proof (cases "129 < length (subject_text (subject x))")
  case True
  have "buf_write str (n - 2) [0 :: u8] = None" "2 < n"
    if "subject_loop (subject x) (replicate 128 0) 0 = Some (str, n)" for str n
    using subject_loop_length [OF that] True by (simp_all add: buf_write_def)
  then show ?thesis
    using True assms by (cases "subject_loop (subject x) (replicate 128 0) 0") (auto simp: getCertSubjectString_def)
next
  case False
  define t where "t = subject_text (subject x)"
  have "holds (replicate 128 0) []" by (simp add: holds_def)
  from subject_loop_holds [OF this, of "subject x"] False obtain str where
    s: "subject_loop (subject x) (replicate 128 0) 0 = Some (str, length t)" "holds str t"
    by (auto simp: t_def)
  have l: "length t \<le> 129" "length str = 128" using False s(2) by (simp_all add: t_def holds_def)
  have "length t - 2 \<le> min 127 (length t)" using l by simp
  then have "take (length t - 2) str = take (length t - 2) (take (min 127 (length t)) str)"
    by (simp only: take_take min_absorb1)
  also have "\<dots> = take (length t - 2) (take 127 t)" using s(2) by (simp only: holds_def)
  also have "\<dots> = take (length t - 2) t" using l by (simp add: min_absorb1)
  finally have "take (length t - 2) str = take (length t - 2) t" .
  then show ?thesis
    using s(1) l False assms by (simp add: getCertSubjectString_def t_def [symmetric] Let_def)
qed

definition ex_subject :: "u8 list \<Rightarrow> x509" where
  "ex_subject cn = \<lparr>subject = [(Country, map of_char ''CH''), (Organization, map of_char ''Linux strongSwan''), (Common_name, cn)],
     extensions = None, der_bytes = []\<rparr>"

lemma getCertSubjectString_bounds_witness:
  "getCertSubjectString (certX509_init\<lparr>mpX509 := Some (ex_subject (map of_char ''carol''))\<rparr>) =
     Some (Some (map of_char ''C = CH, O = Linux strongSwan, CN = carol'')) \<and>
   getCertSubjectString (certX509_init\<lparr>mpX509 := Some (ex_subject (replicate 100 65))\<rparr>) = None"
  using getCertSubjectString_bounds [of "certX509_init\<lparr>mpX509 := Some (ex_subject (map of_char ''carol''))\<rparr>" "ex_subject (map of_char ''carol'')"]
    getCertSubjectString_bounds [of "certX509_init\<lparr>mpX509 := Some (ex_subject (replicate 100 65))\<rparr>" "ex_subject (replicate 100 65)"]
  by (simp add: ex_subject_def attr_text_def c_str_def Let_def)

section \<open>The flags\<close>

text \<open>The extensions that are looked at: all up to the first one that is refused.\<close>

fun ext_ok :: "cert_ext \<Rightarrow> bool option" where
  "ext_ok (Basic_constraints v) = Some (v \<noteq> None)"
| "ext_ok (Key_usage v) = Some (v \<noteq> None)"
| "ext_ok (Auth_key_identifier v) = Some v"
| "ext_ok Subject_key_identifier = Some True"
| "ext_ok (Ext_key_usage v) = Some (v \<noteq> None)"
| "ext_ok Listed = None"
| "ext_ok (Unknown critical) = Some (\<not> critical)"

lemma snd_parse_ext: "snd (parse_ext e c) = ext_ok e"
  by (cases e)
     (auto simp: parseBasicConstraintsExt_def parseKeyUsageExt_def parseAuthKeyIdentifierExt_def
        parseSubjectKeyIdentifierExt_def parseExtKeyUsageExt_def Let_def split: option.splits list.splits)

fun considered :: "cert_ext list \<Rightarrow> cert_ext list" where
  "considered [] = []"
| "considered (e # es) = e # (if ext_ok e = Some True then considered es else [])"

lemma parse_exts_defined: "parse_exts es c \<noteq> None \<longleftrightarrow> Listed \<notin> set (considered es)"
proof (induction es arbitrary: c)
  case (Cons e es)
  obtain c' where p: "parse_ext e c = (c', ext_ok e)" using snd_parse_ext [of e c] by (metis prod.collapse)
  show ?case using Cons.IH [of c'] p by (cases e) (auto split: if_splits)
qed simp

lemma fold_flags_CA: "mCertFlags (fold (\<lambda>u c. setCertFlag (usage_flag u) c) us c) AND X509_CA = mCertFlags c AND X509_CA"
proof (induction us arbitrary: c)
  case (Cons u us)
  have "usage_flag u AND X509_CA = 0" by (cases u) simp_all
  then show ?case using Cons.IH [of "setCertFlag (usage_flag u) c"] by (simp add: setCertFlag_def bit.conj_disj_distrib2)
qed simp

lemma parse_ext_CA:
  "mCertFlags (fst (parse_ext e c)) AND X509_CA \<noteq> 0 \<longleftrightarrow>
     mCertFlags c AND X509_CA \<noteq> 0 \<or> (\<exists>p. e = Basic_constraints (Some (True, p)))"
proof -
  have "X509_CA AND X509_CA \<noteq> 0" "X509_CRL_SIGN AND X509_CA = 0" by simp_all
  moreover have "(x OR X509_CA) AND X509_CA \<noteq> 0" for x :: u32
    by (metis and.left_idem bit.conj_disj_distrib2 or_eq_0_iff and.idem one_neq_zero)
  ultimately show ?thesis
    by (cases e)
      (auto simp: parseBasicConstraintsExt_def parseKeyUsageExt_def parseAuthKeyIdentifierExt_def fold_flags_CA
        parseSubjectKeyIdentifierExt_def parseExtKeyUsageExt_def Let_def setCertFlag_def bit.conj_disj_distrib2
        split: option.splits list.splits)
qed

lemma parse_exts_CA:
  "parse_exts es c = Some c' \<Longrightarrow>
     mCertFlags c' AND X509_CA \<noteq> 0 \<longleftrightarrow>
     mCertFlags c AND X509_CA \<noteq> 0 \<or> (\<exists>p. Basic_constraints (Some (True, p)) \<in> set (considered es))"
proof (induction es arbitrary: c)
  case (Cons e es)
  obtain c1 where p: "parse_ext e c = (c1, ext_ok e)" using snd_parse_ext [of e c] by (metis prod.collapse)
  have ca: "mCertFlags c1 AND X509_CA \<noteq> 0 \<longleftrightarrow> mCertFlags c AND X509_CA \<noteq> 0 \<or> (\<exists>p. e = Basic_constraints (Some (True, p)))"
    using parse_ext_CA [of e c] p by simp
  show ?case
  proof (cases "ext_ok e")
    case None
    then show ?thesis using Cons.prems p by simp
  next
    case (Some ok)
    then show ?thesis using Cons.prems Cons.IH [of c1] p ca by (cases ok) auto
  qed
qed simp

end
