(* ===== verification/Cred.thy ===== *)
theory Cred
  imports Lexparser Asn1 CertX509
begin

text \<open>
  The credential managers of \<^verbatim>\<open>library/credentials\<close>: \<^verbatim>\<open>certMgr.cpp\<close>, \<^verbatim>\<open>privateKeyMgr.cpp\<close> and
  \<^verbatim>\<open>credMgr.cpp\<close>, on top of the scanner, the ASN.1 parser and the certificates.

  The file system is a function from path names to what the system calls give for the file.
  A private key is what OpenSSL makes of a file (\<open>None\<close> when it fails), given by a function of
  the kind of key, the encoding, the path and the passphrase. The outer \<open>None\<close> of an
  operation is undefined behaviour, as in the components below.
\<close>

section \<open>Encodings (certMgr.cpp, privateKeyMgr.cpp)\<close>

datatype encoding = ENCODING_PEM | ENCODING_DER

text \<open>
  \<^verbatim>\<open>getCertEncoding\<close> and \<^verbatim>\<open>getKeyEncoding\<close> are the same code: the first ten bytes, or a DER object.
  \<open>None\<close> inside is \<^verbatim>\<open>STATUS_FAILED\<close>.
\<close>

definition getCertEncoding :: "file_env \<Rightarrow> encoding option option" where
  "getCertEncoding f =
     (if \<not> open_ok f then Some None
      else if \<not> fstat_ok f then Some None
      else if \<not> malloc_ok f then Some None
      else do {
        r \<leftarrow> read_loop (st_size f) (reads f) (take (st_size f) (fresh f)) 0;
        case r of
          None \<Rightarrow> Some None
        | Some buf \<Rightarrow> do {
            pem \<leftarrow> (if 10 \<le> st_size f then prefix_at buf 0 (asc ''-----BEGIN'') else Some False);
            if pem then Some (Some ENCODING_PEM)
            else do {
              der \<leftarrow> isAsn1Encode buf \<lparr>cptr = Some 0, clen = of_nat (st_size f)\<rparr>;
              Some (if der then Some ENCODING_DER else None) } } })"

definition getKeyEncoding :: "file_env \<Rightarrow> encoding option option" where
  "getKeyEncoding f = getCertEncoding f"

section \<open>Private keys (privateKeyMgr.cpp)\<close>

datatype key_class = RSA_key | EC_key

type_synonym path = "u8 list"
type_synonym 'k key_loader = "key_class \<Rightarrow> encoding \<Rightarrow> path \<Rightarrow> u8 list option \<Rightarrow> 'k option"

record 'k privateKeyMgr =
  mPriKeyList :: "'k list"

text \<open>The result is the manager and the key that is returned (\<open>None\<close> inside: \<^verbatim>\<open>NULL\<close>).\<close>

definition loadRsaPrivateKey ::
  "(path \<Rightarrow> file_env) \<Rightarrow> 'k key_loader \<Rightarrow> path \<Rightarrow> u8 list option \<Rightarrow> 'k privateKeyMgr
    \<Rightarrow> ('k privateKeyMgr \<times> 'k option) option" where
  "loadRsaPrivateKey fs ssl filename secret mgr =
     do { enc \<leftarrow> getKeyEncoding (fs filename);
          case enc of
            None \<Rightarrow> Some (mgr, None)
          | Some e \<Rightarrow>
              (case ssl RSA_key e filename (if e = ENCODING_PEM then secret else None) of
                 None \<Rightarrow> Some (mgr, None)
               | Some k \<Rightarrow> Some (mgr\<lparr>mPriKeyList := mPriKeyList mgr @ [k]\<rparr>, Some k)) }"

definition loadEcPrivateKey ::
  "(path \<Rightarrow> file_env) \<Rightarrow> 'k key_loader \<Rightarrow> path \<Rightarrow> u8 list option \<Rightarrow> 'k privateKeyMgr
    \<Rightarrow> ('k privateKeyMgr \<times> 'k option) option" where
  "loadEcPrivateKey fs ssl filename secret mgr =
     do { enc \<leftarrow> getKeyEncoding (fs filename);
          case enc of
            None \<Rightarrow> Some (mgr, None)
          | Some e \<Rightarrow>
              (case ssl EC_key e filename (if e = ENCODING_PEM then secret else None) of
                 None \<Rightarrow> Some (mgr, None)
               | Some k \<Rightarrow> Some (mgr\<lparr>mPriKeyList := mPriKeyList mgr @ [k]\<rparr>, Some k)) }"

section \<open>Certificates (certMgr.cpp)\<close>

record certMgr =
  mCertList :: "certX509 list"

definition loadByEncoding :: "(path \<Rightarrow> ssl_file) \<Rightarrow> encoding \<Rightarrow> path \<Rightarrow> certX509 option" where
  "loadByEncoding ssl e filename =
     (case e of
        ENCODING_PEM \<Rightarrow> map_option fst (loadX509CertFromPEM (ssl filename) certX509_init)
      | ENCODING_DER \<Rightarrow> map_option fst (loadX509CertFromDER (ssl filename) certX509_init))"

text \<open>The subject is read for the log after the certificate is in the list.\<close>

definition loadX509CaCert ::
  "(path \<Rightarrow> file_env) \<Rightarrow> (path \<Rightarrow> ssl_file) \<Rightarrow> path \<Rightarrow> certMgr \<Rightarrow> (certMgr \<times> certX509 option) option" where
  "loadX509CaCert fs ssl filename mgr =
     do { enc \<leftarrow> getCertEncoding (fs filename);
          case enc of
            None \<Rightarrow> Some (mgr, None)
          | Some e \<Rightarrow> do {
              pCert \<leftarrow> loadByEncoding ssl e filename;
              if getCertFlag pCert AND X509_CA = 0 then Some (mgr, None)
              else do { _ \<leftarrow> getCertSubjectString pCert;
                        Some (mgr\<lparr>mCertList := mCertList mgr @ [pCert]\<rparr>, Some pCert) } } }"

definition loadX509AaCert ::
  "(path \<Rightarrow> file_env) \<Rightarrow> (path \<Rightarrow> ssl_file) \<Rightarrow> path \<Rightarrow> certMgr \<Rightarrow> (certMgr \<times> certX509 option) option" where
  "loadX509AaCert fs ssl filename mgr =
     do { enc \<leftarrow> getCertEncoding (fs filename);
          case enc of
            None \<Rightarrow> Some (mgr, None)
          | Some e \<Rightarrow> do {
              pCert0 \<leftarrow> loadByEncoding ssl e filename;
              let pCert = setCertFlag X509_AA pCert0
              in do { _ \<leftarrow> getCertSubjectString pCert;
                      Some (mgr\<lparr>mCertList := mCertList mgr @ [pCert]\<rparr>, Some pCert) } } }"

definition loadX509Cert ::
  "(path \<Rightarrow> file_env) \<Rightarrow> (path \<Rightarrow> ssl_file) \<Rightarrow> path \<Rightarrow> certMgr \<Rightarrow> (certMgr \<times> certX509 option) option" where
  "loadX509Cert fs ssl filename mgr =
     do { enc \<leftarrow> getCertEncoding (fs filename);
          case enc of
            None \<Rightarrow> Some (mgr, None)
          | Some e \<Rightarrow> do {
              pCert \<leftarrow> loadByEncoding ssl e filename;
              _ \<leftarrow> getCertSubjectString pCert;
              Some (mgr\<lparr>mCertList := mCertList mgr @ [pCert]\<rparr>, Some pCert) } }"

definition loadX509CrlCert :: "path \<Rightarrow> certMgr \<Rightarrow> certMgr \<times> certX509 option" where
  "loadX509CrlCert filename mgr = (mgr\<lparr>mCertList := mCertList mgr @ [certX509_init]\<rparr>, Some certX509_init)"

definition loadX509AttCert :: "path \<Rightarrow> certMgr \<Rightarrow> certMgr \<times> certX509 option" where
  "loadX509AttCert filename mgr = (mgr\<lparr>mCertList := mCertList mgr @ [certX509_init]\<rparr>, Some certX509_init)"

text \<open>
  \<^verbatim>\<open>getFingerprint\<close>: both digests are OpenSSL's; the second one is over the parsed certificate. The
  inner \<open>None\<close> is \<^verbatim>\<open>STATUS_FAILED\<close>, with \<^verbatim>\<open>fp\<close> untouched.
\<close>

datatype eKeyidType_t = KEYID_PUBKEY_INFO_SHA1 | KEYID_PUBKEY_SHA1 | KEYID_OTHER

definition getFingerprint ::
  "(u8 list \<Rightarrow> u8 list) \<Rightarrow> (x509 \<Rightarrow> u8 list) \<Rightarrow> eKeyidType_t \<Rightarrow> certX509 \<Rightarrow> u8 list option option" where
  "getFingerprint evp_digest pubkey_digest t c =
     (case t of
        KEYID_PUBKEY_INFO_SHA1 \<Rightarrow> map_option Some (calculatePublicKeyInfoHash evp_digest (der_block c) (mDerEncoding c))
      | KEYID_PUBKEY_SHA1 \<Rightarrow> (case mpX509 c of None \<Rightarrow> None | Some x \<Rightarrow> Some (Some (pubkey_digest x)))
      | KEYID_OTHER \<Rightarrow> Some None)"

section \<open>Certificate directories (credMgr.cpp)\<close>

datatype certificate_type = CERT_X509 | CERT_X509_CRL | CERT_X509_AC | CERT_OTHER

definition loadCertByType ::
  "(path \<Rightarrow> file_env) \<Rightarrow> (path \<Rightarrow> ssl_file) \<Rightarrow> path \<Rightarrow> certificate_type \<Rightarrow> u32 \<Rightarrow> certMgr \<Rightarrow> certMgr option" where
  "loadCertByType fs ssl file certType certFlag mgr =
     (case certType of
        CERT_X509 \<Rightarrow>
          (if certFlag AND X509_CA \<noteq> 0 then map_option fst (loadX509CaCert fs ssl file mgr)
           else if certFlag AND X509_AA \<noteq> 0 then map_option fst (loadX509AaCert fs ssl file mgr)
           else map_option fst (loadX509Cert fs ssl file mgr))
      | CERT_X509_CRL \<Rightarrow> Some (fst (loadX509CrlCert file mgr))
      | CERT_X509_AC \<Rightarrow> Some (fst (loadX509AttCert file mgr))
      | CERT_OTHER \<Rightarrow> Some mgr)"

text \<open>
  A directory is the list of the names that \<^verbatim>\<open>readdir\<close> gives, \<open>None\<close> when \<^verbatim>\<open>opendir\<close> fails; whether
  a path is a regular file is a function of it. The path is built in 128 bytes, the last two
  of which are not used for text.
\<close>

definition dir_prefix :: "path \<Rightarrow> path option" where
  "dir_prefix p0 =
     (let p = (if p0 = [] then asc ''./'' else p0)
      in if 127 \<le> length p then None
         else Some (if last p \<noteq> 47 then p @ [47] else p))"

fun dir_loop ::
  "(path \<Rightarrow> file_env) \<Rightarrow> (path \<Rightarrow> ssl_file) \<Rightarrow> (path \<Rightarrow> bool) \<Rightarrow> path \<Rightarrow> certificate_type \<Rightarrow> u32
    \<Rightarrow> path list \<Rightarrow> certMgr \<Rightarrow> (certMgr \<times> Status_e) option" where
  "dir_loop fs ssl regular dirname certType certFlag [] mgr = Some (mgr, STATUS_SUCCESS)"
| "dir_loop fs ssl regular dirname certType certFlag (entry # names) mgr =
     (if entry = asc ''.'' \<or> entry = asc ''..'' then dir_loop fs ssl regular dirname certType certFlag names mgr
      else if 128 - length dirname - 1 \<le> length entry then Some (mgr, STATUS_FAILED)
      else if \<not> regular (dirname @ entry) then dir_loop fs ssl regular dirname certType certFlag names mgr
      else do { mgr' \<leftarrow> loadCertByType fs ssl (dirname @ entry) certType certFlag mgr;
                dir_loop fs ssl regular dirname certType certFlag names mgr' })"

definition loadCertDir ::
  "(path \<Rightarrow> file_env) \<Rightarrow> (path \<Rightarrow> ssl_file) \<Rightarrow> (path \<Rightarrow> bool) \<Rightarrow> (path \<Rightarrow> path list option) \<Rightarrow> path \<Rightarrow> certificate_type \<Rightarrow> u32
    \<Rightarrow> certMgr \<Rightarrow> (certMgr \<times> Status_e) option" where
  "loadCertDir fs ssl regular dirs path certType certFlag mgr =
     (case dir_prefix path of
        None \<Rightarrow> Some (mgr, STATUS_FAILED)
      | Some dirname \<Rightarrow>
          (case dirs (if path = [] then asc ''./'' else path) of
             None \<Rightarrow> Some (mgr, STATUS_FAILED)
           | Some names \<Rightarrow> dir_loop fs ssl regular dirname certType certFlag names mgr))"

definition loadCerts ::
  "(path \<Rightarrow> file_env) \<Rightarrow> (path \<Rightarrow> ssl_file) \<Rightarrow> (path \<Rightarrow> bool) \<Rightarrow> (path \<Rightarrow> path list option) \<Rightarrow> certMgr \<Rightarrow> certMgr option" where
  "loadCerts fs ssl regular dirs mgr =
     do { (m1, _) \<leftarrow> loadCertDir fs ssl regular dirs (asc ''/usr/local/etc/ipsec.d/cacerts'') CERT_X509 X509_CA mgr;
          (m2, _) \<leftarrow> loadCertDir fs ssl regular dirs (asc ''/usr/local/etc/ipsec.d/aacerts'') CERT_X509 X509_AA m1;
          (m3, _) \<leftarrow> loadCertDir fs ssl regular dirs (asc ''/usr/local/etc/ipsec.d/ocspcerts'') CERT_X509 X509_OCSP_SIGNER m2;
          (m4, _) \<leftarrow> loadCertDir fs ssl regular dirs (asc ''/usr/local/etc/ipsec.d/acerts'') CERT_X509_AC 0 m3;
          (m5, _) \<leftarrow> loadCertDir fs ssl regular dirs (asc ''/usr/local/etc/ipsec.d/crls'') CERT_X509_CRL 0 m4;
          Some m5 }"

section \<open>The secrets file (credMgr.cpp)\<close>

datatype key_type = KEY_RSA | KEY_ECDSA | KEY_BLISS

definition token_is :: "mem \<Rightarrow> chunk_v \<Rightarrow> string \<Rightarrow> bool option" where
  "token_is m token s =
     (if unat (clen token) = length s then do { p \<leftarrow> cptr token; prefix_at m p (asc s) } else Some False)"

text \<open>\<open>None\<close> inside is \<^verbatim>\<open>STATUS_FAILED\<close>.\<close>

definition getKeyType :: "mem \<Rightarrow> chunk_v \<Rightarrow> key_type option option" where
  "getKeyType m token =
     do { rsa \<leftarrow> token_is m token ''RSA'';
          if rsa then Some (Some KEY_RSA)
          else do { ec \<leftarrow> token_is m token ''ECDSA'';
                    if ec then Some (Some KEY_ECDSA)
                    else do { bliss \<leftarrow> token_is m token ''BLISS'';
                              Some (if bliss then Some KEY_BLISS else None) } } }"

definition loadPriKeyByType ::
  "(path \<Rightarrow> file_env) \<Rightarrow> 'k key_loader \<Rightarrow> path \<Rightarrow> key_type \<Rightarrow> u8 list option \<Rightarrow> 'k privateKeyMgr \<Rightarrow> 'k privateKeyMgr option" where
  "loadPriKeyByType fs ssl file keyType secret mgr =
     (case keyType of
        KEY_RSA \<Rightarrow> map_option fst (loadRsaPrivateKey fs ssl file secret mgr)
      | KEY_ECDSA \<Rightarrow> map_option fst (loadEcPrivateKey fs ssl file secret mgr)
      | KEY_BLISS \<Rightarrow> Some mgr)"

text \<open>\<^verbatim>\<open>%s\<close> reads up to a zero byte, \<^verbatim>\<open>%.*s\<close> at most \<open>n\<close> bytes.\<close>

fun str_prec :: "mem \<Rightarrow> nat \<Rightarrow> nat \<Rightarrow> u8 list option" where
  "str_prec m a 0 = Some []"
| "str_prec m a (Suc n) =
     (if a < length m then if m ! a = 0 then Some [] else map_option ((#) (m ! a)) (str_prec m (Suc a) n) else None)"

definition str_read :: "mem \<Rightarrow> nat \<Rightarrow> u8 list option" where
  "str_read m a = (if a \<le> length m \<and> 0 \<in> set (drop a m) then Some (takeWhile (\<lambda>b. b \<noteq> 0) (drop a m)) else None)"

text \<open>A negative precision, from a length of \<open>2 ^ 31\<close> or more, counts as none.\<close>

definition print_prec :: "mem \<Rightarrow> nat \<Rightarrow> u32 \<Rightarrow> u8 list option" where
  "print_prec m a n = (if unat n < 2 ^ 31 then str_prec m a (unat n) else str_read m a)"

definition PRIVATE_KEY_DIR :: path where
  "PRIVATE_KEY_DIR = asc ''/usr/local/etc/ipsec.d/private''"

text \<open>The path in an array of 128 bytes; \<^verbatim>\<open>snprintf\<close> is told 127, so 126 bytes of text remain.\<close>

definition secret_path :: "mem \<Rightarrow> chunk_v \<Rightarrow> path option" where
  "secret_path m filename =
     do { a \<leftarrow> cptr filename;
          c \<leftarrow> load m (cptr filename) 0;
          fname \<leftarrow> print_prec m a (clen filename);
          Some (take 126 (if c = 47 then fname else PRIVATE_KEY_DIR @ [47] @ fname)) }"

text \<open>What a line asks for: nothing, the end of the loop, or a key.\<close>

datatype line_result = Skip | Stop | Load path key_type "u8 list option"

definition secrets_line :: "mem \<Rightarrow> chunk_v \<Rightarrow> chunk_v \<Rightarrow> (chunk_v \<times> line_result) option" where
  "secrets_line m line0 filename =
     do { a \<leftarrow> cptr line0;
          _ \<leftarrow> str_read m a;
          (line, more) \<leftarrow> eatWhitespace m line0;
          if \<not> more then Some (filename, Skip)
          else do {
            sep \<leftarrow> (if 2 < clen line then do { p \<leftarrow> cptr line; prefix_at m p (asc '': '') } else Some False);
            if \<not> sep then Some (filename, Stop)
            else do {
              (line1, more1) \<leftarrow> eatWhitespace m (line\<lparr>cptr := map_option Suc (cptr line), clen := clen line - 1\<rparr>);
              if \<not> more1 then Some (filename, Stop)
              else do {
                (line2, token, st) \<leftarrow> extractToken m line1 32;
                if st = STATUS_FAILED then Some (filename, Stop)
                else do {
                  kt \<leftarrow> getKeyType m token;
                  case kt of
                    None \<Rightarrow> Some (filename, Stop)
                  | Some keyType \<Rightarrow> do {
                      (line3, filename', secret, st') \<leftarrow> extractFilenameSecret m line2 filename;
                      if clen filename' = 0 then Some (filename', Stop)
                      else do { file \<leftarrow> secret_path m filename'; Some (filename', Load file keyType secret) } } } } } } }"

partial_function (option) secrets_loop ::
  "(path \<Rightarrow> key_type \<Rightarrow> u8 list option \<Rightarrow> 's \<Rightarrow> 's option) \<Rightarrow> mem \<Rightarrow> chunk_v \<Rightarrow> chunk_v \<Rightarrow> chunk_v \<Rightarrow> 's \<Rightarrow> 's option" where
  "secrets_loop ld m src line filename s =
     do { (m1, src1, line1, st) \<leftarrow> fetchLine m src line;
          if st \<noteq> STATUS_SUCCESS then Some s
          else do {
            (filename1, r) \<leftarrow> secrets_line m1 line1 filename;
            case r of
              Stop \<Rightarrow> Some s
            | Skip \<Rightarrow> secrets_loop ld m1 src1 line1 filename1 s
            | Load file keyType secret \<Rightarrow> do {
                s' \<leftarrow> ld file keyType secret s;
                secrets_loop ld m1 src1 line1 filename1 s' } } }"

text \<open>The status of \<^verbatim>\<open>getChunkFromFile\<close> is not looked at: \<^verbatim>\<open>data\<close> is empty when it fails.\<close>

definition loadSecrets ::
  "(path \<Rightarrow> file_env) \<Rightarrow> 'k key_loader \<Rightarrow> 'k privateKeyMgr \<Rightarrow> 'k privateKeyMgr option" where
  "loadSecrets fs ssl mgr =
     do { (st, r) \<leftarrow> getChunkFromFile (fs (asc ''/usr/local/etc/ipsec.secrets''));
          let (m, data) = (case r of None \<Rightarrow> ([], chunk_empty) | Some x \<Rightarrow> x)
          in secrets_loop (loadPriKeyByType fs ssl) m data chunk_empty chunk_empty mgr }"

end
