(* ===== verification/CredProps.thy ===== *)
theory CredProps
  imports Cred PemProps Asn1Safe
begin

text \<open>
  The theorems about the credential managers: which encoding a file is taken for, what the
  secrets file loads, and which certificates end up in the list.
\<close>

section \<open>Scanning a line that ends with a zero byte\<close>

definition at :: "mem \<Rightarrow> nat \<Rightarrow> u8 list \<Rightarrow> bool" where
  "at m a x \<longleftrightarrow> (\<exists>r. drop a m = x @ 0 # r) \<and> length x < 2 ^ 31"

lemma at_append:
  assumes "at m a (u @ x)"
  shows "at m (a + length u) x"
proof -
  obtain r where r: "drop a m = (u @ x) @ 0 # r" "length (u @ x) < 2 ^ 31" using assms by (auto simp: at_def)
  have "drop (a + length u) m = x @ 0 # r"
    using arg_cong [OF r(1), of "drop (length u)"] by (simp add: add.commute)
  then show ?thesis using r(2) by (auto simp: at_def)
qed

lemma at_Cons: "at m a (c # x) \<Longrightarrow> at m (Suc a) x \<and> a < length m \<and> m ! a = c"
  using at_append [of m a "[c]" x] drop_split [of a m c] by (auto simp: at_def)













lemma str_prec_at: "at m a x \<Longrightarrow> 0 \<notin> set x \<Longrightarrow> str_prec m a (length x) = Some x"
proof (induction x arbitrary: a)
  case (Cons c x)
  then show ?case using at_Cons [OF Cons.prems(1)] by simp
qed simp



section \<open>The lines of the secrets file\<close>



















section \<open>The loop\<close>





section \<open>Encodings\<close>





section \<open>The theorems\<close>



abbreviation "SECRETS_FILE \<equiv> asc ''/usr/local/etc/ipsec.secrets''"










end
