(* ===== verification/Bytes.thy ===== *)
theory Bytes
  imports Chunk
begin

text \<open>
  Integers in memory, low byte first: what the messages of \<^verbatim>\<open>library/xfrm\<close> read and write
  through the structures of the kernel headers.
\<close>

definition le16 :: "u16 \<Rightarrow> u8 list" where
  "le16 w = [ucast w, ucast (drop_bit 8 w)]"

definition le32 :: "u32 \<Rightarrow> u8 list" where
  "le32 w = [ucast w, ucast (drop_bit 8 w), ucast (drop_bit 16 w), ucast (drop_bit 24 w)]"

fun of_le16 :: "u8 list \<Rightarrow> u16" where
  "of_le16 [a, b] = ucast a OR push_bit 8 (ucast b)"
| "of_le16 _ = 0"

fun of_le32 :: "u8 list \<Rightarrow> u32" where
  "of_le32 [a, b, c, d] = ucast a OR push_bit 8 (ucast b) OR push_bit 16 (ucast c) OR push_bit 24 (ucast d)"
| "of_le32 _ = 0"

definition get8 :: "mem \<Rightarrow> nat \<Rightarrow> u8 option" where
  "get8 m a = load m (Some a) 0"

definition get16 :: "mem \<Rightarrow> nat \<Rightarrow> u16 option" where
  "get16 m a = map_option of_le16 (buf_read m a 2)"

definition get32 :: "mem \<Rightarrow> nat \<Rightarrow> u32 option" where
  "get32 m a = map_option of_le32 (buf_read m a 4)"

definition put8 :: "mem \<Rightarrow> nat \<Rightarrow> u8 \<Rightarrow> mem option" where
  "put8 m a b = buf_write m a [b]"

definition put16 :: "mem \<Rightarrow> nat \<Rightarrow> u16 \<Rightarrow> mem option" where
  "put16 m a w = buf_write m a (le16 w)"

definition put32 :: "mem \<Rightarrow> nat \<Rightarrow> u32 \<Rightarrow> mem option" where
  "put32 m a w = buf_write m a (le32 w)"

lemma length_le [simp]: "length (le16 w) = 2" "length (le32 v) = 4"
  by (simp_all add: le16_def le32_def)

lemma of_le16_le16 [simp]: "of_le16 (le16 w) = w"
  by (rule bit_word_eqI) (auto simp: le16_def bit_simps)

lemma of_le32_le32 [simp]: "of_le32 (le32 w) = w"
proof (rule bit_word_eqI)
  fix n assume "n < LENGTH(32)"
  then consider "n < 8" | "8 \<le> n" "n < 16" | "16 \<le> n" "n < 24" | "24 \<le> n" "n < 32" by fastforce
  then show "bit (of_le32 (le32 w)) n \<longleftrightarrow> bit w n"
    by cases (auto simp: le32_def bit_simps)
qed

section \<open>Reading and writing at the end of a prefix\<close>

text \<open>
  Memory is seen as \<open>u @ v\<close> with an access at \<open>length u\<close>, so that a sequence of writes is
  followed by rewriting.
\<close>

lemma get8_at: "length u = a \<Longrightarrow> get8 (u @ b # v) a = Some b"
  by (simp add: get8_def load_def nth_append)

lemma get16_at: "length u = a \<Longrightarrow> get16 (u @ le16 w @ v) a = Some w"
  by (simp add: get16_def)

lemma get32_at: "length u = a \<Longrightarrow> get32 (u @ le32 w @ v) a = Some w"
  by (simp add: get32_def)

lemma write_at: "length u = a \<Longrightarrow> length y = length x \<Longrightarrow> buf_write (u @ x @ v) a y = Some (u @ y @ v)"
  by simp

lemma get16_none: "length m < a + 2 \<Longrightarrow> get16 m a = None"
  by (simp add: get16_def buf_read_def)

end
