(* ===== verification/KernelIo.thy ===== *)
theory KernelIo
  imports Bytes Status
begin

text \<open>
  What the two clients of the kernel in \<^verbatim>\<open>library/xfrm\<close> share: the sockets they talk through and
  the family of an address. The kernel is the results of the calls of \<^verbatim>\<open>send\<close> and \<^verbatim>\<open>recv\<close>, in
  order; a call with no result left waits for ever.
\<close>

abbreviation (input) "AF_INET \<equiv> (2 :: u16)"

text \<open>
  The result of \<^verbatim>\<open>send\<close> and whether \<^verbatim>\<open>errno\<close> is \<^verbatim>\<open>EINTR\<close> after it; the bytes that \<^verbatim>\<open>recv\<close> gave, or
  an error with the same flag.
\<close>

datatype recv_result = Recv_error bool | Received "u8 list"

record kernel_io =
  sends :: "(int \<times> bool) list"
  recvs :: "recv_result list"
  out_ok :: bool

datatype 'a io = Waiting | Done 'a

fun send_loop :: "int \<Rightarrow> (int \<times> bool) list \<Rightarrow> bool io" where
  "send_loop in_len [] = Waiting"
| "send_loop in_len ((n, eintr) # rs) =
     (if n \<noteq> in_len then if eintr then send_loop in_len rs else Done False else Done True)"

lemma send_loop_retry: "send_loop n (replicate i (- 1, True) @ (n, e) # ss) = Done True" if "0 \<le> n"
  using that by (induction i) simp_all

text \<open>A write elsewhere leaves a field alone.\<close>

lemma buf_write_before:
  fixes m :: mem
  assumes "buf_write m a y = Some m'" "i + n \<le> a"
  shows "buf_read m' i n = buf_read m i n"
proof -
  have m': "m' = take a m @ y @ drop (a + length y) m" "a + length y \<le> length m"
    using assms(1) by (auto simp: buf_write_def split: if_splits)
  have pre: "take n (drop i (u @ z)) = take n (drop i u)" if "i + n \<le> length u" for u z :: mem
  proof -
    have "n - (length u - i) = 0" "i - length u = 0" using that by linarith+
    then show ?thesis by simp
  qed
  have "i + n \<le> length (take a m)" using assms(2) m'(2) by simp
  from pre [OF this, of "y @ drop (a + length y) m"] pre [OF this, of "drop a m"]
  have "take n (drop i m') = take n (drop i m)" by (simp only: m'(1) append_take_drop_id)
  then show ?thesis using m' assms(2) by (simp add: buf_read_def)
qed

end
