(* ===== verification/Pfkey.thy ===== *)
theory Pfkey
  imports KernelIo
begin

text \<open>
  \<^verbatim>\<open>library/xfrm/src/xfrmKernelPfkey.cpp\<close>: requests to the kernel over a PF_KEY socket. Requests
  and replies are bytes in buffers of 4096; the structures of \<^verbatim>\<open><linux/pfkeyv2.h>\<close> are
  offsets as RFC 2367 lays them out, on a little-endian machine:

    \<^item> \<^verbatim>\<open>sadb_msg\<close>: version 0, type 1, errno 2, satype 3, len 4, seq 8, pid 12 (16 bytes);
    \<^item> \<^verbatim>\<open>sadb_ext\<close>: len 0, type 2 (4 bytes); \<^verbatim>\<open>sadb_address\<close>: proto 4, prefixlen 5 (8 bytes);
    \<^item> \<^verbatim>\<open>sadb_spirange\<close>: min 4, max 8 (16 bytes); \<^verbatim>\<open>sadb_sa\<close>: spi 4.

  The kernel is the results of the calls of \<^verbatim>\<open>send\<close> and \<^verbatim>\<open>recv\<close>, in order; a call
  with no result left waits for ever. An access outside a buffer is \<open>None\<close>.
\<close>

section \<open>Constants (RFC 2367, RFC 3493)\<close>

abbreviation (input) "SADB_GETSPI \<equiv> (1 :: u8)"
abbreviation (input) "SADB_REGISTER \<equiv> (7 :: u8)"
abbreviation (input) "SADB_SATYPE_AH \<equiv> (2 :: u8)"
abbreviation (input) "SADB_SATYPE_ESP \<equiv> (3 :: u8)"
abbreviation (input) "SADB_X_SATYPE_IPCOMP \<equiv> (9 :: u8)"
abbreviation (input) "SADB_EXT_SA \<equiv> (1 :: u16)"
abbreviation (input) "SADB_EXT_ADDRESS_SRC \<equiv> (5 :: u16)"
abbreviation (input) "SADB_EXT_ADDRESS_DST \<equiv> (6 :: u16)"
abbreviation (input) "SADB_EXT_SPIRANGE \<equiv> (16 :: u16)"
abbreviation (input) "IPPROTO_ESP \<equiv> (50 :: u8)"
abbreviation (input) "IPPROTO_AH \<equiv> (51 :: u8)"
abbreviation (input) "IPPROTO_COMP \<equiv> (108 :: u8)"
abbreviation (input) "PFKEY_BUFFER_SIZE \<equiv> (4096 :: nat)"

section \<open>The macros of the header\<close>

definition PFKEY_ALIGN :: "nat \<Rightarrow> nat" where
  "PFKEY_ALIGN n = (n + 8 - 1) div 8 * 8"

definition PFKEY_LEN :: "nat \<Rightarrow> nat" where
  "PFKEY_LEN n = PFKEY_ALIGN n div 8"

definition PFKEY_USER_LEN :: "u16 \<Rightarrow> nat" where
  "PFKEY_USER_LEN w = unat w * 8"

text \<open>\<^verbatim>\<open>PFKEY_EXT_ADD_NEXT\<close>: the address behind the message, which starts at 0.\<close>

definition PFKEY_EXT_ADD_NEXT :: "mem \<Rightarrow> nat option" where
  "PFKEY_EXT_ADD_NEXT m = map_option PFKEY_USER_LEN (get16 m 4)"

definition PFKEY_EXT_ADD :: "mem \<Rightarrow> nat \<Rightarrow> mem option" where
  "PFKEY_EXT_ADD m a = do { n \<leftarrow> get16 m 4; k \<leftarrow> get16 m a; put16 m 4 (n + k) }"

section \<open>Messages\<close>

record xfrmKernelPfkey =
  mSocket :: int
  mSocketEvents :: int
  mSequence :: u32
  mConfigSpiMin :: u32
  mConfigSpiMax :: u32

definition xfrmKernelPfkey_init :: xfrmKernelPfkey where
  "xfrmKernelPfkey_init =
     \<lparr>mSocket = 0, mSocketEvents = 0, mSequence = 0, mConfigSpiMin = 0xc0000000, mConfigSpiMax = 0xcfffffff\<rparr>"

definition convertProtoToSaType :: "u8 \<Rightarrow> u8" where
  "convertProtoToSaType protocol =
     (if protocol = IPPROTO_ESP then SADB_SATYPE_ESP
      else if protocol = IPPROTO_AH then SADB_SATYPE_AH
      else if protocol = IPPROTO_COMP then SADB_X_SATYPE_IPCOMP
      else protocol)"

text \<open>A \<^verbatim>\<open>struct sockaddr\<close> is its bytes, the family first; the result is the buffer and the size.\<close>

definition convertIpToXfrm :: "u8 list \<Rightarrow> mem \<Rightarrow> nat \<Rightarrow> (mem \<times> nat) option" where
  "convertIpToXfrm pAddr m a =
     do { family \<leftarrow> get16 pAddr 0;
          let n = (if family = AF_INET then 16 else 28)
          in do { bs \<leftarrow> buf_read pAddr 0 n; m' \<leftarrow> buf_write m a bs; Some (m', n) } }"

definition addAddrExt :: "mem \<Rightarrow> u8 list \<Rightarrow> u16 \<Rightarrow> u8 \<Rightarrow> u8 \<Rightarrow> mem option" where
  "addAddrExt m pAddr t proto prefixlen =
     do { a \<leftarrow> PFKEY_EXT_ADD_NEXT m;
          m1 \<leftarrow> put16 m (a + 2) t;
          m2 \<leftarrow> put8 m1 (a + 4) proto;
          m3 \<leftarrow> put8 m2 (a + 5) prefixlen;
          (m4, n) \<leftarrow> convertIpToXfrm pAddr m3 (a + 8);
          m5 \<leftarrow> put16 m4 a (of_nat (PFKEY_LEN (8 + n)));
          PFKEY_EXT_ADD m5 a }"

text \<open>The request of \<^verbatim>\<open>getSpi\<close>.\<close>

definition spi_request :: "xfrmKernelPfkey \<Rightarrow> u32 \<Rightarrow> u8 list \<Rightarrow> u8 list \<Rightarrow> u8 \<Rightarrow> mem option" where
  "spi_request k pid pSrc pDst protocol =
     do { m1 \<leftarrow> put8 (replicate PFKEY_BUFFER_SIZE 0) 0 2;
          m2 \<leftarrow> put8 m1 1 SADB_GETSPI;
          m3 \<leftarrow> put8 m2 3 (convertProtoToSaType protocol);
          m4 \<leftarrow> put16 m3 4 (of_nat (PFKEY_LEN 16));
          m5 \<leftarrow> put32 m4 8 (mSequence k);
          m6 \<leftarrow> put32 m5 12 pid;
          m7 \<leftarrow> addAddrExt m6 pSrc SADB_EXT_ADDRESS_SRC 0 0;
          m8 \<leftarrow> addAddrExt m7 pDst SADB_EXT_ADDRESS_DST 0 0;
          a \<leftarrow> PFKEY_EXT_ADD_NEXT m8;
          m9 \<leftarrow> put16 m8 (a + 2) SADB_EXT_SPIRANGE;
          m10 \<leftarrow> put16 m9 a (of_nat (PFKEY_LEN 16));
          m11 \<leftarrow> put32 m10 (a + 4) (mConfigSpiMin k);
          m12 \<leftarrow> put32 m11 (a + 8) (mConfigSpiMax k);
          PFKEY_EXT_ADD m12 a }"

definition register_request :: "u8 \<Rightarrow> mem option" where
  "register_request sa_type =
     do { m1 \<leftarrow> put8 (replicate PFKEY_BUFFER_SIZE 0) 0 2;
          m2 \<leftarrow> put8 m1 1 SADB_REGISTER;
          m3 \<leftarrow> put8 m2 3 sa_type;
          put16 m3 4 (of_nat (PFKEY_LEN 16)) }"

section \<open>An exchange with the kernel\<close>

text \<open>\<open>Done None\<close> is \<^verbatim>\<open>STATUS_FAILED\<close>. A reply of the wrong type is only logged.\<close>

fun recv_loop :: "u32 \<Rightarrow> u32 \<Rightarrow> mem \<Rightarrow> recv_result list \<Rightarrow> mem option io option" where
  "recv_loop sequence in_pid buf [] = Some Waiting"
| "recv_loop sequence in_pid buf (Recv_error eintr # rs) =
     (if eintr then recv_loop sequence in_pid buf rs else Some (Done None))"
| "recv_loop sequence in_pid buf (Received bs # rs) =
     (case buf_write buf 0 bs of
        None \<Rightarrow> None
      | Some msg \<Rightarrow>
          (if length bs < 16 then Some (Done None)
           else case (get16 msg 4, get32 msg 12, get32 msg 8) of
              (Some n, Some pid, Some seq) \<Rightarrow>
                if unat n < PFKEY_LEN 16 then Some (Done None)
                else if length bs div 8 < unat n then Some (Done None)
                else if pid \<noteq> in_pid then recv_loop sequence in_pid msg rs
                else if seq \<noteq> sequence \<and> seq \<noteq> 0 then
                  if seq < sequence then recv_loop sequence in_pid msg rs else Some (Done None)
                else map_option (Done \<circ> Some) (buf_read msg 0 (length bs))
            | _ \<Rightarrow> None))"

text \<open>The result is the reply in the block that \<^verbatim>\<open>malloc\<close> gave, whose result is not tested.\<close>

definition sendPfkeySocket :: "u32 \<Rightarrow> mem \<Rightarrow> kernel_io \<Rightarrow> mem option io option" where
  "sendPfkeySocket sequence in_msg k =
     do { n \<leftarrow> get16 in_msg 4;
          in_pid \<leftarrow> get32 in_msg 12;
          _ \<leftarrow> buf_read in_msg 0 (PFKEY_USER_LEN n);
          case send_loop (int (PFKEY_USER_LEN n)) (sends k) of
            Waiting \<Rightarrow> Some Waiting
          | Done False \<Rightarrow> Some (Done None)
          | Done True \<Rightarrow> do {
              r \<leftarrow> recv_loop sequence in_pid (replicate PFKEY_BUFFER_SIZE 0) (recvs k);
              if \<not> out_ok k \<and> r \<noteq> Waiting \<and> r \<noteq> Done None then None else Some r } }"

text \<open>
  The loop of \<^verbatim>\<open>getSpi\<close> over the extensions of the reply: \<open>len\<close> is what is left of \<^verbatim>\<open>len\<close>, the
  parameter \<open>ext_max\<close> is \<^verbatim>\<open>SADB_EXT_MAX\<close>. The result is \<^verbatim>\<open>received_spi\<close>.
\<close>

function spi_scan :: "nat \<Rightarrow> mem \<Rightarrow> nat \<Rightarrow> nat \<Rightarrow> u32 option" where
  "spi_scan ext_max out a n =
     (if n < PFKEY_LEN 4 then Some 0
      else case get16 out a of
          None \<Rightarrow> None
        | Some k \<Rightarrow>
            if unat k < PFKEY_LEN 4 \<or> n < unat k then Some 0
            else case get16 out (a + 2) of
                None \<Rightarrow> None
              | Some t \<Rightarrow>
                  if ext_max < unat t \<or> t = 0 then Some 0
                  else if t = SADB_EXT_SA then get32 out (a + 4)
                  else spi_scan ext_max out (a + PFKEY_USER_LEN k) (n - unat k))"
  by pat_completeness auto
termination by (relation "measure (\<lambda>(ext_max, out, a, n). n)") (auto simp: PFKEY_LEN_def PFKEY_ALIGN_def)

declare spi_scan.simps [simp del]

text \<open>The result is \<^verbatim>\<open>spi\<close>; \<open>Done None\<close> is \<^verbatim>\<open>STATUS_FAILED\<close>.\<close>

definition getSpi ::
  "nat \<Rightarrow> u32 \<Rightarrow> xfrmKernelPfkey \<Rightarrow> u8 list \<Rightarrow> u8 list \<Rightarrow> u8 \<Rightarrow> kernel_io \<Rightarrow> u32 option io option" where
  "getSpi ext_max pid x pSrc pDst protocol k =
     do { msg \<leftarrow> spi_request x pid pSrc pDst protocol;
          r \<leftarrow> sendPfkeySocket (mSequence x) msg k;
          case r of
            Waiting \<Rightarrow> Some Waiting
          | Done None \<Rightarrow> Some (Done None)
          | Done (Some out) \<Rightarrow> do {
              e \<leftarrow> get8 out 2;
              spi \<leftarrow> (if e \<noteq> 0 then Some 0 else spi_scan ext_max out 16 (length out - 16));
              Some (Done (if spi = 0 then None else Some spi)) } }"

definition RegisterPfkeySocket :: "xfrmKernelPfkey \<Rightarrow> u8 \<Rightarrow> kernel_io \<Rightarrow> Status_e io option" where
  "RegisterPfkeySocket x sa_type k =
     do { msg \<leftarrow> register_request sa_type;
          r \<leftarrow> sendPfkeySocket (mSequence x) msg k;
          case r of
            Waiting \<Rightarrow> Some Waiting
          | Done None \<Rightarrow> Some (Done STATUS_FAILED)
          | Done (Some out) \<Rightarrow> do {
              e \<leftarrow> get8 out 2;
              Some (Done (if e \<noteq> 0 then STATUS_FAILED else STATUS_SUCCESS)) } }"

text \<open>
  The descriptors that the two calls of \<^verbatim>\<open>socket\<close> give are arguments. The kernel is reached through
  \<^verbatim>\<open>mSocketEvents\<close>, which stays what it was without \<open>registerEvents\<close>, so it is a function of the descriptor.
\<close>

definition createSocket ::
  "bool \<Rightarrow> int \<Rightarrow> int \<Rightarrow> (int \<Rightarrow> kernel_io \<times> kernel_io) \<Rightarrow> xfrmKernelPfkey \<Rightarrow> (xfrmKernelPfkey \<times> Status_e io) option" where
  "createSocket registerEvents fd fd_events kern x0 =
     (let x1 = x0\<lparr>mSocket := fd\<rparr>
      in if fd \<le> 0 then Some (x1, Done STATUS_FAILED)
         else let x = (if registerEvents then x1\<lparr>mSocketEvents := fd_events\<rparr> else x1);
                  (esp, ah) = kern (mSocketEvents x)
              in do { r1 \<leftarrow> RegisterPfkeySocket x SADB_SATYPE_ESP esp;
                      if r1 \<noteq> Done STATUS_SUCCESS then Some (x, r1)
                      else do { r2 \<leftarrow> RegisterPfkeySocket x SADB_SATYPE_AH ah;
                                Some (x, r2) } })"

end
