(* ===== verification/PfkeyProps.thy ===== *)
theory PfkeyProps
  imports Pfkey
begin

text \<open>
  What is sent to the kernel is the message RFC 2367 describes, and what comes out of a reply.
\<close>

section \<open>Messages as RFC 2367 defines them\<close>

text \<open>
  An extension is its type and the bytes behind its header of four bytes; lengths count words
  of eight bytes.
\<close>

type_synonym ext = "u16 \<times> u8 list"

definition ext_words :: "ext \<Rightarrow> nat" where
  "ext_words e = (4 + length (snd e)) div 8"

definition ext_ok :: "ext \<Rightarrow> bool" where
  "ext_ok e \<longleftrightarrow> (4 + length (snd e)) mod 8 = 0 \<and> ext_words e < 2 ^ 16"

definition ext_bytes :: "ext \<Rightarrow> u8 list" where
  "ext_bytes e = le16 (of_nat (ext_words e)) @ le16 (fst e) @ snd e"

definition exts_bytes :: "ext list \<Rightarrow> u8 list" where
  "exts_bytes es = concat (map ext_bytes es)"

definition exts_words :: "ext list \<Rightarrow> nat" where
  "exts_words es = sum_list (map ext_words es)"

definition header :: "u8 \<Rightarrow> u8 \<Rightarrow> u8 \<Rightarrow> nat \<Rightarrow> u32 \<Rightarrow> u32 \<Rightarrow> u8 list" where
  "header t err satype n seq pid = [2, t, err, satype] @ le16 (of_nat n) @ [0, 0] @ le32 seq @ le32 pid"

definition message :: "u8 \<Rightarrow> u8 \<Rightarrow> u8 \<Rightarrow> u32 \<Rightarrow> u32 \<Rightarrow> ext list \<Rightarrow> u8 list" where
  "message t err satype seq pid es = header t err satype (2 + exts_words es) seq pid @ exts_bytes es"

definition sockaddr_size :: "u8 list \<Rightarrow> nat" where
  "sockaddr_size sa = (if of_le16 (take 2 sa) = AF_INET then 16 else 28)"

text \<open>An address: protocol, prefix length, two bytes that are 0, the address, and the padding.\<close>

definition address_ext :: "u16 \<Rightarrow> u8 list \<Rightarrow> ext" where
  "address_ext t sa =
     (t, [0, 0, 0, 0] @ take (sockaddr_size sa) sa @ replicate (if sockaddr_size sa = 16 then 0 else 4) 0)"

definition range_ext :: "u32 \<Rightarrow> u32 \<Rightarrow> ext" where
  "range_ext lo hi = (SADB_EXT_SPIRANGE, le32 lo @ le32 hi @ [0, 0, 0, 0])"

lemma exts_simps [simp]:
  "exts_bytes [] = []" "exts_bytes (e # es) = ext_bytes e @ exts_bytes es"
  "exts_bytes (es @ es') = exts_bytes es @ exts_bytes es'"
  "exts_words [] = 0" "exts_words (e # es) = ext_words e + exts_words es" "exts_words (es @ es') = exts_words es + exts_words es'"
  by (simp_all add: exts_bytes_def exts_words_def)

lemma length_header [simp]: "length (header t err satype n seq pid) = 16"
  by (simp add: header_def)

lemma length_ext_bytes: "ext_ok e \<Longrightarrow> length (ext_bytes e) = 8 * ext_words e"
  by (auto simp: ext_ok_def ext_bytes_def ext_words_def)

lemma length_exts_bytes: "\<forall>e \<in> set es. ext_ok e \<Longrightarrow> length (exts_bytes es) = 8 * exts_words es"
  by (induction es) (simp_all add: length_ext_bytes)

lemma ext_words_pos: "ext_ok e \<Longrightarrow> 0 < ext_words e"
  by (auto simp: ext_ok_def ext_words_def)

lemma PFKEY_LEN_msg [simp]: "PFKEY_LEN 16 = 2" "PFKEY_LEN 4 = 1"
  by (simp_all add: PFKEY_LEN_def PFKEY_ALIGN_def)

section \<open>Building a request\<close>

lemma header_get [simp]:
  "get16 (header t err satype n seq pid @ v) 4 = Some (of_nat n)"
  "get32 (header t err satype n seq pid @ v) 8 = Some seq"
  "get32 (header t err satype n seq pid @ v) 12 = Some pid"
  "get8 (header t err satype n seq pid @ v) 2 = Some err"
  using get16_at [of "[2, t, err, satype]" 4 "of_nat n" "[0, 0] @ le32 seq @ le32 pid @ v"]
    get32_at [of "[2, t, err, satype] @ le16 (of_nat n) @ [0, 0]" 8 seq "le32 pid @ v"]
    get32_at [of "[2, t, err, satype] @ le16 (of_nat n) @ [0, 0] @ le32 seq" 12 pid v]
    get8_at [of "[2, t]" 2 err "satype # le16 (of_nat n) @ [0, 0] @ le32 seq @ le32 pid @ v"]
  by (simp_all add: header_def)

lemma header_put_len: "put16 (header t err satype n seq pid @ v) 4 (of_nat n') = Some (header t err satype n' seq pid @ v)"
  by (simp add: put16_def header_def)

text \<open>Writes behind a prefix.\<close>

lemma buf_write_shift: "buf_write (u @ xs) (length u + i) ys = map_option ((@) u) (buf_write xs i ys)"
  by (simp add: buf_write_def)

lemma buf_write_shift0: "buf_write (u @ xs) (length u) ys = map_option ((@) u) (buf_write xs 0 ys)"
  using buf_write_shift [of u xs 0 ys] by simp

lemma next_ext:
  assumes "n < 2 ^ 16"
  shows "PFKEY_EXT_ADD_NEXT (header t err satype n seq pid @ v) = Some (8 * n)"
  using assms by (simp add: PFKEY_EXT_ADD_NEXT_def PFKEY_USER_LEN_def unat_of_nat mult.commute)

lemma add_ext:
  assumes "length (header t err satype n seq pid @ v) = a"
  shows "PFKEY_EXT_ADD (header t err satype n seq pid @ v @ ext_bytes e @ z) a =
    Some (header t err satype (n + ext_words e) seq pid @ v @ ext_bytes e @ z)"
proof -
  have "get16 (header t err satype n seq pid @ v @ ext_bytes e @ z) a = Some (of_nat (ext_words e))"
    using get16_at [OF assms, of "of_nat (ext_words e)" "le16 (fst e) @ snd e @ z"] by (simp add: ext_bytes_def)
  then show ?thesis
    using header_put_len [of t err satype n seq pid "v @ ext_bytes e @ z" "n + ext_words e"]
    by (simp add: PFKEY_EXT_ADD_def)
qed

lemma convertIp_eq:
  assumes "sockaddr_size sa \<le> length sa"
  shows "convertIpToXfrm sa m a = map_option (\<lambda>m'. (m', sockaddr_size sa)) (buf_write m a (take (sockaddr_size sa) sa))"
proof -
  have "2 \<le> length sa" using assms by (auto simp: sockaddr_size_def split: if_splits)
  then have "get16 sa 0 = Some (of_le16 (take 2 sa))" by (simp add: get16_def)
  moreover have "buf_read sa 0 (sockaddr_size sa) = Some (take (sockaddr_size sa) sa)" using assms by simp
  ultimately show ?thesis
    by (cases "buf_write m a (take (sockaddr_size sa) sa)") (simp_all add: convertIpToXfrm_def sockaddr_size_def)
qed

lemma zeros8: "replicate (8 + k) (0 :: u8) = [0, 0, 0, 0, 0, 0, 0, 0] @ replicate k 0"
  by (simp add: replicate_add numeral_eq_Suc)

lemma sockaddr_size_cases: "sockaddr_size sa = 16 \<or> sockaddr_size sa = 28"
  by (simp add: sockaddr_size_def)

lemma address_ext_words:
  assumes "sockaddr_size sa \<le> length sa"
  shows "ext_words (address_ext t sa) = (if sockaddr_size sa = 16 then 3 else 5)" "ext_ok (address_ext t sa)"
proof -
  define s where "s = sockaddr_size sa"
  have s: "s = 16 \<or> s = 28" "length (take s sa) = s" using sockaddr_size_cases [of sa] assms by (auto simp: s_def)
  have "length (snd (address_ext t sa)) = 4 + (s + (if s = 16 then 0 else 4))"
    using s(2) by (simp add: address_ext_def s_def [symmetric])
  then show "ext_words (address_ext t sa) = (if sockaddr_size sa = 16 then 3 else 5)" "ext_ok (address_ext t sa)"
    using s(1) by (auto simp: ext_words_def ext_ok_def s_def [symmetric])
qed

lemmas ext_words_address = address_ext_words(1)

lemma addAddrExt_eq:
  assumes "sockaddr_size sa \<le> length sa" "8 * n = 16 + length v" "n < 2 ^ 16" "40 \<le> k"
  shows "addAddrExt (header ty err satype n seq pid @ v @ replicate k 0) sa t 0 0 =
    Some (header ty err satype (n + ext_words (address_ext t sa)) seq pid @ v @ ext_bytes (address_ext t sa) @
          replicate (k - 8 * ext_words (address_ext t sa)) 0)"
proof -
  define u where "u = header ty err satype n seq pid @ v"
  define s where "s = sockaddr_size sa"
  have u: "length u = 8 * n" using assms(2) by (simp add: u_def)
  have s: "s = 16 \<or> s = 28" unfolding s_def by (rule sockaddr_size_cases)
  obtain j where j: "k = 8 + (s + ((if s = 16 then 0 else 4) + j))"
    using assms(4) s that [of "k - 24"] that [of "k - 40"] by auto
  define p where "p = (if s = 16 then 0 else 4 :: nat)"
  have len: "PFKEY_LEN (8 + s) = ext_words (address_ext t sa)"
    using s ext_words_address [OF assms(1), of t] by (auto simp: s_def PFKEY_LEN_def PFKEY_ALIGN_def)
  let ?z = "replicate s (0 :: u8) @ replicate p 0 @ replicate j 0"
  have m: "header ty err satype n seq pid @ v @ replicate k 0 = u @ [0, 0, 0, 0, 0, 0, 0, 0] @ ?z"
    unfolding j zeros8 p_def by (simp add: u_def replicate_add)
  have w1: "put16 (u @ [0, 0, 0, 0, 0, 0, 0, 0] @ ?z) (8 * n + 2) t = Some (u @ [0, 0] @ le16 t @ [0, 0, 0, 0] @ ?z)"
    using write_at [of "u @ [0, 0]" "8 * n + 2" "le16 t" "[0, 0]" "[0, 0, 0, 0] @ ?z"] u by (simp add: put16_def)
  have w2: "put8 (u @ [0, 0] @ le16 t @ [0, 0, 0, 0] @ ?z) (8 * n + 4) 0 = Some (u @ [0, 0] @ le16 t @ [0, 0, 0, 0] @ ?z)"
    using write_at [of "u @ [0, 0] @ le16 t" "8 * n + 4" "[0]" "[0]" "[0, 0, 0] @ ?z"] u by (simp add: put8_def)
  have w3: "put8 (u @ [0, 0] @ le16 t @ [0, 0, 0, 0] @ ?z) (8 * n + 5) 0 = Some (u @ [0, 0] @ le16 t @ [0, 0, 0, 0] @ ?z)"
    using write_at [of "u @ [0, 0] @ le16 t @ [0]" "8 * n + 5" "[0]" "[0]" "[0, 0] @ ?z"] u by (simp add: put8_def)
  have w4: "convertIpToXfrm sa (u @ [0, 0] @ le16 t @ [0, 0, 0, 0] @ ?z) (8 * n + 8) =
      Some (u @ [0, 0] @ le16 t @ [0, 0, 0, 0] @ take s sa @ replicate p 0 @ replicate j 0, s)"
    unfolding convertIp_eq [OF assms(1)]
    using write_at [of "u @ [0, 0] @ le16 t @ [0, 0, 0, 0]" "8 * n + 8" "take s sa" "replicate s 0" "replicate p 0 @ replicate j 0"] u assms(1)
    by (simp add: s_def min_def)
  have w5: "put16 (u @ [0, 0] @ le16 t @ [0, 0, 0, 0] @ take s sa @ replicate p 0 @ replicate j 0) (8 * n) (of_nat (PFKEY_LEN (8 + s))) =
      Some (u @ ext_bytes (address_ext t sa) @ replicate j 0)"
    using write_at [of u "8 * n" "le16 (of_nat (PFKEY_LEN (8 + s)))" "[0, 0]"] u
    by (simp add: put16_def ext_bytes_def len address_ext_def s_def [symmetric] p_def)
  have w6: "PFKEY_EXT_ADD (u @ ext_bytes (address_ext t sa) @ replicate j 0) (8 * n) =
      Some (header ty err satype (n + ext_words (address_ext t sa)) seq pid @ v @ ext_bytes (address_ext t sa) @ replicate j 0)"
    using add_ext [of ty err satype n seq pid v "8 * n"] u by (simp add: u_def)
  have nx: "PFKEY_EXT_ADD_NEXT (u @ x) = Some (8 * n)" for x
    using next_ext [OF assms(3)] by (simp add: u_def)
  have "k - 8 * ext_words (address_ext t sa) = j"
    using s ext_words_address [OF assms(1), of t] by (auto simp: j s_def)
  then show ?thesis
    unfolding m by (simp only: addAddrExt_def nx w1 w2 w3 w4 w5 w6 bind.simps prod.case)
qed

lemma exts_bytes_single: "exts_bytes [e] = ext_bytes e"
  by simp

text \<open>The parts of a message whose length field is \<open>n\<close>, with \<open>k\<close> zero bytes behind it.\<close>

lemma spi_request_start:
  "do { m1 \<leftarrow> put8 (replicate PFKEY_BUFFER_SIZE 0) 0 2;
        m2 \<leftarrow> put8 m1 1 t;
        m3 \<leftarrow> put8 m2 3 satype;
        m4 \<leftarrow> put16 m3 4 (of_nat (PFKEY_LEN 16));
        m5 \<leftarrow> put32 m4 8 seq;
        put32 m5 12 pid } = Some (header t 0 satype 2 seq pid @ replicate 4080 0)"
proof -
  let ?z = "replicate 4080 (0 :: u8)"
  have m: "replicate PFKEY_BUFFER_SIZE (0 :: u8) = replicate 16 0 @ ?z" by (simp add: replicate_add [symmetric])
  have 16: "replicate 16 (0 :: u8) = [0, 0, 0, 0, 0, 0, 0, 0, 0, 0, 0, 0, 0, 0, 0, 0]" by (simp add: numeral_eq_Suc)
  show ?thesis
    unfolding m 16 by (simp add: put8_def put16_def put32_def le16_def le32_def header_def)
qed

lemma range_ext_words: "ext_words (range_ext lo hi) = 2" "ext_ok (range_ext lo hi)"
  by (simp_all add: ext_words_def ext_ok_def range_ext_def)

lemma spi_request_range:
  assumes "8 * n = 16 + length v" "n < 2 ^ 16" "16 \<le> k"
  shows "do { a \<leftarrow> PFKEY_EXT_ADD_NEXT (header ty err satype n seq pid @ v @ replicate k 0);
              m9 \<leftarrow> put16 (header ty err satype n seq pid @ v @ replicate k 0) (a + 2) SADB_EXT_SPIRANGE;
              m10 \<leftarrow> put16 m9 a (of_nat (PFKEY_LEN 16));
              m11 \<leftarrow> put32 m10 (a + 4) lo;
              m12 \<leftarrow> put32 m11 (a + 8) hi;
              PFKEY_EXT_ADD m12 a } =
    Some (header ty err satype (n + 2) seq pid @ v @ ext_bytes (range_ext lo hi) @ replicate (k - 16) 0)"
proof -
  define u where "u = header ty err satype n seq pid @ v"
  have u: "length u = 8 * n" using assms(1) by (simp add: u_def)
  let ?z = "replicate (k - 16) (0 :: u8)"
  have "replicate k (0 :: u8) = replicate 16 0 @ ?z" using assms(3) by (simp add: replicate_add [symmetric])
  then have m: "header ty err satype n seq pid @ v @ replicate k 0 = u @ [0, 0] @ [0, 0] @ [0, 0, 0, 0] @ [0, 0, 0, 0] @ [0, 0, 0, 0] @ ?z"
    by (simp add: u_def numeral_eq_Suc)
  have nx: "PFKEY_EXT_ADD_NEXT (u @ x) = Some (8 * n)" for x
    using next_ext [OF assms(2)] by (simp add: u_def)
  have w1: "put16 (u @ [0, 0] @ [0, 0] @ x) (8 * n + 2) SADB_EXT_SPIRANGE = Some (u @ [0, 0] @ le16 SADB_EXT_SPIRANGE @ x)" for x
    using write_at [of "u @ [0, 0]" "8 * n + 2" "le16 SADB_EXT_SPIRANGE" "[0, 0]" x] u by (simp add: put16_def)
  have w2: "put16 (u @ [0, 0] @ le16 SADB_EXT_SPIRANGE @ x) (8 * n) (of_nat (PFKEY_LEN 16)) = Some (u @ le16 2 @ le16 SADB_EXT_SPIRANGE @ x)" for x
    using write_at [of u "8 * n" "le16 2" "[0, 0]"] u by (simp add: put16_def)
  have w3: "put32 (u @ le16 2 @ le16 SADB_EXT_SPIRANGE @ [0, 0, 0, 0] @ x) (8 * n + 4) lo = Some (u @ le16 2 @ le16 SADB_EXT_SPIRANGE @ le32 lo @ x)" for x
    using write_at [of "u @ le16 2 @ le16 SADB_EXT_SPIRANGE" "8 * n + 4" "le32 lo" "[0, 0, 0, 0]" x] u by (simp add: put32_def)
  have w4: "put32 (u @ le16 2 @ le16 SADB_EXT_SPIRANGE @ le32 lo @ [0, 0, 0, 0] @ x) (8 * n + 8) hi =
      Some (u @ le16 2 @ le16 SADB_EXT_SPIRANGE @ le32 lo @ le32 hi @ x)" for x
    using write_at [of "u @ le16 2 @ le16 SADB_EXT_SPIRANGE @ le32 lo" "8 * n + 8" "le32 hi" "[0, 0, 0, 0]" x] u by (simp add: put32_def)
  have e: "le16 2 @ le16 SADB_EXT_SPIRANGE @ le32 lo @ le32 hi @ [0, 0, 0, 0] @ x = ext_bytes (range_ext lo hi) @ x" for x
    using range_ext_words(1) [of lo hi] by (simp add: ext_bytes_def) (simp add: range_ext_def)
  have w5: "PFKEY_EXT_ADD (u @ le16 2 @ le16 SADB_EXT_SPIRANGE @ le32 lo @ le32 hi @ [0, 0, 0, 0] @ x) (8 * n) =
      Some (header ty err satype (n + 2) seq pid @ v @ ext_bytes (range_ext lo hi) @ x)" for x
    unfolding e using add_ext [of ty err satype n seq pid v "8 * n" "range_ext lo hi" x] u by (simp add: u_def range_ext_words)
  show ?thesis
    unfolding m by (simp only: nx w1 w2 w3 w4 w5 bind.simps)
qed

definition spi_message :: "xfrmKernelPfkey \<Rightarrow> u32 \<Rightarrow> u8 list \<Rightarrow> u8 list \<Rightarrow> u8 \<Rightarrow> u8 list" where
  "spi_message x pid src dst protocol =
     message SADB_GETSPI 0 (convertProtoToSaType protocol) (mSequence x) pid
       [address_ext SADB_EXT_ADDRESS_SRC src, address_ext SADB_EXT_ADDRESS_DST dst,
        range_ext (mConfigSpiMin x) (mConfigSpiMax x)]"

text \<open>
  C27: the request that getSpi sends is, for IPv4 and IPv6 addresses in every combination, the
  message SADB_GETSPI of RFC 2367: the header with the length of the whole message in words
  of eight bytes, the source address, the destination address, each padded with zero bytes,
  and the configured range of SPIs. The rest of the buffer is zero, nothing is written
  outside it, and the number of bytes handed to send is the length of the message.
\<close>

theorem getSpi_request:
  assumes "sockaddr_size src \<le> length src" "sockaddr_size dst \<le> length dst"
  shows "spi_request x pid src dst protocol =
      Some (spi_message x pid src dst protocol @ replicate (4096 - length (spi_message x pid src dst protocol)) 0) \<and>
    length (spi_message x pid src dst protocol) \<le> 4096 \<and>
    PFKEY_EXT_ADD_NEXT (spi_message x pid src dst protocol) = Some (length (spi_message x pid src dst protocol))"
proof -
  define s d where "s = ext_words (address_ext SADB_EXT_ADDRESS_SRC src)" and "d = ext_words (address_ext SADB_EXT_ADDRESS_DST dst)"
  have "s = 3 \<or> s = 5" "d = 3 \<or> d = 5" using ext_words_address assms by (simp_all add: s_def d_def)
  then have b: "2 + s < 2 ^ 16" "40 \<le> 4080 - 8 * s" "2 + s + d < 2 ^ 16" "16 \<le> 4080 - 8 * s - 8 * d" "8 * (4 + s + d) \<le> 4096"
    "4 + s + d < 2 ^ 16" by auto
  let ?h = "\<lambda>n. header SADB_GETSPI 0 (convertProtoToSaType protocol) n (mSequence x) pid"
  define S D where "S = ext_bytes (address_ext SADB_EXT_ADDRESS_SRC src)" and "D = ext_bytes (address_ext SADB_EXT_ADDRESS_DST dst)"
  define R where "R = ext_bytes (range_ext (mConfigSpiMin x) (mConfigSpiMax x))"
  have l: "length S = 8 * s" "length D = 8 * d" "length R = 16"
    using length_ext_bytes address_ext_words(2) assms length_ext_bytes [OF range_ext_words(2)] range_ext_words(1)
    by (simp_all add: s_def d_def S_def D_def R_def)
  have 1: "addAddrExt (?h 2 @ replicate 4080 0) src SADB_EXT_ADDRESS_SRC 0 0 = Some (?h (2 + s) @ S @ replicate (4080 - 8 * s) 0)"
    using addAddrExt_eq [OF assms(1), of 2 "[]" 4080] by (simp add: s_def S_def)
  have 2: "addAddrExt (?h (2 + s) @ S @ replicate (4080 - 8 * s) 0) dst SADB_EXT_ADDRESS_DST 0 0 =
      Some (?h (2 + s + d) @ (S @ D) @ replicate (4080 - 8 * s - 8 * d) 0)"
    using addAddrExt_eq [OF assms(2) _ b(1,2), of S] l by (simp add: d_def D_def)
  have 3: "8 * (2 + s + d) = 16 + length (S @ D)" using l by simp
  have eq: "spi_request x pid src dst protocol = Some (?h (2 + s + d + 2) @ (S @ D) @ R @ replicate (4080 - 8 * s - 8 * d - 16) 0)"
    unfolding R_def spi_request_range [OF 3 b(3,4), symmetric]
    using spi_request_start [of SADB_GETSPI "convertProtoToSaType protocol" "mSequence x" pid] 1 2
    by (simp only: spi_request_def bind_eq_Some_conv) (auto simp: bind_eq_Some_conv)
  have "2 + exts_words [address_ext SADB_EXT_ADDRESS_SRC src, address_ext SADB_EXT_ADDRESS_DST dst,
      range_ext (mConfigSpiMin x) (mConfigSpiMax x)] = 4 + s + d"
    by (simp add: s_def d_def range_ext_words)
  then have m: "spi_message x pid src dst protocol = ?h (4 + s + d) @ S @ D @ R"
    unfolding spi_message_def message_def by (simp only: exts_simps S_def D_def R_def append_Nil2)
  have lm: "length (spi_message x pid src dst protocol) = 8 * (4 + s + d)" using l by (simp add: m)
  have sums: "2 + s + d + 2 = 4 + s + d" "4080 - 8 * s - 8 * d - 16 = 4096 - 8 * (4 + s + d)" by simp_all
  have "spi_request x pid src dst protocol = Some (spi_message x pid src dst protocol @ replicate (4096 - 8 * (4 + s + d)) 0)"
    using eq unfolding sums m append_assoc .
  moreover have "PFKEY_EXT_ADD_NEXT (spi_message x pid src dst protocol) = Some (8 * (4 + s + d))"
    unfolding m by (rule next_ext [OF b(6)])
  ultimately show ?thesis using b(5) by (simp only: lm)
qed

section \<open>Replies\<close>

definition scan_ok :: "nat \<Rightarrow> ext \<Rightarrow> bool" where
  "scan_ok ext_max e \<longleftrightarrow> ext_ok e \<and> fst e \<noteq> 0 \<and> unat (fst e) \<le> ext_max"

text \<open>
  The scan of the extensions when the count is right or too large: it finds the first
  security association; without one it ends if the count was right, and leaves the block
  if it was too large.
\<close>

lemma spi_scan_exts:
  "\<lbrakk>length u = a; \<forall>e \<in> set es. scan_ok ext_max e; exts_words es \<le> n\<rbrakk> \<Longrightarrow>
     spi_scan ext_max (u @ exts_bytes es) a n =
       (case find (\<lambda>e. fst e = SADB_EXT_SA) es of
          Some e \<Rightarrow> Some (of_le32 (take 4 (snd e)))
        | None \<Rightarrow> if n = exts_words es then Some 0 else None)"
proof (induction es arbitrary: u a n)
  case Nil
  then show ?case by (subst spi_scan.simps) (auto simp: get16_none)
next
  case (Cons e es)
  have ok: "ext_ok e" "fst e \<noteq> 0" "unat (fst e) \<le> ext_max" using Cons.prems(2) by (simp_all add: scan_ok_def)
  let ?w = "ext_words e"
  have w: "0 < ?w" "?w < 2 ^ 16" "?w \<le> n" "4 + length (snd e) = 8 * ?w" "4 \<le> length (snd e)"
    using ext_words_pos [OF ok(1)] ok(1) Cons.prems(3) by (auto simp: ext_ok_def ext_words_def)
  have k: "unat (of_nat ?w :: u16) = ?w" using w(2) by (simp add: unat_of_nat)
  have g1: "get16 (u @ ext_bytes e @ exts_bytes es) a = Some (of_nat ?w)"
    using get16_at [OF Cons.prems(1), of "of_nat ?w" "le16 (fst e) @ snd e @ exts_bytes es"] by (simp add: ext_bytes_def)
  have g2: "get16 (u @ ext_bytes e @ exts_bytes es) (a + 2) = Some (fst e)"
    using get16_at [of "u @ le16 (of_nat ?w)" "a + 2" "fst e" "snd e @ exts_bytes es"] Cons.prems(1) by (simp add: ext_bytes_def)
  have g3: "get32 (u @ ext_bytes e @ exts_bytes es) (a + 4) = Some (of_le32 (take 4 (snd e)))"
    using Cons.prems(1) w(5) by (simp add: get32_def ext_bytes_def)
  have IH: "spi_scan ext_max ((u @ ext_bytes e) @ exts_bytes es) (a + 8 * ?w) (n - ?w) =
      (case find (\<lambda>e. fst e = SADB_EXT_SA) es of
          Some e \<Rightarrow> Some (of_le32 (take 4 (snd e)))
        | None \<Rightarrow> if n - ?w = exts_words es then Some 0 else None)"
    using Cons.prems length_ext_bytes [OF ok(1)] by (intro Cons.IH) simp_all
  show ?case
    using g1 g2 g3 IH ok w k
    by (subst spi_scan.simps) (auto simp: PFKEY_USER_LEN_def mult.commute split: option.splits)
qed

text \<open>Messages the reader of replies passes over.\<close>

definition skipped :: "u32 \<Rightarrow> recv_result \<Rightarrow> bool" where
  "skipped pid r \<longleftrightarrow> r = Recv_error True \<or>
     (\<exists>t err satype seq pid' es. pid' \<noteq> pid \<and> (\<forall>e \<in> set es. ext_ok e) \<and> length (exts_bytes es) \<le> 4080 \<and>
        r = Received (message t err satype seq pid' es))"

lemma recv_message:
  assumes "length buf = 4096" "\<forall>e \<in> set es. ext_ok e" "length (exts_bytes es) \<le> 4080"
  shows "\<exists>buf'. length buf' = 4096 \<and>
    recv_loop sequence in_pid buf (Received (message t err satype seq pid es) # rs) =
      (if pid \<noteq> in_pid then recv_loop sequence in_pid buf' rs
       else if seq \<noteq> sequence \<and> seq \<noteq> 0 then
         if seq < sequence then recv_loop sequence in_pid buf' rs else Some (Done None)
       else Some (Done (Some (message t err satype seq pid es))))"
proof -
  let ?m = "message t err satype seq pid es"
  define z where "z = drop (length ?m) buf"
  have w: "length (exts_bytes es) = 8 * exts_words es" by (rule length_exts_bytes [OF assms(2)])
  have l: "length ?m = 16 + 8 * exts_words es" using w by (simp add: message_def)
  have b: "buf_write buf 0 ?m = Some (?m @ z)" using assms(1,3) l w by (simp add: z_def)
  have n: "unat (of_nat (2 + exts_words es) :: u16) = 2 + exts_words es"
    using assms(3) w by (simp only: unat_of_nat) simp
  have g: "get16 (?m @ z) 4 = Some (of_nat (2 + exts_words es))" "get32 (?m @ z) 12 = Some pid" "get32 (?m @ z) 8 = Some seq"
    unfolding message_def by (simp_all only: append_assoc header_get)
  have r: "buf_read (?m @ z) 0 (length ?m) = Some ?m" by simp
  have d: "length ?m div 8 = 2 + exts_words es" using l by simp
  have "length (?m @ z) = 4096" using assms(1,3) l w by (simp add: z_def)
  moreover have "recv_loop sequence in_pid buf (Received ?m # rs) =
      (if pid \<noteq> in_pid then recv_loop sequence in_pid (?m @ z) rs
       else if seq \<noteq> sequence \<and> seq \<noteq> 0 then
         if seq < sequence then recv_loop sequence in_pid (?m @ z) rs else Some (Done None)
       else Some (Done (Some ?m)))"
    using b g r n d l by (simp del: of_nat_add)
  ultimately show ?thesis by blast
qed

lemma recv_loop_skips:
  "\<lbrakk>length buf = 4096; \<forall>r \<in> set pre. skipped in_pid r\<rbrakk> \<Longrightarrow>
     \<exists>buf'. length buf' = 4096 \<and> recv_loop sequence in_pid buf (pre @ rs) = recv_loop sequence in_pid buf' rs"
proof (induction pre arbitrary: buf)
  case (Cons r pre)
  then have IH: "\<exists>buf'. length buf' = 4096 \<and> recv_loop sequence in_pid b (pre @ rs) = recv_loop sequence in_pid buf' rs"
    if "length b = 4096" for b using that by simp
  have "skipped in_pid r" using Cons.prems(2) by simp
  then consider "r = Recv_error True"
    | t err satype seq pid' es where "pid' \<noteq> in_pid" "\<forall>e \<in> set es. ext_ok e" "length (exts_bytes es) \<le> 4080"
        "r = Received (message t err satype seq pid' es)"
    unfolding skipped_def by blast
  then show ?case
  proof cases
    case 1
    then show ?thesis using IH [OF Cons.prems(1)] by simp
  next
    case 2
    obtain b where "length b = 4096" "recv_loop sequence in_pid buf (r # pre @ rs) = recv_loop sequence in_pid b (pre @ rs)"
      using recv_message [OF Cons.prems(1) 2(2,3), of sequence in_pid t err satype seq pid' "pre @ rs"] 2(1,4) by auto
    then show ?thesis using IH [of b] by auto
  qed
qed auto

lemma spi_message_get:
  assumes "sockaddr_size src \<le> length src" "sockaddr_size dst \<le> length dst"
  shows "sendPfkeySocket (mSequence x) (spi_message x pid src dst protocol @ z) k =
    (case send_loop (int (length (spi_message x pid src dst protocol))) (sends k) of
       Waiting \<Rightarrow> Some Waiting
     | Done False \<Rightarrow> Some (Done None)
     | Done True \<Rightarrow> do {
         r \<leftarrow> recv_loop (mSequence x) pid (replicate 4096 0) (recvs k);
         if \<not> out_ok k \<and> r \<noteq> Waiting \<and> r \<noteq> Done None then None else Some r })"
proof -
  let ?m = "spi_message x pid src dst protocol"
  obtain n v where m: "?m = header SADB_GETSPI 0 (convertProtoToSaType protocol) n (mSequence x) pid @ v"
    unfolding spi_message_def message_def by blast
  have "PFKEY_USER_LEN (of_nat n) = length ?m"
    using getSpi_request [OF assms, of x pid protocol] unfolding PFKEY_EXT_ADD_NEXT_def m header_get by simp
  moreover have "get16 (?m @ z) 4 = Some (of_nat n)" "get32 (?m @ z) 12 = Some pid"
    unfolding m append_assoc by (rule header_get)+
  ultimately show ?thesis by (simp add: sendPfkeySocket_def cong: io.case_cong)
qed

text \<open>
  C28: what getSpi makes of the reply. Interrupted calls are repeated and messages for other
  processes are passed over. An error code in the reply fails. Otherwise the SPI of the
  first security association is returned (0 counts as a failure). A reply that has
  extensions but no security association is read past its end: the count of the loop is in bytes
  and the macros count words of eight bytes.
\<close>

theorem getSpi_reply:
  assumes "sockaddr_size src \<le> length src" "sockaddr_size dst \<le> length dst"
    "sends k = replicate i (- 1, True) @ (int (length (spi_message x pid src dst protocol)), e) # ss"
    "recvs k = pre @ Received (message t err satype seq pid es) # rs" "\<forall>r \<in> set pre. skipped pid r" "out_ok k"
    "seq = 0 \<or> seq = mSequence x" "\<forall>e \<in> set es. scan_ok ext_max e" "length (exts_bytes es) \<le> 4080"
  shows "getSpi ext_max pid x src dst protocol k =
    (if err \<noteq> 0 then Some (Done None)
     else case find (\<lambda>e. fst e = SADB_EXT_SA) es of
         Some e \<Rightarrow> Some (Done (if of_le32 (take 4 (snd e)) = 0 then None else Some (of_le32 (take 4 (snd e)))))
       | None \<Rightarrow> if es = [] then Some (Done None) else None)"
proof -
  let ?q = "message t err satype seq pid es"
  have ok: "\<forall>e \<in> set es. ext_ok e" using assms(8) by (simp add: scan_ok_def)
  obtain b where b: "length b = 4096"
      "recv_loop (mSequence x) pid (replicate 4096 0) (recvs k) = recv_loop (mSequence x) pid b (Received ?q # rs)"
    using recv_loop_skips [OF length_replicate assms(5), where sequence = "mSequence x"] assms(4) by metis
  obtain b' where "recv_loop (mSequence x) pid b (Received ?q # rs) =
      (if pid \<noteq> pid then recv_loop (mSequence x) pid b' rs
       else if seq \<noteq> mSequence x \<and> seq \<noteq> 0 then
         if seq < mSequence x then recv_loop (mSequence x) pid b' rs else Some (Done None)
       else Some (Done (Some ?q)))"
    using recv_message [OF b(1) ok assms(9)] by blast
  then have r: "recv_loop (mSequence x) pid (replicate 4096 0) (recvs k) = Some (Done (Some ?q))"
    using b(2) assms(7) by auto
  have s: "send_loop (int (length (spi_message x pid src dst protocol))) (sends k) = Done True"
    unfolding assms(3) by (rule send_loop_retry) simp
  have w: "length (exts_bytes es) = 8 * exts_words es" by (rule length_exts_bytes [OF ok])
  have z: "exts_words es = 0 \<longleftrightarrow> es = []" using ok ext_words_pos by (cases es) auto
  have scan: "spi_scan ext_max ?q 16 (length ?q - 16) =
      (case find (\<lambda>e. fst e = SADB_EXT_SA) es of
          Some e \<Rightarrow> Some (of_le32 (take 4 (snd e)))
        | None \<Rightarrow> if es = [] then Some 0 else None)"
    unfolding message_def
    using spi_scan_exts [OF length_header assms(8), of "8 * exts_words es" t err satype "2 + exts_words es" seq pid] w z by auto
  have err: "get8 ?q 2 = Some err" unfolding message_def by (rule header_get)
  have "spi_request x pid src dst protocol = Some (spi_message x pid src dst protocol @ replicate (4096 - length (spi_message x pid src dst protocol)) 0)"
    using getSpi_request [OF assms(1,2)] by blast
  then have "getSpi ext_max pid x src dst protocol k =
      do { spi \<leftarrow> (if err \<noteq> 0 then Some 0 else spi_scan ext_max ?q 16 (length ?q - 16));
           Some (Done (if spi = 0 then None else Some spi)) }"
    using spi_message_get [OF assms(1,2), of x pid protocol _ k] s r assms(6) err by (simp add: getSpi_def)
  then show ?thesis
    unfolding scan by (simp split: option.splits)
qed

section \<open>Instances\<close>

text \<open>127.0.0.1 and ::1.\<close>

definition ex_v4 :: "u8 list" where
  "ex_v4 = [2, 0, 0, 0, 127, 0, 0, 1] @ replicate 8 0"

definition ex_v6 :: "u8 list" where
  "ex_v6 = [10, 0, 0, 0, 0, 0, 0, 0] @ replicate 15 0 @ [1, 0, 0, 0, 0]"

lemma ex_addresses: "sockaddr_size ex_v4 = 16" "length ex_v4 = 16" "sockaddr_size ex_v6 = 28" "length ex_v6 = 28"
  by (simp_all add: sockaddr_size_def ex_v4_def ex_v6_def)

lemma getSpi_request_witness:
  "spi_request xfrmKernelPfkey_init 1234 ex_v4 ex_v6 50 =
     Some (spi_message xfrmKernelPfkey_init 1234 ex_v4 ex_v6 50 @
           replicate (4096 - length (spi_message xfrmKernelPfkey_init 1234 ex_v4 ex_v6 50)) 0)"
  using getSpi_request [of ex_v4 ex_v6 xfrmKernelPfkey_init 1234 50] by (simp add: ex_addresses)

text \<open>A reply with the association, and one with an address only.\<close>

definition ex_sa :: ext where
  "ex_sa = (1, le32 0xc0ffee01 @ replicate 8 0)"

definition ex_kernel :: "ext list \<Rightarrow> kernel_io" where
  "ex_kernel es = \<lparr>sends = [(- 1, True), (int (length (spi_message xfrmKernelPfkey_init 1234 ex_v4 ex_v6 50)), False)],
     recvs = [Recv_error True, Received (message 1 0 3 0 99 []), Received (message 1 0 3 0 1234 es)], out_ok = True\<rparr>"

lemma getSpi_reply_witness:
  "getSpi 26 1234 xfrmKernelPfkey_init ex_v4 ex_v6 50 (ex_kernel [ex_sa]) = Some (Done (Some 0xc0ffee01)) \<and>
   getSpi 26 1234 xfrmKernelPfkey_init ex_v4 ex_v6 50 (ex_kernel [address_ext 5 ex_v4]) = None"
proof -
  have pre: "skipped 1234 (Recv_error True)" "skipped 1234 (Received (message 1 0 3 0 99 []))"
    by (simp_all add: skipped_def) (rule exI [of _ 1], rule exI [of _ 0], rule exI [of _ 3], rule exI [of _ 0], rule exI [of _ 99], simp,
      rule exI [of _ "[]"], simp)
  have k: "sends (ex_kernel es) = replicate 1 (- 1, True) @ (int (length (spi_message xfrmKernelPfkey_init 1234 ex_v4 ex_v6 50)), False) # []"
    "recvs (ex_kernel es) = [Recv_error True, Received (message 1 0 3 0 99 [])] @ Received (message 1 0 3 0 1234 es) # []"
    "out_ok (ex_kernel es)" for es
    by (simp_all add: ex_kernel_def)
  have sa: "scan_ok 26 ex_sa" "length (exts_bytes [ex_sa]) \<le> 4080"
    by (simp_all add: scan_ok_def ext_ok_def ext_words_def ex_sa_def ext_bytes_def)
  have ad: "scan_ok 26 (address_ext 5 ex_v4)" "length (exts_bytes [address_ext 5 ex_v4]) \<le> 4080"
    using address_ext_words [of ex_v4 5] length_ext_bytes [of "address_ext 5 ex_v4"]
    by (simp_all add: scan_ok_def ex_addresses) (simp add: address_ext_def)
  show ?thesis
    using getSpi_reply [of ex_v4 ex_v6 "ex_kernel [ex_sa]" 1 xfrmKernelPfkey_init 1234 50 False "[]"
        "[Recv_error True, Received (message 1 0 3 0 99 [])]" 1 0 3 0 "[ex_sa]" "[]" 26]
      getSpi_reply [of ex_v4 ex_v6 "ex_kernel [address_ext 5 ex_v4]" 1 xfrmKernelPfkey_init 1234 50 False "[]"
        "[Recv_error True, Received (message 1 0 3 0 99 [])]" 1 0 3 0 "[address_ext 5 ex_v4]" "[]" 26]
      pre k sa ad
    by (simp add: ex_addresses) (simp add: ex_sa_def address_ext_def)
qed

end
