(* ===== verification/Netlink.thy ===== *)
theory Netlink
  imports KernelIo
begin

text \<open>
  \<^verbatim>\<open>library/xfrm/src/xfrmKernelNetlink.cpp\<close>: the request for an SPI over a netlink socket. The
  header of a message is the one of RFC 3549 (length 0, type 4, flags 6, sequence number 8, pid
  12), as the comment of the source shows it, and the macros \<^verbatim>\<open>NLMSG_...\<close> are those of netlink(3).
  The structures \<^verbatim>\<open>xfrm_userspi_info\<close> and \<^verbatim>\<open>xfrm_usersa_info\<close> of the kernel are a parameter: the
  offsets of their fields.
\<close>

record xfrm_abi =
  XFRM_MSG_ALLOCSPI :: u16
  XFRM_MSG_NEWSA :: u16
  XFRM_MODE_TUNNEL :: u8
  userspi_size :: nat
  saddr_at :: nat
  daddr_at :: nat
  proto_at :: nat
  mode_at :: nat
  family_at :: nat
  min_at :: nat
  max_at :: nat
  sa_spi_at :: nat

abbreviation (input) "NLM_F_REQUEST \<equiv> (1 :: u16)"
abbreviation (input) "NLMSG_ERROR \<equiv> (2 :: u16)"
abbreviation (input) "NLMSG_DONE \<equiv> (3 :: u16)"
abbreviation (input) "NLMSG_HDRLEN \<equiv> (16 :: nat)"
abbreviation (input) "NETLINK_BUFFER_SIZE \<equiv> (4096 :: nat)"

text \<open>\<^verbatim>\<open>NLMSG_ALIGN\<close> on the 32 bits of \<^verbatim>\<open>nlmsg_len\<close>.\<close>

definition NLMSG_ALIGN :: "u32 \<Rightarrow> u32" where
  "NLMSG_ALIGN n = (n + 3) AND NOT 3"

record xfrmKernelNetlink =
  mSocket :: int
  mSocketEvents :: int
  mSequence :: u32
  mConfigSpiMin :: u32
  mConfigSpiMax :: u32

definition xfrmKernelNetlink_init :: xfrmKernelNetlink where
  "xfrmKernelNetlink_init =
     \<lparr>mSocket = 0, mSocketEvents = 0, mSequence = 202, mConfigSpiMin = 0xc0000000, mConfigSpiMax = 0xcfffffff\<rparr>"

text \<open>The results of the calls of \<^verbatim>\<open>socket\<close> and \<^verbatim>\<open>bind\<close> are arguments; the result of \<^verbatim>\<open>bind\<close> is not 0 when it fails.\<close>

definition createSocket_nl :: "bool \<Rightarrow> int \<Rightarrow> int \<Rightarrow> int \<Rightarrow> int \<Rightarrow> xfrmKernelNetlink \<Rightarrow> xfrmKernelNetlink \<times> Status_e" where
  "createSocket_nl registerEvents fd bind1 fd_events bind2 x =
     (let x1 = x\<lparr>mSocket := fd\<rparr>
      in if fd \<le> 0 then (x1, STATUS_FAILED)
         else if bind1 \<noteq> 0 then (x1, STATUS_FAILED)
         else if registerEvents then
           let x2 = x1\<lparr>mSocketEvents := fd_events\<rparr>
           in if fd_events \<le> 0 then (x2, STATUS_FAILED)
              else if bind2 \<noteq> 0 then (x2, STATUS_FAILED)
              else (x2, STATUS_SUCCESS)
         else (x1, STATUS_SUCCESS))"

text \<open>The four bytes of \<^verbatim>\<open>sin_addr\<close> or the sixteen of \<^verbatim>\<open>sin6_addr\<close>.\<close>

definition convertIpToXfrm_nl :: "u8 list \<Rightarrow> mem \<Rightarrow> nat \<Rightarrow> mem option" where
  "convertIpToXfrm_nl pAddr m a =
     do { family \<leftarrow> get16 pAddr 0;
          bs \<leftarrow> (if family = AF_INET then buf_read pAddr 4 4 else buf_read pAddr 8 16);
          buf_write m a bs }"

definition nl_request :: "xfrm_abi \<Rightarrow> xfrmKernelNetlink \<Rightarrow> u32 \<Rightarrow> u8 list \<Rightarrow> u8 list \<Rightarrow> u8 \<Rightarrow> mem option" where
  "nl_request abi x pid pSrc pDst protocol =
     do { m1 \<leftarrow> put16 (replicate NETLINK_BUFFER_SIZE 0) 6 NLM_F_REQUEST;
          m2 \<leftarrow> put16 m1 4 (XFRM_MSG_ALLOCSPI abi);
          m3 \<leftarrow> put32 m2 0 (of_nat (NLMSG_HDRLEN + userspi_size abi));
          m4 \<leftarrow> put32 m3 8 (mSequence x);
          m5 \<leftarrow> put32 m4 12 pid;
          m6 \<leftarrow> convertIpToXfrm_nl pSrc m5 (NLMSG_HDRLEN + saddr_at abi);
          m7 \<leftarrow> convertIpToXfrm_nl pDst m6 (NLMSG_HDRLEN + daddr_at abi);
          m8 \<leftarrow> put8 m7 (NLMSG_HDRLEN + proto_at abi) protocol;
          m9 \<leftarrow> put8 m8 (NLMSG_HDRLEN + mode_at abi) (XFRM_MODE_TUNNEL abi);
          family \<leftarrow> get16 pSrc 0;
          m10 \<leftarrow> put16 m9 (NLMSG_HDRLEN + family_at abi) family;
          m11 \<leftarrow> put32 m10 (NLMSG_HDRLEN + min_at abi) (mConfigSpiMin x);
          put32 m11 (NLMSG_HDRLEN + max_at abi) (mConfigSpiMax x) }"

text \<open>
  \<^verbatim>\<open>recv\<close> with \<^verbatim>\<open>MSG_TRUNC\<close> stores what fits in the buffer and returns the length of the whole
  message, and \<^verbatim>\<open>memcpy\<close> copies that many bytes.
\<close>

fun nl_recv_loop :: "mem \<Rightarrow> recv_result list \<Rightarrow> mem option io option" where
  "nl_recv_loop buf [] = Some Waiting"
| "nl_recv_loop buf (Recv_error eintr # rs) = (if eintr then nl_recv_loop buf rs else Some (Done None))"
| "nl_recv_loop buf (Received bs # rs) =
     do { msg \<leftarrow> buf_write buf 0 (take (length buf) bs);
          n \<leftarrow> get32 msg 0;
          if length bs < 16 \<or> unat n < 16 then Some (Done None)
          else map_option (Done \<circ> Some) (buf_read msg 0 (length bs)) }"

definition sendNetlinkSocket :: "mem \<Rightarrow> kernel_io \<Rightarrow> mem option io option" where
  "sendNetlinkSocket in_msg k =
     do { n \<leftarrow> get32 in_msg 0;
          _ \<leftarrow> buf_read in_msg 0 (unat n);
          case send_loop (int (unat n)) (sends k) of
            Waiting \<Rightarrow> Some Waiting
          | Done False \<Rightarrow> Some (Done None)
          | Done True \<Rightarrow> do {
              r \<leftarrow> nl_recv_loop (replicate NETLINK_BUFFER_SIZE 0) (recvs k);
              if \<not> out_ok k \<and> r \<noteq> Waiting \<and> r \<noteq> Done None then None else Some r } }"

text \<open>
  The loop of \<^verbatim>\<open>getSpi\<close>: \<open>n\<close> is \<^verbatim>\<open>len\<close>, a \<^verbatim>\<open>size_t\<close>, from which \<^verbatim>\<open>NLMSG_NEXT\<close> subtracts. \<open>None\<close> is
  an access outside the reply, or a loop that does not end.
\<close>

partial_function (option) nl_scan :: "xfrm_abi \<Rightarrow> mem \<Rightarrow> nat \<Rightarrow> u64 \<Rightarrow> u32 option" where
  "nl_scan abi out a n =
     (if n < 16 then Some 0
      else do {
        l \<leftarrow> get32 out a;
        if l < 16 \<or> n < ucast l then Some 0
        else do {
          t \<leftarrow> get16 out (a + 4);
          if t = XFRM_MSG_NEWSA abi then get32 out (a + NLMSG_HDRLEN + sa_spi_at abi)
          else if t = NLMSG_ERROR then do { _ \<leftarrow> get32 out (a + NLMSG_HDRLEN); Some 0 }
          else if t = NLMSG_DONE then Some 0
          else nl_scan abi out (a + unat (NLMSG_ALIGN l)) (n - ucast (NLMSG_ALIGN l)) } })"

text \<open>The result: the object with the next sequence number, and \<^verbatim>\<open>spi\<close> (\<open>Done None\<close> is \<^verbatim>\<open>STATUS_FAILED\<close>).\<close>

definition getSpi_nl ::
  "xfrm_abi \<Rightarrow> u32 \<Rightarrow> u8 list \<Rightarrow> u8 list \<Rightarrow> u8 \<Rightarrow> kernel_io \<Rightarrow> xfrmKernelNetlink
    \<Rightarrow> (xfrmKernelNetlink \<times> u32 option io) option" where
  "getSpi_nl abi pid pSrc pDst protocol k x =
     do { msg \<leftarrow> nl_request abi x pid pSrc pDst protocol;
          r \<leftarrow> sendNetlinkSocket msg k;
          let x' = x\<lparr>mSequence := mSequence x + 1\<rparr>
          in (case r of
                Waiting \<Rightarrow> Some (x', Waiting)
              | Done None \<Rightarrow> Some (x', Done None)
              | Done (Some out) \<Rightarrow> do {
                  spi \<leftarrow> nl_scan abi out 0 (of_nat (length out));
                  Some (x', Done (if spi = 0 then None else Some spi)) }) }"

end
