(* ===== verification/NetlinkProps.thy ===== *)
theory NetlinkProps
  imports Netlink
begin

text \<open>
  What the netlink client makes of the replies of the kernel.
\<close>

section \<open>Alignment\<close>

lemma align_push: "(w :: u32) AND NOT 3 = push_bit 2 (drop_bit 2 w)"
proof (rule bit_word_eqI)
  fix i assume "i < LENGTH(32)"
  have "(3 :: u32) = mask 2" by (simp add: mask_eq_exp_minus_1)
  have "bit (3 :: u32) i \<longleftrightarrow> i < 2"
    unfolding \<open>3 = mask 2\<close> bit_mask_iff using \<open>i < LENGTH(32)\<close> by (auto simp: possible_bit_def)
  then show "bit (w AND NOT 3) i \<longleftrightarrow> bit (push_bit 2 (drop_bit 2 w)) i"
  proof (cases "i < 2")
    case True
    then show ?thesis using \<open>bit (3 :: u32) i \<longleftrightarrow> i < 2\<close> by (simp add: bit_simps)
  next
    case False
    then have "Suc (Suc (i - 2)) = i" by simp
    then show ?thesis using False \<open>bit (3 :: u32) i \<longleftrightarrow> i < 2\<close> \<open>i < LENGTH(32)\<close> by (simp add: bit_simps)
  qed
qed

definition align4 :: "nat \<Rightarrow> nat" where
  "align4 x = (x + 3) div 4 * 4"

lemma align4_range: "x \<le> align4 x" "align4 x < x + 4" "align4 x = x \<longleftrightarrow> x mod 4 = 0"
  by (simp_all add: align4_def) presburger+

lemma NLMSG_ALIGN_of_nat:
  assumes "x \<le> 4096"
  shows "NLMSG_ALIGN (of_nat x) = of_nat (align4 x)" "unat (NLMSG_ALIGN (of_nat x)) = align4 x"
proof -
  have a: "align4 x < 2 ^ 32" using align4_range(2) [of x] assms by simp
  have "unat (of_nat x + 3 :: u32) = x + 3" using unat_of_nat [where 'a = 32, of "x + 3"] assms by simp
  then have d: "unat (drop_bit 2 (of_nat x + 3 :: u32)) = (x + 3) div 4" by (simp add: unat_drop_bit)
  have "push_bit 2 (drop_bit 2 (of_nat x + 3 :: u32)) = 4 * drop_bit 2 (of_nat x + 3)"
    by (simp add: push_bit_eq_mult)
  also have "\<dots> = of_nat (4 * unat (drop_bit 2 (of_nat x + 3 :: u32)))" by (simp add: ucast_id)
  also have "\<dots> = of_nat (align4 x)" unfolding d by (simp add: align4_def mult.commute)
  finally show 1: "NLMSG_ALIGN (of_nat x) = of_nat (align4 x)" by (simp only: NLMSG_ALIGN_def align_push)
  show "unat (NLMSG_ALIGN (of_nat x)) = align4 x" unfolding 1 using a by (simp add: unat_of_nat)
qed

section \<open>Replies\<close>

text \<open>A message: its type, the ten bytes of flags, sequence number and pid, and its data.\<close>

type_synonym nlmsg = "u16 \<times> u8 list \<times> u8 list"

definition nl_size :: "nlmsg \<Rightarrow> nat" where
  "nl_size e = (case e of (t, h, p) \<Rightarrow> 16 + length p)"

definition nl_bytes :: "nlmsg \<Rightarrow> u8 list" where
  "nl_bytes e = (case e of (t, h, p) \<Rightarrow> le32 (of_nat (16 + length p)) @ le16 t @ h @ p)"

definition nl_padded :: "nlmsg \<Rightarrow> u8 list" where
  "nl_padded e = nl_bytes e @ replicate (align4 (nl_size e) - nl_size e) 0"

fun nl_ok :: "xfrm_abi \<Rightarrow> nlmsg \<Rightarrow> bool" where
  "nl_ok abi (t, h, p) \<longleftrightarrow>
     length h = 10 \<and> (t = XFRM_MSG_NEWSA abi \<longrightarrow> sa_spi_at abi + 4 \<le> length p) \<and> (t = NLMSG_ERROR \<longrightarrow> 4 \<le> length p)"

text \<open>The messages that end the loop, and the SPI they give.\<close>

definition decides :: "xfrm_abi \<Rightarrow> nlmsg \<Rightarrow> bool" where
  "decides abi e \<longleftrightarrow> fst e = XFRM_MSG_NEWSA abi \<or> fst e = NLMSG_ERROR \<or> fst e = NLMSG_DONE"

definition spi_of :: "xfrm_abi \<Rightarrow> nlmsg \<Rightarrow> u32" where
  "spi_of abi e =
     (case e of (t, h, p) \<Rightarrow> if t = XFRM_MSG_NEWSA abi then of_le32 (take 4 (drop (sa_spi_at abi) p)) else 0)"

lemma length_nl_bytes: "nl_ok abi e \<Longrightarrow> length (nl_bytes e) = nl_size e"
  by (cases e) (simp add: nl_bytes_def nl_size_def)

lemma length_nl_padded: "nl_ok abi e \<Longrightarrow> length (nl_padded e) = align4 (nl_size e)"
  using align4_range(1) [of "nl_size e"] by (simp add: nl_padded_def length_nl_bytes)

lemma nl_size_min: "16 \<le> nl_size e"
  by (cases e) (simp add: nl_size_def)

text \<open>One turn of the loop.\<close>

lemma size_words:
  assumes "16 \<le> s" "s \<le> k" "k \<le> 4096"
  shows "\<not> (of_nat k :: u64) < 16" "\<not> (of_nat s :: u32) < 16" "\<not> (of_nat k :: u64) < of_nat s"
    "(ucast (of_nat s :: u32) :: u64) = of_nat s"
proof -
  have u: "unat (of_nat s :: u32) = s" "unat (of_nat k :: u64) = k" "unat (of_nat s :: u64) = s"
    using assms by (simp_all add: unat_of_nat)
  show "\<not> (of_nat k :: u64) < 16" "\<not> (of_nat s :: u32) < 16" "\<not> (of_nat k :: u64) < of_nat s"
    using assms by (simp_all add: word_less_nat_alt u)
  show "(ucast (of_nat s :: u32) :: u64) = of_nat s"
    using assms by (simp add: word_unat_eq_iff u unat_ucast_up)
qed

lemma nl_scan_step:
  assumes "nl_ok abi e" "length u = a" "nl_size e \<le> k" "k \<le> 4096"
  shows "nl_scan abi (u @ nl_bytes e @ z) a (of_nat k) =
    (if decides abi e then Some (spi_of abi e)
     else nl_scan abi (u @ nl_bytes e @ z) (a + align4 (nl_size e)) (of_nat k - of_nat (align4 (nl_size e))))"
proof -
  obtain t h p where e: "e = (t, h, p)" by (cases e)
  let ?m = "u @ nl_bytes e @ z" and ?s = "nl_size e"
  have s: "?s = 16 + length p" "16 \<le> ?s" "?s \<le> 4096" using assms(3,4) by (simp_all add: e nl_size_def)
  have h: "length h = 10" "t = XFRM_MSG_NEWSA abi \<Longrightarrow> sa_spi_at abi + 4 \<le> length p" "t = NLMSG_ERROR \<Longrightarrow> 4 \<le> length p"
    using assms(1) by (simp_all add: e)
  have b: "nl_bytes e = le32 (of_nat ?s) @ le16 t @ h @ p" by (simp add: e nl_bytes_def nl_size_def)
  have g1: "get32 ?m a = Some (of_nat ?s)"
    using get32_at [OF assms(2), of "of_nat ?s" "le16 t @ h @ p @ z"] by (simp add: b)
  have g2: "get16 ?m (a + 4) = Some t"
    using get16_at [of "u @ le32 (of_nat ?s)" "a + 4" t "h @ p @ z"] assms(2) by (simp add: b)
  have g3: "get32 ?m (a + 16 + i) = Some (of_le32 (take 4 (drop i p)))" if "i + 4 \<le> length p" for i
  proof -
    have l: "length (u @ le32 (of_nat ?s) @ le16 t @ h) = a + 16" using assms(2) h(1) by simp
    have m: "?m = (u @ le32 (of_nat ?s) @ le16 t @ h) @ p @ z" by (simp add: b)
    have "drop (length v + i) (v @ p @ z) = drop i p @ z" for v :: mem
      using that by simp
    from this [of "u @ le32 (of_nat ?s) @ le16 t @ h"] have "drop (a + 16 + i) ?m = drop i p @ z" unfolding l m .
    moreover have "a + 16 + i + 4 \<le> length ?m" unfolding m length_append [of "u @ le32 (of_nat ?s) @ le16 t @ h"] l using that by simp
    ultimately show ?thesis using that by (simp add: get32_def del: append_assoc)
  qed
  note w = size_words [OF s(2) assms(3,4)]
  have al: "align4 ?s < 2 ^ 32" using align4_range(2) [of ?s] s(3) by simp
  then have "(ucast (NLMSG_ALIGN (of_nat ?s)) :: u64) = of_nat (align4 ?s)"
    by (simp add: NLMSG_ALIGN_of_nat(1) [OF s(3)] word_unat_eq_iff unat_ucast_up unat_of_nat)
  then show ?thesis
    using g1 g2 g3 [of "sa_spi_at abi"] g3 [of 0] h w NLMSG_ALIGN_of_nat(2) [OF s(3)]
    by (subst nl_scan.simps) (auto simp: decides_def spi_of_def e)
qed

lemma nl_scan_padded:
  "\<lbrakk>\<forall>e \<in> set es. nl_ok abi e; length u = a; length (concat (map nl_padded es) @ z) = k; k \<le> 4096\<rbrakk> \<Longrightarrow>
     nl_scan abi (u @ concat (map nl_padded es) @ z) a (of_nat k) =
       (case find (decides abi) es of
          Some e \<Rightarrow> Some (spi_of abi e)
        | None \<Rightarrow> nl_scan abi (u @ concat (map nl_padded es) @ z) (a + length (concat (map nl_padded es))) (of_nat (length z)))"
proof (induction es arbitrary: u a k)
  case (Cons e es)
  let ?r = "concat (map nl_padded es) @ z"
  have ok: "nl_ok abi e" using Cons.prems(1) by simp
  note len = length_nl_padded [OF ok]
  have k: "k = align4 (nl_size e) + length ?r" using Cons.prems(3) len by simp
  then have "nl_size e \<le> k" using align4_range(1) [of "nl_size e"] by simp
  have step: "nl_scan abi (u @ nl_padded e @ ?r) a (of_nat k) =
    (if decides abi e then Some (spi_of abi e)
     else nl_scan abi (u @ nl_padded e @ ?r) (a + align4 (nl_size e)) (of_nat (length ?r)))"
    using nl_scan_step [OF ok Cons.prems(2) \<open>nl_size e \<le> k\<close> Cons.prems(4), of "replicate (align4 (nl_size e) - nl_size e) 0 @ ?r"]
    by (simp add: nl_padded_def k)
  have IH: "nl_scan abi ((u @ nl_padded e) @ ?r) (a + align4 (nl_size e)) (of_nat (length ?r)) =
      (case find (decides abi) es of
          Some e \<Rightarrow> Some (spi_of abi e)
        | None \<Rightarrow> nl_scan abi ((u @ nl_padded e) @ ?r) (a + align4 (nl_size e) + length (concat (map nl_padded es))) (of_nat (length z)))"
    using Cons.prems k len by (intro Cons.IH) simp_all
  show ?case
  proof (cases "decides abi e")
    case True
    then show ?thesis using step by simp
  next
    case False
    have l: "length (nl_padded e @ concat (map nl_padded es)) = align4 (nl_size e) + length (concat (map nl_padded es))"
      using len by simp
    show ?thesis using False step IH l by (cases "find (decides abi) es") (simp_all add: add.assoc del: length_append)
  qed
qed simp

text \<open>The last message may lack its padding: then the count wraps around and the loop goes on behind the reply.\<close>

lemma nl_scan_reply:
  assumes "\<forall>e \<in> set (es @ [e]). nl_ok abi e" "length (concat (map nl_padded es) @ nl_bytes e) \<le> 4096"
  shows "nl_scan abi (concat (map nl_padded es) @ nl_bytes e) 0 (of_nat (length (concat (map nl_padded es) @ nl_bytes e))) =
    (case find (decides abi) (es @ [e]) of
       Some e' \<Rightarrow> Some (spi_of abi e')
     | None \<Rightarrow> if nl_size e mod 4 = 0 then Some 0 else None)"
proof -
  let ?p = "concat (map nl_padded es)" and ?s = "nl_size e"
  have ok: "nl_ok abi e" "\<forall>e \<in> set es. nl_ok abi e" using assms(1) by simp_all
  have s: "length (nl_bytes e) = ?s" "?s \<le> 4096" using length_nl_bytes [OF ok(1)] assms(2) by simp_all
  have all: "nl_scan abi (?p @ nl_bytes e) 0 (of_nat (length (?p @ nl_bytes e))) =
      (case find (decides abi) es of
         Some e' \<Rightarrow> Some (spi_of abi e')
       | None \<Rightarrow> nl_scan abi (?p @ nl_bytes e) (length ?p) (of_nat ?s))"
    using nl_scan_padded [OF ok(2), of "[]" 0 "nl_bytes e"] assms(2) s(1) by (simp cong: option.case_cong)
  define d where "d = align4 ?s - ?s"
  have d: "align4 ?s = ?s + d" "d < 4" "d = 0 \<longleftrightarrow> ?s mod 4 = 0" using align4_range [of ?s] by (auto simp: d_def)
  have n: "(of_nat ?s :: u64) - of_nat (align4 ?s) = - of_nat d" by (simp add: d(1))
  have out: "nl_scan abi (?p @ nl_bytes e) (length ?p + align4 ?s) (- of_nat d) = (if d = 0 then Some 0 else None)"
  proof (cases "d = 0")
    case True
    then show ?thesis by (subst nl_scan.simps) simp
  next
    case False
    then have "d = 1 \<or> d = 2 \<or> d = 3" using d(2) by auto
    then have "\<not> (- of_nat d :: u64) < 16" by auto
    moreover have "get32 (?p @ nl_bytes e) (length ?p + align4 ?s) = None"
      using s(1) d(1) by (simp add: get32_def buf_read_def)
    ultimately show ?thesis using False by (subst nl_scan.simps) simp
  qed
  have "nl_scan abi (?p @ nl_bytes e) (length ?p) (of_nat ?s) =
      (if decides abi e then Some (spi_of abi e) else if ?s mod 4 = 0 then Some 0 else None)"
    using nl_scan_step [OF ok(1) refl, of ?s ?p "[]"] s(2) n out d(3) by simp
  moreover have "find (decides abi) (es @ [e]) =
      (case find (decides abi) es of Some e' \<Rightarrow> Some e' | None \<Rightarrow> if decides abi e then Some e else None)"
    by (induction es) simp_all
  ultimately show ?thesis using all by (simp split: option.splits)
qed

section \<open>The request\<close>

definition abi_ok :: "xfrm_abi \<Rightarrow> bool" where
  "abi_ok abi \<longleftrightarrow> userspi_size abi \<le> 4080 \<and> saddr_at abi + 16 \<le> userspi_size abi \<and> daddr_at abi + 16 \<le> userspi_size abi \<and>
     proto_at abi + 1 \<le> userspi_size abi \<and> mode_at abi + 1 \<le> userspi_size abi \<and> family_at abi + 2 \<le> userspi_size abi \<and>
     min_at abi + 4 \<le> userspi_size abi \<and> max_at abi + 4 \<le> userspi_size abi"

definition addr_ok :: "u8 list \<Rightarrow> bool" where
  "addr_ok sa \<longleftrightarrow> (if of_le16 (take 2 sa) = AF_INET then 8 \<le> length sa else 24 \<le> length sa)"

definition begun :: "u32 \<Rightarrow> mem \<Rightarrow> bool" where
  "begun n m \<longleftrightarrow> length m = 4096 \<and> get32 m 0 = Some n"

lemma write_begun:
  assumes "begun n m" "4 \<le> a" "a + length y \<le> 4096"
  shows "\<exists>m'. buf_write m a y = Some m' \<and> begun n m'"
proof -
  have "a + length y \<le> length m" using assms by (simp add: begun_def)
  then obtain m' where m': "buf_write m a y = Some m'" by (simp add: buf_write_def)
  then have "length m' = length m" "buf_read m' 0 4 = buf_read m 0 4"
    using buf_write_length buf_write_before [OF m', of 0 4] assms(2) by auto
  then show ?thesis using m' assms(1) by (auto simp: begun_def get32_def)
qed

lemma addr_family: "addr_ok sa \<Longrightarrow> get16 sa 0 = Some (of_le16 (take 2 sa))"
  by (auto simp: addr_ok_def get16_def buf_read_def split: if_splits)

lemma convert_begun:
  assumes "begun n m" "addr_ok sa" "4 \<le> a" "a + 16 \<le> 4096"
  shows "\<exists>m'. convertIpToXfrm_nl sa m a = Some m' \<and> begun n m'"
proof (cases "of_le16 (take 2 sa) = AF_INET")
  case True
  then have "buf_read sa 4 4 = Some (take 4 (drop 4 sa))" "length (take 4 (drop 4 sa)) = 4" using assms(2) by (simp_all add: addr_ok_def)
  then show ?thesis
    using write_begun [OF assms(1,3), of "take 4 (drop 4 sa)"] assms(4) True addr_family [OF assms(2)]
    by (simp add: convertIpToXfrm_nl_def)
next
  case False
  then have "buf_read sa 8 16 = Some (take 16 (drop 8 sa))" "length (take 16 (drop 8 sa)) = 16" using assms(2) by (simp_all add: addr_ok_def)
  then show ?thesis
    using write_begun [OF assms(1,3), of "take 16 (drop 8 sa)"] assms(4) False addr_family [OF assms(2)]
    by (simp add: convertIpToXfrm_nl_def)
qed

lemma nl_request_ok:
  assumes "abi_ok abi" "addr_ok src" "addr_ok dst"
  shows "\<exists>m. nl_request abi x pid src dst protocol = Some m \<and> begun (of_nat (16 + userspi_size abi)) m"
proof -
  let ?n = "of_nat (16 + userspi_size abi)"
  obtain m1 m2 m3 where 1: "put16 (replicate 4096 0) 6 1 = Some m1" "put16 m1 4 (XFRM_MSG_ALLOCSPI abi) = Some m2"
    "put32 m2 0 ?n = Some m3" "begun ?n m3"
    by (simp add: put16_def put32_def begun_def get32_def)
  obtain m4 where 2: "put32 m3 8 (mSequence x) = Some m4" "begun ?n m4"
    using write_begun [OF 1(4), of 8 "le32 (mSequence x)"] by (auto simp: put32_def)
  obtain m5 where 3: "put32 m4 12 pid = Some m5" "begun ?n m5"
    using write_begun [OF 2(2), of 12 "le32 pid"] by (auto simp: put32_def)
  obtain m6 where 4: "convertIpToXfrm_nl src m5 (16 + saddr_at abi) = Some m6" "begun ?n m6"
    using convert_begun [OF 3(2) assms(2), of "16 + saddr_at abi"] assms(1) by (auto simp: abi_ok_def)
  obtain m7 where 5: "convertIpToXfrm_nl dst m6 (16 + daddr_at abi) = Some m7" "begun ?n m7"
    using convert_begun [OF 4(2) assms(3), of "16 + daddr_at abi"] assms(1) by (auto simp: abi_ok_def)
  obtain m8 where 6: "put8 m7 (16 + proto_at abi) protocol = Some m8" "begun ?n m8"
    using write_begun [OF 5(2), of "16 + proto_at abi" "[protocol]"] assms(1) by (auto simp: abi_ok_def put8_def)
  obtain m9 where 7: "put8 m8 (16 + mode_at abi) (XFRM_MODE_TUNNEL abi) = Some m9" "begun ?n m9"
    using write_begun [OF 6(2), of "16 + mode_at abi" "[XFRM_MODE_TUNNEL abi]"] assms(1) by (auto simp: abi_ok_def put8_def)
  obtain m10 where 8: "put16 m9 (16 + family_at abi) (of_le16 (take 2 src)) = Some m10" "begun ?n m10"
    using write_begun [OF 7(2), of "16 + family_at abi" "le16 (of_le16 (take 2 src))"] assms(1) by (auto simp: abi_ok_def put16_def)
  obtain m11 where 9: "put32 m10 (16 + min_at abi) (mConfigSpiMin x) = Some m11" "begun ?n m11"
    using write_begun [OF 8(2), of "16 + min_at abi" "le32 (mConfigSpiMin x)"] assms(1) by (auto simp: abi_ok_def put32_def)
  obtain m12 where 10: "put32 m11 (16 + max_at abi) (mConfigSpiMax x) = Some m12" "begun ?n m12"
    using write_begun [OF 9(2), of "16 + max_at abi" "le32 (mConfigSpiMax x)"] assms(1) by (auto simp: abi_ok_def put32_def)
  have "nl_request abi x pid src dst protocol = Some m12"
    unfolding nl_request_def by (simp only: 1 2 3 4 5 6 7 8 9 10 addr_family [OF assms(2)] bind.simps)
  then show ?thesis using 10(2) by blast
qed

section \<open>The exchange\<close>

lemma nl_recv_reply:
  assumes "get32 reply 0 = Some n" "16 \<le> n" "16 \<le> length reply"
  shows "nl_recv_loop (replicate 4096 0) (replicate j (Recv_error True) @ Received reply # rs) =
    (if 4096 < length reply then None else Some (Done (Some reply)))"
proof -
  let ?t = "take 4096 reply" and ?z = "replicate (4096 - length reply) (0 :: u8)"
  have "buf_write (replicate 4096 0) 0 ?t = Some (?t @ ?z)" by (simp add: min_def)
  moreover have "take 4 (drop 0 (?t @ ?z)) = take 4 (drop 0 reply)" using assms(3) by (simp add: min_def)
  then have "get32 (?t @ ?z) 0 = Some n" using assms(1,3) by (simp add: get32_def)
  moreover have "\<not> unat n < 16" using assms(2) by (simp add: word_le_nat_alt)
  moreover have "buf_read (?t @ ?z) 0 (length reply) = (if 4096 < length reply then None else Some reply)"
    by (simp add: buf_read_def)
  ultimately have "nl_recv_loop (replicate 4096 0) (Received reply # rs) = (if 4096 < length reply then None else Some (Done (Some reply)))"
    using assms(3) by simp
  then show ?thesis by (induction j) (simp_all del: nl_recv_loop.simps(3))
qed

text \<open>
  C29: what getSpi of the netlink client makes of a reply, for every layout of the kernel's
  structures. The sequence number is advanced. Interrupted calls are repeated. The first message of
  the reply that is an association, an error or the end decides; the SPI of an association is
  returned, 0 counts as a failure. Without one the call fails, but if the last message is not a
  multiple of four bytes long the count wraps around and the loop reads behind the reply, and a reply of
  more than 4096 bytes is copied from behind the buffer, for MSG_TRUNC makes recv return its whole length.
\<close>

theorem getSpi_nl_reply:
  assumes "abi_ok abi" "addr_ok src" "addr_ok dst" "out_ok k"
    "sends k = replicate i (- 1, True) @ (int (16 + userspi_size abi), b) # ss"
    "recvs k = replicate j (Recv_error True) @ Received (concat (map nl_padded es) @ nl_bytes e) # rs"
    "\<forall>e' \<in> set (es @ [e]). nl_ok abi e' \<and> nl_size e' < 2 ^ 32"
  shows "getSpi_nl abi pid src dst protocol k x =
    (if 4096 < length (concat (map nl_padded es) @ nl_bytes e) then None
     else map_option (\<lambda>r. (x\<lparr>mSequence := mSequence x + 1\<rparr>, Done r))
       (case find (decides abi) (es @ [e]) of
          Some e' \<Rightarrow> Some (if spi_of abi e' = 0 then None else Some (spi_of abi e'))
        | None \<Rightarrow> if nl_size e mod 4 = 0 then Some None else None))"
proof -
  let ?r = "concat (map nl_padded es) @ nl_bytes e"
  obtain m where m: "nl_request abi x pid src dst protocol = Some m" "length m = 4096" "get32 m 0 = Some (of_nat (16 + userspi_size abi))"
    using nl_request_ok [OF assms(1-3), of x pid protocol] unfolding begun_def by blast
  have n: "unat (of_nat (16 + userspi_size abi) :: u32) = 16 + userspi_size abi"
    using assms(1) by (simp only: unat_of_nat) (simp add: abi_ok_def)
  obtain e0 z where e0: "?r = nl_bytes e0 @ z" "nl_ok abi e0" "nl_size e0 < 2 ^ 32"
  proof (cases es)
    case Nil
    then show ?thesis using assms(7) that [of e "[]"] by simp
  next
    case (Cons e1 es')
    then show ?thesis using assms(7) that [of e1] by (simp add: nl_padded_def)
  qed
  obtain t h p where e0': "e0 = (t, h, p)" by (cases e0)
  have g: "get32 ?r 0 = Some (of_nat (nl_size e0))"
    using get32_at [of "[]" 0 "of_nat (nl_size e0)" "le16 t @ h @ p @ z"] by (simp add: e0(1)) (simp add: e0' nl_bytes_def nl_size_def)
  have "unat (of_nat (nl_size e0) :: u32) = nl_size e0" using e0(3) by (simp add: unat_of_nat)
  then have l: "(16 :: u32) \<le> of_nat (nl_size e0)" "16 \<le> length ?r"
    using nl_size_min [of e0] length_nl_bytes [OF e0(2)] unfolding e0(1) by (simp_all add: word_le_nat_alt)
  have r: "nl_recv_loop (replicate 4096 0) (recvs k) = (if 4096 < length ?r then None else Some (Done (Some ?r)))"
    unfolding assms(6) by (rule nl_recv_reply [OF g l])
  have s: "send_loop (int (16 + userspi_size abi)) (sends k) = Done True"
    unfolding assms(5) by (rule send_loop_retry) simp
  have "16 + userspi_size abi \<le> 4096" using assms(1) by (simp add: abi_ok_def)
  then obtain bs where "buf_read m 0 (16 + userspi_size abi) = Some bs" using m(2) by (simp add: buf_read_def)
  then have "sendNetlinkSocket m k =
      do { r \<leftarrow> nl_recv_loop (replicate 4096 0) (recvs k); if \<not> out_ok k \<and> r \<noteq> Waiting \<and> r \<noteq> Done None then None else Some r }"
    by (simp only: sendNetlinkSocket_def m(3) n s bind.simps io.case bool.case)
  then have send: "sendNetlinkSocket m k = (if 4096 < length ?r then None else Some (Done (Some ?r)))"
    unfolding r using assms(4) by simp
  show ?thesis
  proof (cases "4096 < length ?r")
    case True
    then show ?thesis using m(1) send by (simp add: getSpi_nl_def)
  next
    case False
    have ok: "\<forall>e' \<in> set (es @ [e]). nl_ok abi e'" "length ?r \<le> 4096" using assms(7) False by auto
    have "getSpi_nl abi pid src dst protocol k x =
        do { spi \<leftarrow> nl_scan abi ?r 0 (of_nat (length ?r));
             Some (x\<lparr>mSequence := mSequence x + 1\<rparr>, Done (if spi = 0 then None else Some spi)) }"
      using m(1) send False by (simp add: getSpi_nl_def del: length_append)
    then show ?thesis
      unfolding nl_scan_reply [OF ok] using False by (auto split: option.splits)
  qed
qed

section \<open>Instances\<close>

text \<open>The layout of Linux on 64 bits.\<close>

definition ex_abi :: xfrm_abi where
  "ex_abi = \<lparr>XFRM_MSG_ALLOCSPI = 0x16, XFRM_MSG_NEWSA = 0x10, XFRM_MODE_TUNNEL = 1, userspi_size = 232, saddr_at = 80, daddr_at = 56,
     proto_at = 76, mode_at = 218, family_at = 212, min_at = 224, max_at = 228, sa_spi_at = 72\<rparr>"

definition ex_nl_kernel :: "nlmsg list \<Rightarrow> nlmsg \<Rightarrow> kernel_io" where
  "ex_nl_kernel es e = \<lparr>sends = [(- 1, True), (248, False)],
     recvs = [Recv_error True, Received (concat (map nl_padded es) @ nl_bytes e)], out_ok = True\<rparr>"

definition ex_newsa :: nlmsg where
  "ex_newsa = (0x10, replicate 10 0, replicate 72 0 @ le32 0xc0ffee01 @ replicate 148 0)"

definition ex_other :: nlmsg where
  "ex_other = (0x20, replicate 10 0, [1])"

definition ex_ip :: "u8 list" where
  "ex_ip = [2, 0, 0, 0, 127, 0, 0, 1]"

lemma getSpi_nl_reply_witness:
  "getSpi_nl ex_abi 1234 ex_ip ex_ip 50 (ex_nl_kernel [ex_other] ex_newsa) xfrmKernelNetlink_init =
     Some (xfrmKernelNetlink_init\<lparr>mSequence := 203\<rparr>, Done (Some 0xc0ffee01)) \<and>
   getSpi_nl ex_abi 1234 ex_ip ex_ip 50 (ex_nl_kernel [] ex_other) xfrmKernelNetlink_init = None"
proof -
  have a: "abi_ok ex_abi" "addr_ok ex_ip" by (simp_all add: abi_ok_def ex_abi_def addr_ok_def ex_ip_def)
  have k: "sends (ex_nl_kernel es e) = replicate 1 (- 1, True) @ (int (16 + userspi_size ex_abi), False) # []"
    "recvs (ex_nl_kernel es e) = replicate 1 (Recv_error True) @ Received (concat (map nl_padded es) @ nl_bytes e) # []"
    "out_ok (ex_nl_kernel es e)" for es e
    by (simp_all add: ex_nl_kernel_def ex_abi_def)
  have o: "nl_ok ex_abi ex_newsa" "nl_ok ex_abi ex_other" "nl_size ex_newsa = 240" "nl_size ex_other = 17"
    "decides ex_abi ex_newsa" "\<not> decides ex_abi ex_other" "spi_of ex_abi ex_newsa = 0xc0ffee01"
    by (simp_all add: ex_newsa_def ex_other_def ex_abi_def nl_size_def decides_def spi_of_def)
  have "xfrmKernelNetlink_init\<lparr>mSequence := mSequence xfrmKernelNetlink_init + 1\<rparr> = xfrmKernelNetlink_init\<lparr>mSequence := 203\<rparr>"
    by (simp add: xfrmKernelNetlink_init_def)
  then show ?thesis
    using getSpi_nl_reply [OF a(1,2,2) k(3) k(1) k(2), of "[ex_other]" ex_newsa 1234 50 xfrmKernelNetlink_init]
      getSpi_nl_reply [OF a(1,2,2) k(3) k(1) k(2), of "[]" ex_other 1234 50 xfrmKernelNetlink_init] o
    by (simp add: length_nl_bytes length_nl_padded align4_def)
qed

end
