(* ===== verification/SymmCrypto.thy ===== *)
theory SymmCrypto
  imports Prelude
begin

text \<open>
  \<^verbatim>\<open>algorithms/symmCrypto/src/symmCryptoSsl.cpp\<close>: the choice of a cipher and its key. The ciphers
  are OpenSSL's: what \<^verbatim>\<open>EVP_get_cipherbyname\<close>, \<^verbatim>\<open>EVP_enc_null\<close> and \<^verbatim>\<open>EVP_des_ecb\<close> give, the sizes of
  a cipher, and the bytes that the sequence \<^verbatim>\<open>EVP_CipherInit_ex\<close>, \<^verbatim>\<open>Update\<close>, \<^verbatim>\<open>Final\<close> without padding
  produces, are a parameter.
\<close>

abbreviation (input) "ENCR_DES \<equiv> (2 :: u32)"
abbreviation (input) "ENCR_3DES \<equiv> (3 :: u32)"
abbreviation (input) "ENCR_RC5 \<equiv> (4 :: u32)"
abbreviation (input) "ENCR_IDEA \<equiv> (5 :: u32)"
abbreviation (input) "ENCR_CAST \<equiv> (6 :: u32)"
abbreviation (input) "ENCR_BLOWFISH \<equiv> (7 :: u32)"
abbreviation (input) "ENCR_NULL \<equiv> (11 :: u32)"
abbreviation (input) "ENCR_AES_CBC \<equiv> (12 :: u32)"
abbreviation (input) "ENCR_CAMELLIA_CBC \<equiv> (23 :: u32)"
abbreviation (input) "ENCR_DES_ECB \<equiv> (1025 :: u32)"

record 'c evp =
  EVP_get_cipherbyname :: "string \<Rightarrow> 'c option"
  EVP_enc_null :: 'c
  EVP_des_ecb :: 'c
  EVP_CIPHER_block_size :: "'c \<Rightarrow> u32"
  EVP_CIPHER_iv_length :: "'c \<Rightarrow> u32"
  cipher_bytes :: "'c \<Rightarrow> u8 list \<Rightarrow> u8 list \<Rightarrow> bool \<Rightarrow> u8 list \<Rightarrow> u8 list"

text \<open>\<^verbatim>\<open>mpKey\<close> is the block that \<^verbatim>\<open>malloc\<close> gave.\<close>

record 'c SymmCryptoSSl =
  mEncryptionType :: u32
  mpCipher :: "'c option"
  mpKey :: "u8 list option"
  mKeyLen :: u32


section \<open>The choice of a cipher\<close>

text \<open>The inner switch for AES and Camellia: without a match the cipher stays what it was.\<close>

definition by_key_size :: "'c evp \<Rightarrow> string \<Rightarrow> string \<Rightarrow> string \<Rightarrow> u32 \<Rightarrow> 'c option \<Rightarrow> 'c option" where
  "by_key_size E n128 n192 n256 keySize c =
     (if keySize = 16 then EVP_get_cipherbyname E n128
      else if keySize = 24 then EVP_get_cipherbyname E n192
      else if keySize = 32 then EVP_get_cipherbyname E n256
      else c)"

text \<open>The ciphers with keys of a range of sizes.\<close>

definition variable_key ::
  "'c evp \<Rightarrow> string \<Rightarrow> u32 \<Rightarrow> u32 \<Rightarrow> 'c SymmCryptoSSl \<Rightarrow> 'c SymmCryptoSSl" where
  "variable_key E name max_size keySize x =
     (let x1 = (if keySize = 0 then x\<lparr>mKeyLen := 16\<rparr> else x)
      in if keySize < 5 \<or> max_size < keySize then x1
         else x1\<lparr>mKeyLen := keySize, mpCipher := EVP_get_cipherbyname E name\<rparr>)"

definition choose_cipher :: "'c evp \<Rightarrow> u32 \<Rightarrow> u32 \<Rightarrow> 'c SymmCryptoSSl \<Rightarrow> 'c SymmCryptoSSl" where
  "choose_cipher E encType keySize x =
     (if encType = ENCR_NULL then x\<lparr>mpCipher := Some (EVP_enc_null E), mKeyLen := 0\<rparr>
      else if encType = ENCR_AES_CBC then
        x\<lparr>mpCipher := by_key_size E ''aes-128-cbc'' ''aes-192-cbc'' ''aes-256-cbc'' keySize (mpCipher x), mKeyLen := keySize\<rparr>
      else if encType = ENCR_CAMELLIA_CBC then
        x\<lparr>mpCipher := by_key_size E ''camellia-128-cbc'' ''camellia-192-cbc'' ''camellia-256-cbc'' keySize (mpCipher x), mKeyLen := keySize\<rparr>
      else if encType = ENCR_DES_ECB then x\<lparr>mKeyLen := 8, mpCipher := Some (EVP_des_ecb E)\<rparr>
      else if encType = ENCR_DES then x\<lparr>mKeyLen := 8, mpCipher := EVP_get_cipherbyname E ''des-cbc''\<rparr>
      else if encType = ENCR_3DES then x\<lparr>mKeyLen := 24, mpCipher := EVP_get_cipherbyname E ''des-ede3-cbc''\<rparr>
      else if encType = ENCR_IDEA then x\<lparr>mKeyLen := 16, mpCipher := EVP_get_cipherbyname E ''idea-cbc''\<rparr>
      else if encType = ENCR_RC5 then variable_key E ''rc5-cbc'' 255 keySize x
      else if encType = ENCR_CAST then variable_key E ''cast5-cbc'' 16 keySize x
      else if encType = ENCR_BLOWFISH then variable_key E ''bf-cbc'' 56 keySize x
      else x)"

text \<open>\<open>alloc n\<close> is what \<^verbatim>\<open>malloc\<close> gives for \<open>n\<close> bytes. The size is \<^verbatim>\<open>mKeyLen+1\<close> in 32 bits.\<close>

definition setCryptoType ::
  "'c evp \<Rightarrow> (nat \<Rightarrow> u8 list option) \<Rightarrow> u32 \<Rightarrow> u32 \<Rightarrow> 'c SymmCryptoSSl \<Rightarrow> 'c SymmCryptoSSl \<times> u32" where
  "setCryptoType E alloc encType keySize x0 =
     (let x = choose_cipher E encType keySize (x0\<lparr>mEncryptionType := encType\<rparr>)
      in if mpCipher x = None then (x, 1)
         else (x\<lparr>mpKey := alloc (unat (mKeyLen x + 1))\<rparr>, 0))"

section \<open>The other operations\<close>


definition getKeySize :: "'c SymmCryptoSSl \<Rightarrow> u32" where
  "getKeySize x = mKeyLen x"

definition getBlockSize :: "'c evp \<Rightarrow> 'c SymmCryptoSSl \<Rightarrow> u32 option" where
  "getBlockSize E x = map_option (EVP_CIPHER_block_size E) (mpCipher x)"

definition getIvSize :: "'c evp \<Rightarrow> 'c SymmCryptoSSl \<Rightarrow> u32 option" where
  "getIvSize E x = map_option (EVP_CIPHER_iv_length E) (mpCipher x)"




section \<open>Supported ciphers\<close>

text \<open>The table: for a type and a key size the cipher and the length of its key.\<close>

datatype cipher_source = Enc_null | Des_ecb | Named string

fun lookup :: "'c evp \<Rightarrow> cipher_source \<Rightarrow> 'c option" where
  "lookup E Enc_null = Some (EVP_enc_null E)"
| "lookup E Des_ecb = Some (EVP_des_ecb E)"
| "lookup E (Named s) = EVP_get_cipherbyname E s"

definition sized :: "string \<Rightarrow> string \<Rightarrow> string \<Rightarrow> u32 \<Rightarrow> (cipher_source \<times> u32) option" where
  "sized n128 n192 n256 n =
     map_option (\<lambda>s. (Named s, n)) (map_of [(16, n128), (24, n192), (32, n256)] n)"

definition ranged :: "string \<Rightarrow> u32 \<Rightarrow> u32 \<Rightarrow> (cipher_source \<times> u32) option" where
  "ranged s m n = (if 5 \<le> n \<and> n \<le> m then Some (Named s, n) else None)"

definition cipher_table :: "u32 \<Rightarrow> (u32 \<times> (cipher_source \<times> u32) option) list" where
  "cipher_table n =
     [(2, Some (Named ''des-cbc'', 8)), (3, Some (Named ''des-ede3-cbc'', 24)), (4, ranged ''rc5-cbc'' 255 n),
      (5, Some (Named ''idea-cbc'', 16)), (6, ranged ''cast5-cbc'' 16 n), (7, ranged ''bf-cbc'' 56 n), (11, Some (Enc_null, 0)),
      (12, sized ''aes-128-cbc'' ''aes-192-cbc'' ''aes-256-cbc'' n),
      (23, sized ''camellia-128-cbc'' ''camellia-192-cbc'' ''camellia-256-cbc'' n), (1025, Some (Des_ecb, 8))]"

definition cipher_for :: "u32 \<Rightarrow> u32 \<Rightarrow> (cipher_source \<times> u32) option" where
  "cipher_for t n = (case map_of (cipher_table n) t of None \<Rightarrow> None | Some r \<Rightarrow> r)"

lemma by_key_size_sized:
  "by_key_size E a b d n c = (case sized a b d n of None \<Rightarrow> c | Some (s, l) \<Rightarrow> lookup E s)"
  "sized a b d n = Some (s, l) \<Longrightarrow> l = n \<and> unat l < 256"
  by (auto simp: by_key_size_def sized_def split: if_splits)

lemma variable_key_ranged:
  "variable_key E s m n x =
     (case ranged s m n of
        None \<Rightarrow> (if n = 0 then x\<lparr>mKeyLen := 16\<rparr> else x)
      | Some (r, l) \<Rightarrow> x\<lparr>mpCipher := lookup E r, mKeyLen := l\<rparr>)"
  "m \<le> 255 \<Longrightarrow> ranged s m n = Some (r, l) \<Longrightarrow> unat l < 256"
proof -
  have "n \<noteq> 0" if "5 \<le> n" using that by auto
  then show "variable_key E s m n x =
     (case ranged s m n of
        None \<Rightarrow> (if n = 0 then x\<lparr>mKeyLen := 16\<rparr> else x)
      | Some (r, l) \<Rightarrow> x\<lparr>mpCipher := lookup E r, mKeyLen := l\<rparr>)"
    by (auto simp: variable_key_def ranged_def Let_def not_le not_less)
  show "unat l < 256" if "m \<le> 255" "ranged s m n = Some (r, l)"
  proof -
    have "l \<le> 255" using that by (auto simp: ranged_def split: if_splits)
    then show ?thesis by (simp add: word_le_nat_alt)
  qed
qed

lemma encType_cases:
  fixes t :: u32
  obtains "t = 2" | "t = 3" | "t = 4" | "t = 5" | "t = 6" | "t = 7" | "t = 11" | "t = 12" | "t = 23" | "t = 1025"
  | "t \<notin> {2, 3, 4, 5, 6, 7, 11, 12, 23, 1025}"
  by blast

lemma choose_cipher_eq:
  "choose_cipher E t n x =
     (case cipher_for t n of
        Some (s, l) \<Rightarrow> x\<lparr>mpCipher := lookup E s, mKeyLen := l\<rparr>
      | None \<Rightarrow> x\<lparr>mKeyLen := (if t \<in> {12, 23} then n else if t \<in> {4, 6, 7} \<and> n = 0 then 16 else mKeyLen x)\<rparr>)"
  by (cases t rule: encType_cases)
     (auto simp: choose_cipher_def cipher_for_def cipher_table_def by_key_size_sized(1) variable_key_ranged(1)
       split: option.splits dest: by_key_size_sized(2))


section \<open>Encryption and decryption\<close>





text \<open>An unsupported type or size after a supported one is accepted, with the old cipher.\<close>

lemma unsupported_type_keeps_cipher:
  assumes "cipher_for t n = None" "mpCipher x = Some c"
  shows "snd (setCryptoType E alloc t n x) = 0 \<and> mpCipher (fst (setCryptoType E alloc t n x)) = Some c"
  using assms by (simp add: setCryptoType_def choose_cipher_eq Let_def)




end
