(* ===== verification/Engine.thy ===== *)
theory Engine
  imports Prelude
begin

text \<open>
  The event loops of \<^verbatim>\<open>platform/net\<close>: \<^verbatim>\<open>mxEngineSelect.cpp\<close> and \<^verbatim>\<open>mxEngineEpoll.cpp\<close>. The handler of the
  packets is a function on the world and the engine, for its callbacks may add and remove
  descriptors. What \<^verbatim>\<open>select\<close> and \<^verbatim>\<open>epoll_wait\<close> give in every turn is an argument; the loops run
  while \<^verbatim>\<open>isOnService()\<close>, which is the length of the list of these results.
\<close>

abbreviation (input) "EVENT_READ \<equiv> (1 :: u8)"
abbreviation (input) "EVENT_WRITE \<equiv> (2 :: u8)"

datatype net_event = Read int | Write int | Error int

section \<open>The engine over select\<close>

text \<open>An \<^verbatim>\<open>fd_set\<close> is a set of numbers below \<^verbatim>\<open>FD_SETSIZE\<close>; the macros on others leave the array.\<close>

abbreviation (input) "FD_SETSIZE \<equiv> (1024 :: int)"

record mxEngineSelect =
  mRdFds :: "int set"
  mWrFds :: "int set"
  mExFds :: "int set"
  mMaxFd :: int

definition mxEngineSelect_init :: mxEngineSelect where
  "mxEngineSelect_init = \<lparr>mRdFds = {}, mWrFds = {}, mExFds = {}, mMaxFd = - 1\<rparr>"

definition fd_ok :: "int \<Rightarrow> bool" where
  "fd_ok fd \<longleftrightarrow> 0 \<le> fd \<and> fd < FD_SETSIZE"

definition FD_CLR_all :: "int \<Rightarrow> mxEngineSelect \<Rightarrow> mxEngineSelect" where
  "FD_CLR_all fd e = e\<lparr>mRdFds := mRdFds e - {fd}, mWrFds := mWrFds e - {fd}, mExFds := mExFds e - {fd}\<rparr>"

definition FD_SET_event :: "int \<Rightarrow> u8 \<Rightarrow> mxEngineSelect \<Rightarrow> mxEngineSelect" where
  "FD_SET_event fd event e =
     (let e1 = (if event AND EVENT_READ \<noteq> 0 then e\<lparr>mRdFds := insert fd (mRdFds e)\<rparr> else e);
          e2 = (if event AND EVENT_WRITE \<noteq> 0 then e1\<lparr>mWrFds := insert fd (mWrFds e1)\<rparr> else e1)
      in if event \<noteq> 0 then e2\<lparr>mExFds := insert fd (mExFds e2)\<rparr> else e2)"

definition addEvent :: "int \<Rightarrow> u8 \<Rightarrow> mxEngineSelect \<Rightarrow> mxEngineSelect option" where
  "addEvent fd event e =
     (if \<not> fd_ok fd then None
      else let e' = FD_SET_event fd event (FD_CLR_all fd e)
           in Some (if event \<noteq> 0 then e'\<lparr>mMaxFd := (if mMaxFd e' < fd then fd else mMaxFd e')\<rparr> else e'))"

text \<open>\<^verbatim>\<open>modEvent\<close> is the same without the last step.\<close>

definition modEvent :: "int \<Rightarrow> u8 \<Rightarrow> mxEngineSelect \<Rightarrow> mxEngineSelect option" where
  "modEvent fd event e = (if \<not> fd_ok fd then None else Some (FD_SET_event fd event (FD_CLR_all fd e)))"

text \<open>\<^verbatim>\<open>while (--mMaxFd > 0) if (FD_ISSET(mMaxFd, &mExFds)) break;\<close>\<close>

function lower_max :: "int set \<Rightarrow> int \<Rightarrow> int" where
  "lower_max S m = (if 0 < m - 1 \<and> m - 1 \<notin> S then lower_max S (m - 1) else m - 1)"
  by pat_completeness auto
termination by (relation "measure (\<lambda>(S, m). nat m)") auto

declare lower_max.simps [simp del]

definition remEvent :: "int \<Rightarrow> mxEngineSelect \<Rightarrow> mxEngineSelect option" where
  "remEvent fd e =
     (if \<not> fd_ok fd then None
      else let e' = FD_CLR_all fd e
           in Some (if fd = mMaxFd e' then e'\<lparr>mMaxFd := lower_max (mExFds e') (mMaxFd e')\<rparr> else e'))"

text \<open>
  The loop over the descriptors after \<^verbatim>\<open>select\<close>: \<open>n\<close> is unsigned, so \<^verbatim>\<open>n <= mMaxFd\<close> takes \<^verbatim>\<open>mMaxFd\<close>
  modulo \<open>2 ^ 32\<close>.
\<close>

type_synonym ('w, 'e) handler = "net_event \<Rightarrow> 'w \<times> 'e \<Rightarrow> 'w \<times> 'e"

definition fd_events :: "int set \<Rightarrow> int set \<Rightarrow> int set \<Rightarrow> int \<Rightarrow> net_event list" where
  "fd_events rd wr ex n =
     (if n \<in> rd then [Read n] else []) @ (if n \<in> wr then [Write n] else []) @ (if n \<in> ex then [Error n] else [])"

function dispatch ::
  "('w, mxEngineSelect) handler \<Rightarrow> int set \<Rightarrow> int set \<Rightarrow> int set \<Rightarrow> int \<Rightarrow> int \<Rightarrow> 'w \<times> mxEngineSelect
    \<Rightarrow> ('w \<times> mxEngineSelect) option" where
  "dispatch h rd wr ex n nfds s =
     (if n \<le> mMaxFd (snd s) mod 2 ^ 32 \<and> 0 < nfds then
        (if \<not> fd_ok n then None
         else let evs = fd_events rd wr ex n
              in dispatch h rd wr ex (n + 1) (if evs \<noteq> [] then nfds - 1 else nfds) (fold h evs s))
      else Some s)"
  by pat_completeness auto
termination by (relation "measure (\<lambda>(h, rd, wr, ex, n, nfds, s). nat (FD_SETSIZE - n))") (auto simp: fd_ok_def)

declare dispatch.simps [simp del]

text \<open>The waiting time given to \<^verbatim>\<open>select\<close>: seconds and microseconds, or no limit.\<close>

definition select_timeout :: "int \<Rightarrow> (int \<times> int) option" where
  "select_timeout timeout = (if 0 \<le> timeout then Some (timeout div 1000, timeout mod 1000 * 1000) else None)"

text \<open>
  One entry for every call of \<^verbatim>\<open>select\<close>: a function of the highest descriptor plus one, the
  three sets and the time, with its result and the sets it leaves.
\<close>

type_synonym select_fun = "int \<Rightarrow> int set \<Rightarrow> int set \<Rightarrow> int set \<Rightarrow> (int \<times> int) option \<Rightarrow> int \<times> int set \<times> int set \<times> int set"

fun service ::
  "('w, mxEngineSelect) handler \<Rightarrow> int \<Rightarrow> select_fun list \<Rightarrow> 'w \<times> mxEngineSelect \<Rightarrow> ('w \<times> mxEngineSelect) option" where
  "service h timeout [] s = Some s"
| "service h timeout (sel # sels) s =
     (case sel (mMaxFd (snd s) + 1) (mRdFds (snd s)) (mWrFds (snd s)) (mExFds (snd s)) (select_timeout timeout) of
        (nfds, rd, wr, ex) \<Rightarrow>
          if nfds < 0 then service h timeout sels s
          else do { s' \<leftarrow> dispatch h rd wr ex 0 nfds s; service h timeout sels s' })"

section \<open>The engine over epoll\<close>

text \<open>
  The kernel's table: for every descriptor the events and the user data of its
  \<^verbatim>\<open>struct epoll_event\<close>. \<^verbatim>\<open>ev = {0}\<close> and only \<^verbatim>\<open>ev.events\<close> is set, so the data is 0.
\<close>

abbreviation (input) "EPOLLIN \<equiv> (1 :: u32)"
abbreviation (input) "EPOLLOUT \<equiv> (4 :: u32)"
abbreviation (input) "EPOLLERR \<equiv> (8 :: u32)"

record epoll_event =
  ev_events :: u32
  ev_data_fd :: int

type_synonym epoll_table = "int \<Rightarrow> epoll_event option"

definition epoll_ev :: "u8 \<Rightarrow> epoll_event" where
  "epoll_ev event =
     (let m0 = EPOLLERR;
          m1 = (if event AND EVENT_READ \<noteq> 0 then m0 OR EPOLLIN else m0);
          m2 = (if event AND EVENT_WRITE \<noteq> 0 then m1 OR EPOLLOUT else m1)
      in \<lparr>ev_events = m2, ev_data_fd = 0\<rparr>)"

text \<open>\<^verbatim>\<open>epoll_ctl\<close> refuses to add a known descriptor and to change or delete an unknown one.\<close>

definition epoll_addEvent :: "int \<Rightarrow> u8 \<Rightarrow> epoll_table \<Rightarrow> epoll_table \<times> int" where
  "epoll_addEvent fd event t = (if t fd \<noteq> None then (t, - 1) else (t(fd \<mapsto> epoll_ev event), 0))"

definition epoll_modEvent :: "int \<Rightarrow> u8 \<Rightarrow> epoll_table \<Rightarrow> epoll_table \<times> int" where
  "epoll_modEvent fd event t = (if t fd = None then (t, - 1) else (t(fd \<mapsto> epoll_ev event), 0))"

definition epoll_remEvent :: "int \<Rightarrow> epoll_table \<Rightarrow> epoll_table \<times> int" where
  "epoll_remEvent fd t = (if t fd = None then (t, - 1) else (t(fd := None), 0))"

definition epoll_events :: "u32 \<Rightarrow> int \<Rightarrow> net_event list" where
  "epoll_events what fd =
     (if what AND EPOLLIN \<noteq> 0 then [Read fd] else []) @ (if what AND EPOLLOUT \<noteq> 0 then [Write fd] else []) @
     (if what AND EPOLLERR \<noteq> 0 then [Error fd] else [])"

text \<open>
  \<^verbatim>\<open>epoll_wait\<close> gives for each ready descriptor the what of what happened and the user data of the
  table; the handler sees that data.
\<close>

definition epoll_turn :: "('w, epoll_table) handler \<Rightarrow> (u32 \<times> int) list \<Rightarrow> 'w \<times> epoll_table \<Rightarrow> 'w \<times> epoll_table" where
  "epoll_turn h evs s = fold (\<lambda>(what, data) s. fold h (epoll_events what data) s) evs s"

text \<open>The ready descriptors of every turn, with their masks; a failed call is \<open>None\<close>.\<close>

fun epoll_service ::
  "('w, epoll_table) handler \<Rightarrow> (int \<times> u32) list option list \<Rightarrow> 'w \<times> epoll_table \<Rightarrow> 'w \<times> epoll_table" where
  "epoll_service h [] s = s"
| "epoll_service h (None # ws) s = epoll_service h ws s"
| "epoll_service h (Some ready # ws) s =
     epoll_service h ws
       (epoll_turn h (List.map_filter (\<lambda>(fd, what). map_option (\<lambda>ev. (what AND ev_events ev, ev_data_fd ev)) (snd s fd)) ready) s)"

end
