(* ===== verification/EngineProps.thy ===== *)
theory EngineProps
  imports Engine
begin

text \<open>
  Which descriptors the engines watch after any sequence of operations, and which events reach
  the handler.
\<close>

section \<open>The descriptors that are watched\<close>


















section \<open>One pass over the descriptors\<close>

text \<open>All events that are due, in the order of the descriptors.\<close>

definition due :: "int set \<Rightarrow> int set \<Rightarrow> int set \<Rightarrow> int \<Rightarrow> int \<Rightarrow> net_event list" where
  "due rd wr ex n m = concat (map (fd_events rd wr ex) [n..m])"

lemma due_empty: "m < n \<Longrightarrow> due rd wr ex n m = []"
  by (simp add: due_def)







section \<open>The select engine\<close>









section \<open>The epoll engine\<close>

text \<open>Every descriptor in the table carries the user data 0, so the handler is called for descriptor 0 only.\<close>

definition zero_data :: "epoll_table \<Rightarrow> bool" where
  "zero_data t \<longleftrightarrow> (\<forall>fd ev. t fd = Some ev \<longrightarrow> ev_data_fd ev = 0)"

lemma zero_data_ops:
  "zero_data Map.empty"
  "zero_data t \<Longrightarrow> zero_data (fst (epoll_addEvent fd ev t))"
  "zero_data t \<Longrightarrow> zero_data (fst (epoll_modEvent fd ev t))"
  "zero_data t \<Longrightarrow> zero_data (fst (epoll_remEvent fd t))"
  by (auto simp: zero_data_def epoll_addEvent_def epoll_modEvent_def epoll_remEvent_def epoll_ev_def Let_def)

lemma epoll_reports_descriptor_0:
  "zero_data t \<Longrightarrow>
     epoll_turn h (List.map_filter (\<lambda>(fd, what). map_option (\<lambda>ev. (what AND ev_events ev, ev_data_fd ev)) (t fd)) ready) s =
     fold h (concat (map (\<lambda>(fd, what). case t fd of None \<Rightarrow> [] | Some ev \<Rightarrow> epoll_events (what AND ev_events ev) 0) ready)) s"
  by (induction ready arbitrary: s) (auto simp: epoll_turn_def map_filter_simps zero_data_def split: option.splits)

end
