(* ===== verification/Sync.thy ===== *)
theory Sync
  imports Prelude "HOL-Library.Signed_Division"
begin

text \<open>
  \<^verbatim>\<open>platform/common/src/mxMutex.cpp\<close>: the mutex with a condition that the threads of the program
  share, and the readers-writer lock with its time limit. What \<^verbatim>\<open>pthread\<close> does is taken from POSIX:
  a mutex of the default kind has an owner and blocks every other \<^verbatim>\<open>pthread_mutex_lock\<close>, its
  owner's as well.
\<close>

section \<open>mxMonitoredMutex\<close>

text \<open>The thread that holds the mutex, and the threads that wait for the condition.\<close>

record mxMonitoredMutex =
  mMutex :: "nat option"
  mCond :: "nat list"

text \<open>A call that blocks is \<^verbatim>\<open>None\<close>.\<close>

definition lock :: "nat \<Rightarrow> mxMonitoredMutex \<Rightarrow> mxMonitoredMutex option" where
  "lock t m = (if mMutex m = None then Some (m\<lparr>mMutex := Some t\<rparr>) else None)"

definition mxMonitoredMutex_new :: "nat \<Rightarrow> bool \<Rightarrow> mxMonitoredMutex option" where
  "mxMonitoredMutex_new t locked =
     (let m = \<lparr>mMutex = None, mCond = []\<rparr> in if locked then lock t m else Some m)"

text \<open>Releasing a mutex that the thread does not hold is undefined.\<close>

definition unlock :: "nat \<Rightarrow> mxMonitoredMutex \<Rightarrow> mxMonitoredMutex option" where
  "unlock t m = (if mMutex m = Some t then Some (m\<lparr>mMutex := None\<rparr>) else None)"

text \<open>\<^verbatim>\<open>set\<close> wakes all threads, \<^verbatim>\<open>signal\<close> one.\<close>

definition set_cond :: "mxMonitoredMutex \<Rightarrow> mxMonitoredMutex" where
  "set_cond m = m\<lparr>mCond := []\<rparr>"

definition signal_cond :: "mxMonitoredMutex \<Rightarrow> mxMonitoredMutex" where
  "signal_cond m = m\<lparr>mCond := drop 1 (mCond m)\<rparr>"

text \<open>\<^verbatim>\<open>wait\<close> releases the mutex and sleeps in one step, and takes it again when it was woken.\<close>

definition wait_sleep :: "nat \<Rightarrow> mxMonitoredMutex \<Rightarrow> mxMonitoredMutex option" where
  "wait_sleep t m = (if mMutex m = Some t then Some (m\<lparr>mMutex := None, mCond := mCond m @ [t]\<rparr>) else None)"

definition wait_return :: "nat \<Rightarrow> mxMonitoredMutex \<Rightarrow> mxMonitoredMutex option" where
  "wait_return t m = (if t \<in> set (mCond m) then None else lock t m)"

text \<open>
  \<^verbatim>\<open>waitfor\<close> sleeps like \<^verbatim>\<open>wait\<close>; when its time has \<open>expired\<close> it takes the mutex all the same and
  returns \<^verbatim>\<open>ETIMEDOUT\<close>.
\<close>

definition waitfor_return :: "bool \<Rightarrow> nat \<Rightarrow> mxMonitoredMutex \<Rightarrow> (mxMonitoredMutex \<times> int) option" where
  "waitfor_return expired t m =
     (if t \<notin> set (mCond m) then map_option (\<lambda>m'. (m', 0)) (lock t m)
      else if expired then map_option (\<lambda>m'. (m', 110)) (lock t (m\<lparr>mCond := remove1 t (mCond m)\<rparr>))
      else None)"

text \<open>\<^verbatim>\<open>isLocked\<close> asks with \<^verbatim>\<open>pthread_mutex_trylock\<close>, which takes a free mutex.\<close>

definition isLocked :: "nat \<Rightarrow> mxMonitoredMutex \<Rightarrow> bool \<times> mxMonitoredMutex" where
  "isLocked t m = (case lock t m of None \<Rightarrow> (True, m) | Some m' \<Rightarrow> (False, m'))"

lemma isLocked_locks:
  assumes "mMutex m = None"
  shows "\<exists>m'. isLocked t m = (False, m') \<and> lock u m' = None \<and> fst (isLocked u m') = True"
  using assms by (simp add: isLocked_def lock_def)

section \<open>mxRwLock\<close>

text \<open>
  The \<^verbatim>\<open>struct timespec\<close> of \<^verbatim>\<open>rlock\<close> and \<^verbatim>\<open>wlock\<close>, seconds and nanoseconds. In C++ \<^verbatim>\<open>10^6\<close> is not a
  power: the product is taken first, then the exclusive or with 6.
\<close>

definition rw_timespec :: "s32 \<Rightarrow> int \<times> int" where
  "rw_timespec millsec = (sint millsec sdiv 1000, (sint millsec smod 1000 * 10) XOR 6)"

text \<open>
  \<^verbatim>\<open>pthread_rwlock_timedrdlock\<close> at the time \<open>now\<close> on a lock that becomes free for the caller at
  \<open>free_at\<close>, in nanoseconds since the epoch: it takes the lock at once if it can; otherwise an
  invalid \<^verbatim>\<open>tv_nsec\<close> is an error, and the time is an absolute one. The result is whether the caller
  has the lock, and when the call returns.
\<close>

definition timedlock :: "int \<times> int \<Rightarrow> int \<Rightarrow> int option \<Rightarrow> bool \<times> int" where
  "timedlock ts now free_at =
     (case ts of (sec, nsec) \<Rightarrow>
        let deadline = sec * 10 ^ 9 + nsec
        in if (case free_at of None \<Rightarrow> False | Some f \<Rightarrow> f \<le> now) then (True, now)
           else if nsec < 0 \<or> 10 ^ 9 \<le> nsec then (False, now)
           else if deadline \<le> now then (False, now)
           else case free_at of
             None \<Rightarrow> (False, deadline)
           | Some f \<Rightarrow> if f \<le> deadline then (True, f) else (False, deadline))"

text \<open>\<^verbatim>\<open>None\<close>: the call never returns. The functions are \<^verbatim>\<open>void\<close>: the caller does not learn the result.\<close>

definition rlock :: "s32 \<Rightarrow> int \<Rightarrow> int option \<Rightarrow> (bool \<times> int) option" where
  "rlock millsec now free_at =
     (if millsec = 0 then map_option (\<lambda>f. (True, max now f)) free_at
      else Some (timedlock (rw_timespec millsec) now free_at))"

definition wlock :: "s32 \<Rightarrow> int \<Rightarrow> int option \<Rightarrow> (bool \<times> int) option" where
  "wlock millsec now free_at =
     (if millsec = 0 then map_option (\<lambda>f. (True, max now f)) free_at
      else Some (timedlock (rw_timespec millsec) now free_at))"

lemma rw_seconds: "fst (rw_timespec millsec) \<le> 2147483"
proof -
  have "sint millsec < 2 ^ 31" using sint_lt [of millsec] by simp
  then have "sint millsec sdiv 1000 \<le> 2147483"
    by (auto simp: signed_divide_int_def sgn_if)
  then show ?thesis by (simp add: rw_timespec_def)
qed

section \<open>Properties\<close>

text \<open>
  C34: A limit other than 0 is never waited for: on a clock behind the 25th of January 1970 and a
  lock that is taken, \<^verbatim>\<open>rlock\<close> and \<^verbatim>\<open>wlock\<close> return at once without the lock, for the time they give
  is relative where an absolute one is asked for. The caller cannot tell, and goes on. (On a free
  lock they take it; without a limit they wait until they have it.)
\<close>

theorem rwlock_limit_is_past:
  assumes "2147484 * 10 ^ 9 \<le> now"
  shows "rlock millsec now free_at =
      (if millsec = 0 then map_option (\<lambda>f. (True, max now f)) free_at
       else Some (\<exists>f. free_at = Some f \<and> f \<le> now, now)) \<and>
    wlock millsec now free_at = rlock millsec now free_at"
proof -
  obtain sec nsec where ts: "rw_timespec millsec = (sec, nsec)" by fastforce
  have "sec \<le> 2147483" using rw_seconds [of millsec] ts by simp
  then have "nsec < 10 ^ 9 \<Longrightarrow> sec * 10 ^ 9 + nsec \<le> now" using assms by simp
  then have "timedlock (rw_timespec millsec) now free_at = (\<exists>f. free_at = Some f \<and> f \<le> now, now)"
    by (cases free_at) (auto simp: timedlock_def ts Let_def)
  then show ?thesis by (simp add: rlock_def wlock_def)
qed

theorem rwlock_limit_is_past_witness:
  "rlock 5000 1700000000000000000 (Some 1700000000000000001) = Some (False, 1700000000000000000) \<and>
   wlock 5000 1700000000000000000 (Some 1700000000000000001) = Some (False, 1700000000000000000)"
  using rwlock_limit_is_past [of 1700000000000000000 5000 "Some 1700000000000000001"] by simp

end
