(* ===== verification/EngineThread.thy ===== *)
theory EngineThread
  imports Sync
begin

text \<open>
  \<^verbatim>\<open>platform/net/src/mxEngineBase.cpp\<close>: how an engine's thread is started and stopped. A program
  calls \<^verbatim>\<open>startEngine\<close> and \<^verbatim>\<open>stopEngine\<close> (the destructor calls it too) from one thread; every
  start makes a thread that runs \<^verbatim>\<open>mainThread\<close>. The threads interleave in any order: one step is one
  call of \<^verbatim>\<open>pthread\<close> or one access of \<^verbatim>\<open>mEngineStatus\<close>.
\<close>

datatype EngineStatus_e = ES_SHUTDOWN | ES_READY | ES_BUSY

datatype engine_call = StartEngine | StopEngine

text \<open>Where the caller is in \<^verbatim>\<open>startEngine\<close> or \<^verbatim>\<open>stopEngine\<close>, and a thread in \<^verbatim>\<open>mainThread\<close>.\<close>

datatype caller_pc = Idle | Start_lock | Start_create | Start_wait | Start_waiting | Start_unlock
  | Stop_join | Undefined

datatype main_pc = Main_lock | Main_status | Main_signal | Main_unlock | Main_service | Main_returned | Main_joined

record engine =
  mEngineStatus :: EngineStatus_e
  mThreadId :: "nat option"
  monitor :: mxMonitoredMutex
  caller :: caller_pc
  threads :: "main_pc list"
  calls :: "engine_call list"
  results :: "int list"

definition engine_new :: "engine_call list \<Rightarrow> engine" where
  "engine_new cs = \<lparr>mEngineStatus = ES_SHUTDOWN, mThreadId = None, monitor = \<lparr>mMutex = None, mCond = []\<rparr>,
     caller = Idle, threads = [], calls = cs, results = []\<rparr>"

definition isOnService :: "engine \<Rightarrow> bool" where
  "isOnService s \<longleftrightarrow> mEngineStatus s \<noteq> ES_SHUTDOWN"

text \<open>\<^verbatim>\<open>pthread_equal\<close> is not 0 for equal threads: the answer is true in every thread but the engine's.\<close>

definition verifyEngineThread :: "nat \<Rightarrow> engine \<Rightarrow> bool" where
  "verifyEngineThread self s \<longleftrightarrow> mThreadId s \<noteq> Some self"

text \<open>
  The caller is thread 0, the thread at position \<open>i\<close> of \<open>threads\<close> has the number \<open>Suc i\<close>. \<open>spurious\<close>
  says whether \<^verbatim>\<open>pthread_cond_wait\<close> may wake up without a signal, which POSIX allows; \<open>nothread\<close>
  whether \<^verbatim>\<open>pthread_create\<close> may fail. To join no thread, or one that was joined, is undefined.
\<close>

inductive eng_step :: "bool \<Rightarrow> bool \<Rightarrow> engine \<Rightarrow> engine \<Rightarrow> bool" for spurious nothread where
  start_refused: "caller s = Idle \<Longrightarrow> calls s = StartEngine # cs \<Longrightarrow> mEngineStatus s \<noteq> ES_SHUTDOWN \<Longrightarrow>
    eng_step spurious nothread s (s\<lparr>calls := cs, results := results s @ [- 1]\<rparr>)"
| start: "caller s = Idle \<Longrightarrow> calls s = StartEngine # cs \<Longrightarrow> mEngineStatus s = ES_SHUTDOWN \<Longrightarrow>
    eng_step spurious nothread s (s\<lparr>calls := cs, caller := Start_lock\<rparr>)"
| start_lock: "caller s = Start_lock \<Longrightarrow> lock 0 (monitor s) = Some m \<Longrightarrow>
    eng_step spurious nothread s (s\<lparr>monitor := m, caller := Start_create\<rparr>)"
| start_create: "caller s = Start_create \<Longrightarrow>
    eng_step spurious nothread s
      (s\<lparr>threads := threads s @ [Main_lock], mThreadId := Some (length (threads s)), caller := Start_wait\<rparr>)"
| create_fails: "nothread \<Longrightarrow> caller s = Start_create \<Longrightarrow> eng_step spurious nothread s (s\<lparr>caller := Start_wait\<rparr>)"
| start_wait: "caller s = Start_wait \<Longrightarrow> wait_sleep 0 (monitor s) = Some m \<Longrightarrow>
    eng_step spurious nothread s (s\<lparr>monitor := m, caller := Start_waiting\<rparr>)"
| wake_up: "spurious \<Longrightarrow> caller s = Start_waiting \<Longrightarrow> 0 \<in> set (mCond (monitor s)) \<Longrightarrow>
    eng_step spurious nothread s (s\<lparr>monitor := (monitor s)\<lparr>mCond := remove1 0 (mCond (monitor s))\<rparr>\<rparr>)"
| start_woken: "caller s = Start_waiting \<Longrightarrow> wait_return 0 (monitor s) = Some m \<Longrightarrow>
    eng_step spurious nothread s (s\<lparr>monitor := m, caller := Start_unlock\<rparr>)"
| start_unlock: "caller s = Start_unlock \<Longrightarrow> unlock 0 (monitor s) = Some m \<Longrightarrow>
    eng_step spurious nothread s (s\<lparr>monitor := m, caller := Idle, results := results s @ [0]\<rparr>)"
| stop: "caller s = Idle \<Longrightarrow> calls s = StopEngine # cs \<Longrightarrow>
    eng_step spurious nothread s (s\<lparr>calls := cs, mEngineStatus := ES_SHUTDOWN, caller := Stop_join\<rparr>)"
| join: "caller s = Stop_join \<Longrightarrow> mThreadId s = Some i \<Longrightarrow> threads s ! i = Main_returned \<Longrightarrow>
    eng_step spurious nothread s (s\<lparr>threads := (threads s)[i := Main_joined], caller := Idle, results := results s @ [0]\<rparr>)"
| join_none: "caller s = Stop_join \<Longrightarrow> mThreadId s = None \<Longrightarrow>
    eng_step spurious nothread s (s\<lparr>caller := Undefined\<rparr>)"
| join_again: "caller s = Stop_join \<Longrightarrow> mThreadId s = Some i \<Longrightarrow> threads s ! i = Main_joined \<Longrightarrow>
    eng_step spurious nothread s (s\<lparr>caller := Undefined\<rparr>)"
| main_lock: "i < length (threads s) \<Longrightarrow> threads s ! i = Main_lock \<Longrightarrow> lock (Suc i) (monitor s) = Some m \<Longrightarrow>
    eng_step spurious nothread s (s\<lparr>threads := (threads s)[i := Main_status], monitor := m\<rparr>)"
| main_status: "i < length (threads s) \<Longrightarrow> threads s ! i = Main_status \<Longrightarrow>
    eng_step spurious nothread s (s\<lparr>threads := (threads s)[i := Main_signal], mEngineStatus := ES_READY\<rparr>)"
| main_signal: "i < length (threads s) \<Longrightarrow> threads s ! i = Main_signal \<Longrightarrow>
    eng_step spurious nothread s (s\<lparr>threads := (threads s)[i := Main_unlock], monitor := signal_cond (monitor s)\<rparr>)"
| main_unlock: "i < length (threads s) \<Longrightarrow> threads s ! i = Main_unlock \<Longrightarrow> unlock (Suc i) (monitor s) = Some m \<Longrightarrow>
    eng_step spurious nothread s (s\<lparr>threads := (threads s)[i := Main_service], monitor := m\<rparr>)"
| main_turn: "i < length (threads s) \<Longrightarrow> threads s ! i = Main_service \<Longrightarrow> mEngineStatus s \<noteq> ES_SHUTDOWN \<Longrightarrow>
    eng_step spurious nothread s s"
| main_return: "i < length (threads s) \<Longrightarrow> threads s ! i = Main_service \<Longrightarrow> mEngineStatus s = ES_SHUTDOWN \<Longrightarrow>
    eng_step spurious nothread s (s\<lparr>threads := (threads s)[i := Main_returned]\<rparr>)"

abbreviation eng_runs :: "bool \<Rightarrow> bool \<Rightarrow> engine \<Rightarrow> engine \<Rightarrow> bool" where
  "eng_runs spurious nothread \<equiv> (eng_step spurious nothread)\<^sup>*\<^sup>*"

section \<open>The calls one after the other\<close>

text \<open>
  What the two functions promise: a start is refused exactly while the engine runs, and a stop
  needs an engine that runs.
\<close>

fun engine_spec :: "bool \<Rightarrow> engine_call list \<Rightarrow> int list option" where
  "engine_spec up [] = Some []"
| "engine_spec up (StartEngine # cs) = map_option ((#) (if up then - 1 else 0)) (engine_spec True cs)"
| "engine_spec up (StopEngine # cs) = (if up then map_option ((#) 0) (engine_spec False cs) else None)"

end
