(* ===== verification/EngineThreadProps.thy ===== *)
theory EngineThreadProps
  imports EngineThread
begin

text \<open>
  The calls of \<^verbatim>\<open>startEngine\<close> and \<^verbatim>\<open>stopEngine\<close> under every interleaving: an invariant of the reachable
  states that fixes where caller, thread and mutex can be, a rank that every move lowers, and the
  runs in which a start is lost.
\<close>

section \<open>Invariant\<close>
























section \<open>Every call returns\<close>












section \<open>Runs with a lost start\<close>

text \<open>A run of given steps.\<close>

lemma eng_run_Cons: "eng_step b c s t \<Longrightarrow> eng_runs b c t u \<Longrightarrow> eng_runs b c s u"
  by (rule converse_rtranclp_into_rtranclp)

lemma eng_run_end:
  assumes "\<And>t. eng_step b c s t \<Longrightarrow> t = s"
  shows "{t. eng_runs b c s t} = {s}"
proof -
  have "t = s" if "eng_runs b c s t" for t
    using that by (induction rule: rtranclp_induct) (auto dest: assms)
  then show ?thesis by auto
qed

definition stop_waits :: engine where
  "stop_waits = \<lparr>mEngineStatus = ES_READY, mThreadId = Some 0, monitor = \<lparr>mMutex = None, mCond = []\<rparr>,
     caller = Stop_join, threads = [Main_service], calls = [], results = [0]\<rparr>"

definition start_waits :: engine where
  "start_waits = \<lparr>mEngineStatus = ES_SHUTDOWN, mThreadId = None, monitor = \<lparr>mMutex = None, mCond = [0]\<rparr>,
     caller = Start_waiting, threads = [], calls = [], results = []\<rparr>"

lemma reach_stop_waits: "eng_runs True False (engine_new [StartEngine, StopEngine]) stop_waits"
  unfolding engine_new_def stop_waits_def
  apply (rule start [THEN eng_run_Cons], simp, simp, simp)
  apply (rule start_lock [THEN eng_run_Cons], simp, simp add: lock_def)
  apply (rule start_create [THEN eng_run_Cons], simp)
  apply (rule start_wait [THEN eng_run_Cons], simp, simp add: wait_sleep_def)
  apply (rule wake_up [THEN eng_run_Cons], simp, simp, simp)
  apply (rule start_woken [THEN eng_run_Cons], simp, simp add: wait_return_def lock_def)
  apply (rule start_unlock [THEN eng_run_Cons], simp, simp add: unlock_def)
  apply (rule stop [THEN eng_run_Cons], simp, simp)
  apply (rule main_lock [where i = 0, THEN eng_run_Cons], simp, simp, simp add: lock_def)
  apply (rule main_status [where i = 0, THEN eng_run_Cons], simp, simp)
  apply (rule main_signal [where i = 0, THEN eng_run_Cons], simp, simp)
  apply (rule main_unlock [where i = 0, THEN eng_run_Cons], simp, simp, simp add: unlock_def signal_cond_def)
  apply (simp add: signal_cond_def)
  done

lemma reach_start_waits: "eng_runs False True (engine_new [StartEngine]) start_waits"
  unfolding engine_new_def start_waits_def
  apply (rule start [THEN eng_run_Cons], simp, simp, simp)
  apply (rule start_lock [THEN eng_run_Cons], simp, simp add: lock_def)
  apply (rule create_fails [THEN eng_run_Cons], simp, simp)
  apply (rule start_wait [THEN eng_run_Cons], simp, simp add: wait_sleep_def)
  apply simp
  done

lemma end_stop_waits: "{t. eng_runs True False stop_waits t} = {stop_waits}"
  by (rule eng_run_end, erule eng_step.cases) (auto simp: stop_waits_def)

lemma end_start_waits: "{t. eng_runs False True start_waits t} = {start_waits}"
  by (rule eng_run_end, erule eng_step.cases) (auto simp: start_waits_def wait_return_def)





section \<open>Properties\<close>



text \<open>
  \<^verbatim>\<open>startEngine\<close> waits once and does not look at \<^verbatim>\<open>mEngineStatus\<close> again. With a wake-up without a
  signal it returns 0 before the thread runs; a stop that follows is overwritten by the thread, and
  \<^verbatim>\<open>stopEngine\<close> waits for ever: from that state nothing but turns of the loop happens. And if
  \<^verbatim>\<open>pthread_create\<close> fails, \<^verbatim>\<open>startEngine\<close> waits for ever.
\<close>

theorem engine_start_lost:
  "(\<exists>s. eng_runs True False (engine_new [StartEngine, StopEngine]) s \<and> caller s = Stop_join \<and>
      results s = [0] \<and> mEngineStatus s = ES_READY \<and> {t. eng_runs True False s t} = {s}) \<and>
   (\<exists>s. eng_runs False True (engine_new [StartEngine]) s \<and> caller s = Start_waiting \<and>
      results s = [] \<and> {t. eng_runs False True s t} = {s})"
proof (intro conjI exI)
  show "eng_runs True False (engine_new [StartEngine, StopEngine]) stop_waits" by (rule reach_stop_waits)
  show "{t. eng_runs True False stop_waits t} = {stop_waits}" by (rule end_stop_waits)
  show "eng_runs False True (engine_new [StartEngine]) start_waits" by (rule reach_start_waits)
  show "{t. eng_runs False True start_waits t} = {start_waits}" by (rule end_start_waits)
qed (simp_all add: stop_waits_def start_waits_def)

end
