(* ===== verification/HandlePacket.thy ===== *)
theory HandlePacket
  imports Engine
begin

text \<open>
  \<^verbatim>\<open>platform/net/src/mxHandlePacket.cpp\<close> and \<^verbatim>\<open>mxHandleUdpPacket.cpp\<close>: the socket behind an engine. The
  kernel is the table of open sockets; whether a call fails for a reason of its own is an argument.
  \<^verbatim>\<open>bind\<close> refuses an address that is shorter than the family's.
\<close>

abbreviation (input) "AF_INET \<equiv> (2 :: int)"
abbreviation (input) "AF_INET6 \<equiv> (10 :: int)"
abbreviation (input) "O_NONBLOCK \<equiv> (0x800 :: u32)"
abbreviation (input) "sockaddr_size \<equiv> (16 :: nat)"

section \<open>The kernel\<close>

record ksock =
  k_family :: int
  k_flags :: u32
  k_reuse :: u32
  k_sndbuf :: u32
  k_rcvbuf :: u32
  k_pktinfo :: "(bool \<times> u32) option"
  k_bound :: bool

type_synonym ksocks = "int \<Rightarrow> ksock option"

definition new_sock :: "int \<Rightarrow> ksock" where
  "new_sock family = \<lparr>k_family = family, k_flags = 0, k_reuse = 0, k_sndbuf = 212992, k_rcvbuf = 212992,
     k_pktinfo = None, k_bound = False\<rparr>"

text \<open>\<^verbatim>\<open>setsockopt\<close> and \<^verbatim>\<open>fcntl\<close> on a descriptor: \<open>None\<close> is the result -1.\<close>

definition ksock_set :: "bool \<Rightarrow> int \<Rightarrow> (ksock \<Rightarrow> ksock) \<Rightarrow> ksocks \<Rightarrow> ksocks option" where
  "ksock_set works fd f K = (case K fd of Some sk \<Rightarrow> if works then Some (K(fd \<mapsto> f sk)) else None | None \<Rightarrow> None)"

definition address_size :: "int \<Rightarrow> nat" where
  "address_size family = (if family = AF_INET6 then 28 else 16)"

definition kbind :: "bool \<Rightarrow> int \<Rightarrow> nat \<Rightarrow> ksocks \<Rightarrow> ksocks option" where
  "kbind works fd addrlen K =
     (case K fd of
        Some sk \<Rightarrow> if works \<and> address_size (k_family sk) \<le> addrlen then Some (K(fd \<mapsto> sk\<lparr>k_bound := True\<rparr>)) else None
      | None \<Rightarrow> None)"

section \<open>mxHandlePacket\<close>

record mxHandlePacket =
  mFamily :: int
  mPort :: u16
  mServerFlag :: bool
  mSocket :: int
  mType :: "int option"
  mProtocol :: "int option"

definition mxHandlePacket_new :: mxHandlePacket where
  "mxHandlePacket_new = \<lparr>mFamily = AF_INET, mPort = 0, mServerFlag = False, mSocket = - 1, mType = None, mProtocol = None\<rparr>"

text \<open>\<open>fd\<close> is what \<^verbatim>\<open>socket\<close> returns.\<close>

definition createSocket :: "int \<Rightarrow> int \<Rightarrow> int \<Rightarrow> int \<Rightarrow> mxHandlePacket \<times> ksocks \<Rightarrow> (mxHandlePacket \<times> ksocks) \<times> int" where
  "createSocket family type proto fd s =
     (case s of (h, K) \<Rightarrow>
        if fd < 0 then ((h\<lparr>mSocket := fd\<rparr>, K), - 1)
        else ((h\<lparr>mSocket := fd, mFamily := family, mType := Some type, mProtocol := Some proto\<rparr>,
               K(fd \<mapsto> new_sock family)), 0))"

definition setOptNonBlocking :: "bool \<Rightarrow> bool \<Rightarrow> bool \<Rightarrow> mxHandlePacket \<Rightarrow> ksocks \<Rightarrow> ksocks \<times> int" where
  "setOptNonBlocking getfl setfl on h K =
     (case (if getfl then K (mSocket h) else None) of
        None \<Rightarrow> (K, - 1)
      | Some sk \<Rightarrow>
          let flags = (if on then k_flags sk OR O_NONBLOCK else k_flags sk AND NOT O_NONBLOCK)
          in case ksock_set setfl (mSocket h) (k_flags_update (\<lambda>_. flags)) K of None \<Rightarrow> (K, - 1) | Some K' \<Rightarrow> (K', 0))"

definition setOptReuseAddr :: "bool \<Rightarrow> bool \<Rightarrow> mxHandlePacket \<Rightarrow> ksocks \<Rightarrow> ksocks \<times> int" where
  "setOptReuseAddr works on h K =
     (case ksock_set works (mSocket h) (k_reuse_update (\<lambda>_. if on then 1 else 0)) K of
        None \<Rightarrow> (K, - 1) | Some K' \<Rightarrow> (K', 0))"

text \<open>A size of 0 leaves the buffer alone. \<open>g1\<close> and \<open>g2\<close>: whether the two \<^verbatim>\<open>getsockopt\<close> succeed.\<close>

definition setOptBufferSize ::
  "bool \<Rightarrow> bool \<Rightarrow> bool \<Rightarrow> bool \<Rightarrow> u32 \<Rightarrow> u32 \<Rightarrow> mxHandlePacket \<Rightarrow> ksocks \<Rightarrow> ksocks \<times> int" where
  "setOptBufferSize w1 w2 g1 g2 rx tx h K =
     (case (if tx \<noteq> 0 then ksock_set w1 (mSocket h) (k_sndbuf_update (\<lambda>_. tx)) K else Some K) of
        None \<Rightarrow> (K, - 1)
      | Some K1 \<Rightarrow>
          (case (if rx \<noteq> 0 then ksock_set w2 (mSocket h) (k_rcvbuf_update (\<lambda>_. rx)) K1 else Some K1) of
             None \<Rightarrow> (K1, - 1)
           | Some K2 \<Rightarrow> if g1 \<and> g2 \<and> K2 (mSocket h) \<noteq> None then (K2, 0) else (K2, - 1)))"

definition bindSocket :: "bool \<Rightarrow> mxHandlePacket \<Rightarrow> ksocks \<Rightarrow> ksocks \<times> int" where
  "bindSocket works h K = (case kbind works (mSocket h) sockaddr_size K of None \<Rightarrow> (K, - 1) | Some K' \<Rightarrow> (K', 0))"

definition callListenInd :: int where
  "callListenInd = 0"

section \<open>mxHandleUdpPacket\<close>

definition serverRead :: "int \<Rightarrow> int" where "serverRead fd = 0"

definition clientRead :: "int \<Rightarrow> int" where "clientRead fd = 0"

definition eventRead :: "mxHandlePacket \<Rightarrow> int \<Rightarrow> int" where
  "eventRead h fd = (if mServerFlag h then serverRead fd else clientRead fd)"

definition eventWrite :: "int \<Rightarrow> int" where "eventWrite fd = 0"

definition eventError :: "int \<Rightarrow> int" where "eventError fd = 0"

definition setOptAuxiliaryData :: "bool \<Rightarrow> bool \<Rightarrow> mxHandlePacket \<Rightarrow> ksocks \<Rightarrow> ksocks \<times> int" where
  "setOptAuxiliaryData works on h K =
     (case ksock_set works (mSocket h)
        (k_pktinfo_update (\<lambda>_. Some (mFamily h = AF_INET6, if on then 1 else 0))) K of
        None \<Rightarrow> (K, - 1) | Some K' \<Rightarrow> (K', 0))"

text \<open>What the calls of \<^verbatim>\<open>openConnect\<close> give.\<close>

record open_calls =
  o_socket :: int
  o_getfl :: bool
  o_setfl :: bool
  o_bind :: bool

text \<open>\<open>add\<close> is the engine's \<^verbatim>\<open>addEvent\<close>; its result is not looked at.\<close>

definition openConnect ::
  "(int \<Rightarrow> u8 \<Rightarrow> 'e \<Rightarrow> 'e option) \<Rightarrow> int \<Rightarrow> int \<Rightarrow> int \<Rightarrow> open_calls \<Rightarrow> mxHandlePacket \<times> ksocks \<times> 'e
    \<Rightarrow> ((mxHandlePacket \<times> ksocks \<times> 'e) \<times> int) option" where
  "openConnect add family type proto c s =
     (case s of (h, K, e) \<Rightarrow>
      case createSocket family type proto (o_socket c) (h, K) of ((h1, K1), r1) \<Rightarrow>
        if r1 \<noteq> 0 then Some ((h1, K1, e), - 1)
        else case setOptNonBlocking (o_getfl c) (o_setfl c) True h1 K1 of (K2, r2) \<Rightarrow>
          if r2 \<noteq> 0 then Some ((h1, K2, e), - 1)
          else case bindSocket (o_bind c) h1 K2 of (K3, r3) \<Rightarrow>
            if r3 \<noteq> 0 then Some ((h1, K3, e), - 1)
            else do { e' \<leftarrow> add (mSocket h1) EVENT_READ e; Some ((h1\<lparr>mServerFlag := True\<rparr>, K3, e'), 0) })"

section \<open>Properties\<close>

text \<open>Setting and clearing the flag.\<close>

lemma setOptNonBlocking_flag:
  assumes "K (mSocket h) = Some sk"
  shows "\<exists>K' sk'. setOptNonBlocking True True on h K = (K', 0) \<and> K' (mSocket h) = Some sk' \<and>
    (k_flags sk' AND O_NONBLOCK \<noteq> 0 \<longleftrightarrow> on) \<and> k_flags sk' AND NOT O_NONBLOCK = k_flags sk AND NOT O_NONBLOCK"
proof -
  have "(k_flags sk OR O_NONBLOCK) AND NOT O_NONBLOCK = k_flags sk AND NOT O_NONBLOCK"
    "(k_flags sk AND NOT O_NONBLOCK) AND NOT O_NONBLOCK = k_flags sk AND NOT O_NONBLOCK"
    "(k_flags sk AND NOT O_NONBLOCK) AND O_NONBLOCK = 0"
    by ((rule bit_word_eqI, auto simp: bit_simps)+)
  moreover have "(k_flags sk OR O_NONBLOCK) AND O_NONBLOCK = O_NONBLOCK"
    by (rule bit_word_eqI) (auto simp: bit_simps)
  ultimately show ?thesis using assms by (cases on) (simp_all add: setOptNonBlocking_def ksock_set_def)
qed

lemma addEvent_read:
  "addEvent fd EVENT_READ e = (if \<not> (0 \<le> fd \<and> fd < 1024) then None
    else Some (e\<lparr>mRdFds := insert fd (mRdFds e), mWrFds := mWrFds e - {fd}, mExFds := insert fd (mExFds e),
           mMaxFd := max fd (mMaxFd e)\<rparr>))"
  by (simp add: addEvent_def fd_ok_def FD_SET_event_def FD_CLR_all_def Let_def max_def)

lemma nonblocking_bit: "(x OR O_NONBLOCK) AND O_NONBLOCK \<noteq> 0"
proof -
  have "(x OR O_NONBLOCK) AND O_NONBLOCK = O_NONBLOCK"
    by (rule bit_word_eqI) (auto simp: bit_simps)
  then show ?thesis by simp
qed

lemmas packet_defs = openConnect_def createSocket_def setOptNonBlocking_def bindSocket_def kbind_def ksock_set_def
  new_sock_def address_size_def

text \<open>
  C37: \<^verbatim>\<open>openConnect\<close> over the select engine succeeds exactly if all calls do and the family is not
  IPv6, whose addresses are longer than the 16 bytes that \<^verbatim>\<open>bindSocket\<close> hands over. Then the new
  socket is bound and non-blocking, the handler is a server, and the engine watches the socket for
  reading and no other socket less or more; a descriptor from 1024 on is undefined there. After a
  failure the engine is as before, but the socket stays open.
\<close>

theorem openConnect_select:
  assumes "fd = o_socket c"
  shows "if 0 \<le> fd \<and> o_getfl c \<and> o_setfl c \<and> o_bind c \<and> family \<noteq> AF_INET6 then
      if 1024 \<le> fd then openConnect addEvent family type proto c (h, K, e) = None
      else \<exists>h' K' e' sk. openConnect addEvent family type proto c (h, K, e) = Some ((h', K', e'), 0) \<and>
        mServerFlag h' \<and> mSocket h' = fd \<and> K' fd = Some sk \<and> K'(fd := None) = K(fd := None) \<and> k_bound sk \<and> k_flags sk AND O_NONBLOCK \<noteq> 0 \<and>
        mRdFds e' = insert fd (mRdFds e) \<and> mWrFds e' = mWrFds e - {fd} \<and> fd \<le> mMaxFd e'
    else \<exists>h' K'. openConnect addEvent family type proto c (h, K, e) = Some ((h', K', e), - 1) \<and>
        mServerFlag h' = mServerFlag h \<and> (K' fd \<noteq> None) = (0 \<le> fd \<or> K fd \<noteq> None)"
proof (cases "0 \<le> fd \<and> o_getfl c \<and> o_setfl c \<and> o_bind c \<and> family \<noteq> AF_INET6")
  case True
  then show ?thesis using assms nonblocking_bit [of 0]
    by (auto simp: packet_defs addEvent_read Let_def)
next
  case False
  then show ?thesis using assms
    by (cases "fd < 0"; cases "o_getfl c"; cases "o_setfl c"; cases "o_bind c") (simp_all add: packet_defs Let_def)
qed

theorem openConnect_select_witness:
  "\<exists>h' K' e' sk. openConnect addEvent 2 2 17 \<lparr>o_socket = 7, o_getfl = True, o_setfl = True, o_bind = True\<rparr>
      (mxHandlePacket_new, Map.empty, mxEngineSelect_init) = Some ((h', K', e'), 0) \<and>
    K' 7 = Some sk \<and> k_bound sk \<and> 7 \<in> mRdFds e' \<and> 7 \<le> mMaxFd e'"
  using openConnect_select [of 7 "\<lparr>o_socket = 7, o_getfl = True, o_setfl = True, o_bind = True\<rparr>" 2 2 17
      mxHandlePacket_new Map.empty mxEngineSelect_init]
  by auto

text \<open>A second call after a failure: the first socket is still open, and the handler no longer knows it.\<close>

lemma openConnect_leak:
  assumes "0 \<le> o_socket c" "\<not> o_bind c" "o_socket d \<noteq> o_socket c"
  shows "\<exists>h' K' h'' K'' r. openConnect add family type proto c (h, K, e) = Some ((h', K', e), - 1) \<and>
    createSocket family type proto (o_socket d) (h', K') = ((h'', K''), r) \<and> K'' (o_socket c) \<noteq> None \<and>
    mSocket h'' \<noteq> o_socket c"
  using assms by (cases "o_getfl c"; cases "o_setfl c") (auto simp: packet_defs Let_def)

end
