(* ===== verification/EvpHash.thy ===== *)
theory EvpHash
  imports HashInterface
begin

text \<open>
  \<^verbatim>\<open>evpHash.cpp\<close> and \<^verbatim>\<open>evpHmac.cpp\<close>: the hash interface and HMAC over the EVP functions of OpenSSL.
  The library is the parameter \<open>lib\<close>: which digests it has, their sizes and their bytes. A call
  that its documentation does not allow (an update before an initialisation or behind a final)
  is \<^verbatim>\<open>None\<close>.
\<close>

section \<open>The EVP functions\<close>

record 'md evp_lib =
  EVP_get_digestbyname :: "string \<Rightarrow> 'md option"
  EVP_MD_name :: "'md \<Rightarrow> string"
  EVP_MD_size :: "'md \<Rightarrow> nat"
  EVP_MD_byte :: "'md \<Rightarrow> u8 list \<Rightarrow> nat \<Rightarrow> u8"

text \<open>The digest of a message: as many bytes as the size says.\<close>

definition EVP_digest :: "'md evp_lib \<Rightarrow> 'md \<Rightarrow> u8 list \<Rightarrow> u8 list" where
  "EVP_digest lib d msg = map (EVP_MD_byte lib d msg) [0..<EVP_MD_size lib d]"

text \<open>An \<^verbatim>\<open>EVP_MD_CTX\<close>: new, taking in a message, or finished. A \<^verbatim>\<open>const EVP_MD*\<close>.\<close>

datatype 'md evp_ctx = Ctx_new | Ctx_running 'md "u8 list" | Ctx_final 'md

datatype 'md md_ptr = Indeterminate | Null | Md 'md

fun ctx_md :: "'md evp_ctx \<Rightarrow> 'md option" where
  "ctx_md Ctx_new = None"
| "ctx_md (Ctx_running d msg) = Some d"
| "ctx_md (Ctx_final d) = Some d"

text \<open>With a null digest the one of the context is taken again.\<close>

fun EVP_DigestInit_ex :: "'md evp_ctx \<Rightarrow> 'md md_ptr \<Rightarrow> 'md evp_ctx option" where
  "EVP_DigestInit_ex ctx Indeterminate = None"
| "EVP_DigestInit_ex ctx Null = Some (case ctx_md ctx of None \<Rightarrow> ctx | Some d \<Rightarrow> Ctx_running d [])"
| "EVP_DigestInit_ex ctx (Md d) = Some (Ctx_running d [])"

fun EVP_DigestUpdate :: "'md evp_ctx \<Rightarrow> u8 list \<Rightarrow> 'md evp_ctx option" where
  "EVP_DigestUpdate (Ctx_running d msg) bs = Some (Ctx_running d (msg @ bs))"
| "EVP_DigestUpdate _ bs = None"

fun EVP_DigestFinal_ex :: "'md evp_lib \<Rightarrow> 'md evp_ctx \<Rightarrow> ('md evp_ctx \<times> u8 list) option" where
  "EVP_DigestFinal_ex lib (Ctx_running d msg) = Some (Ctx_final d, EVP_digest lib d msg)"
| "EVP_DigestFinal_ex lib _ = None"

section \<open>evpHash\<close>

record 'md evpHash =
  mHashType :: "u32 option"
  mpCtx :: "'md evp_ctx"
  mpMd :: "'md md_ptr"

text \<open>The constructor sets only the context.\<close>

definition evpHash_new :: "'md evpHash" where
  "evpHash_new = \<lparr>mHashType = None, mpCtx = Ctx_new, mpMd = Indeterminate\<rparr>"

definition evp_digest_name :: "u32 \<Rightarrow> string option" where
  "evp_digest_name = map_of
    [(HashType_value HASH_MD4, ''MD4''), (HashType_value HASH_MD5, ''MD5''),
     (HashType_value HASH_SHA1, ''sha1''), (HashType_value HASH_SHA2_224, ''sha224''),
     (HashType_value HASH_SHA2_256, ''sha256''), (HashType_value HASH_SHA2_384, ''sha384''),
     (HashType_value HASH_SHA2_512, ''SHA512''), (HashType_value HASH_SHA3_224, ''SHA3-224''),
     (HashType_value HASH_SHA3_256, ''SHA3-256''), (HashType_value HASH_SHA3_384, ''SHA3-384''),
     (HashType_value HASH_SHA3_512, ''SHA3-512''), (HashType_value HASH_SM3, ''SM3'')]"

definition md_of :: "'md option \<Rightarrow> 'md md_ptr" where
  "md_of x = (case x of None \<Rightarrow> Null | Some d \<Rightarrow> Md d)"

definition evp_setHashType :: "'md evp_lib \<Rightarrow> u32 \<Rightarrow> 'md evpHash \<Rightarrow> 'md evpHash \<times> u32" where
  "evp_setHashType lib type ob =
     (case evp_digest_name type of
        None \<Rightarrow> (ob, 1)
      | Some n \<Rightarrow> (ob\<lparr>mpMd := md_of (EVP_get_digestbyname lib n), mHashType := Some type\<rparr>, 0))"

definition evp_getHashName :: "'md evp_lib \<Rightarrow> 'md evpHash \<Rightarrow> string option" where
  "evp_getHashName lib ob = (case mpMd ob of Md d \<Rightarrow> Some (EVP_MD_name lib d) | _ \<Rightarrow> None)"

definition evp_getHashType :: "'md evpHash \<Rightarrow> u32 option" where
  "evp_getHashType ob = mHashType ob"

definition evp_getHashSize :: "'md evp_lib \<Rightarrow> 'md evpHash \<Rightarrow> u32 option" where
  "evp_getHashSize lib ob = (case mpMd ob of Md d \<Rightarrow> Some (of_nat (EVP_MD_size lib d)) | _ \<Rightarrow> None)"

definition evp_initHash :: "'md evpHash \<Rightarrow> 'md evpHash option" where
  "evp_initHash ob = map_option (\<lambda>c. ob\<lparr>mpCtx := c\<rparr>) (EVP_DigestInit_ex (mpCtx ob) (mpMd ob))"

definition evp_updateHash :: "'md evpHash \<Rightarrow> u8 list \<Rightarrow> u32 \<Rightarrow> 'md evpHash option" where
  "evp_updateHash ob input n =
     do { bs \<leftarrow> buf_read input 0 (unat n); c \<leftarrow> EVP_DigestUpdate (mpCtx ob) bs; Some (ob\<lparr>mpCtx := c\<rparr>) }"

definition evp_finalHash :: "'md evp_lib \<Rightarrow> 'md evpHash \<Rightarrow> ('md evpHash \<times> u8 list) option" where
  "evp_finalHash lib ob = do { (c, dig) \<leftarrow> EVP_DigestFinal_ex lib (mpCtx ob); Some (ob\<lparr>mpCtx := c\<rparr>, dig) }"

definition evp_calcHash ::
  "'md evp_lib \<Rightarrow> 'md evpHash \<Rightarrow> chunk_t \<Rightarrow> bool \<Rightarrow> ('md evpHash \<times> u8 list option) option" where
  "evp_calcHash lib ob chunk want =
     do { ob1 \<leftarrow> evp_updateHash ob (chunk_mem chunk) (len chunk);
          if want then do { (ob2, dig) \<leftarrow> evp_finalHash lib ob1; ob3 \<leftarrow> evp_initHash ob2; Some (ob3, Some dig) }
          else Some (ob1, None) }"

subsection \<open>The contract of the hash interface\<close>






text \<open>Unlike the other classes an object takes no input before its first \<^verbatim>\<open>initHash\<close>.\<close>

lemma evp_not_ready: "evp_calcHash lib (fst (evp_setHashType lib type evpHash_new)) x want = None"
  by (simp add: evp_calcHash_def evp_updateHash_def evp_setHashType_def evpHash_new_def buf_read_def
      split: option.split)

text \<open>A name the library does not have is accepted.\<close>

lemma evp_unknown_accepted:
  assumes "evp_digest_name type = Some n" "EVP_get_digestbyname lib n = None"
  shows "snd (evp_setHashType lib type ob) = 0 \<and> mpMd (fst (evp_setHashType lib type ob)) = Null"
  using assms by (simp add: evp_setHashType_def md_of_def)

section \<open>EvpHmac\<close>

















section \<open>Properties\<close>







end
