(* ===== verification/Log.thy ===== *)
theory Log
  imports Status
begin

text \<open>
  \<^verbatim>\<open>platform/common/src/mxLog.cpp\<close>: the log of the program, to the console or to syslog. The text that
  \<^verbatim>\<open>vsnprintf\<close> makes of the format, and the time, are arguments; the result is what is printed and
  what is handed to \<^verbatim>\<open>syslog\<close>. Undefined behaviour is \<^verbatim>\<open>None\<close>.
\<close>

abbreviation (input) "MXLOG_SYSLOG \<equiv> (1 :: u32)"
abbreviation (input) "MXLOG_CONSOLE \<equiv> (2 :: u32)"
abbreviation (input) "MXLOG_NONE \<equiv> (4 :: u32)"

abbreviation (input) "LOG_EMERG \<equiv> (0 :: u32)"
abbreviation (input) "LOG_ALERT \<equiv> (1 :: u32)"
abbreviation (input) "LOG_CRIT \<equiv> (2 :: u32)"
abbreviation (input) "LOG_ERR \<equiv> (3 :: u32)"
abbreviation (input) "LOG_WARNING \<equiv> (4 :: u32)"
abbreviation (input) "LOG_NOTICE \<equiv> (5 :: u32)"
abbreviation (input) "LOG_INFO \<equiv> (6 :: u32)"
abbreviation (input) "LOG_DEBUG \<equiv> (7 :: u32)"

abbreviation (input) "LOG_MAX_DATA \<equiv> (256 :: nat)"

text \<open>The constructor leaves the level indeterminate and the name null.\<close>

record mxLog =
  mxLogChannel :: u32
  mxLogLevel :: "u32 option"
  mxIdent :: "string option"

definition mxLog_new :: mxLog where
  "mxLog_new = \<lparr>mxLogChannel = MXLOG_SYSLOG, mxLogLevel = None, mxIdent = None\<rparr>"

definition initialize :: "u32 \<Rightarrow> u32 \<Rightarrow> string option \<Rightarrow> mxLog \<Rightarrow> mxLog \<times> Status_e" where
  "initialize channel level ident l =
     (if channel \<noteq> MXLOG_SYSLOG \<and> channel \<noteq> MXLOG_CONSOLE \<and> channel \<noteq> MXLOG_NONE then (l, STATUS_ERR_PARAMETER)
      else if LOG_DEBUG < level then (l, STATUS_ERR_PARAMETER)
      else (l\<lparr>mxLogChannel := channel, mxLogLevel := Some level, mxIdent := ident\<rparr>, STATUS_SUCCESS))"

definition getLevelString :: "u32 \<Rightarrow> string" where
  "getLevelString level =
     (if level = LOG_EMERG then ''EMERG'' else if level = LOG_ALERT then ''ALERT''
      else if level = LOG_CRIT then ''CRIT'' else if level = LOG_ERR then ''ERR''
      else if level = LOG_WARNING then ''WARNING'' else if level = LOG_NOTICE then ''NOTICE''
      else if level = LOG_INFO then ''INFO'' else if level = LOG_DEBUG then ''DEBUG'' else ''NONE'')"

definition openConsoleColour :: "u32 \<Rightarrow> string" where
  "openConsoleColour level = CHR 0x1B #
     (if level = LOG_EMERG \<or> level = LOG_ALERT \<or> level = LOG_CRIT then ''[00;35m''
      else if level = LOG_ERR then ''[00;31m'' else if level = LOG_WARNING then ''[00;33m'' else ''[00;37m'')"

definition closeConsoleColour :: string where
  "closeConsoleColour = CHR 0x1B # ''[0m''"

text \<open>\<^verbatim>\<open>LOG_FILE_NAME\<close>: what follows the last slash.\<close>

definition LOG_FILE_NAME :: "string \<Rightarrow> string" where
  "LOG_FILE_NAME path = rev (takeWhile (\<lambda>c. c \<noteq> CHR ''/'') (rev path))"

text \<open>\<^verbatim>\<open>%d\<close> of a number that is not negative, and \<^verbatim>\<open>%06d\<close>.\<close>

fun decimal :: "nat \<Rightarrow> string" where
  "decimal n = (if n < 10 then [] else decimal (n div 10)) @ [char_of (48 + n mod 10)]"

declare decimal.simps [simp del]

definition decimal6 :: "nat \<Rightarrow> string" where
  "decimal6 n = replicate (6 - length (decimal n)) (CHR ''0'') @ decimal n"

datatype log_out = Stdout string | Syslog u32 string

record log_call =
  log_file :: string
  log_function :: string
  log_line :: nat
  log_message :: string
  log_time :: string
  log_usec :: nat

definition log_place :: "log_call \<Rightarrow> string" where
  "log_place c = ''['' @ log_function c @ ''-'' @ LOG_FILE_NAME (log_file c) @ ''-'' @ decimal (log_line c) @ '']''"

definition logFmt :: "s32 \<Rightarrow> log_call \<Rightarrow> mxLog \<Rightarrow> log_out list option" where
  "logFmt level c l =
     do { limit \<leftarrow> mxLogLevel l;
          if limit < level then Some []
          else do {
            let logStr = take (LOG_MAX_DATA - 1) (log_message c);
            console \<leftarrow> (if mxLogChannel l AND MXLOG_CONSOLE \<noteq> 0
               then do { ident \<leftarrow> mxIdent l;
                         Some [Stdout (openConsoleColour level),
                           Stdout (log_time c @ ''.'' @ decimal6 (log_usec c) @ '' '' @ ident @ ''<'' @
                             getLevelString level @ ''>:'' @ log_place c @ logStr @ [CHR 0x0A]),
                           Stdout closeConsoleColour] }
               else Some []);
            Some (console @ (if mxLogChannel l AND MXLOG_SYSLOG \<noteq> 0 then [Syslog level (log_place c @ logStr)] else [])) } }"

lemma getLevelString_known: "getLevelString level \<noteq> ''NONE'' \<longleftrightarrow> level \<le> LOG_DEBUG"
proof
  show "getLevelString level \<noteq> ''NONE'' \<Longrightarrow> level \<le> LOG_DEBUG"
    by (auto simp: getLevelString_def split: if_splits)
next
  assume "level \<le> LOG_DEBUG"
  then have "unat level < 8" by (simp add: word_le_nat_alt)
  then have "unat level \<in> {0, 1, 2, 3, 4, 5, 6, 7}" by auto
  then show "getLevelString level \<noteq> ''NONE''"
    by (auto simp: getLevelString_def word_unat_eq_iff)
qed

lemma LOG_FILE_NAME_no_slash: "CHR ''/'' \<notin> set (LOG_FILE_NAME path)"
  using set_takeWhileD by (fastforce simp: LOG_FILE_NAME_def)

text \<open>Before \<^verbatim>\<open>initialize\<close> the level that is read is indeterminate.\<close>

lemma logFmt_new: "logFmt level c mxLog_new = None"
  by (simp add: logFmt_def mxLog_new_def)

text \<open>The bits of the channel can be tested one by one but not set together.\<close>

lemma both_channels_refused: "initialize (MXLOG_SYSLOG OR MXLOG_CONSOLE) level ident l = (l, STATUS_ERR_PARAMETER)"
  by (simp add: initialize_def)

lemma small_not_negative: "level \<le> (7 :: s32) \<Longrightarrow> \<not> sint level < 0"
proof -
  assume "level \<le> 7"
  then have "unat level \<le> 7" by (simp add: word_le_nat_alt)
  then have "unat level = 0 \<or> unat level = 1 \<or> unat level = 2 \<or> unat level = 3 \<or> unat level = 4 \<or> unat level = 5 \<or>
    unat level = 6 \<or> unat level = 7" by arith
  then have "level = 0 \<or> level = 1 \<or> level = 2 \<or> level = 3 \<or> level = 4 \<or> level = 5 \<or> level = 6 \<or> level = 7"
    by (simp add: word_unat_eq_iff)
  then show ?thesis by auto
qed

section \<open>Properties\<close>

text \<open>
  \<^verbatim>\<open>initialize\<close> takes exactly the three channels and the levels up to \<^verbatim>\<open>LOG_DEBUG\<close> and changes
  nothing otherwise. Afterwards a message goes to the one channel chosen, whole up to 255
  characters, if its level, read as unsigned, is not above the limit; negative levels are dropped.
\<close>

theorem log_messages:
  assumes "initialize channel limit (Some ident) l0 = (l, st)"
  shows "if channel \<in> {MXLOG_SYSLOG, MXLOG_CONSOLE, MXLOG_NONE} \<and> limit \<le> LOG_DEBUG
    then st = STATUS_SUCCESS \<and> logFmt level c l = Some
      (if sint level < 0 \<or> limit < level \<or> channel = MXLOG_NONE then []
       else if channel = MXLOG_SYSLOG then [Syslog level (log_place c @ take 255 (log_message c))]
       else [Stdout (openConsoleColour level),
         Stdout (log_time c @ ''.'' @ decimal6 (log_usec c) @ '' '' @ ident @ ''<'' @ getLevelString level @ ''>:'' @
           log_place c @ take 255 (log_message c) @ [CHR 0x0A]),
         Stdout closeConsoleColour])
    else st = STATUS_ERR_PARAMETER \<and> l = l0"
proof -
  have neg: "\<not> (sint level < 0 \<and> level \<le> 7)" using small_not_negative by blast
  then have n: "sint level < 0 \<Longrightarrow> limit \<le> 7 \<Longrightarrow> limit < level" by auto
  show ?thesis
  proof (cases "channel \<in> {MXLOG_SYSLOG, MXLOG_CONSOLE, MXLOG_NONE} \<and> limit \<le> LOG_DEBUG")
    case True
    then have l: "l = l0\<lparr>mxLogChannel := channel, mxLogLevel := Some limit, mxIdent := Some ident\<rparr>" "st = STATUS_SUCCESS"
      using assms by (auto simp: initialize_def split: if_splits)
    have "sint level < 0 \<or> limit < level \<longleftrightarrow> limit < level" using n True by blast
    then show ?thesis using True l by (auto simp: logFmt_def Let_def)
  next
    case False
    then show ?thesis using assms by (auto simp: initialize_def not_le split: if_splits)
  qed
qed

theorem log_messages_witness:
  "logFmt 3 \<lparr>log_file = ''src/a.cpp'', log_function = ''f'', log_line = 42, log_message = ''bad'', log_time = ''T'', log_usec = 7\<rparr>
     (fst (initialize 1 6 (Some ''app'') mxLog_new)) = Some [Syslog 3 ''[f-a.cpp-42]bad'']"
proof -
  have i: "initialize 1 6 (Some ''app'') mxLog_new = (fst (initialize 1 6 (Some ''app'') mxLog_new), STATUS_SUCCESS)"
    by (simp add: initialize_def)
  have d: "decimal 42 = ''42''" by code_simp
  show ?thesis using log_messages [OF i, of 3] d by (simp add: log_place_def LOG_FILE_NAME_def)
qed

end
