(* ===== verification/Fsm.thy ===== *)
theory Fsm
  imports Prelude
begin

text \<open>
  \<^verbatim>\<open>platform/common/inc/mxStateMachineBase.h\<close>: a machine whose states are objects with an \<^verbatim>\<open>enter\<close> and an
  \<^verbatim>\<open>exit\<close> callback. A callback gets the machine and may itself call \<^verbatim>\<open>setState\<close>; here it is the list
  of these calls (\<open>en s\<close>, \<open>ex s\<close>; \<open>None\<close> is a null pointer). The callbacks that ran are recorded.
\<close>

datatype 's fsm_event = Enter 's | Exit 's

record 's fsm =
  current :: 's
  events :: "'s fsm_event list"

text \<open>What is left to do: a call of \<^verbatim>\<open>setState\<close>, or its second half after the \<^verbatim>\<open>exit\<close>.\<close>

datatype 's fsm_todo = SetState "'s option" | Change 's

partial_function (option) fsm_exec ::
  "('s \<Rightarrow> 's option list) \<Rightarrow> ('s \<Rightarrow> 's option list) \<Rightarrow> 's fsm_todo list \<Rightarrow> 's fsm \<Rightarrow> 's fsm option" where
  "fsm_exec en ex todo m =
     (case todo of
        [] \<Rightarrow> Some m
      | SetState None # k \<Rightarrow> fsm_exec en ex k m
      | SetState (Some new) # k \<Rightarrow>
          if current m = new then fsm_exec en ex k m
          else fsm_exec en ex (map SetState (ex (current m)) @ Change new # k) (m\<lparr>events := events m @ [Exit (current m)]\<rparr>)
      | Change new # k \<Rightarrow>
          fsm_exec en ex (map SetState (en new) @ k) (m\<lparr>current := new, events := events m @ [Enter new]\<rparr>))"

lemma fsm_exec_simps [simp]:
  "fsm_exec en ex [] m = Some m"
  "fsm_exec en ex (SetState None # k) m = fsm_exec en ex k m"
  "fsm_exec en ex (SetState (Some new) # k) m =
     (if current m = new then fsm_exec en ex k m
      else fsm_exec en ex (map SetState (ex (current m)) @ Change new # k) (m\<lparr>events := events m @ [Exit (current m)]\<rparr>))"
  "fsm_exec en ex (Change new # k) m =
     fsm_exec en ex (map SetState (en new) @ k) (m\<lparr>current := new, events := events m @ [Enter new]\<rparr>)"
  by (simp_all add: fsm_exec.simps)



definition setState :: "('s \<Rightarrow> 's option list) \<Rightarrow> ('s \<Rightarrow> 's option list) \<Rightarrow> 's option \<Rightarrow> 's fsm \<Rightarrow> 's fsm option" where
  "setState en ex new m = fsm_exec en ex [SetState new] m"


definition isCurrentState :: "'s list \<Rightarrow> u32 \<Rightarrow> 's fsm \<Rightarrow> bool option" where
  "isCurrentState states n m = (if unat n < length states then Some (current m = states ! unat n) else None)"


section \<open>Which state is entered\<close>







text \<open>
  An \<^verbatim>\<open>exit\<close> callback that asks for another state is called again before the machine has left its
  state: the calls never return.
\<close>

lemma fsm_exec_diverges:
  assumes "fsm_exec en ex k m = Some m'" "ex (current m) = Some t # r" "t \<noteq> current m"
    and "k = SetState (Some v) # k'" "v \<noteq> current m"
  shows False
  using assms
proof (induction arbitrary: v k' rule: fsm_exec.raw_induct [rotated, consumes 1, case_names step])
  case (step exec en ex k m m')
  let ?m = "m\<lparr>events := events m @ [Exit (current m)]\<rparr>"
  have "exec en ex (SetState (Some t) # map SetState r @ Change v # k') ?m = Some m'"
    using step(2-6) by simp
  from step(1) [OF this _ _ refl] step(3,4) show ?case by simp
qed

lemma exit_request_never_returns:
  assumes "ex (current m) = [Some t]" "t \<noteq> current m" "new \<noteq> current m"
  shows "setState en ex (Some new) m = None"
  unfolding setState_def using fsm_exec_diverges [of en ex "[SetState (Some new)]" m _ t "[]" new "[]"] assms by (metis option.exhaust)

section \<open>Calls from outside\<close>













section \<open>Properties\<close>



end
