(* ===== verification/IpcShm.thy ===== *)
theory IpcShm
  imports Prelude
begin

text \<open>
  \<^verbatim>\<open>platform/common/src/mxIpcShM.cpp\<close>: an object for a segment of System V shared memory. The kernel is
  the segments (by identifier: key, size and number of attachments) and what this process has mapped
  where. The address \<^verbatim>\<open>shmat\<close> picks is an argument, \<open>None\<close> if it fails; other failures are flags.
\<close>

section \<open>The kernel\<close>

record segment =
  seg_key :: int
  seg_size :: int
  seg_nattch :: int

record kshm =
  segments :: "int \<Rightarrow> segment option"
  mapped :: "nat \<Rightarrow> int option"

text \<open>\<^verbatim>\<open>(void*)-1\<close> is \<open>Bad\<close>.\<close>

datatype shm_addr = Null | Bad | At nat

text \<open>
  \<^verbatim>\<open>shmget\<close>: an existing key gives its segment, if that is large enough; otherwise \<^verbatim>\<open>IPC_CREAT\<close> makes
  one, with the identifier \<open>new\<close>. The result is -1 on failure.
\<close>

definition shmget :: "bool \<Rightarrow> int \<Rightarrow> int \<Rightarrow> int \<Rightarrow> int option \<Rightarrow> kshm \<Rightarrow> kshm \<times> int" where
  "shmget creat key req new found k =
     (case found of
        Some i \<Rightarrow> (case segments k i of
            Some s \<Rightarrow> if seg_key s = key \<and> req \<le> seg_size s then (k, i) else (k, - 1)
          | None \<Rightarrow> (k, - 1))
      | None \<Rightarrow> if creat \<and> 0 < req then
            (k\<lparr>segments := (segments k)(new \<mapsto> \<lparr>seg_key = key, seg_size = req, seg_nattch = 0\<rparr>)\<rparr>, new)
          else (k, - 1))"

definition attach_seg :: "int \<Rightarrow> int \<Rightarrow> kshm \<Rightarrow> kshm" where
  "attach_seg i n k = k\<lparr>segments := (segments k)(i := map_option (seg_nattch_update (\<lambda>c. c + n)) (segments k i))\<rparr>"

definition shmat :: "int \<Rightarrow> nat option \<Rightarrow> kshm \<Rightarrow> kshm \<times> shm_addr" where
  "shmat i place k =
     (case place of
        Some a \<Rightarrow> if segments k i = None \<or> mapped k a \<noteq> None then (k, Bad)
          else ((attach_seg i 1 k)\<lparr>mapped := (mapped k)(a \<mapsto> i)\<rparr>, At a)
      | None \<Rightarrow> (k, Bad))"

definition shmdt :: "shm_addr \<Rightarrow> kshm \<Rightarrow> kshm \<times> int" where
  "shmdt addr k =
     (case addr of
        At a \<Rightarrow> (case mapped k a of
            Some i \<Rightarrow> ((attach_seg i (- 1) k)\<lparr>mapped := (mapped k)(a := None)\<rparr>, 0)
          | None \<Rightarrow> (k, - 1))
      | _ \<Rightarrow> (k, - 1))"

section \<open>mxIpcShM\<close>

record mxIpcShM =
  mShMId :: int
  mpShMAddr :: shm_addr
  mSize :: int

definition mxIpcShM_new :: mxIpcShM where
  "mxIpcShM_new = \<lparr>mShMId = - 1, mpShMAddr = Null, mSize = 0\<rparr>"

text \<open>\<open>found\<close> is the segment the key has, \<open>place\<close> where it is mapped, \<open>stat\<close> whether \<^verbatim>\<open>IPC_STAT\<close> succeeds.\<close>

definition create ::
  "int \<Rightarrow> int \<Rightarrow> int \<Rightarrow> int option \<Rightarrow> nat option \<Rightarrow> bool \<Rightarrow> mxIpcShM \<times> kshm \<Rightarrow> (mxIpcShM \<times> kshm) \<times> int" where
  "create key req new found place stat s =
     (case s of (m, k) \<Rightarrow>
      case shmget True key req new found k of (k1, i) \<Rightarrow>
        let m1 = m\<lparr>mShMId := i\<rparr> in
        if i = - 1 then ((m1, k1), - 1)
        else case shmat i place k1 of (k2, a) \<Rightarrow>
          let m2 = m1\<lparr>mpShMAddr := a\<rparr> in
          if a = Bad then ((m2, k2), - 1)
          else if \<not> stat then ((m2, k2), - 1)
          else case shmdt a k2 of (k3, r) \<Rightarrow> ((m2\<lparr>mpShMAddr := Null\<rparr>, k3), 0))"

definition attach :: "int \<Rightarrow> int option \<Rightarrow> nat option \<Rightarrow> mxIpcShM \<times> kshm \<Rightarrow> (mxIpcShM \<times> kshm) \<times> int" where
  "attach key found place s =
     (case s of (m, k) \<Rightarrow>
      case shmget False key 0 0 found k of (k1, i) \<Rightarrow>
        let m1 = m\<lparr>mShMId := i\<rparr> in
        if i = - 1 then ((m1, k1), - 1)
        else case shmat i place k1 of (k2, a) \<Rightarrow>
          ((m1\<lparr>mpShMAddr := a\<rparr>, k2), if a = Bad then - 1 else 0))"

definition detach :: "mxIpcShM \<times> kshm \<Rightarrow> (mxIpcShM \<times> kshm) \<times> int" where
  "detach s =
     (case s of (m, k) \<Rightarrow>
        if mpShMAddr m = Null then ((m, k), - 1)
        else case shmdt (mpShMAddr m) k of (k1, dm) \<Rightarrow> ((m\<lparr>mpShMAddr := Null\<rparr>, k1), dm))"

text \<open>
  \<^verbatim>\<open>remove\<close> marks the segment; the kernel drops it when nothing is attached to it any more. It does
  not call \<^verbatim>\<open>shmdt\<close>.
\<close>

definition remove :: "mxIpcShM \<times> kshm \<Rightarrow> (mxIpcShM \<times> kshm) \<times> int" where
  "remove s =
     (case s of (m, k) \<Rightarrow>
        case segments k (mShMId m) of
          None \<Rightarrow> ((m\<lparr>mpShMAddr := Null\<rparr>, k), - 1)
        | Some sg \<Rightarrow>
            ((m\<lparr>mpShMAddr := Null\<rparr>,
              if seg_nattch sg = 0 then k\<lparr>segments := (segments k)(mShMId m := None)\<rparr> else k), 0))"

definition getAddr :: "mxIpcShM \<Rightarrow> shm_addr" where
  "getAddr m = mpShMAddr m"

definition getSize :: "mxIpcShM \<times> kshm \<Rightarrow> (mxIpcShM \<times> kshm) \<times> int" where
  "getSize s =
     (case s of (m, k) \<Rightarrow>
        if 0 < mSize m then ((m, k), mSize m)
        else case segments k (mShMId m) of
          None \<Rightarrow> ((m, k), 0)
        | Some sg \<Rightarrow> ((m\<lparr>mSize := seg_size sg\<rparr>, k), seg_size sg))"

definition getAttachNum :: "mxIpcShM \<times> kshm \<Rightarrow> int" where
  "getAttachNum s = (case s of (m, k) \<Rightarrow> case segments k (mShMId m) of None \<Rightarrow> - 1 | Some sg \<Rightarrow> seg_nattch sg)"

definition mxIpcShM_delete :: "mxIpcShM \<times> kshm \<Rightarrow> kshm" where
  "mxIpcShM_delete s = (if mpShMAddr (fst s) \<noteq> Null then snd (fst (detach s)) else snd s)"

lemmas shm_defs = create_def attach_def detach_def remove_def getSize_def getAttachNum_def shmget_def shmat_def
  shmdt_def attach_seg_def mxIpcShM_delete_def getAddr_def

section \<open>Properties\<close>

text \<open>\<^verbatim>\<open>create\<close> leaves a new segment that nothing is attached to.\<close>

lemma create_new:
  assumes "0 < req" "new \<noteq> - 1" "mapped k a = None"
  shows "create key req new None (Some a) True (m, k) =
    ((m\<lparr>mShMId := new, mpShMAddr := Null\<rparr>,
      k\<lparr>segments := (segments k)(new \<mapsto> \<lparr>seg_key = key, seg_size = req, seg_nattch = 0\<rparr>)\<rparr>), 0)"
  using assms by (simp add: shm_defs Let_def fun_upd_idem)

text \<open>
  A process attaches an existing segment and detaches it: everything is as before. The same holds when the
  object is destroyed while attached.
\<close>

lemma attach_detach:
  assumes "segments k i = Some sg" "seg_key sg = key" "0 \<le> seg_size sg" "i \<noteq> - 1" "mapped k a = None"
  shows "\<exists>m1 k1. attach key (Some i) (Some a) (m, k) = ((m1, k1), 0) \<and> mpShMAddr m1 = At a \<and>
    getAttachNum (m1, k1) = seg_nattch sg + 1 \<and>
    detach (m1, k1) = ((m\<lparr>mShMId := i, mpShMAddr := Null\<rparr>, k), 0) \<and> mxIpcShM_delete (m1, k1) = k"
proof -
  have "(segments k)(i \<mapsto> sg) = segments k" "(mapped k)(a := None) = mapped k" using assms by auto
  moreover obtain ky sz n where "sg = \<lparr>seg_key = ky, seg_size = sz, seg_nattch = n\<rparr>" by (cases sg)
  ultimately show ?thesis using assms by (simp add: shm_defs Let_def)
qed

text \<open>
  \<^verbatim>\<open>remove\<close> on an attached object forgets the address without unmapping it: the mapping, and with it the
  segment, stays until the process ends.
\<close>

lemma remove_leaks_mapping:
  assumes "segments k i = Some sg" "seg_key sg = key" "0 \<le> seg_size sg" "0 \<le> seg_nattch sg" "i \<noteq> - 1" "mapped k a = None"
  shows "\<exists>m1 k1 m2 k2. attach key (Some i) (Some a) (m, k) = ((m1, k1), 0) \<and> remove (m1, k1) = ((m2, k2), 0) \<and>
    mpShMAddr m2 = Null \<and> mapped (mxIpcShM_delete (m2, k2)) a = Some i \<and> segments (mxIpcShM_delete (m2, k2)) i \<noteq> None"
  using assms by (simp add: shm_defs Let_def)

text \<open>A second \<^verbatim>\<open>attach\<close> loses the address of the first.\<close>

lemma attach_twice_leaks:
  assumes "segments k i = Some sg" "seg_key sg = key" "0 \<le> seg_size sg" "i \<noteq> - 1"
    "mapped k a = None" "mapped k b = None" "a \<noteq> b"
  shows "\<exists>s1 m2 k2. attach key (Some i) (Some a) (m, k) = (s1, 0) \<and> attach key (Some i) (Some b) s1 = ((m2, k2), 0) \<and>
    mapped (mxIpcShM_delete (m2, k2)) a = Some i"
  using assms by (simp add: shm_defs Let_def)

text \<open>A failed \<^verbatim>\<open>shmat\<close> is kept as an address that is not null.\<close>

lemma attach_failed_addr:
  assumes "segments k i = Some sg" "seg_key sg = key" "0 \<le> seg_size sg" "i \<noteq> - 1"
  shows "\<exists>m1. attach key (Some i) None (m, k) = ((m1, k), - 1) \<and> getAddr m1 = Bad"
  using assms by (simp add: shm_defs Let_def)

text \<open>The size is asked for once: an object used for a second segment still gives the first one's.\<close>

lemma getSize_stale:
  assumes "segments k i = Some sg" "0 < seg_size sg" "mShMId m = i" "mSize m = 0" "0 < req" "new \<noteq> - 1" "mapped k a = None"
  shows "\<exists>s1 s2. getSize (m, k) = (s1, seg_size sg) \<and> create key req new None (Some a) True s1 = (s2, 0) \<and>
    snd (getSize s2) = seg_size sg"
  using assms by (simp add: shm_defs Let_def)

end
