(* ===== verification/OpensslKey.thy ===== *)
theory OpensslKey
  imports Status
begin

text \<open>
  \<^verbatim>\<open>library/credentials/src/privateKeyOpensslRSA.cpp\<close> and \<^verbatim>\<open>privateKeyEC.cpp\<close>: private keys in files. What
  OpenSSL makes of a file is an argument: it has no key, a key, or one that the right password opens.
\<close>

text \<open>The first five of \<^verbatim>\<open>key_type_t\<close> are used by the managers; the schemes of \<^verbatim>\<open>signature_scheme_t\<close> by position.\<close>

abbreviation (input) "KEY_ECDSA \<equiv> (2 :: u32)"
abbreviation (input) "SIGN_RSA_EMSA_PKCS1_NULL \<equiv> (1 :: u32)"
abbreviation (input) "SIGN_RSA_EMSA_PKCS1_SHA2_224 \<equiv> (4 :: u32)"

datatype 'k key_file = No_key | Plain 'k | Encrypted "u8 list \<Rightarrow> 'k option"

section \<open>The password callback\<close>

text \<open>\<^verbatim>\<open>size\<close> is not used. The result is the buffer and the length.\<close>

definition pemPasswordCb :: "u8 list \<Rightarrow> nat \<Rightarrow> chunk_t \<Rightarrow> (u8 list \<times> s32) option" where
  "pemPasswordCb buf bufsize secret =
     (if len secret \<noteq> 0
      then do { src \<leftarrow> buf_read (chunk_mem secret) 0 (unat (len secret));
                buf' \<leftarrow> buf_write buf 0 src;
                Some (buf', len secret) }
      else Some (buf, len secret))"

text \<open>
  \<^verbatim>\<open>PEM_read_bio_PrivateKey\<close> calls it for an encrypted key, with a buffer of 1024 bytes; a negative
  length is an error.
\<close>

definition PEM_read_key :: "(u8 list \<Rightarrow> nat \<Rightarrow> (u8 list \<times> s32) option) \<Rightarrow> u8 list \<Rightarrow> 'k key_file \<Rightarrow> 'k option option" where
  "PEM_read_key cb g f =
     (case f of
        No_key \<Rightarrow> Some None
      | Plain k \<Rightarrow> Some (Some k)
      | Encrypted dec \<Rightarrow>
          do { (buf, n) \<leftarrow> cb (take 1024 g) 1024;
               Some (if sint n < 0 then None else dec (take (unat n) buf)) })"

section \<open>The two classes\<close>

text \<open>An object is its \<^verbatim>\<open>mpPriKey\<close>; the loading functions of both classes are the same.\<close>

definition loadPriKeyFromPEM :: "u8 list \<Rightarrow> 'k key_file \<Rightarrow> chunk_t \<Rightarrow> ('k option \<times> Status_e) option" where
  "loadPriKeyFromPEM g f secret =
     do { key \<leftarrow> PEM_read_key (\<lambda>buf n. pemPasswordCb buf n secret) g f;
          Some (key, if key = None then STATUS_FAILED else STATUS_SUCCESS) }"

definition loadPriKeyFromDER :: "'k option \<Rightarrow> 'k option \<times> Status_e" where
  "loadPriKeyFromDER d = (d, if d = None then STATUS_FAILED else STATUS_SUCCESS)"

definition getKeyType_EC :: u32 where
  "getKeyType_EC = KEY_ECDSA"

text \<open>\<^verbatim>\<open>EVP_SignInit_ex\<close> fails without a digest; nothing is signed here.\<close>

definition buildEmsaPkcs1Signature :: "(string \<Rightarrow> bool) \<Rightarrow> string \<Rightarrow> u8 list \<Rightarrow> chunk_t \<Rightarrow> chunk_t \<times> Status_e" where
  "buildEmsaPkcs1Signature known algname data signature =
     (if \<not> known algname then (signature, STATUS_FAILED) else (signature, STATUS_SUCCESS))"

text \<open>Only two schemes call it; the result is not looked at.\<close>

definition calcSignature_RSA :: "(string \<Rightarrow> bool) \<Rightarrow> u32 \<Rightarrow> u8 list \<Rightarrow> chunk_t \<Rightarrow> chunk_t \<times> Status_e" where
  "calcSignature_RSA known sign_type data signature =
     (let s = (if sign_type = SIGN_RSA_EMSA_PKCS1_NULL then fst (buildEmsaPkcs1Signature known [] data signature)
        else if sign_type = SIGN_RSA_EMSA_PKCS1_SHA2_224
          then fst (buildEmsaPkcs1Signature known ''SHA224'' data signature)
        else signature)
      in (s, STATUS_SUCCESS))"

definition calcSignature_EC :: "u32 \<Rightarrow> u8 list \<Rightarrow> chunk_t \<Rightarrow> chunk_t \<times> Status_e" where
  "calcSignature_EC sign_type data signature = (signature, STATUS_SUCCESS)"

text \<open>Both report success and leave the signature as it was.\<close>

lemma calcSignature_nothing:
  "calcSignature_RSA known t data sig = (sig, STATUS_SUCCESS)" "calcSignature_EC t data sig = (sig, STATUS_SUCCESS)"
  by (simp_all add: calcSignature_RSA_def calcSignature_EC_def buildEmsaPkcs1Signature_def Let_def)

lemma sint_not_negative: "unat (x :: s32) < 2 ^ 31 \<Longrightarrow> \<not> sint x < 0"
proof
  assume x: "unat x < 2 ^ 31" and "sint x < 0"
  then have "bit (uint x) 31" by (simp add: sint_uint signed_take_bit_negative_iff)
  then have "bit (unat x) 31" by (simp add: bit_unsigned_iff)
  then have "odd (unat x div 2 ^ 31)" unfolding bit_iff_odd .
  moreover have "unat x div 2 ^ 31 = 0" using x by (rule div_less)
  ultimately show False by simp
qed

text \<open>
  An encrypted key is opened with exactly the bytes of the secret, up to 1024; a longer secret is
  written behind the buffer.
\<close>

lemma load_encrypted_key:
  assumes "length g = 1024" "unat (len secret) \<le> length (chunk_mem secret)"
  shows "loadPriKeyFromPEM g (Encrypted dec) secret =
    (if unat (len secret) \<le> 1024
     then let k = dec (take (unat (len secret)) (chunk_mem secret))
          in Some (k, if k = None then STATUS_FAILED else STATUS_SUCCESS)
     else None)"
proof (cases "unat (len secret) \<le> 1024")
  case True
  have "\<not> sint (len secret) < 0" using True by (intro sint_not_negative) simp
  moreover have "len secret = 0 \<Longrightarrow> unat (len secret) = 0" by simp
  ultimately show ?thesis using True assms
    by (cases "len secret = 0") (simp_all add: loadPriKeyFromPEM_def PEM_read_key_def pemPasswordCb_def Let_def)
next
  case False
  then have "len secret \<noteq> 0" by auto
  then show ?thesis using False assms
    by (simp add: loadPriKeyFromPEM_def PEM_read_key_def pemPasswordCb_def buf_write_def)
qed

end
