(* ===== verification/CertDer.thy ===== *)
theory CertDer
  imports Cred Asn1Props
begin

text \<open>
  \<^verbatim>\<open>certX509.cpp\<close>: what a certificate object tells of its certificate, and the way back from the DER
  encoding. The calls of OpenSSL are the functions of a record; each reads the certificate, so a null
  pointer is undefined.
\<close>

record ssl_x509 =
  X509_get_serialNumber :: "x509 \<Rightarrow> u8 list option"
  X509_get_version :: "x509 \<Rightarrow> int"
  X509_tbs_sigalg :: "x509 \<Rightarrow> u8 list"
  X509_sigalg_name :: "x509 \<Rightarrow> string"
  X509_issuer_der :: "x509 \<Rightarrow> u8 list"
  X509_subject_der :: "x509 \<Rightarrow> u8 list"
  X509_pubkey_digest :: "string option \<Rightarrow> x509 \<Rightarrow> u8 list"
  d2i_X509 :: "u8 list \<Rightarrow> (x509 \<times> nat) option"

text \<open>A chunk that points into OpenSSL's data, or into a block of its own, is its bytes.\<close>

definition getSerialNum :: "ssl_x509 \<Rightarrow> certX509 \<Rightarrow> u8 list option option" where
  "getSerialNum ssl c = map_option (X509_get_serialNumber ssl) (mpX509 c)"

definition getCertVersion :: "ssl_x509 \<Rightarrow> certX509 \<Rightarrow> int option" where
  "getCertVersion ssl c = map_option (X509_get_version ssl) (mpX509 c)"

definition getSignatureAlgorithmDER :: "ssl_x509 \<Rightarrow> certX509 \<Rightarrow> u8 list option" where
  "getSignatureAlgorithmDER ssl c = map_option (X509_tbs_sigalg ssl) (mpX509 c)"

definition getSignatureAlgorithmLN :: "ssl_x509 \<Rightarrow> certX509 \<Rightarrow> string option" where
  "getSignatureAlgorithmLN ssl c = map_option (X509_sigalg_name ssl) (mpX509 c)"

definition getCertIssuer :: "ssl_x509 \<Rightarrow> certX509 \<Rightarrow> u8 list option" where
  "getCertIssuer ssl c = map_option (X509_issuer_der ssl) (mpX509 c)"

definition getCertSubjectDER :: "ssl_x509 \<Rightarrow> certX509 \<Rightarrow> u8 list option" where
  "getCertSubjectDER ssl c = map_option (X509_subject_der ssl) (mpX509 c)"

text \<open>The digest by name, or SHA-1; \<open>g\<close> is the block \<^verbatim>\<open>chunk_alloc\<close> gets.\<close>

definition calculatePublicKeyHash :: "ssl_x509 \<Rightarrow> string option \<Rightarrow> mem option \<Rightarrow> certX509 \<Rightarrow> (mem \<times> chunk_v) option" where
  "calculatePublicKeyHash ssl digest g c =
     do { x \<leftarrow> mpX509 c;
          let md = X509_pubkey_digest ssl digest x;
              (blk, fp) = chunk_alloc g (length md)
          in if md = [] then Some (blk, fp)
             else do { p \<leftarrow> cptr fp; blk' \<leftarrow> buf_write blk p md; Some (blk', fp) } }"

text \<open>\<^verbatim>\<open>d2i_X509(NULL, &mDerEncoding.ptr, mDerEncoding.len)\<close> moves the pointer behind what it read.\<close>

definition transformDERtoX509 :: "ssl_x509 \<Rightarrow> certX509 \<Rightarrow> certX509 option" where
  "transformDERtoX509 ssl c =
     do { bytes \<leftarrow> (case cptr (mDerEncoding c) of
            None \<Rightarrow> Some []
          | Some p \<Rightarrow> buf_read (der_block c) p (unat (clen (mDerEncoding c))));
          Some (case d2i_X509 ssl bytes of
            None \<Rightarrow> c\<lparr>mpX509 := None\<rparr>
          | Some (x, n) \<Rightarrow>
              c\<lparr>mpX509 := Some x,
                mDerEncoding := (mDerEncoding c)\<lparr>cptr := map_option (\<lambda>p. p + n) (cptr (mDerEncoding c))\<rparr>\<rparr>) }"

section \<open>Properties\<close>

lemma calculatePublicKeyHash_copy:
  assumes "mpX509 c = Some x" "md = X509_pubkey_digest ssl digest x" "md \<noteq> []" "length md \<le> length g"
  shows "calculatePublicKeyHash ssl digest (Some g) c = Some (md, \<lparr>cptr = Some 0, clen = of_nat (length md)\<rparr>)"
  using assms by (simp add: calculatePublicKeyHash_def chunk_alloc_def chunk_create_def Let_def)

text \<open>A parser whose blob starts at the end of its block reads behind it.\<close>

lemma pubkey_info_at_end:
  assumes "cptr blob = Some (length m)" "2 \<le> clen blob"
  shows "calculatePublicKeyInfoHash evp_digest m blob = None"
proof -
  let ?p = "asn1Parser certObjects blob"
  define ob where "ob = certObjects ! 0"
  have ob: "flags ob = ASN1_OBJ" "level ob = 0" "obj_at certObjects 0 = Some ob"
    by (simp_all add: ob_def certObjects_def obj_at_def)
  define P where "P = ?p\<lparr>mLine := 0\<rparr>"
  have P: "mBlobs P ! 0 = blob" by (simp add: P_def asn1Parser_def)
  have "asn1Length m blob = None" using assms by (simp add: asn1Length_def load_def not_less)
  then have "iterate_body m P ob = None" using P ob assms(2) by (simp add: iterate_body_def has_def not_less Let_def)
  then have "iterate m ?p = None"
    using ob by (simp add: iterate_def Let_def P_def asn1Parser_def has_def)
  then have "pubkey_info_loop m ?p = None" by (subst pubkey_info_loop.simps) simp
  then show ?thesis by (simp add: calculatePublicKeyInfoHash_def)
qed

text \<open>
  Encoding a certificate and reading the encoding back gives the certificate, and the fingerprint is
  the one of the encoding in between; but \<^verbatim>\<open>transformDERtoX509\<close> leaves \<^verbatim>\<open>mDerEncoding\<close> pointing behind the
  block it came from, so that the next fingerprint reads memory that is not the object's.
\<close>

theorem DER_roundtrip:
  assumes "mpX509 c = Some x" "cptr (mDerEncoding c) = None"
    and "der_bytes x = certificate (tbs_certificate version serial algorithm issuer not_before not_after sbj spki rest) signature"
    and "length (der_bytes x) < 2 ^ 31"
    and "d2i_X509 ssl (der_bytes x) = Some (x, length (der_bytes x))"
  shows "\<exists>c1 c2. transformX509ToDER c = Some c1 \<and> transformDERtoX509 ssl c1 = Some c2 \<and> mpX509 c2 = Some x \<and>
    getFingerprint evp_digest pk KEYID_PUBKEY_INFO_SHA1 c1 = Some (Some (evp_digest (tlv 0x30 spki))) \<and>
    getFingerprint evp_digest pk KEYID_PUBKEY_INFO_SHA1 c2 = None"
proof -
  let ?n = "length (der_bytes x)"
  let ?c1 = "c\<lparr>der_block := der_bytes x, mDerEncoding := \<lparr>cptr = Some 0, clen = of_nat ?n\<rparr>\<rparr>"
  let ?c2 = "?c1\<lparr>mpX509 := Some x, mDerEncoding := \<lparr>cptr = Some ?n, clen = of_nat ?n\<rparr>\<rparr>"
  have n: "unat (of_nat ?n :: u32) = ?n" using assms(4) by (simp add: unat_of_nat32)
  have c1: "transformX509ToDER c = Some ?c1" using assms(1,2) by (simp add: transformX509ToDER_def Let_def)
  have c2: "transformDERtoX509 ssl ?c1 = Some ?c2" using assms(5) n by (simp add: transformDERtoX509_def)
  have "calculatePublicKeyInfoHash evp_digest (der_bytes x) (view 0 ?n) = Some (evp_digest (tlv 0x30 spki))"
    by (rule fingerprint_spki [OF assms(3,4)])
  then have f1: "getFingerprint evp_digest pk KEYID_PUBKEY_INFO_SHA1 ?c1 = Some (Some (evp_digest (tlv 0x30 spki)))"
    by (simp add: getFingerprint_def)
  have "2 \<le> ?n" unfolding assms(3) by (simp add: certificate_def tlv_def)
  then have "2 \<le> (of_nat ?n :: u32)" using n by (simp add: word_le_nat_alt)
  then have "getFingerprint evp_digest pk KEYID_PUBKEY_INFO_SHA1 ?c2 = None"
    by (simp add: getFingerprint_def pubkey_info_at_end)
  with c1 c2 f1 show ?thesis by (intro exI [of _ ?c1] exI [of _ ?c2]) simp
qed

end
