(* ===== verification/Mysql.thy ===== *)
theory Mysql
  imports Prelude
begin

text \<open>
  \<^verbatim>\<open>platform/mysql/src/mxMysql.cpp\<close>: a connection to a MySQL server. The server is a function from a
  statement, which may be several, to its replies. The client library is what its manual says of
  \<^verbatim>\<open>mysql_real_query\<close>, \<^verbatim>\<open>mysql_store_result\<close> and \<^verbatim>\<open>mysql_next_result\<close>: a result set has to be taken before the
  next one is asked for, and all have to be taken before the next statement; otherwise the call fails with
  \<^verbatim>\<open>CR_COMMANDS_OUT_OF_SYNC\<close>.
\<close>

section \<open>The client library\<close>

type_synonym row = "string option list"

datatype reply = Failed u32 | Affected nat | Table "row list"

text \<open>\<open>ready\<close>: no result set waits to be taken; \<open>pending\<close>: the replies that are still to come.\<close>

record mysql_conn =
  ready :: bool
  answer :: reply
  pending :: "reply list"
  last_errno :: u32

abbreviation (input) "CR_COMMANDS_OUT_OF_SYNC \<equiv> (2014 :: u32)"

fun is_table :: "reply \<Rightarrow> bool" where
  "is_table (Table rs) \<longleftrightarrow> True"
| "is_table _ \<longleftrightarrow> False"

definition next_reply :: "reply list \<Rightarrow> mysql_conn \<Rightarrow> mysql_conn \<times> int" where
  "next_reply rs c =
     (case rs of
        [] \<Rightarrow> (c\<lparr>pending := []\<rparr>, - 1)
      | Failed e # rs' \<Rightarrow> (c\<lparr>pending := [], last_errno := e\<rparr>, 1)
      | r # rs' \<Rightarrow> (c\<lparr>answer := r, ready := \<not> is_table r, pending := rs'\<rparr>, 0))"

definition mysql_next_result :: "mysql_conn \<Rightarrow> mysql_conn \<times> int" where
  "mysql_next_result c =
     (if \<not> ready c then (c\<lparr>last_errno := CR_COMMANDS_OUT_OF_SYNC\<rparr>, 1) else next_reply (pending c) c)"

definition mysql_real_query :: "(string \<Rightarrow> reply list) \<Rightarrow> string \<Rightarrow> mysql_conn \<Rightarrow> mysql_conn \<times> bool" where
  "mysql_real_query server st c =
     (if \<not> ready c \<or> pending c \<noteq> [] then (c\<lparr>last_errno := CR_COMMANDS_OUT_OF_SYNC\<rparr>, False)
      else apsnd (\<lambda>r. r = 0) (next_reply (server st) c))"

definition mysql_store_result :: "mysql_conn \<Rightarrow> mysql_conn \<times> row list option" where
  "mysql_store_result c =
     (if ready c then (c, None) else case answer c of Table rs \<Rightarrow> (c\<lparr>ready := True\<rparr>, Some rs) | _ \<Rightarrow> (c, None))"

text \<open>For a result set that was not taken it is \<^verbatim>\<open>(my_ulonglong)-1\<close>.\<close>

definition mysql_affected_rows :: "mysql_conn \<Rightarrow> u64" where
  "mysql_affected_rows c =
     (case answer c of
        Affected n \<Rightarrow> of_nat n
      | Table rs \<Rightarrow> if ready c then of_nat (length rs) else - 1
      | Failed e \<Rightarrow> - 1)"

section \<open>mxMysql\<close>

text \<open>\<open>mOneRow\<close> is \<^const>\<open>None\<close> when the pointer is null and when the row was freed: it may not be read then.\<close>

record mxMysql =
  mpConn :: "mysql_conn option"
  mpResult :: "row list option"
  mOneRow :: "row option"
  mRows :: u64
  mErrorValue :: u32



definition isConnected :: "bool \<Rightarrow> mxMysql \<Rightarrow> bool" where
  "isConnected ping m = (mpConn m \<noteq> None \<and> ping)"

text \<open>\<^verbatim>\<open>while (mysql_next_result(mpConn) == 0);\<close>\<close>

function skip_results :: "mysql_conn \<Rightarrow> mysql_conn" where
  "skip_results c = (case mysql_next_result c of (c', r) \<Rightarrow> if r = 0 then skip_results c' else c')"
  by pat_completeness auto
termination
  by (relation "measure (\<lambda>c. length (pending c))")
    (auto simp: mysql_next_result_def next_reply_def split: if_splits list.splits reply.splits)

declare skip_results.simps [simp del]

definition freeResultSet :: "mxMysql \<Rightarrow> mxMysql" where
  "freeResultSet m =
     (let m1 = m\<lparr>mpConn := map_option skip_results (mpConn m)\<rparr> in
      if mpResult m1 \<noteq> None then m1\<lparr>mpResult := None, mOneRow := None\<rparr> else m1)"

definition mxMysql_delete :: "mxMysql \<Rightarrow> mxMysql" where
  "mxMysql_delete m = (freeResultSet m)\<lparr>mpConn := None\<rparr>"

text \<open>Without a connection the library is handed a null pointer.\<close>

definition setErrorInfo :: "mxMysql \<Rightarrow> mxMysql option" where
  "setErrorInfo m = map_option (\<lambda>c. m\<lparr>mErrorValue := last_errno c\<rparr>) (mpConn m)"

text \<open>\<^verbatim>\<open>executeInsert\<close>, \<^verbatim>\<open>executeUpdate\<close> and \<^verbatim>\<open>executeDelete\<close> are the same code.\<close>

definition execute :: "(string \<Rightarrow> reply list) \<Rightarrow> string \<Rightarrow> mxMysql \<Rightarrow> (mxMysql \<times> bool) option" where
  "execute server st m =
     (let m1 = freeResultSet m in
      do { c \<leftarrow> mpConn m1;
           case mysql_real_query server st c of (c', works) \<Rightarrow>
             let m2 = m1\<lparr>mpConn := Some c'\<rparr> in
             if \<not> works then do { m3 \<leftarrow> setErrorInfo m2; Some (m3, False) }
             else Some (m2\<lparr>mRows := mysql_affected_rows c'\<rparr>, True) })"

definition executeQuery :: "(string \<Rightarrow> reply list) \<Rightarrow> string \<Rightarrow> mxMysql \<Rightarrow> (mxMysql \<times> bool) option" where
  "executeQuery server st m =
     (let m1 = freeResultSet m in
      do { c \<leftarrow> mpConn m1;
           case mysql_real_query server st c of (c', works) \<Rightarrow>
             let m2 = m1\<lparr>mpConn := Some c'\<rparr> in
             if \<not> works then do { m3 \<leftarrow> setErrorInfo m2; Some (m3, False) }
             else case mysql_store_result c' of (c'', res) \<Rightarrow>
               let m3 = m2\<lparr>mpConn := Some c'', mpResult := res\<rparr> in
               if res = None then do { m4 \<leftarrow> setErrorInfo m3; Some (m4, False) }
               else Some (m3\<lparr>mRows := mysql_affected_rows c''\<rparr>, True) })"


definition getAffectRows :: "mxMysql \<Rightarrow> u32" where
  "getAffectRows m = ucast (mRows m)"

text \<open>A column as a pointer, which may be null, and as a \<^verbatim>\<open>string\<close>, which may not.\<close>

definition getValueAt_ptr :: "u32 \<Rightarrow> mxMysql \<Rightarrow> string option option" where
  "getValueAt_ptr index m =
     do { r \<leftarrow> mOneRow m; if unat index < length r then Some (r ! unat index) else None }"

definition getValueAt_string :: "u32 \<Rightarrow> mxMysql \<Rightarrow> string option" where
  "getValueAt_string index m = do { v \<leftarrow> getValueAt_ptr index m; v }"

section \<open>Result sets\<close>




section \<open>Sequences of statements\<close>

definition statement :: "(string \<Rightarrow> reply list) \<Rightarrow> bool \<times> string \<Rightarrow> mxMysql \<Rightarrow> (mxMysql \<times> bool) option" where
  "statement server q m = (if fst q then executeQuery server (snd q) m else execute server (snd q) m)"









lemmas query_defs = statement_def executeQuery_def execute_def freeResultSet_def setErrorInfo_def mysql_real_query_def
  mysql_store_result_def next_reply_def Let_def









text \<open>Without a connection every statement hands a null pointer to the library.\<close>

lemma statement_unconnected: "mpConn m = None \<Longrightarrow> statement server q m = None"
  by (simp add: query_defs)

section \<open>Properties\<close>



end
