(* ===== verification/Sem.thy ===== *)
theory Sem
  imports Prelude
begin

text \<open>
  \<^verbatim>\<open>platform/common/src/mxSem.cpp\<close>: a counting semaphore, and threads that use it to guard a section.
  What \<^verbatim>\<open>sem_t\<close> does is taken from POSIX.
\<close>

section \<open>mxSem\<close>

abbreviation (input) "SEM_VALUE_MAX \<equiv> 2147483647 :: nat"

type_synonym mxSem = nat

text \<open>\<^verbatim>\<open>sem_init\<close> refuses a value that is too large, and what it leaves is no semaphore.\<close>

definition mxSem_new :: "u32 \<Rightarrow> mxSem option" where
  "mxSem_new v = (if unat v \<le> SEM_VALUE_MAX then Some (unat v) else None)"

text \<open>At the largest value \<^verbatim>\<open>sem_post\<close> fails, and nobody looks.\<close>

definition sem_post :: "mxSem \<Rightarrow> mxSem" where
  "sem_post s = (if s < SEM_VALUE_MAX then s + 1 else s)"

text \<open>\<^const>\<open>None\<close>: the caller sleeps. \<open>intr\<close>: a signal handler interrupts the sleep, and the call returns as if it had the semaphore.\<close>

definition sem_wait :: "bool \<Rightarrow> mxSem \<Rightarrow> mxSem option" where
  "sem_wait intr s = (if 0 < s then Some (s - 1) else if intr then Some s else None)"

section \<open>Threads around a section\<close>

datatype sem_pc = Outside | Inside

record sem_system =
  sem :: mxSem
  users :: "sem_pc list"

text \<open>Every thread calls \<^verbatim>\<open>wait\<close>, is in the section, and calls \<^verbatim>\<open>post\<close>; \<open>signals\<close> says whether signals arrive.\<close>

inductive sem_step :: "bool \<Rightarrow> sem_system \<Rightarrow> sem_system \<Rightarrow> bool" for signals where
  enter: "i < length (users s) \<Longrightarrow> users s ! i = Outside \<Longrightarrow> intr \<longrightarrow> signals \<Longrightarrow> sem_wait intr (sem s) = Some v \<Longrightarrow>
    sem_step signals s (s\<lparr>sem := v, users := (users s)[i := Inside]\<rparr>)"
| leave: "i < length (users s) \<Longrightarrow> users s ! i = Inside \<Longrightarrow>
    sem_step signals s (s\<lparr>sem := sem_post (sem s), users := (users s)[i := Outside]\<rparr>)"

definition sem_start :: "mxSem \<Rightarrow> nat \<Rightarrow> sem_system" where
  "sem_start v n = \<lparr>sem = v, users = replicate n Outside\<rparr>"

definition inside :: "sem_system \<Rightarrow> nat" where
  "inside s = length (filter ((=) Inside) (users s))"

lemma filter_update:
  assumes "i < length xs"
  shows "length (filter P (xs[i := x])) + (if P (xs ! i) then 1 else 0) = length (filter P xs) + (if P x then 1 else 0)"
proof -
  have "xs = take i xs @ xs ! i # drop (Suc i) xs" using assms by (rule id_take_nth_drop)
  then have "length (filter P xs) = length (filter P (take i xs @ xs ! i # drop (Suc i) xs))" by simp
  then show ?thesis using assms by (simp add: upd_conv_take_nth_drop)
qed

lemma sem_step_inv:
  assumes "sem_step False s t" "sem s + inside s = v" "v \<le> SEM_VALUE_MAX"
  shows "sem t + inside t = v \<and> length (users t) = length (users s)"
  using assms
proof (induction rule: sem_step.cases)
  case (enter i s intr w)
  then show ?case using filter_update [of i "users s" "(=) Inside" Inside]
    by (auto simp: inside_def sem_wait_def split: if_splits)
next
  case (leave i s)
  then show ?case using filter_update [of i "users s" "(=) Inside" Outside]
    by (auto simp: inside_def sem_post_def)
qed

lemma sem_runs_inv:
  assumes "(sem_step False)\<^sup>*\<^sup>* (sem_start v n) s" "v \<le> SEM_VALUE_MAX"
  shows "sem s + inside s = v \<and> length (users s) = n"
  using assms(1)
proof (induction rule: rtranclp_induct)
  case base
  then show ?case by (simp add: sem_start_def inside_def)
next
  case (step s t)
  then show ?case using sem_step_inv [OF step.hyps(2) _ assms(2)] by simp
qed

lemma sem_moves:
  assumes "0 < sem s \<or> 0 < inside s" "0 < length (users s)"
  shows "\<exists>t. sem_step signals s t"
proof (cases "0 < inside s")
  case True
  then have "Inside \<in> set (users s)" by (auto simp: inside_def filter_empty_conv)
  then obtain i where "i < length (users s)" "users s ! i = Inside" by (auto simp: in_set_conv_nth)
  then show ?thesis by (blast intro: sem_step.leave)
next
  case False
  then have "Inside \<notin> set (users s)" by (auto simp: inside_def filter_empty_conv)
  then have "users s ! 0 = Outside" using assms(2) by (metis nth_mem sem_pc.exhaust)
  moreover have "sem_wait False (sem s) = Some (sem s - 1)" using assms(1) False by (simp add: sem_wait_def)
  ultimately show ?thesis using sem_step.enter [of 0 s False] assms(2) by blast
qed

text \<open>A signal lets a second thread into a section for one.\<close>

lemma sem_interrupted: "\<exists>s. (sem_step True)\<^sup>*\<^sup>* (sem_start 1 2) s \<and> inside s = 2"
proof -
  let ?s1 = "\<lparr>sem = 0, users = [Inside, Outside]\<rparr>"
  let ?s2 = "\<lparr>sem = 0, users = [Inside, Inside]\<rparr>"
  have "sem_step True (sem_start 1 2) ?s1"
    using sem_step.enter [of 0 "sem_start 1 2" False True 0]
    by (simp add: sem_start_def sem_wait_def numeral_2_eq_2)
  moreover have "sem_step True ?s1 ?s2"
    using sem_step.enter [of 1 ?s1 True True 0] by (simp add: sem_wait_def)
  ultimately show ?thesis by (intro exI [of _ ?s2]) (auto simp: inside_def)
qed

section \<open>Properties\<close>

text \<open>
  C40: As long as no signal arrives, a semaphore of value \<open>v\<close> lets at most \<open>v\<close> of any number of threads into the
  section, whatever their interleaving, and never all of them are stuck. With signals it does not: two
  threads get into a section for one.
\<close>

theorem sem_excludes:
  assumes "mxSem_new v = Some k" "(sem_step False)\<^sup>*\<^sup>* (sem_start k n) s"
  shows "inside s \<le> unat v \<and> (0 < v \<longrightarrow> 0 < n \<longrightarrow> (\<exists>t. sem_step False s t)) \<and>
    (\<exists>s'. (sem_step True)\<^sup>*\<^sup>* (sem_start 1 2) s' \<and> inside s' = 2)"
proof -
  have k: "k = unat v" "k \<le> SEM_VALUE_MAX" using assms(1) by (auto simp: mxSem_new_def split: if_splits)
  note inv = sem_runs_inv [OF assms(2) k(2)]
  have "0 < v \<Longrightarrow> 0 < k" using k(1) by (simp add: word_less_nat_alt)
  then have "0 < v \<Longrightarrow> 0 < n \<Longrightarrow> \<exists>t. sem_step False s t" using inv by (intro sem_moves) auto
  then show ?thesis using inv k(1) sem_interrupted by auto
qed

theorem sem_excludes_witness:
  "inside \<lparr>sem = 0, users = [Inside, Outside]\<rparr> \<le> unat (1 :: u32) \<and>
   (\<exists>t. sem_step False \<lparr>sem = 0, users = [Inside, Outside]\<rparr> t)"
proof -
  have "sem_step False (sem_start 1 2) \<lparr>sem = 0, users = [Inside, Outside]\<rparr>"
    using sem_step.enter [of 0 "sem_start 1 2" False False 0]
    by (simp add: sem_start_def sem_wait_def numeral_2_eq_2)
  then have "(sem_step False)\<^sup>*\<^sup>* (sem_start 1 2) \<lparr>sem = 0, users = [Inside, Outside]\<rparr>" by (rule r_into_rtranclp)
  moreover have "mxSem_new 1 = Some 1" by (simp add: mxSem_new_def)
  ultimately show ?thesis using sem_excludes [of 1 1 2] by simp
qed

end
