(* ===== verification/Curl.thy ===== *)
theory Curl
  imports Prelude "HOL-Library.Multiset"
begin

text \<open>
  \<^verbatim>\<open>platform/net/src/mxEngineCurl.cpp\<close>: the event loop over libcurl's multi interface. What libcurl does is
  what its manual says: a transfer starts, and has sockets to watch, at the first \<^verbatim>\<open>curl_multi_perform\<close> after
  its handle was added; \<^verbatim>\<open>curl_multi_perform\<close> leaves a message for each transfer that ended;
  a handle may not be used after \<^verbatim>\<open>curl_easy_cleanup\<close>.
\<close>

section \<open>The multi handle\<close>

text \<open>The handles in it, those whose transfer was started, the messages that wait; and the handles that were freed.\<close>

record multi =
  members :: "nat list"
  started :: "nat list"
  messages :: "nat list"

record mxEngineCurl =
  mpMutliHandle :: "multi option"
  freed :: "nat list"

definition mxEngineCurl_new :: "bool \<Rightarrow> mxEngineCurl" where
  "mxEngineCurl_new inits =
     \<lparr>mpMutliHandle = (if inits then Some \<lparr>members = [], started = [], messages = []\<rparr> else None), freed = []\<rparr>"

text \<open>A handle that is in the multi handle is not added again; one that was freed may not be used.\<close>

definition curl_multi_add_handle :: "nat \<Rightarrow> mxEngineCurl \<Rightarrow> mxEngineCurl option" where
  "curl_multi_add_handle e c =
     (if e \<in> set (freed c) then None
      else Some (c\<lparr>mpMutliHandle := map_option (\<lambda>m. if e \<in> set (members m) then m else m\<lparr>members := members m @ [e]\<rparr>)
                     (mpMutliHandle c)\<rparr>))"

definition multi_remove :: "nat \<Rightarrow> multi \<Rightarrow> multi" where
  "multi_remove e m =
     \<lparr>members = filter ((\<noteq>) e) (members m), started = filter ((\<noteq>) e) (started m), messages = filter ((\<noteq>) e) (messages m)\<rparr>"

text \<open>\<^verbatim>\<open>curl_multi_remove_handle\<close> and \<^verbatim>\<open>curl_easy_cleanup\<close>\<close>

definition remove_cleanup :: "nat \<Rightarrow> mxEngineCurl \<Rightarrow> mxEngineCurl option" where
  "remove_cleanup e c =
     (if e \<in> set (freed c) then None
      else Some (c\<lparr>mpMutliHandle := map_option (multi_remove e) (mpMutliHandle c), freed := freed c @ [e]\<rparr>))"

text \<open>The results of libcurl are not looked at.\<close>

definition addHandle :: "nat option \<Rightarrow> mxEngineCurl \<Rightarrow> (mxEngineCurl \<times> int) option" where
  "addHandle easy_handle c =
     (case easy_handle of None \<Rightarrow> Some (c, - 1) | Some e \<Rightarrow> map_option (\<lambda>c'. (c', 0)) (curl_multi_add_handle e c))"

definition remHandle :: "nat option \<Rightarrow> mxEngineCurl \<Rightarrow> (mxEngineCurl \<times> int) option" where
  "remHandle easy_handle c =
     (case easy_handle of None \<Rightarrow> Some (c, - 1) | Some e \<Rightarrow> map_option (\<lambda>c'. (c', 0)) (remove_cleanup e c))"

section \<open>service\<close>








section \<open>Lemmas\<close>

text \<open>Between turns no message waits, and no handle is in twice or freed.\<close>

definition engine_ok :: "multi \<Rightarrow> nat list \<Rightarrow> bool" where
  "engine_ok m fs \<longleftrightarrow> messages m = [] \<and> distinct (members m) \<and> set (members m) \<inter> set fs = {} \<and> distinct fs"







text \<open>A transfer that has ended was cleaned up by the engine: to remove its handle frees it again.\<close>

lemma remHandle_ended: "e \<in> set (freed c) \<Longrightarrow> remHandle (Some e) c = None"
  by (simp add: remHandle_def remove_cleanup_def)

lemma remHandle_member:
  assumes "mpMutliHandle c = Some m" "engine_ok m (freed c)" "e \<in> set (members m)"
  shows "\<exists>c' m'. remHandle (Some e) c = Some (c', 0) \<and> mpMutliHandle c' = Some m' \<and> engine_ok m' (freed c') \<and>
    members m' = remove1 e (members m) \<and> freed c' = freed c @ [e]"
  using assms by (auto simp: remHandle_def remove_cleanup_def multi_remove_def engine_ok_def distinct_remove1_removeAll
      removeAll_filter_not_eq)

lemma addHandle_member:
  assumes "mpMutliHandle c = Some m" "engine_ok m (freed c)" "e \<notin> set (freed c)"
  shows "\<exists>c' m'. addHandle (Some e) c = Some (c', 0) \<and> mpMutliHandle c' = Some m' \<and> engine_ok m' (freed c') \<and>
    set (members m') = insert e (set (members m)) \<and> freed c' = freed c"
  using assms by (auto simp: addHandle_def curl_multi_add_handle_def engine_ok_def)

section \<open>Properties\<close>



end
