(* ===== verification/Dbus.thy ===== *)
theory Dbus
  imports Status
begin

text \<open>
  \<^verbatim>\<open>platform/process/src/mxDbusMgr.cpp\<close>: private connections to the session bus. What the bus does is what
  the manual of libdbus says of \<^verbatim>\<open>dbus_bus_request_name\<close>: the first connection that asks for a name
  owns it, the others wait behind it, and a connection that is closed leaves all names.
\<close>

section \<open>The bus\<close>

record bus =
  name_queue :: "string \<Rightarrow> nat list"
  connections :: "nat list"
  matches :: "(nat \<times> string) list"
  next_conn :: nat

datatype name_reply = Primary_owner | In_queue | Already_owner

definition bus_get_private :: "bus \<Rightarrow> bus \<times> nat" where
  "bus_get_private b = (b\<lparr>connections := connections b @ [next_conn b], next_conn := next_conn b + 1\<rparr>, next_conn b)"

text \<open>With \<^verbatim>\<open>DBUS_NAME_FLAG_ALLOW_REPLACEMENT\<close> alone: an owner is not replaced.\<close>

definition bus_request_name :: "nat \<Rightarrow> string \<Rightarrow> bus \<Rightarrow> bus \<times> name_reply" where
  "bus_request_name c n b =
     (let b' = b\<lparr>name_queue := (name_queue b)(n := name_queue b n @ [c])\<rparr> in
      case name_queue b n of
        [] \<Rightarrow> (b', Primary_owner)
      | d # ds \<Rightarrow> if d = c then (b, Already_owner) else if c \<in> set ds then (b, In_queue) else (b', In_queue))"

definition connection_close :: "nat \<Rightarrow> bus \<Rightarrow> bus" where
  "connection_close c b =
     b\<lparr>name_queue := (\<lambda>n. filter ((\<noteq>) c) (name_queue b n)), connections := filter ((\<noteq>) c) (connections b),
       matches := filter (\<lambda>(d, rule). d \<noteq> c) (matches b)\<rparr>"

section \<open>mxDbusMgr\<close>

text \<open>\<open>mThreadId\<close> and \<open>mStatus\<close> are \<^const>\<open>None\<close> as long as nothing sets them.\<close>

record mxDbusMgr =
  mpConnect :: "nat option"
  mNniqueName :: string
  mWellKnownName :: string
  mThreadId :: "nat option"
  mStatus :: "bool option"

definition mxDbusMgr_new :: mxDbusMgr where
  "mxDbusMgr_new = \<lparr>mpConnect = None, mNniqueName = '''', mWellKnownName = '''', mThreadId = None, mStatus = None\<rparr>"

definition mxDbusMgr_delete :: "mxDbusMgr \<Rightarrow> bus \<Rightarrow> mxDbusMgr \<times> bus" where
  "mxDbusMgr_delete m b = (case mpConnect m of None \<Rightarrow> (m, b) | Some c \<Rightarrow> (m\<lparr>mpConnect := None\<rparr>, connection_close c b))"

text \<open>
  \<open>unique\<close> gives the unique names of connections; \<open>connects\<close> whether \<^verbatim>\<open>dbus_bus_get_private\<close> succeeds, \<open>err\<close> whether
  \<^verbatim>\<open>dbus_bus_request_name\<close> sets its error.
\<close>

definition initDbus ::
  "(nat \<Rightarrow> string) \<Rightarrow> bool \<Rightarrow> bool \<Rightarrow> string option \<Rightarrow> mxDbusMgr \<Rightarrow> bus \<Rightarrow> (mxDbusMgr \<times> bus) \<times> Status_e" where
  "initDbus unique connects err req_name m b =
     (if \<not> connects then ((m, b), STATUS_FAILED)
      else case bus_get_private b of (b1, c) \<Rightarrow>
        let m1 = m\<lparr>mNniqueName := unique c\<rparr> in
        case req_name of
          None \<Rightarrow> ((m1\<lparr>mpConnect := Some c\<rparr>, b1), STATUS_SUCCESS)
        | Some n \<Rightarrow>
            if err then ((m1, connection_close c b1), STATUS_FAILED)
            else case bus_request_name c n b1 of (b2, ret) \<Rightarrow>
              if ret \<noteq> Primary_owner then ((m1, connection_close c b2), STATUS_FAILED)
              else ((m1\<lparr>mWellKnownName := n, mpConnect := Some c\<rparr>, b2), STATUS_SUCCESS))"

text \<open>
  The thread is started as in \<^verbatim>\<open>mxEngineBase\<close>: the caller waits until the thread signals. \<open>tid\<close> is what \<^verbatim>\<open>pthread_create\<close>
  gives, if it succeeds. \<^const>\<open>None\<close>: \<^verbatim>\<open>mThreadId\<close> is read before it was set, or the wait never ends.
\<close>

definition startDbusService :: "nat option \<Rightarrow> mxDbusMgr \<Rightarrow> (mxDbusMgr \<times> Status_e) option" where
  "startDbusService tid m =
     do { t \<leftarrow> mThreadId m;
          if t \<noteq> 0 then Some (m, STATUS_FAILED)
          else do { t' \<leftarrow> tid; Some (m\<lparr>mStatus := Some True, mThreadId := Some t'\<rparr>, STATUS_SUCCESS) } }"

text \<open>A message that was taken; each of its strings may be absent.\<close>

record dbus_msg =
  sender :: "string option"
  dst :: "string option"
  serial :: u32
  path :: "string option"
  intf :: "string option"
  member_name :: "string option"

text \<open>
  The loop of \<^verbatim>\<open>runDbusTask\<close> over the results of \<^verbatim>\<open>dbus_connection_pop_message\<close>: what it logs. To print an absent
  string with \<^verbatim>\<open>%s\<close> is undefined.
\<close>

definition log_msg :: "dbus_msg \<Rightarrow> (string \<times> string \<times> u32 \<times> string \<times> string \<times> string) option" where
  "log_msg g =
     do { s \<leftarrow> sender g; d \<leftarrow> dst g; p \<leftarrow> path g; i \<leftarrow> intf g; n \<leftarrow> member_name g; Some (s, d, serial g, p, i, n) }"

fun runDbusTask :: "dbus_msg option list \<Rightarrow> (string \<times> string \<times> u32 \<times> string \<times> string \<times> string) list option" where
  "runDbusTask [] = Some []"
| "runDbusTask (None # ms) = runDbusTask ms"
| "runDbusTask (Some g # ms) = do { l \<leftarrow> log_msg g; ls \<leftarrow> runDbusTask ms; Some (l # ls) }"

text \<open>\<open>valid\<close>: whether the bus takes the rule; the error is not looked at. A null connection is undefined.\<close>

definition addDbusWatch :: "bool \<Rightarrow> string \<Rightarrow> mxDbusMgr \<Rightarrow> bus \<Rightarrow> (bus \<times> Status_e) option" where
  "addDbusWatch valid rule m b =
     do { c \<leftarrow> mpConnect m; Some (if valid then b\<lparr>matches := matches b @ [(c, rule)]\<rparr> else b, STATUS_SUCCESS) }"

section \<open>Lemmas\<close>

lemma start_uninitialised: "startDbusService tid mxDbusMgr_new = None"
  by (simp add: startDbusService_def mxDbusMgr_new_def)

text \<open>A signal is sent to nobody in particular.\<close>

lemma broadcast_undefined: "Some g \<in> set ms \<Longrightarrow> dst g = None \<Longrightarrow> runDbusTask ms = None"
proof (induction ms rule: runDbusTask.induct)
  case (3 h ms)
  then show ?case by (cases "log_msg h") (auto simp: log_msg_def)
qed auto

text \<open>Connections are numbered in order, and only open ones wait for names.\<close>

definition bus_ok :: "bus \<Rightarrow> bool" where
  "bus_ok b \<longleftrightarrow> distinct (connections b) \<and> (\<forall>c\<in>set (connections b). c < next_conn b) \<and>
     (\<forall>n. set (name_queue b n) \<subseteq> set (connections b)) \<and> (\<forall>(c, rule)\<in>set (matches b). c \<in> set (connections b))"

lemma new_conn:
  assumes "bus_ok b"
  shows "next_conn b \<notin> set (connections b)" "next_conn b \<notin> set (name_queue b n)" "(next_conn b, r) \<notin> set (matches b)"
  using assms by (auto simp: bus_ok_def)

lemma filter_other: "x \<notin> set xs \<Longrightarrow> filter ((\<noteq>) x) xs = xs"
  by (intro filter_True) auto

text \<open>A name that has an owner: the new connection is closed, and the bus is as it was.\<close>

lemma initDbus_taken:
  assumes "bus_ok b" "name_queue b n \<noteq> []"
  shows "initDbus unique True False (Some n) m b =
    ((m\<lparr>mNniqueName := unique (next_conn b)\<rparr>, b\<lparr>next_conn := next_conn b + 1\<rparr>), STATUS_FAILED)"
proof -
  note new = new_conn [OF assms(1)]
  obtain d ds where q: "name_queue b n = d # ds" using assms(2) by (cases "name_queue b n") auto
  have d: "d \<noteq> next_conn b" "next_conn b \<notin> set ds" using new(2) [of n] q by auto
  have m: "filter (\<lambda>(d, rule). d \<noteq> next_conn b) (matches b) = matches b" using new(3) by (intro filter_True) auto
  have n: "(\<lambda>k. filter ((\<noteq>) (next_conn b)) (((name_queue b)(n := d # ds @ [next_conn b])) k)) = name_queue b"
    using d by (intro ext) (auto simp: q filter_other new)
  show ?thesis using d new m n
    by (simp add: initDbus_def bus_get_private_def bus_request_name_def q connection_close_def filter_other Let_def)
qed

lemma initDbus_free:
  assumes "name_queue b n = []"
  shows "initDbus unique True False (Some n) m b =
    ((m\<lparr>mNniqueName := unique (next_conn b), mWellKnownName := n, mpConnect := Some (next_conn b)\<rparr>,
      b\<lparr>name_queue := (name_queue b)(n := [next_conn b]), connections := connections b @ [next_conn b],
        next_conn := next_conn b + 1\<rparr>), STATUS_SUCCESS)"
  using assms by (simp add: initDbus_def bus_get_private_def bus_request_name_def Let_def)

lemma initDbus_anonymous:
  "initDbus unique True False None m b =
    ((m\<lparr>mNniqueName := unique (next_conn b), mpConnect := Some (next_conn b)\<rparr>,
      b\<lparr>connections := connections b @ [next_conn b], next_conn := next_conn b + 1\<rparr>), STATUS_SUCCESS)"
  by (simp add: initDbus_def bus_get_private_def)

section \<open>Calls of initDbus on one manager\<close>

fun init_all :: "(nat \<Rightarrow> string) \<Rightarrow> string option list \<Rightarrow> mxDbusMgr \<Rightarrow> bus \<Rightarrow> (mxDbusMgr \<times> bus) \<times> Status_e list" where
  "init_all unique [] m b = ((m, b), [])"
| "init_all unique (r # rs) m b =
     (case initDbus unique True False r m b of ((m1, b1), st) \<Rightarrow>
        case init_all unique rs m1 b1 of (mb, sts) \<Rightarrow> (mb, st # sts))"

text \<open>A call works unless its name has an owner, also if that is the manager itself.\<close>

fun init_spec :: "string option list \<Rightarrow> (string \<Rightarrow> bool) \<Rightarrow> Status_e list" where
  "init_spec [] taken = []"
| "init_spec (None # rs) taken = STATUS_SUCCESS # init_spec rs taken"
| "init_spec (Some n # rs) taken =
     (if taken n then STATUS_FAILED # init_spec rs taken else STATUS_SUCCESS # init_spec rs (taken(n := True)))"

definition manager_ok :: "mxDbusMgr \<Rightarrow> bus \<Rightarrow> bool" where
  "manager_ok m b \<longleftrightarrow> bus_ok b \<and> (\<forall>c. mpConnect m = Some c \<longrightarrow> c \<in> set (connections b))"

lemma bus_ok_open:
  assumes b: "bus_ok b" and b1: "connections b1 = connections b @ [next_conn b]" "next_conn b1 = Suc (next_conn b)"
    "matches b1 = matches b" and q: "\<And>n. set (name_queue b1 n) \<subseteq> insert (next_conn b) (set (name_queue b n))"
  shows "bus_ok b1"
proof -
  have "set (name_queue b1 n) \<subseteq> set (connections b1)" for n
    using q [of n] b by (force simp: b1 bus_ok_def)
  moreover have "\<forall>(c, rule)\<in>set (matches b1). c \<in> set (connections b1)"
    using b by (force simp: b1 bus_ok_def)
  ultimately show ?thesis using b new_conn(1) [OF b] by (auto simp: b1 bus_ok_def less_Suc_eq)
qed

lemma manager_ok_step:
  assumes "manager_ok m b" "initDbus unique True False r m b = ((m1, b1), st)"
  shows "manager_ok m1 b1 \<and> st = hd (init_spec [r] (\<lambda>n. name_queue b n \<noteq> [])) \<and>
    (\<exists>new. connections b1 = connections b @ new \<and> length new = (if st = STATUS_SUCCESS then 1 else 0) \<and>
      (new = [] \<longrightarrow> mpConnect m1 = mpConnect m) \<and> (new \<noteq> [] \<longrightarrow> mpConnect m1 \<noteq> None)) \<and>
    (\<lambda>n. name_queue b1 n \<noteq> []) = (\<lambda>n. name_queue b n \<noteq> [] \<or> r = Some n)"
proof -
  have b: "bus_ok b" and c: "mpConnect m = Some c \<Longrightarrow> c \<in> set (connections b)" for c
    using assms(1) by (auto simp: manager_ok_def)
  show ?thesis
  proof (cases r)
    case None
    then have i: "m1 = m\<lparr>mNniqueName := unique (next_conn b), mpConnect := Some (next_conn b)\<rparr>"
      "b1 = b\<lparr>connections := connections b @ [next_conn b], next_conn := next_conn b + 1\<rparr>" "st = STATUS_SUCCESS"
      using assms(2) by (simp_all add: initDbus_anonymous)
    have "bus_ok b1" using i by (intro bus_ok_open [OF b]) auto
    then show ?thesis using i None by (auto simp: manager_ok_def)
  next
    case (Some n)
    show ?thesis
    proof (cases "name_queue b n = []")
      case True
      then have i: "m1 = m\<lparr>mNniqueName := unique (next_conn b), mWellKnownName := n, mpConnect := Some (next_conn b)\<rparr>"
        "b1 = b\<lparr>name_queue := (name_queue b)(n := [next_conn b]), connections := connections b @ [next_conn b],
          next_conn := next_conn b + 1\<rparr>" "st = STATUS_SUCCESS"
        using assms(2) Some by (simp_all add: initDbus_free)
      have "bus_ok b1" using i by (intro bus_ok_open [OF b]) auto
      then show ?thesis using i Some True by (auto simp: manager_ok_def)
    next
      case False
      then have i: "m1 = m\<lparr>mNniqueName := unique (next_conn b)\<rparr>" "b1 = b\<lparr>next_conn := next_conn b + 1\<rparr>"
        "st = STATUS_FAILED"
        using assms(2) Some initDbus_taken [OF b False] by simp_all
      have "bus_ok b1" using b i by (auto simp: bus_ok_def less_Suc_eq)
      then show ?thesis using i Some False c by (auto simp: manager_ok_def)
    qed
  qed
qed

lemma init_spec_cong: "(\<And>n. t n = u n) \<Longrightarrow> init_spec rs t = init_spec rs u"
  by (metis ext)

lemma init_spec_Cons:
  "init_spec (r # rs) t = hd (init_spec [r] t) # init_spec rs (\<lambda>n. t n \<or> r = Some n)"
  by (cases r) (auto intro!: init_spec_cong)

lemma init_all_runs:
  "manager_ok m b \<Longrightarrow> init_all unique rs m b = ((m', b'), sts) \<Longrightarrow>
     sts = init_spec rs (\<lambda>n. name_queue b n \<noteq> []) \<and> manager_ok m' b' \<and>
     length (connections b') = length (connections b) + count_list sts STATUS_SUCCESS \<and>
     (mpConnect m' = None \<longleftrightarrow> mpConnect m = None \<and> STATUS_SUCCESS \<notin> set sts)"
proof (induction rs arbitrary: m b sts)
  case Nil
  then show ?case by auto
next
  case (Cons r rs)
  obtain m1 b1 st where i: "initDbus unique True False r m b = ((m1, b1), st)" by (metis surj_pair)
  obtain sts' where a: "init_all unique rs m1 b1 = ((m', b'), sts')" "sts = st # sts'"
    using Cons.prems(2) i by (auto split: prod.splits)
  note s = manager_ok_step [OF Cons.prems(1) i]
  then have "manager_ok m1 b1" by blast
  from Cons.IH [OF this a(1)] s a(2) show ?case unfolding init_spec_Cons [of r rs] by (auto split: if_splits)
qed

section \<open>Properties\<close>

text \<open>
  As long as the bus works, calls of \<^verbatim>\<open>initDbus\<close> succeed exactly if their name has no owner, the
  manager's own earlier connections included. Each success opens a connection; the destructor closes the last
  one only, and the others stay open with their names.
\<close>

theorem initDbus_runs:
  assumes "bus_ok b" "init_all unique rs mxDbusMgr_new b = ((m', b'), sts)"
  shows "sts = init_spec rs (\<lambda>n. name_queue b n \<noteq> []) \<and>
    length (connections (snd (mxDbusMgr_delete m' b'))) = length (connections b) + (count_list sts STATUS_SUCCESS - 1)"
proof -
  have "manager_ok mxDbusMgr_new b" using assms(1) by (simp add: manager_ok_def mxDbusMgr_new_def)
  note r = init_all_runs [OF this assms(2)]
  show ?thesis
  proof (cases "mpConnect m'")
    case None
    then have "count_list sts STATUS_SUCCESS = 0" using r by (simp add: count_list_0_iff)
    then show ?thesis using r None by (simp add: mxDbusMgr_delete_def)
  next
    case (Some c)
    then have c: "c \<in> set (connections b')" "distinct (connections b')"
      using r by (auto simp: manager_ok_def bus_ok_def)
    have "STATUS_SUCCESS \<in> set sts" using r Some by (auto simp: mxDbusMgr_new_def)
    then have "count_list sts STATUS_SUCCESS \<noteq> 0" by (simp add: count_list_0_iff)
    moreover have "length (filter ((\<noteq>) c) (connections b')) = length (connections b') - 1"
      using c by (simp flip: removeAll_filter_not_eq distinct_remove1_removeAll add: length_remove1)
    ultimately show ?thesis using r Some by (simp add: mxDbusMgr_delete_def connection_close_def)
  qed
qed

theorem initDbus_runs_witness:
  "\<exists>mb sts. init_all (\<lambda>c. replicate c CHR ''.'') [Some ''a'', Some ''a'', Some ''b''] mxDbusMgr_new
      \<lparr>name_queue = (\<lambda>n. []), connections = [], matches = [], next_conn = 0\<rparr> = (mb, sts) \<and>
    sts = [STATUS_SUCCESS, STATUS_FAILED, STATUS_SUCCESS] \<and>
    length (connections (snd (mxDbusMgr_delete (fst mb) (snd mb)))) = 1"
proof -
  let ?b = "\<lparr>name_queue = (\<lambda>n. []), connections = [], matches = [], next_conn = 0\<rparr>"
  obtain m' b' sts where i: "init_all (\<lambda>c. replicate c CHR ''.'') [Some ''a'', Some ''a'', Some ''b''] mxDbusMgr_new ?b
      = ((m', b'), sts)" by (metis surj_pair)
  have "bus_ok ?b" by (simp add: bus_ok_def)
  from initDbus_runs [OF this i] i show ?thesis by (intro exI [of _ "(m', b')"] exI [of _ sts]) simp
qed

end
