(* ===== verification/Spec2Isabelle.thy ===== *)
theory Spec2Isabelle
  imports Hmac AvlCorrect HashTableProps PemProps Asn1Props TimerProps SomeIp EArrayProps CredProps
    PfkeyProps NetlinkProps SymmCrypto EngineProps EngineThreadProps HandlePacket EvpHash Log Fsm IpcShm
    OpensslKey CertDer Mysql Sem Curl Dbus
begin

text \<open>
  Verification of the core of \<^verbatim>\<open>steven_program\<close>, a C++ collection of a security library (hashes, HMAC,
  ciphers, certificates, keys, IPsec configuration), a platform layer (containers, timer, log, locks,
  event loops) and a SOME/IP service manager. This theory imports all others; each component has its
  theories, and the properties stand at their ends, each behind a text block with its number.

  \<^bold>\<open>The parts and how they interact.\<close>

  \<^item> \<^verbatim>\<open>algorithms/hash\<close>: \<^verbatim>\<open>MdHash\<close> is the streaming buffer that all six hash classes repeat (\<^verbatim>\<open>update\<close>,
    \<^verbatim>\<open>final\<close>, \<^verbatim>\<open>calcHash\<close>) with block length, word width and byte order as arguments, and holds the contract
    of \<^verbatim>\<open>hashInterface.h\<close> as the locale \<open>hash_interface\<close>. \<^verbatim>\<open>Sha2\<close>, \<^verbatim>\<open>Sha1\<close> and \<^verbatim>\<open>Md5\<close> have the transforms with
    their tables and macros and interpret the locale; \<^verbatim>\<open>HashInterface\<close> is the class hierarchy with its
    virtual calls; \<^verbatim>\<open>Hmac\<close> (\<^verbatim>\<open>hashHmac.cpp\<close>) is a client of it; \<^verbatim>\<open>EvpHash\<close> (\<^verbatim>\<open>evpHash.cpp\<close>, \<^verbatim>\<open>evpHmac.cpp\<close>) is
    another implementation over OpenSSL. The lemmas give the RFC compression functions, padding
    independent of the cuts of a message, RFC 2104, and the agreement of the implementations.
  \<^item> \<^verbatim>\<open>algorithms/symmCrypto\<close>: \<^verbatim>\<open>SymmCrypto\<close>, choice and calls of the ciphers of OpenSSL; decryption undoes
    encryption.
  \<^item> \<^verbatim>\<open>algorithms/avlTree\<close>: \<^verbatim>\<open>AvlTree\<close> (abstract trees with balance states), \<^verbatim>\<open>AvlNode\<close> (the operations of
    \<^verbatim>\<open>AvlTreeNode.cpp\<close> on nodes in a store, with the stack of parent slots), \<^verbatim>\<open>AvlRefine\<close> (each
    operation implements the abstract one), \<^verbatim>\<open>AvlCorrect\<close> (balance, order, content).
  \<^item> \<^verbatim>\<open>platform/common\<close>: \<^verbatim>\<open>Ring\<close> (circular doubly linked lists), \<^verbatim>\<open>HashTable\<close>, \<^verbatim>\<open>HashTableRefine\<close>,
    \<^verbatim>\<open>HashTableCorrect\<close>, \<^verbatim>\<open>HashTableProps\<close> (\<^verbatim>\<open>mxHashTable.cpp\<close> as an association list); \<^verbatim>\<open>Chunk\<close>,
    \<^verbatim>\<open>Lexparser\<close>, \<^verbatim>\<open>LexSafe\<close>, \<^verbatim>\<open>PemCorrect\<close>, \<^verbatim>\<open>PemSafe\<close>, \<^verbatim>\<open>PemProps\<close> (\<^verbatim>\<open>chunk.cpp\<close>, \<^verbatim>\<open>mxLexparser.cpp\<close>: tokens, base
    64 in place, PEM files); \<^verbatim>\<open>Status\<close>; \<^verbatim>\<open>MiniTimer\<close>, \<^verbatim>\<open>TimerOrder\<close>, \<^verbatim>\<open>TimerProps\<close> (\<^verbatim>\<open>mxMiniTimer.cpp\<close>: the
    ordered list and one turn of the thread); \<^verbatim>\<open>EArray\<close>, \<^verbatim>\<open>EArrayProps\<close> (\<^verbatim>\<open>eArray.h\<close>); \<^verbatim>\<open>Sync\<close>
    (\<^verbatim>\<open>mxMutex.cpp\<close>), \<^verbatim>\<open>Sem\<close> (\<^verbatim>\<open>mxSem.cpp\<close>, threads around a section); \<^verbatim>\<open>Log\<close> (\<^verbatim>\<open>mxLog.cpp\<close>); \<^verbatim>\<open>Fsm\<close> (\<^verbatim>\<open>mxStateMachineBase.h\<close>); \<^verbatim>\<open>IpcShm\<close>
    (\<^verbatim>\<open>mxIpcShM.cpp\<close>).
  \<^item> \<^verbatim>\<open>platform/net\<close>: \<^verbatim>\<open>Engine\<close>, \<^verbatim>\<open>EngineProps\<close> (the event loops over select and epoll), \<^verbatim>\<open>EngineThread\<close>,
    \<^verbatim>\<open>EngineThreadProps\<close> (start and stop of an engine's thread, on the mutex of \<^verbatim>\<open>Sync\<close>, as a step relation
    over all interleavings), \<^verbatim>\<open>HandlePacket\<close> (sockets, and their registration with an engine), \<^verbatim>\<open>Curl\<close> (the
    event loop over libcurl).
  \<^item> \<^verbatim>\<open>platform/mysql\<close>: \<^verbatim>\<open>Mysql\<close>, a connection over the documented states of the client library;
    \<^verbatim>\<open>platform/process\<close>: \<^verbatim>\<open>Dbus\<close>, connections to the session bus and their names.
  \<^item> \<^verbatim>\<open>library/encoder\<close>: \<^verbatim>\<open>Asn1\<close>, \<^verbatim>\<open>Asn1Safe\<close>, \<^verbatim>\<open>Asn1Props\<close>, the table-driven ASN.1 parser over any table, with
    the fingerprint of a certificate that \<^verbatim>\<open>certX509.cpp\<close> makes with it.
  \<^item> \<^verbatim>\<open>library/credentials\<close>: \<^verbatim>\<open>CertX509\<close> (flags, extensions, subject), \<^verbatim>\<open>CertDer\<close>
    (getters and conversions), \<^verbatim>\<open>Cred\<close>, \<^verbatim>\<open>CredProps\<close> (the managers: the
    secrets file is cut by \<^verbatim>\<open>Lexparser\<close>), \<^verbatim>\<open>OpensslKey\<close> (private keys).
  \<^item> \<^verbatim>\<open>library/xfrm\<close>: \<^verbatim>\<open>Bytes\<close>, \<^verbatim>\<open>KernelIo\<close> (what both clients share), \<^verbatim>\<open>Pfkey\<close>, \<^verbatim>\<open>PfkeyProps\<close>, \<^verbatim>\<open>Netlink\<close>,
    \<^verbatim>\<open>NetlinkProps\<close>: requests to the kernel and the scan of its replies, byte for byte.
  \<^item> \<^verbatim>\<open>app/someip\<close>: \<^verbatim>\<open>SomeIp\<close>, the service manager and its database.

  \<^bold>\<open>How state and errors are represented.\<close> A class is a record of its members, an operation a function
  that returns the changed record. Machine integers are words; what is unsigned in C++ wraps around. A
  buffer is a list of bytes with checked reads and writes (\<^verbatim>\<open>Prelude\<close>). \<^term>\<open>None\<close> is undefined behaviour: an
  access outside an object, a read of an indeterminate value, a call that its documentation forbids; theorems
  on success say that the result is \<^term>\<open>Some\<close>. Nodes that are shared live in a store from addresses to
  records (trees, hash table, arrays). Threads are a step relation with reachable states.

  \<^bold>\<open>Loops.\<close> Loops are recursions with a termination proof where they end. The others are
  \<^theory_text>\<open>partial_function (option)\<close> or read a list of the results of their system calls, one for each turn, and
  the theorems that say they return are separate (\<^verbatim>\<open>Insert1_correct\<close>, \<^verbatim>\<open>clear_correct\<close>,
  \<^verbatim>\<open>fingerprint_total\<close>, \<^verbatim>\<open>PEM_safe_and_total\<close>). There is no fuel. In \<^verbatim>\<open>EngineThreadProps\<close> a rank bounds the number of moves by
  11 for each call. The stack of the tree holds 33 slots as in the code, and the theorems assume a
  height below it.

  \<^bold>\<open>What is a parameter.\<close> OpenSSL, the kernel, the file system, the clock and the allocator are not
  part of the repository. They are arguments: functions (ciphers, digests, what becomes of a file), results of
  calls, or small tables (sockets, shared memory, epoll). Assumptions on them state what their documentation
  promises, and every property that has one comes with a concrete instance.

  \<^bold>\<open>Interfaces.\<close> Locales state the contracts between components and are interpreted on the definitions that
  provide them: \<open>hash_interface\<close>, with \<open>md_core\<close> and \<open>md_hash\<close> below it, on the six classes, on the
  hierarchy and on \<^verbatim>\<open>evpHash\<close>; \<open>comparable\<close> (what the tree asks of a comparison) on the nodes of the
  test program; \<open>key_kind\<close> on the four kinds of keys of the hash table.

  \<^bold>\<open>Not modelled.\<close> The queue macros (vendored and unused); functions with empty bodies (SOME/IP service
  discovery, \<^verbatim>\<open>mxMsgQueue\<close>, \<^verbatim>\<open>mxProcessMgr\<close>, three operations of \<^verbatim>\<open>mxDbusMgr\<close>); functions that only
  print; \<^verbatim>\<open>mxRwLock::unlock\<close> and the numeric forms of \<^verbatim>\<open>mxMysql::getValueAt\<close>, each one call of a library;
  \<^verbatim>\<open>eArray::dealloc\<close>, which calls a function that does not exist; the programs under \<^verbatim>\<open>app\<close> that only
  call the components. Memory is sequentially consistent, and allocation by \<^verbatim>\<open>new\<close> succeeds.
\<close>

end
